(* ===== verification/Sone_Prelude.thy ===== *)
theory Sone_Prelude
  imports
    Main
    "HOL-Library.Char_ord"
    "HOL-Library.List_Lexorder"
    "HOL-Library.Multiset"
begin

text \<open>
  What every component of the development shares: fallible computations as sums, the part of
  JavaScript's string library the sources use, comparators and stable sorting, and the generic
  lemmas on lists and the lexicographic order that the component proofs rest on.

  A JavaScript string is modelled as a \<^typ>\<open>string\<close>, that is a list of code units of which the
  first 256 are representable. Comparison with \<open><\<close> is the lexicographic order on code units,
  which is what JavaScript's relational operators do on strings.
\<close>

section \<open>Fallible computations\<close>

text \<open>\<open>throw\<close> in the source is \<^const>\<open>Inl\<close>, a normal return is \<^const>\<open>Inr\<close>.\<close>

fun rbind :: "'e + 'a \<Rightarrow> ('a \<Rightarrow> 'e + 'b) \<Rightarrow> 'e + 'b" where
  "rbind (Inl e) f = Inl e"
| "rbind (Inr a) f = f a"

fun rmap :: "('a \<Rightarrow> 'b) \<Rightarrow> 'e + 'a \<Rightarrow> 'e + 'b" where
  "rmap f (Inl e) = Inl e"
| "rmap f (Inr a) = Inr (f a)"

section \<open>JavaScript strings\<close>

definition charCode :: "char \<Rightarrow> nat" where
  "charCode c = of_char c"

definition fromCharCode :: "nat \<Rightarrow> char" where
  "fromCharCode n = char_of n"

fun indexOfFrom :: "char \<Rightarrow> string \<Rightarrow> int \<Rightarrow> int" where
  "indexOfFrom c [] i = -1"
| "indexOfFrom c (x # xs) i = (if x = c then i else indexOfFrom c xs (i + 1))"

text \<open>\<open>s.indexOf(c)\<close> for a one-character needle: the first position, or \<open>-1\<close>.\<close>

definition indexOf :: "string \<Rightarrow> char \<Rightarrow> int" where
  "indexOf s c = indexOfFrom c s 0"

text \<open>
  The characters JavaScript's \<open>\s\<close> and \<open>trim\<close> treat as white space, among the first 256 code
  units: tab, line feed, vertical tab, form feed, carriage return, space, no-break space.
\<close>

definition isSpace :: "char \<Rightarrow> bool" where
  "isSpace c = (charCode c \<in> {9, 10, 11, 12, 13, 32, 160})"

definition trimStart :: "string \<Rightarrow> string" where
  "trimStart s = dropWhile isSpace s"

definition trim :: "string \<Rightarrow> string" where
  "trim s = rev (dropWhile isSpace (rev (dropWhile isSpace s)))"

text \<open>\<open>toLowerCase\<close>: the capital letters below code unit 256 are \<open>A\<close>-\<open>Z\<close> and \<open>U+00C0\<close>-\<open>U+00DE\<close>
  without the multiplication sign; each maps to the unit 32 above it.\<close>

definition lowerChar :: "char \<Rightarrow> char" where
  "lowerChar c =
     (let n = charCode c in
      if 65 \<le> n \<and> n \<le> 90 \<or> 192 \<le> n \<and> n \<le> 222 \<and> n \<noteq> 215 then fromCharCode (n + 32) else c)"

definition toLowerCase :: "string \<Rightarrow> string" where
  "toLowerCase s = map lowerChar s"

fun join :: "string \<Rightarrow> string list \<Rightarrow> string" where
  "join sep [] = []"
| "join sep [x] = x"
| "join sep (x # y # ys) = x @ sep @ join sep (y # ys)"

text \<open>\<open>queryOne\<close>: the first row of a result, or null.\<close>

fun queryOne :: "'r list \<Rightarrow> 'r option" where
  "queryOne [] = None"
| "queryOne (r # rs) = Some r"

section \<open>Comparators and sorting\<close>

text \<open>
  A comparator returns a negative, zero or positive number. \<open>Array.prototype.sort\<close> is stable;
  insertion from the right is the stable sort.
\<close>

fun insort_by :: "('a \<Rightarrow> 'a \<Rightarrow> int) \<Rightarrow> 'a \<Rightarrow> 'a list \<Rightarrow> 'a list" where
  "insort_by cmp x [] = [x]"
| "insort_by cmp x (y # ys) = (if cmp x y \<le> 0 then x # y # ys else y # insort_by cmp x ys)"

fun sort_by :: "('a \<Rightarrow> 'a \<Rightarrow> int) \<Rightarrow> 'a list \<Rightarrow> 'a list" where
  "sort_by cmp [] = []"
| "sort_by cmp (x # xs) = insort_by cmp x (sort_by cmp xs)"

section \<open>Shared lemmas\<close>

named_theorems result_simps "elimination of fallible computations"

lemma rbind_Inr_iff [result_simps]:
  "rbind r f = Inr b \<longleftrightarrow> (\<exists>a. r = Inr a \<and> f a = Inr b)"
  by (cases r) auto

lemma rbind_Inl_iff [result_simps]:
  "rbind r f = Inl e \<longleftrightarrow> r = Inl e \<or> (\<exists>a. r = Inr a \<and> f a = Inl e)"
  by (cases r) auto

lemma rmap_Inr_iff [result_simps]: "rmap f r = Inr b \<longleftrightarrow> (\<exists>a. r = Inr a \<and> b = f a)"
  by (cases r) auto

lemma rmap_Inl_iff [result_simps]: "rmap f r = Inl e \<longleftrightarrow> r = Inl e"
  by (cases r) auto

lemma queryOne_None [simp]: "queryOne xs = None \<longleftrightarrow> xs = []"
  by (cases xs) auto

lemma queryOne_Some: "queryOne xs = Some x \<Longrightarrow> x \<in> set xs"
  by (cases xs) auto

lemma queryOne_in: "x \<in> set xs \<Longrightarrow> \<exists>y. queryOne xs = Some y"
  by (cases xs) auto

subsection \<open>Characters and trimming\<close>

lemma charCode_from: "n < 256 \<Longrightarrow> charCode (fromCharCode n) = n"
  by (simp add: charCode_def fromCharCode_def)

lemma lowerChar_code: "charCode (lowerChar c) = charCode c \<or>
   97 \<le> charCode (lowerChar c) \<and> charCode (lowerChar c) \<noteq> 160 \<and> charCode c \<noteq> 160 \<and> 65 \<le> charCode c \<and>
   \<not> (192 \<le> charCode (lowerChar c) \<and> charCode (lowerChar c) \<le> 222)"
  by (auto simp: lowerChar_def Let_def charCode_from)

lemma isSpace_lower [simp]: "isSpace (lowerChar c) = isSpace c"
  using lowerChar_code [of c] by (auto simp: isSpace_def)

lemma charCode_inj: "charCode c = charCode d \<longleftrightarrow> c = d"
  by (simp add: charCode_def)

lemma lowerChar_idem [simp]: "lowerChar (lowerChar c) = lowerChar c"
  using lowerChar_code [of c] by (auto simp: lowerChar_def Let_def charCode_from)

lemma toLowerCase_idem [simp]: "toLowerCase (toLowerCase s) = toLowerCase s"
  by (simp add: toLowerCase_def)

lemma trim_lower: "trim (toLowerCase s) = toLowerCase (trim s)"
  by (simp add: trim_def toLowerCase_def dropWhile_map rev_map comp_def)

lemma dropWhile_id: "xs = [] \<or> \<not> P (hd xs) \<Longrightarrow> dropWhile P xs = xs"
  by (cases xs) auto

lemma trim_id: "s = [] \<or> \<not> isSpace (hd s) \<and> \<not> isSpace (last s) \<Longrightarrow> trim s = s"
  by (auto simp: trim_def dropWhile_id hd_rev)

lemma trim_ends: "trim s = [] \<or> \<not> isSpace (hd (trim s)) \<and> \<not> isSpace (last (trim s))"
proof (cases "trim s = []")
  case False
  define u where "u = dropWhile isSpace s"
  have t: "trim s = rev (dropWhile isSpace (rev u))" by (simp add: trim_def u_def)
  then have ne: "dropWhile isSpace (rev u) \<noteq> []" "u \<noteq> []" using False by auto
  then have "\<not> isSpace (last (trim s))" using hd_dropWhile [of isSpace "rev u"] t by (simp add: last_rev)
  moreover have "\<not> isSpace (hd u)" using ne(2) by (simp add: u_def hd_dropWhile)
  moreover have "hd (trim s) = hd u"
  proof -
    have "rev u = takeWhile isSpace (rev u) @ rev (trim s)" using t by simp
    then have "u = trim s @ rev (takeWhile isSpace (rev u))" by (metis rev_append rev_rev_ident)
    then show ?thesis using False by (metis hd_append2)
  qed
  ultimately show ?thesis by simp
qed simp

lemma trim_trim [simp]: "trim (trim s) = trim s"
  using trim_id trim_ends by blast

subsection \<open>Lexicographic order\<close>

lemma append_less_append_same [simp]:
  "((xs :: 'a::linorder list) @ ys < xs @ zs) = (ys < zs)"
  by (induction xs) auto

lemma append_le_append_same [simp]:
  "((xs :: 'a::linorder list) @ ys \<le> xs @ zs) = (ys \<le> zs)"
  by (induction xs) auto

lemma less_append_same [simp]: "((xs :: 'a::linorder list) < xs @ ys) = (ys \<noteq> [])"
  by (induction xs) (cases ys, auto)

text \<open>Two lists that differ within their common length stay ordered under any extension.\<close>

lemma less_append_extend:
  fixes xs ys :: "'a::linorder list"
  assumes "xs < ys" and "length xs = length ys"
  shows "xs @ us < ys @ vs"
  using assms by (induction xs arbitrary: ys) (auto simp: length_Suc_conv Suc_length_conv)

subsection \<open>Positions\<close>

lemma indexOfFrom_shift: "indexOfFrom c s i = (if c \<in> set s then indexOfFrom c s 0 + i else -1)"
proof (induction s arbitrary: i)
  case Nil
  then show ?case by simp
next
  case (Cons x xs)
  show ?case
    using Cons.IH [of "i + 1"] Cons.IH [of 1] by auto
qed

lemma indexOf_Cons: "indexOf (x # xs) c =
  (if x = c then 0 else if c \<in> set xs then indexOf xs c + 1 else -1)"
  using indexOfFrom_shift [of c xs 1] by (simp add: indexOf_def)

lemma indexOf_Nil [simp]: "indexOf [] c = -1"
  by (simp add: indexOf_def)

lemma indexOf_range: "c \<in> set s \<Longrightarrow> 0 \<le> indexOf s c \<and> indexOf s c < int (length s)"
  by (induction s) (auto simp: indexOf_Cons)

lemma indexOf_not_in: "c \<notin> set s \<Longrightarrow> indexOf s c = -1"
  by (induction s) (auto simp: indexOf_Cons)

lemma nth_indexOf: "c \<in> set s \<Longrightarrow> s ! nat (indexOf s c) = c"
proof (induction s)
  case Nil
  then show ?case by simp
next
  case (Cons x xs)
  then show ?case
    using indexOf_range [of c xs] by (auto simp: indexOf_Cons nat_add_distrib)
qed

subsection \<open>Sorting\<close>

lemma mset_insort_by [simp]: "mset (insort_by cmp x xs) = add_mset x (mset xs)"
  by (induction xs) auto

lemma mset_sort_by [simp]: "mset (sort_by cmp xs) = mset xs"
  by (induction xs) auto

lemma set_insort_by [simp]: "set (insort_by cmp x xs) = insert x (set xs)"
  by (induction xs) auto

lemma set_sort_by [simp]: "set (sort_by cmp xs) = set xs"
  by (induction xs) auto

text \<open>Sorting with a comparator that is a total order does not depend on the input's order.\<close>

definition comparator_on :: "'a set \<Rightarrow> ('a \<Rightarrow> 'a \<Rightarrow> int) \<Rightarrow> bool" where
  "comparator_on A cmp =
     ((\<forall>x \<in> A. \<forall>y \<in> A. cmp x y \<le> 0 \<or> cmp y x \<le> 0) \<and>
      (\<forall>x \<in> A. \<forall>y \<in> A. cmp x y \<le> 0 \<longrightarrow> cmp y x \<le> 0 \<longrightarrow> x = y) \<and>
      (\<forall>x \<in> A. \<forall>y \<in> A. \<forall>z \<in> A. cmp x y \<le> 0 \<longrightarrow> cmp y z \<le> 0 \<longrightarrow> cmp x z \<le> 0))"

lemma comparator_onD:
  assumes "comparator_on A cmp"
  shows "x \<in> A \<Longrightarrow> y \<in> A \<Longrightarrow> \<not> cmp x y \<le> 0 \<Longrightarrow> cmp y x \<le> 0"
    and "x \<in> A \<Longrightarrow> y \<in> A \<Longrightarrow> cmp x y \<le> 0 \<Longrightarrow> cmp y x \<le> 0 \<Longrightarrow> x = y"
    and "x \<in> A \<Longrightarrow> y \<in> A \<Longrightarrow> z \<in> A \<Longrightarrow> cmp x y \<le> 0 \<Longrightarrow> cmp y z \<le> 0 \<Longrightarrow> cmp x z \<le> 0"
  using assms unfolding comparator_on_def by blast+

lemma sorted_insort_by:
  assumes "comparator_on A cmp" and "set (x # xs) \<subseteq> A"
    and "sorted_wrt (\<lambda>a b. cmp a b \<le> 0) xs"
  shows "sorted_wrt (\<lambda>a b. cmp a b \<le> 0) (insort_by cmp x xs)"
  using assms(2,3)
proof (induction xs)
  case Nil
  then show ?case by simp
next
  case (Cons y ys)
  show ?case
  proof (cases "cmp x y \<le> 0")
    case True
    have "cmp x z \<le> 0" if "z \<in> set ys" for z
      using comparator_onD(3) [OF assms(1), of x y z] Cons.prems that True by auto
    with True Cons.prems show ?thesis by simp
  next
    case False
    with Cons.prems have "cmp y x \<le> 0" by (intro comparator_onD(1) [OF assms(1)]) auto
    with False Cons show ?thesis by auto
  qed
qed

lemma sorted_sort_by:
  assumes "comparator_on A cmp" and "set xs \<subseteq> A"
  shows "sorted_wrt (\<lambda>a b. cmp a b \<le> 0) (sort_by cmp xs)"
  using assms(2) by (induction xs) (auto intro!: sorted_insort_by [OF assms(1)])

lemma sorted_wrt_unique:
  assumes "comparator_on A cmp" and "set xs \<subseteq> A" and "mset xs = mset ys"
    and "sorted_wrt (\<lambda>a b. cmp a b \<le> 0) xs" and "sorted_wrt (\<lambda>a b. cmp a b \<le> 0) ys"
  shows "xs = ys"
  using assms(2-)
proof (induction xs arbitrary: ys)
  case Nil
  then show ?case by simp
next
  case (Cons x xs)
  from Cons.prems(2) obtain y ys' where ys: "ys = y # ys'" by (cases ys) auto
  have sets: "set (x # xs) = set ys" using Cons.prems(2) by (metis set_mset_mset)
  have "x = y"
  proof (rule ccontr)
    assume "x \<noteq> y"
    with sets ys have "y \<in> set xs" "x \<in> set ys'" by auto
    with Cons.prems ys have "cmp x y \<le> 0" "cmp y x \<le> 0" by auto
    moreover have "x \<in> A" "y \<in> A" using Cons.prems(1) sets ys by auto
    ultimately show False using comparator_onD(2) [OF assms(1)] \<open>x \<noteq> y\<close> by blast
  qed
  with Cons ys show ?case by auto
qed

lemma sort_by_unique:
  assumes "comparator_on (set xs) cmp" and "mset xs = mset ys"
  shows "sort_by cmp xs = sort_by cmp ys"
proof -
  have "set ys = set xs" using assms(2) by (metis set_mset_mset)
  then show ?thesis
    using assms by (intro sorted_wrt_unique [OF assms(1)]) (auto intro!: sorted_sort_by [OF assms(1)])
qed

end
