(* ===== verification/Fractional_Index.thy ===== *)
theory Fractional_Index
  imports Sone_Prelude
begin

text \<open>
  The sibling order keys of \<^verbatim>\<open>packages/core/src/order/fractionalIndex.ts\<close>: validation, stepping
  of the integer part, the midpoint of two fractional parts, \<open>generateKeyBetween\<close>,
  \<open>generateNKeysBetween\<close> and the two comparators. Every \<open>throw\<close> of the source is an error
  value. The lemmas show that a generated key is well formed and lies strictly between its
  bounds, when generation fails, and that \<open>n\<close> generated keys are strictly increasing.
\<close>

section \<open>Definitions\<close>

definition DIGITS :: string where
  "DIGITS = ''0123456789ABCDEFGHIJKLMNOPQRSTUVWXYZabcdefghijklmnopqrstuvwxyz''"

definition BASE :: int where
  "BASE = 62"

definition ZERO :: char where
  "ZERO = CHR ''0''"

definition MAX_DIGIT :: char where
  "MAX_DIGIT = CHR ''z''"

definition FIRST_INDEX :: string where
  "FIRST_INDEX = ''a0''"

text \<open>
  One constructor per message of \<open>FractionalIndexError\<close>. \<open>UndefinedDigit\<close> is no exception of the
  source: it stands for reading \<open>DIGITS\<close> (or the head of an empty string) out of range, which in
  JavaScript yields \<open>undefined\<close>.
\<close>

datatype fractional_index_error =
    InvalidHead char
  | EmptyKey
  | KeyTooShort string
  | InvalidDigit char string
  | TrailingZero string
  | LowerNotBelowUpper string string
  | BeforeNotBelowAfter string string
  | ExhaustedAtHead
  | Exhausted
  | BadCount int
  | UndefinedDigit

definition integerPartLength :: "char \<Rightarrow> fractional_index_error + nat" where
  "integerPartLength head =
     (if CHR ''a'' \<le> head \<and> head \<le> CHR ''z'' then Inr (charCode head - charCode CHR ''a'' + 2)
      else if CHR ''A'' \<le> head \<and> head \<le> CHR ''Z'' then Inr (charCode CHR ''Z'' - charCode head + 2)
      else Inl (InvalidHead head))"

definition integerPart :: "string \<Rightarrow> fractional_index_error + string" where
  "integerPart key =
     (case key of
        [] \<Rightarrow> Inl EmptyKey
      | head # _ \<Rightarrow>
          rbind (integerPartLength head) (\<lambda>len.
            if len > length key then Inl (KeyTooShort key) else Inr (take len key)))"

text \<open>\<open>validate\<close>: the loop reports the first character that is no digit.\<close>

definition validate :: "string \<Rightarrow> fractional_index_error + unit" where
  "validate key =
     (if key = [] then Inl EmptyKey
      else rbind (integerPart key) (\<lambda>ipart.
        let frac = drop (length ipart) key in
        case find (\<lambda>ch. ch \<notin> set DIGITS) (drop 1 ipart @ frac) of
          Some ch \<Rightarrow> Inl (InvalidDigit ch key)
        | None \<Rightarrow>
            if frac \<noteq> [] \<and> last frac = ZERO then Inl (TrailingZero key) else Inr ()))"

text \<open>
  The carry loop runs from the last digit towards the first while \<open>carry\<close> holds. The first
  component of the result is the final value of \<open>carry\<close>.
\<close>

fun incrementDigits :: "string \<Rightarrow> bool \<times> string" where
  "incrementDigits [] = (True, [])"
| "incrementDigits (d # ds) =
     (case incrementDigits ds of
        (False, ds') \<Rightarrow> (False, d # ds')
      | (True, ds') \<Rightarrow>
          let next = indexOf DIGITS d + 1 in
          if next = BASE then (True, ZERO # ds') else (False, (DIGITS ! nat next) # ds'))"

fun decrementDigits :: "string \<Rightarrow> bool \<times> string" where
  "decrementDigits [] = (True, [])"
| "decrementDigits (d # ds) =
     (case decrementDigits ds of
        (False, ds') \<Rightarrow> (False, d # ds')
      | (True, ds') \<Rightarrow>
          let next = indexOf DIGITS d - 1 in
          if next < 0 then (True, MAX_DIGIT # ds') else (False, (DIGITS ! nat next) # ds'))"

definition incrementInteger :: "string \<Rightarrow> fractional_index_error + string option" where
  "incrementInteger ipart =
     (case ipart of
        [] \<Rightarrow> Inl UndefinedDigit
      | head # ds \<Rightarrow>
          (case incrementDigits ds of
             (False, digits) \<Rightarrow> Inr (Some (head # digits))
           | (True, digits) \<Rightarrow>
               if head = CHR ''z'' then Inr None
               else if head = CHR ''Z'' then Inr (Some [CHR ''a'', ZERO])
               else
                 let nextHead = fromCharCode (charCode head + 1) in
                 if CHR ''Z'' < nextHead \<and> nextHead < CHR ''a''
                 then Inr (Some [nextHead, ZERO])
                 else rmap (\<lambda>len. Some (nextHead # replicate (len - 1) ZERO))
                        (integerPartLength nextHead)))"

definition decrementInteger :: "string \<Rightarrow> fractional_index_error + string option" where
  "decrementInteger ipart =
     (case ipart of
        [] \<Rightarrow> Inl UndefinedDigit
      | head # ds \<Rightarrow>
          (case decrementDigits ds of
             (False, digits) \<Rightarrow> Inr (Some (head # digits))
           | (True, digits) \<Rightarrow>
               if head = CHR ''A'' then Inr None
               else if head = CHR ''a'' then Inr (Some [CHR ''Z'', MAX_DIGIT])
               else
                 let prevHead = fromCharCode (charCode head - 1) in
                 rmap (\<lambda>len. Some (prevHead # replicate (len - 1) MAX_DIGIT))
                   (integerPartLength prevHead)))"

text \<open>The length of the shared prefix, the lower bound padded with the lowest digit.\<close>

fun prefixLen :: "string \<Rightarrow> string \<Rightarrow> nat" where
  "prefixLen lower [] = 0"
| "prefixLen lower (u # us) =
     (if (case lower of [] \<Rightarrow> ZERO | l # _ \<Rightarrow> l) = u then Suc (prefixLen (tl lower) us) else 0)"

definition digitAt :: "int \<Rightarrow> fractional_index_error + char" where
  "digitAt i = (if 0 \<le> i \<and> i < BASE then Inr (DIGITS ! nat i) else Inl UndefinedDigit)"

definition lowerDigit :: "string \<Rightarrow> int" where
  "lowerDigit lower = (case lower of [] \<Rightarrow> 0 | l # _ \<Rightarrow> indexOf DIGITS l)"

definition upperDigit :: "string option \<Rightarrow> int" where
  "upperDigit upper =
     (case upper of None \<Rightarrow> BASE | Some [] \<Rightarrow> BASE | Some (u # _) \<Rightarrow> indexOf DIGITS u)"

text \<open>\<open>Math.round(0.5 * (l + u))\<close> on integers rounds halves up.\<close>

function midpoint :: "string \<Rightarrow> string option \<Rightarrow> fractional_index_error + string" where
  "midpoint lower upper =
     (if (case upper of None \<Rightarrow> False | Some u \<Rightarrow> u \<le> lower)
      then Inl (LowerNotBelowUpper lower (case upper of None \<Rightarrow> [] | Some u \<Rightarrow> u))
      else
        let p = (case upper of None \<Rightarrow> 0 | Some u \<Rightarrow> prefixLen lower u) in
        if 0 < p then
          rmap (\<lambda>rest. take p (case upper of None \<Rightarrow> [] | Some u \<Rightarrow> u) @ rest)
            (midpoint (drop p lower) (map_option (drop p) upper))
        else if 1 < upperDigit upper - lowerDigit lower then
          rmap (\<lambda>d. [d]) (digitAt ((lowerDigit lower + upperDigit upper + 1) div 2))
        else
          case upper of
            Some (u # v # vs) \<Rightarrow> rmap (\<lambda>rest. u # rest) (midpoint [] (Some (v # vs)))
          | _ \<Rightarrow>
              rbind (digitAt (lowerDigit lower)) (\<lambda>d.
                rmap (\<lambda>rest. d # rest) (midpoint (drop 1 lower) None)))"
  by pat_completeness auto

lemma prefixLen_le: "prefixLen l u \<le> length u"
  by (induction l u rule: prefixLen.induct) auto

termination midpoint
proof (relation "measure (\<lambda>(l, u). length l + (case u of None \<Rightarrow> 0 | Some s \<Rightarrow> length s + 1))",
       goal_cases)
  case 1
  then show ?case by simp
next
  case (2 lower upper p)
  then obtain u where "upper = Some u" and "0 < prefixLen lower u"
    by (cases upper) auto
  with 2 prefixLen_le [of lower u] show ?case by simp
qed (auto simp: upperDigit_def lowerDigit_def BASE_def split: list.splits option.splits)

declare midpoint.simps [simp del]

definition asBound :: "string option \<Rightarrow> fractional_index_error + unit" where
  "asBound b = (case b of None \<Rightarrow> Inr () | Some key \<Rightarrow> validate key)"

definition generateKeyBetween ::
  "string option \<Rightarrow> string option \<Rightarrow> fractional_index_error + string" where
  "generateKeyBetween prev foll =
     rbind (asBound prev) (\<lambda>_.
     rbind (asBound foll) (\<lambda>_.
       case (prev, foll) of
         (None, None) \<Rightarrow> Inr FIRST_INDEX
       | (None, Some a) \<Rightarrow>
           rbind (integerPart a) (\<lambda>ipart.
             let frac = drop (length ipart) a in
             if frac = [] then
               rbind (decrementInteger ipart) (\<lambda>dec.
                 case dec of None \<Rightarrow> Inl ExhaustedAtHead | Some key \<Rightarrow> Inr key)
             else rmap (\<lambda>m. ipart @ m) (midpoint [] (Some frac)))
       | (Some b, None) \<Rightarrow>
           rbind (integerPart b) (\<lambda>ipart.
             let frac = drop (length ipart) b in
             rbind (incrementInteger ipart) (\<lambda>inc.
               case inc of
                 None \<Rightarrow> rmap (\<lambda>m. ipart @ m) (midpoint frac None)
               | Some key \<Rightarrow> Inr key))
       | (Some b, Some a) \<Rightarrow>
           if a \<le> b then Inl (BeforeNotBelowAfter b a)
           else
             rbind (integerPart b) (\<lambda>beforeInt.
             rbind (integerPart a) (\<lambda>afterInt.
               if beforeInt = afterInt then
                 rmap (\<lambda>m. beforeInt @ m)
                   (midpoint (drop (length beforeInt) b) (Some (drop (length afterInt) a)))
               else
                 rbind (incrementInteger beforeInt) (\<lambda>inc.
                   case inc of
                     None \<Rightarrow> Inl Exhausted
                   | Some key \<Rightarrow>
                       if key < a then Inr key
                       else rmap (\<lambda>m. beforeInt @ m)
                              (midpoint (drop (length beforeInt) b) None))))))"

text \<open>The two cursor loops: \<open>n\<close> further keys after, respectively before, the cursor.\<close>

fun keysAfter :: "nat \<Rightarrow> string \<Rightarrow> fractional_index_error + string list" where
  "keysAfter 0 cursor = Inr []"
| "keysAfter (Suc n) cursor =
     rbind (generateKeyBetween (Some cursor) None) (\<lambda>key.
       rmap (\<lambda>keys. key # keys) (keysAfter n key))"

fun keysBefore :: "nat \<Rightarrow> string \<Rightarrow> fractional_index_error + string list" where
  "keysBefore 0 cursor = Inr []"
| "keysBefore (Suc n) cursor =
     rbind (generateKeyBetween None (Some cursor)) (\<lambda>key.
       rmap (\<lambda>keys. key # keys) (keysBefore n key))"

function (sequential) generateKeys ::
  "string option \<Rightarrow> string option \<Rightarrow> nat \<Rightarrow> fractional_index_error + string list" where
  "generateKeys prev foll 0 = Inr []"
| "generateKeys prev foll (Suc 0) = rmap (\<lambda>key. [key]) (generateKeyBetween prev foll)"
| "generateKeys prev None n =
     rbind (generateKeyBetween prev None) (\<lambda>cursor.
       rmap (\<lambda>keys. cursor # keys) (keysAfter (n - 1) cursor))"
| "generateKeys None foll n =
     rbind (generateKeyBetween None foll) (\<lambda>cursor.
       rmap (\<lambda>keys. rev (cursor # keys)) (keysBefore (n - 1) cursor))"
| "generateKeys prev foll n =
     (let mid = n div 2 in
      rbind (generateKeyBetween prev foll) (\<lambda>midKey.
      rbind (generateKeys prev (Some midKey) mid) (\<lambda>left.
      rmap (\<lambda>right. left @ midKey # right)
        (generateKeys (Some midKey) foll (n - mid - 1)))))"
  by pat_completeness auto
termination generateKeys
  by (relation "measure (\<lambda>(b, a, n). n)") auto

text \<open>\<open>Number.isInteger\<close> is the type here; a negative count is refused as in the source.\<close>

definition generateNKeysBetween ::
  "string option \<Rightarrow> string option \<Rightarrow> int \<Rightarrow> fractional_index_error + string list" where
  "generateNKeysBetween prev foll n =
     (if n < 0 then Inl (BadCount n) else generateKeys prev foll (nat n))"

definition compareIndex :: "string \<Rightarrow> string \<Rightarrow> int" where
  "compareIndex a b = (if a < b then -1 else if b < a then 1 else 0)"

record sibling =
  idx :: string
  sid :: string

definition compareSiblings :: "sibling \<Rightarrow> sibling \<Rightarrow> int" where
  "compareSiblings a b =
     (let byIndex = compareIndex (idx a) (idx b) in
      if byIndex \<noteq> 0 then byIndex else compareIndex (sid a) (sid b))"

section \<open>Digits\<close>

named_theorems fi_simps "unfolding of the order-key definitions"

lemma length_DIGITS [simp]: "length DIGITS = 62"
  by (simp add: DIGITS_def)

lemma DIGITS_increasing: "sorted_wrt (<) DIGITS"
  by code_simp

lemma DIGITS_less_iff: "i < 62 \<Longrightarrow> j < 62 \<Longrightarrow> (DIGITS ! i < DIGITS ! j) = (i < j)"
  using DIGITS_increasing by (metis length_DIGITS linorder_neqE_nat order_less_imp_not_less
      order_less_irrefl sorted_wrt_nth_less)

lemma DIGITS_inj: "i < 62 \<Longrightarrow> j < 62 \<Longrightarrow> (DIGITS ! i = DIGITS ! j) = (i = j)"
  using DIGITS_less_iff by (metis less_irrefl linorder_neqE_nat)

lemma ZERO_digit: "ZERO = DIGITS ! 0"
  by (simp add: ZERO_def DIGITS_def)

lemma MAX_DIGIT_digit: "MAX_DIGIT = DIGITS ! 61"
  by (simp add: MAX_DIGIT_def DIGITS_def)

lemma DIGITS_nth_in [simp]: "i < 62 \<Longrightarrow> DIGITS ! i \<in> set DIGITS"
  by simp

lemma digit_cases: "c \<in> set DIGITS \<Longrightarrow> (\<And>i. i < 62 \<Longrightarrow> c = DIGITS ! i \<Longrightarrow> P) \<Longrightarrow> P"
  by (auto simp: in_set_conv_nth)

lemma indexOf_DIGITS [simp]: "i < 62 \<Longrightarrow> indexOf DIGITS (DIGITS ! i) = int i"
proof -
  assume i: "i < 62"
  let ?k = "indexOf DIGITS (DIGITS ! i)"
  have r: "0 \<le> ?k" "?k < 62"
    using indexOf_range [of "DIGITS ! i" DIGITS] i by auto
  have "DIGITS ! nat ?k = DIGITS ! i"
    using i by (simp add: nth_indexOf)
  with r i have "nat ?k = i" by (subst (asm) DIGITS_inj) auto
  with r show "?k = int i" by auto
qed

lemma ZERO_le_digit: "c \<in> set DIGITS \<Longrightarrow> ZERO \<le> c"
  using DIGITS_less_iff [of _ 0] by (auto elim!: digit_cases simp: ZERO_digit not_less [symmetric])

lemma ZERO_less_digit: "c \<in> set DIGITS \<Longrightarrow> c \<noteq> ZERO \<Longrightarrow> ZERO < c"
  using ZERO_le_digit by (simp add: order.strict_iff_order)

lemma ZERO_in_DIGITS [simp]: "ZERO \<in> set DIGITS"
  by (simp add: ZERO_digit)

lemma MAX_in_DIGITS [simp]: "MAX_DIGIT \<in> set DIGITS"
  by (simp add: MAX_DIGIT_digit)

section \<open>The midpoint of two fractions\<close>

lemma take_prefixLen:
  "take (prefixLen l u) u = take (prefixLen l u) l @ replicate (prefixLen l u - length l) ZERO"
  by (induction l u rule: prefixLen.induct) (auto split: list.splits)

lemma prefixLen_0: "prefixLen l u = 0 \<Longrightarrow> u = [] \<or> (case l of [] \<Rightarrow> ZERO | x # _ \<Rightarrow> x) \<noteq> hd u"
  by (cases u) auto

lemma prefixLen_drop:
  assumes "l < u" and "u \<noteq> []" and "last u \<noteq> ZERO"
  shows "drop (prefixLen l u) l < drop (prefixLen l u) u"
  using assms
proof (induction l u rule: prefixLen.induct)
  case (2 lower u us)
  show ?case
  proof (cases lower)
    case Nil
    with 2 show ?thesis by (cases us) (auto split: if_splits)
  next
    case (Cons l ls)
    with 2 show ?thesis by (cases us) (auto split: if_splits)
  qed
qed simp

definition digits :: "string \<Rightarrow> bool" where
  "digits s = (set s \<subseteq> set DIGITS)"

definition fraction :: "string \<Rightarrow> bool" where
  "fraction s = (digits s \<and> (s \<noteq> [] \<longrightarrow> last s \<noteq> ZERO))"

lemma midpoint_prefix:
  assumes "l < u" and "p = prefixLen l u" and "drop p l < r" and "r < drop p u"
  shows "l < take p u @ r" and "take p u @ r < u"
proof -
  have r: "r \<noteq> []" using assms(3) by auto
  have t: "take p u = take p l @ replicate (p - length l) ZERO"
    using take_prefixLen assms(2) by simp
  show "l < take p u @ r"
  proof (cases "length l < p")
    case True
    then show ?thesis using r by (simp add: t)
  next
    case False
    then have "take p u @ r = take p l @ r" by (simp add: t)
    moreover have "take p l @ drop p l < take p l @ r"
      using assms(3) by (simp only: append_less_append_same)
    ultimately show ?thesis by simp
  qed
  have "take p u @ r < take p u @ drop p u"
    using assms(4) by (simp only: append_less_append_same)
  then show "take p u @ r < u" by simp
qed

lemma lowerDigit_digits:
  assumes "digits l"
  shows "0 \<le> lowerDigit l" and "lowerDigit l < 62"
    and "l \<noteq> [] \<Longrightarrow> l = DIGITS ! nat (lowerDigit l) # tl l"
  using assms by (auto simp: lowerDigit_def digits_def elim!: digit_cases split: list.splits)

lemma upperDigit_digits:
  assumes "\<forall>s. u = Some s \<longrightarrow> digits s \<and> s \<noteq> []"
  shows "0 \<le> upperDigit u" and "upperDigit u \<le> 62"
    and "\<And>s. u = Some s \<Longrightarrow> upperDigit u < 62 \<and> s = DIGITS ! nat (upperDigit u) # tl s"
  using assms by (auto simp: upperDigit_def digits_def BASE_def elim!: digit_cases split: option.splits list.splits)

lemma digit_gap:
  assumes l: "digits l" and u: "digits s" and less: "l < s" and p: "prefixLen l s = 0"
  shows "lowerDigit l < upperDigit (Some s)"
proof -
  obtain c cs where s: "s = c # cs" using less by (cases s) auto
  then obtain i where i: "i < 62" "c = DIGITS ! i" using u by (auto simp: digits_def elim: digit_cases)
  show ?thesis
  proof (cases l)
    case Nil
    with p s have "i \<noteq> 0" by (auto simp: i ZERO_digit intro!: gr0I split: if_splits)
    with Nil s i show ?thesis by (simp add: lowerDigit_def upperDigit_def)
  next
    case (Cons d ds)
    then obtain j where j: "j < 62" "d = DIGITS ! j" using l by (auto simp: digits_def elim: digit_cases)
    have "d < c" using less p Cons s by (auto split: if_splits)
    with i j have "j < i" by (simp add: DIGITS_less_iff)
    with Cons s i j show ?thesis by (simp add: lowerDigit_def upperDigit_def)
  qed
qed

lemma digitAt_Inr: "0 \<le> i \<Longrightarrow> i < 62 \<Longrightarrow> digitAt i = Inr (DIGITS ! nat i)"
  by (simp add: digitAt_def BASE_def)

lemma digits_Nil [simp]: "digits []"
  by (simp add: digits_def)

lemma digits_Cons [simp]: "digits (d # s) = (d \<in> set DIGITS \<and> digits s)"
  by (simp add: digits_def)

lemma digits_append [simp]: "digits (s @ t) = (digits s \<and> digits t)"
  by (simp add: digits_def)

lemma lowerDigit_less:
  "digits l \<Longrightarrow> lowerDigit l < int i \<Longrightarrow> i < 62 \<Longrightarrow> l < DIGITS ! i # r"
  by (cases l) (auto simp: lowerDigit_def DIGITS_less_iff elim!: digit_cases)

lemma upperDigit_greater:
  "digits s \<Longrightarrow> s \<noteq> [] \<Longrightarrow> int i < upperDigit (Some s) \<Longrightarrow> DIGITS ! i # r < s"
  by (cases s) (auto simp: upperDigit_def DIGITS_less_iff elim!: digit_cases)

text \<open>The step that finds room for one digit between the bounds.\<close>

lemma midpoint_room:
  assumes l: "digits l" and u: "\<forall>s. u = Some s \<longrightarrow> digits s \<and> s \<noteq> []"
    and gap: "1 < upperDigit u - lowerDigit l"
  defines "m \<equiv> (lowerDigit l + upperDigit u + 1) div 2"
  shows "\<exists>d. digitAt m = Inr d \<and> fraction [d] \<and> l < [d] \<and> (\<forall>s. u = Some s \<longrightarrow> [d] < s)"
proof -
  note L = lowerDigit_digits [OF l] and U = upperDigit_digits [OF u]
  have m: "lowerDigit l < m" "m < upperDigit u" "0 < m"
    using gap L unfolding m_def by linarith+
  with U(2) have m62: "m < 62" by linarith
  have "l < [DIGITS ! nat m]"
    using lowerDigit_less [OF l] m m62 by simp
  moreover have "[DIGITS ! nat m] < s" if "u = Some s" for s
    using upperDigit_greater [of s "nat m"] u m that by auto
  moreover have "fraction [DIGITS ! nat m]"
    using m m62 by (simp add: fraction_def digits_def ZERO_digit DIGITS_inj)
  ultimately show ?thesis using m m62 by (auto simp: digitAt_Inr)
qed

definition midpoint_of :: "string \<Rightarrow> string option \<Rightarrow> string \<Rightarrow> bool" where
  "midpoint_of l u r = (fraction r \<and> r \<noteq> [] \<and> l < r \<and> (\<forall>s. u = Some s \<longrightarrow> r < s))"

lemma fraction_Cons: "r \<noteq> [] \<Longrightarrow> fraction (d # r) = (d \<in> set DIGITS \<and> fraction r)"
  by (auto simp: fraction_def digits_def)

lemma fraction_append: "r \<noteq> [] \<Longrightarrow> fraction (s @ r) = (digits s \<and> fraction r)"
  by (auto simp: fraction_def digits_def)

lemma fraction_drop: "fraction s \<Longrightarrow> fraction (drop n s)"
  by (auto simp: fraction_def digits_def dest: in_set_dropD)

lemma digits_take_drop: "digits s \<Longrightarrow> digits (take n s)" "digits s \<Longrightarrow> digits (drop n s)"
  by (auto simp: digits_def dest: in_set_takeD in_set_dropD)

lemma midpoint_step_prefix:
  assumes "fraction s" and "l < s" and "p = prefixLen l s"
    and "midpoint_of (drop p l) (Some (drop p s)) r"
  shows "midpoint_of l (Some s) (take p s @ r)"
  using assms midpoint_prefix [OF assms(2,3), of r]
  by (auto simp: midpoint_of_def fraction_append fraction_def digits_take_drop)

lemma midpoint_step_descend:
  assumes "digits l" and "fraction (c # s)" and "l < c # s" and "prefixLen l (c # s) = 0"
    and "midpoint_of [] (Some s) r"
  shows "midpoint_of l (Some (c # s)) (c # r)"
proof -
  obtain i where i: "i < 62" "c = DIGITS ! i"
    using assms(2) by (auto simp: fraction_def elim: digit_cases)
  have "lowerDigit l < upperDigit (Some (c # s))"
    using assms by (intro digit_gap) (auto simp: fraction_def)
  then have "l < c # r"
    using i assms(1) by (simp add: upperDigit_def lowerDigit_less)
  with assms(2,5) i show ?thesis
    by (auto simp: midpoint_of_def fraction_Cons)
qed

lemma midpoint_step_lengthen:
  assumes l: "digits l" and r: "midpoint_of (drop 1 l) None r"
    and u: "\<forall>s. u = Some s \<longrightarrow> digits s \<and> s \<noteq> [] \<and> lowerDigit l < upperDigit u"
  shows "midpoint_of l u (DIGITS ! nat (lowerDigit l) # r)"
proof -
  note L = lowerDigit_digits [OF l]
  have "l < DIGITS ! nat (lowerDigit l) # r"
    using r L(3) by (cases l) (auto simp: midpoint_of_def)
  moreover have "DIGITS ! nat (lowerDigit l) # r < s" if "u = Some s" for s
    using upperDigit_greater [of s "nat (lowerDigit l)"] u that L(1) by auto
  ultimately show ?thesis
    using r L by (auto simp: midpoint_of_def fraction_Cons)
qed

lemma midpoint_correct:
  assumes "digits l" and "\<forall>s. u = Some s \<longrightarrow> fraction s \<and> l < s"
  shows "\<exists>r. midpoint l u = Inr r \<and> midpoint_of l u r"
  using assms
proof (induction l u rule: midpoint.induct)
  case (1 l u)
  let ?p = "case u of None \<Rightarrow> 0 | Some s \<Rightarrow> prefixLen l s"
  have below: "\<not> (case u of None \<Rightarrow> False | Some s \<Rightarrow> s \<le> l)"
    using "1.prems"(2) by (auto split: option.splits)
  have dig: "\<forall>s. u = Some s \<longrightarrow> digits s \<and> s \<noteq> []"
    using "1.prems"(2) by (auto simp: fraction_def)
  consider (prefix) "0 < ?p" | (room) "?p = 0" "1 < upperDigit u - lowerDigit l"
    | (tight) "?p = 0" "\<not> 1 < upperDigit u - lowerDigit l" by auto
  then show ?case
  proof cases
    case prefix
    then obtain s where s: "u = Some s" "?p = prefixLen l s" by (cases u) auto
    let ?q = "prefixLen l s"
    have "\<exists>r. midpoint (drop ?q l) (Some (drop ?q s)) = Inr r \<and>
             midpoint_of (drop ?q l) (Some (drop ?q s)) r"
      using "1.IH"(1) [OF below refl prefix] "1.prems" dig prefixLen_drop [of l s] s
      by (auto simp: digits_take_drop fraction_drop fraction_def)
    with s prefix below "1.prems" dig midpoint_step_prefix [of s l] show ?thesis
      by (subst midpoint.simps) (auto simp: Let_def)
  next
    case room
    with midpoint_room [OF "1.prems"(1) dig] below show ?thesis
      by (subst midpoint.simps) (auto simp: Let_def midpoint_of_def)
  next
    case tight
    show ?thesis
    proof (cases "\<exists>c v vs. u = Some (c # v # vs)")
      case True
      then obtain c v vs where u: "u = Some (c # v # vs)" by blast
      obtain r where r: "midpoint [] (Some (v # vs)) = Inr r" "midpoint_of [] (Some (v # vs)) r"
        using "1.IH"(5) [OF below refl _ tight(2) u refl refl] tight(1) "1.prems"(2) u
        by (auto simp: fraction_def)
      have "midpoint_of l u (c # r)"
        using midpoint_step_descend [OF "1.prems"(1), of c "v # vs" r] r(2) "1.prems"(2) tight(1) u
        by simp
      with r(1) u tight below show ?thesis
        by (subst midpoint.simps) (auto simp: Let_def)
    next
      case False
      then consider "u = None" | c where "u = Some [c]"
        using dig by (metis list.exhaust not_None_eq)
      then have "\<exists>r. midpoint (drop 1 l) None = Inr r \<and> midpoint_of (drop 1 l) None r"
      proof cases
        case 1
        show ?thesis using "1.IH"(2) [OF below refl _ tight(2) 1] tight(1) "1.prems"(1)
          by (simp add: digits_take_drop)
      next
        case (2 c)
        show ?thesis using "1.IH"(4) [OF below refl _ tight(2) 2 refl refl] tight(1) "1.prems"(1)
          by (simp add: digits_take_drop)
      qed
      then obtain r where r: "midpoint (drop 1 l) None = Inr r" "midpoint_of (drop 1 l) None r"
        by blast
      have "midpoint_of l u (DIGITS ! nat (lowerDigit l) # r)"
        using digit_gap [OF "1.prems"(1)] dig "1.prems"(2) tight(1)
        by (intro midpoint_step_lengthen [OF "1.prems"(1) r(2)]) auto
      with r(1) tight below False lowerDigit_digits [OF "1.prems"(1)] show ?thesis
        by (subst midpoint.simps) (auto simp: Let_def digitAt_Inr split: option.splits list.splits)
    qed
  qed
qed

section \<open>The integer part\<close>

definition validKey :: "string \<Rightarrow> bool" where
  "validKey key = (validate key = Inr ())"

definition isInteger :: "string \<Rightarrow> bool" where
  "isInteger i = (case i of [] \<Rightarrow> False
     | h # ds \<Rightarrow> integerPartLength h = Inr (Suc (length ds)) \<and> digits ds)"

lemma isInteger_Cons [simp]:
  "isInteger (h # ds) = (integerPartLength h = Inr (Suc (length ds)) \<and> digits ds)"
  by (simp add: isInteger_def)

lemma isInteger_cases:
  "isInteger i \<Longrightarrow>
     (\<And>h ds. i = h # ds \<Longrightarrow> integerPartLength h = Inr (Suc (length ds)) \<Longrightarrow> digits ds \<Longrightarrow> P) \<Longrightarrow> P"
  by (cases i) (auto simp: isInteger_def)

lemma integerPart_append [simp]: "isInteger i \<Longrightarrow> integerPart (i @ f) = Inr i"
  by (auto simp: integerPart_def elim!: isInteger_cases)

lemma integerPartLength_ge: "integerPartLength h = Inr n \<Longrightarrow> 2 \<le> n"
  by (auto simp: integerPartLength_def split: if_splits)

lemma find_none_iff: "find (\<lambda>ch. ch \<notin> set DIGITS) s = None \<longleftrightarrow> digits s"
  by (auto simp: find_None_iff digits_def)

lemma validKey_iff: "validKey key \<longleftrightarrow> (\<exists>i f. key = i @ f \<and> isInteger i \<and> fraction f)"
proof
  assume v: "validKey key"
  then obtain h t where key: "key = h # t" by (cases key) (auto simp: validKey_def validate_def)
  from v key obtain n where n: "integerPartLength h = Inr n" "n \<le> length key"
    by (auto simp: validKey_def validate_def integerPart_def result_simps split: if_splits)
  with integerPartLength_ge obtain m where m: "n = Suc m" by (cases n) fastforce+
  have "digits (take m t @ drop m t)"
    using v n m key find_none_iff [of "take m t @ drop m t"]
    by (auto simp: validKey_def validate_def integerPart_def Let_def result_simps
             split: if_splits option.splits)
  moreover have "fraction (drop m t)"
    using v n m key calculation
    by (auto simp: validKey_def validate_def integerPart_def Let_def result_simps fraction_def
                   digits_take_drop
             split: if_splits option.splits)
  moreover have "key = (h # take m t) @ drop m t" using key by simp
  moreover have "isInteger (h # take m t)"
    using n m key calculation(1) by (simp add: digits_take_drop)
  ultimately show "\<exists>i f. key = i @ f \<and> isInteger i \<and> fraction f" by blast
next
  assume "\<exists>i f. key = i @ f \<and> isInteger i \<and> fraction f"
  then obtain i f where k: "key = i @ f" and i: "isInteger i" and f: "fraction f" by blast
  have "find (\<lambda>ch. ch \<notin> set DIGITS) (drop 1 i @ f) = None"
    using i f by (auto simp: find_none_iff fraction_def elim!: isInteger_cases)
  moreover have "key \<noteq> []" using i k by (auto elim!: isInteger_cases)
  ultimately show "validKey key"
    using i f k by (auto simp: validKey_def validate_def fraction_def Let_def)
qed

lemma isInteger_valid: "isInteger i \<Longrightarrow> validKey i"
  using validKey_iff [of i] by (metis append_Nil2 digits_Nil fraction_def)

lemma isInteger_less_append:
  assumes "isInteger i" and "isInteger j" and "i < j"
  shows "i @ f < j @ g"
  using assms by (elim isInteger_cases) (auto simp: less_append_extend)

lemma incrementDigits_spec:
  assumes "digits ds" and "incrementDigits ds = (c, ds')"
  shows "length ds' = length ds \<and> digits ds' \<and>
    (if c then ds = replicate (length ds) MAX_DIGIT else ds < ds')"
  using assms
proof (induction ds arbitrary: c ds')
  case Nil
  then show ?case by simp
next
  case (Cons d ds)
  obtain c0 ds0 where s: "incrementDigits ds = (c0, ds0)" by fastforce
  obtain i where i: "i < 62" "d = DIGITS ! i" using Cons.prems(1) by (auto elim: digit_cases)
  have "nat (int i + 1) = Suc i" by simp
  with Cons.IH [OF _ s] Cons.prems s i show ?case
    by (auto simp: Let_def BASE_def MAX_DIGIT_digit DIGITS_less_iff DIGITS_inj split: bool.splits if_splits)
qed

lemma decrementDigits_spec:
  assumes "digits ds" and "decrementDigits ds = (c, ds')"
  shows "length ds' = length ds \<and> digits ds' \<and>
    (if c then ds = replicate (length ds) ZERO else ds' < ds)"
  using assms
proof (induction ds arbitrary: c ds')
  case Nil
  then show ?case by simp
next
  case (Cons d ds)
  obtain c0 ds0 where s: "decrementDigits ds = (c0, ds0)" by fastforce
  obtain i where i: "i < 62" "d = DIGITS ! i" using Cons.prems(1) by (auto elim: digit_cases)
  have "nat (int i - 1) = i - 1" by simp
  with Cons.IH [OF _ s] Cons.prems s i show ?case
    by (auto simp: Let_def ZERO_digit DIGITS_less_iff DIGITS_inj split: bool.splits if_splits)
qed

lemma integerPartLength_a_z:
  "97 \<le> charCode h \<Longrightarrow> charCode h \<le> 122 \<Longrightarrow> integerPartLength h = Inr (charCode h - 95)"
  by (simp add: integerPartLength_def less_eq_char_def charCode_def)

lemma integerPartLength_A_Z:
  "65 \<le> charCode h \<Longrightarrow> charCode h \<le> 90 \<Longrightarrow> integerPartLength h = Inr (92 - charCode h)"
  by (simp add: integerPartLength_def less_eq_char_def charCode_def)

lemma integerPartLength_head:
  assumes "97 \<le> charCode h \<and> charCode h \<le> 122 \<or> 65 \<le> charCode h \<and> charCode h \<le> 90"
  shows "\<exists>n. integerPartLength h = Inr (Suc n)"
proof -
  obtain n where n: "integerPartLength h = Inr n"
    using assms integerPartLength_a_z integerPartLength_A_Z by blast
  with integerPartLength_ge [OF n] show ?thesis by (cases n) auto
qed

lemma integerPartLength_Inr:
  "integerPartLength h = Inr n \<Longrightarrow>
     (97 \<le> charCode h \<and> charCode h \<le> 122 \<and> n = charCode h - 95) \<or>
     (65 \<le> charCode h \<and> charCode h \<le> 90 \<and> n = 92 - charCode h)"
  by (auto simp: integerPartLength_def less_eq_char_def charCode_def split: if_splits)

lemma charCode_fromCharCode: "n < 256 \<Longrightarrow> charCode (fromCharCode n) = n"
  by (simp add: charCode_def fromCharCode_def)

lemma charCode_less: "(c < d) = (charCode c < charCode d)"
  by (simp add: charCode_def less_char_def)

lemma charCode_literals:
  "charCode CHR ''a'' = 97" "charCode CHR ''z'' = 122" "charCode CHR ''A'' = 65" "charCode CHR ''Z'' = 90"
  by (simp_all add: charCode_def)

lemma digits_replicate: "c \<in> set DIGITS \<Longrightarrow> digits (replicate n c)"
  by (auto simp: digits_def)

lemma incrementInteger_spec:
  assumes "isInteger i"
  shows "\<exists>x. incrementInteger i = Inr x \<and>
    (case x of None \<Rightarrow> i = CHR ''z'' # replicate 26 MAX_DIGIT | Some k \<Rightarrow> isInteger k \<and> i < k)"
proof -
  obtain h ds where i: "i = h # ds" "integerPartLength h = Inr (Suc (length ds))" "digits ds"
    using assms by (auto elim: isInteger_cases)
  obtain c ds' where s: "incrementDigits ds = (c, ds')" by fastforce
  note d = incrementDigits_spec [OF i(3) s] and len = integerPartLength_Inr [OF i(2)]
  show ?thesis
  proof (cases "c \<and> h \<noteq> CHR ''z'' \<and> h \<noteq> CHR ''Z''")
    case False
    with i s d len show ?thesis
      by (auto simp: incrementInteger_def ZERO_digit charCode_less charCode_literals
          integerPartLength_def less_eq_char_def split: bool.splits)
  next
    case True
    let ?n = "fromCharCode (charCode h + 1)"
    have code: "charCode ?n = charCode h + 1"
      using len by (intro charCode_fromCharCode) auto
    have "charCode h \<noteq> 122" "charCode h \<noteq> 90"
      using True charCode_inj [of h] charCode_literals by metis+
    note code = code this
    have "97 \<le> charCode ?n \<and> charCode ?n \<le> 122 \<or> 65 \<le> charCode ?n \<and> charCode ?n \<le> 90"
      using code len by arith
    then obtain n where "integerPartLength ?n = Inr (Suc n)"
      using integerPartLength_head by blast
    with True i s code len show ?thesis
      by (auto simp: incrementInteger_def Let_def charCode_less charCode_literals digits_replicate)
  qed
qed

lemma decrementInteger_spec:
  assumes "isInteger i"
  shows "\<exists>x. decrementInteger i = Inr x \<and>
    (case x of None \<Rightarrow> i = CHR ''A'' # replicate 26 ZERO | Some k \<Rightarrow> isInteger k \<and> k < i)"
proof -
  obtain h ds where i: "i = h # ds" "integerPartLength h = Inr (Suc (length ds))" "digits ds"
    using assms by (auto elim: isInteger_cases)
  obtain c ds' where s: "decrementDigits ds = (c, ds')" by fastforce
  note d = decrementDigits_spec [OF i(3) s] and len = integerPartLength_Inr [OF i(2)]
  show ?thesis
  proof (cases "c \<and> h \<noteq> CHR ''A'' \<and> h \<noteq> CHR ''a''")
    case False
    with i s d len show ?thesis
      by (auto simp: decrementInteger_def charCode_less charCode_literals
          integerPartLength_def less_eq_char_def split: bool.splits)
  next
    case True
    let ?n = "fromCharCode (charCode h - 1)"
    have code: "charCode ?n = charCode h - 1"
      using len by (intro charCode_fromCharCode) auto
    have "charCode h \<noteq> 65" "charCode h \<noteq> 97"
      using True charCode_inj [of h] charCode_literals by metis+
    note code = code this
    have "97 \<le> charCode ?n \<and> charCode ?n \<le> 122 \<or> 65 \<le> charCode ?n \<and> charCode ?n \<le> 90"
      using code len by arith
    then obtain n where "integerPartLength ?n = Inr (Suc n)"
      using integerPartLength_head by blast
    with True i s code len show ?thesis
      by (auto simp: decrementInteger_def Let_def charCode_less charCode_literals digits_replicate)
  qed
qed

section \<open>Keys between keys\<close>

definition smallestKey :: string where
  "smallestKey = CHR ''A'' # replicate 26 ZERO"

definition validBounds :: "string option \<Rightarrow> string option \<Rightarrow> bool" where
  "validBounds prev foll =
     ((case prev of None \<Rightarrow> True | Some b \<Rightarrow> validKey b) \<and>
      (case foll of None \<Rightarrow> True | Some a \<Rightarrow> validKey a) \<and>
      (case (prev, foll) of (Some b, Some a) \<Rightarrow> b < a | _ \<Rightarrow> True))"

definition keyBetween :: "string option \<Rightarrow> string option \<Rightarrow> string \<Rightarrow> bool" where
  "keyBetween prev foll key =
     (validKey key \<and> (\<forall>b. prev = Some b \<longrightarrow> b < key) \<and> (\<forall>a. foll = Some a \<longrightarrow> key < a))"

lemma validKey_cases:
  "validKey key \<Longrightarrow> (\<And>i f. key = i @ f \<Longrightarrow> isInteger i \<Longrightarrow> fraction f \<Longrightarrow> P) \<Longrightarrow> P"
  by (auto simp: validKey_iff)

lemma isInteger_not_Nil [simp]: "\<not> isInteger []"
  by (simp add: isInteger_def)

lemma validKey_append: "isInteger i \<Longrightarrow> fraction f \<Longrightarrow> validKey (i @ f)"
  by (auto simp: validKey_iff)

lemma decrement_smallest: "decrementInteger smallestKey = Inr None"
  by code_simp

lemma digits_le_MAX: "digits ds \<Longrightarrow> \<not> replicate (length ds) MAX_DIGIT < ds"
proof (induction ds)
  case Nil
  then show ?case by simp
next
  case (Cons d ds)
  then obtain k where "k < 62" "d = DIGITS ! k" by (auto elim: digit_cases)
  with Cons show ?case by (auto simp: MAX_DIGIT_digit DIGITS_less_iff)
qed

lemma largest_integer: "isInteger j \<Longrightarrow> \<not> CHR ''z'' # replicate 26 MAX_DIGIT < j"
proof (elim isInteger_cases)
  fix h ds
  assume j: "j = h # ds" "integerPartLength h = Inr (Suc (length ds))" "digits ds"
  have "h \<le> CHR ''z''" and "h = CHR ''z'' \<Longrightarrow> length ds = 26"
    using integerPartLength_Inr [OF j(2)] j(2)
    by (auto simp: integerPartLength_def less_eq_char_def charCode_def)
  with j digits_le_MAX [OF j(3)] show ?thesis by auto
qed

lemma generate_head:
  assumes "validKey a"
  shows "(if a = smallestKey then generateKeyBetween None (Some a) = Inl ExhaustedAtHead
    else \<exists>key. generateKeyBetween None (Some a) = Inr key \<and> keyBetween None (Some a) key)"
proof -
  obtain i f where a: "a = i @ f" "isInteger i" "fraction f" using assms by (rule validKey_cases)
  have gen: "generateKeyBetween None (Some a) =
    (if f = [] then rbind (decrementInteger i) (\<lambda>dec. case dec of None \<Rightarrow> Inl ExhaustedAtHead | Some key \<Rightarrow> Inr key)
     else rmap (\<lambda>m. i @ m) (midpoint [] (Some f)))"
    using a assms by (simp add: generateKeyBetween_def asBound_def validKey_def)
  show ?thesis
  proof (cases "f = []")
    case True
    with gen a decrementInteger_spec [OF a(2)] decrement_smallest show ?thesis
      by (auto simp: smallestKey_def [symmetric] keyBetween_def isInteger_valid split: option.splits)
  next
    case False
    then have "\<exists>r. midpoint [] (Some f) = Inr r \<and> midpoint_of [] (Some f) r"
      using a(3) by (intro midpoint_correct) (auto simp: neq_Nil_conv)
    moreover have "a \<noteq> smallestKey"
    proof
      assume *: "a = smallestKey"
      have "isInteger smallestKey" by code_simp
      then have "i = smallestKey"
        using a(1,2) * integerPart_append [of smallestKey "[]"] integerPart_append [of i f] by simp
      with False a * show False by simp
    qed
    ultimately show ?thesis
      using gen False a by (auto simp: keyBetween_def midpoint_of_def validKey_append)
  qed
qed

lemma generate_tail:
  assumes "validKey b"
  shows "\<exists>key. generateKeyBetween (Some b) None = Inr key \<and> keyBetween (Some b) None key"
proof -
  obtain i f where b: "b = i @ f" "isInteger i" "fraction f" using assms by (rule validKey_cases)
  obtain x where x: "incrementInteger i = Inr x"
    "case x of None \<Rightarrow> i = CHR ''z'' # replicate 26 MAX_DIGIT | Some k \<Rightarrow> isInteger k \<and> i < k"
    using incrementInteger_spec [OF b(2)] by blast
  have gen: "generateKeyBetween (Some b) None =
    (case x of None \<Rightarrow> rmap (\<lambda>m. i @ m) (midpoint f None) | Some key \<Rightarrow> Inr key)"
    using b x(1) assms by (cases x) (simp_all add: generateKeyBetween_def asBound_def validKey_def)
  show ?thesis
  proof (cases x)
    case None
    have "\<exists>r. midpoint f None = Inr r \<and> midpoint_of f None r"
      using b(3) by (intro midpoint_correct) (auto simp: fraction_def)
    with None gen b show ?thesis
      by (auto simp: keyBetween_def midpoint_of_def validKey_append)
  next
    case (Some k)
    with gen x b isInteger_less_append [of i k f "[]"] show ?thesis
      by (auto simp: keyBetween_def isInteger_valid)
  qed
qed

lemma generate_inside:
  assumes "validKey b" and "validKey a" and "b < a"
  shows "\<exists>key. generateKeyBetween (Some b) (Some a) = Inr key \<and> keyBetween (Some b) (Some a) key"
proof -
  obtain i f where b: "b = i @ f" "isInteger i" "fraction f" using assms(1) by (rule validKey_cases)
  obtain j g where a: "a = j @ g" "isInteger j" "fraction g" using assms(2) by (rule validKey_cases)
  obtain x where x: "incrementInteger i = Inr x"
    "case x of None \<Rightarrow> i = CHR ''z'' # replicate 26 MAX_DIGIT | Some k \<Rightarrow> isInteger k \<and> i < k"
    using incrementInteger_spec [OF b(2)] by blast
  have gen: "generateKeyBetween (Some b) (Some a) =
    (if i = j then rmap (\<lambda>m. i @ m) (midpoint f (Some g))
     else case x of None \<Rightarrow> Inl Exhausted
       | Some key \<Rightarrow> if key < a then Inr key else rmap (\<lambda>m. i @ m) (midpoint f None))"
    using a b x(1) assms by (cases x) (auto simp: generateKeyBetween_def asBound_def validKey_def)
  show ?thesis
  proof (cases "i = j")
    case True
    have "\<exists>r. midpoint f (Some g) = Inr r \<and> midpoint_of f (Some g) r"
      using assms(3) a b True by (intro midpoint_correct) (auto simp: fraction_def)
    with True gen a b show ?thesis
      by (auto simp: keyBetween_def midpoint_of_def validKey_append)
  next
    case False
    have ij: "i < j"
      using False assms(3) a b isInteger_less_append [of j i g f] by (meson not_less_iff_gr_or_eq)
    then have "x \<noteq> None"
      using x(2) largest_integer [OF a(2)] by (cases x) auto
    then obtain k where k: "x = Some k" "isInteger k" "i < k" using x(2) by auto
    have "\<exists>r. midpoint f None = Inr r \<and> midpoint_of f None r"
      using b(3) by (intro midpoint_correct) (auto simp: fraction_def)
    with False gen k a b ij isInteger_less_append [of i k f "[]"] isInteger_less_append [of i j _ g]
    show ?thesis
      by (auto simp: keyBetween_def isInteger_valid midpoint_of_def validKey_append)
  qed
qed

section \<open>The interface of the order keys\<close>

text \<open>
  What a client of the order keys relies on: a generator that, given valid ordered bounds,
  returns a valid key strictly between them, and that never fails above a given lower bound.
\<close>

locale order_keys =
  fixes valid :: "'k::linorder \<Rightarrow> bool"
    and between :: "'k option \<Rightarrow> 'k option \<Rightarrow> 'e + 'k"
  assumes between_sound:
    "between prev foll = Inr key \<Longrightarrow>
       valid key \<and> (\<forall>b. prev = Some b \<longrightarrow> b < key) \<and> (\<forall>a. foll = Some a \<longrightarrow> key < a)"
    and between_above: "valid b \<Longrightarrow> \<exists>key. between (Some b) None = Inr key"
    and between_inside: "valid b \<Longrightarrow> valid a \<Longrightarrow> b < a \<Longrightarrow> \<exists>key. between (Some b) (Some a) = Inr key"
    and between_first: "\<exists>key. between None None = Inr key"
begin

text \<open>An insertion between two neighbours keeps a strictly increasing list increasing.\<close>

lemma insert_between:
  assumes "sorted_wrt (<) (xs @ ys)"
    and "between (if xs = [] then None else Some (last xs))
           (case ys of [] \<Rightarrow> None | y # _ \<Rightarrow> Some y) = Inr key"
  shows "sorted_wrt (<) (xs @ key # ys)"
proof -
  note k = between_sound [OF assms(2)]
  have "x < key" if "x \<in> set xs" for x
  proof -
    from that have "xs \<noteq> []" by auto
    then have xs: "xs = butlast xs @ [last xs]" by simp
    have "x \<le> last xs"
      using assms(1) that by (subst (asm) xs, subst (asm) xs) (auto simp: sorted_wrt_append)
    also have "last xs < key" using k \<open>xs \<noteq> []\<close> by simp
    finally show ?thesis .
  qed
  moreover have "key < y" if "y \<in> set ys" for y
    using k assms(1) that by (cases ys) (auto simp: sorted_wrt_append)
  ultimately show ?thesis
    using assms(1) by (force simp: sorted_wrt_append)
qed

end

lemma generate_first: "generateKeyBetween None None = Inr FIRST_INDEX"
  by (simp add: generateKeyBetween_def asBound_def)

lemma validKey_FIRST_INDEX: "validKey FIRST_INDEX"
  by code_simp

lemma generateKeyBetween_bounds:
  "generateKeyBetween prev foll = Inr key \<Longrightarrow> validBounds prev foll"
  by (auto simp: generateKeyBetween_def validBounds_def asBound_def validKey_def
      result_simps split: option.splits if_splits)

lemma generateKeyBetween_sound:
  assumes "generateKeyBetween prev foll = Inr key"
  shows "keyBetween prev foll key"
proof -
  have b: "validBounds prev foll" using assms by (rule generateKeyBetween_bounds)
  show ?thesis
  proof (cases prev)
    case None
    with b assms generate_head [of "the foll"] validKey_FIRST_INDEX show ?thesis
      by (cases foll) (auto simp: generate_first keyBetween_def validBounds_def split: if_splits)
  next
    case (Some p)
    with b assms generate_tail generate_inside show ?thesis
      by (cases foll) (fastforce simp: validBounds_def)+
  qed
qed

interpretation fi: order_keys validKey generateKeyBetween
proof
  show "generateKeyBetween prev foll = Inr key \<Longrightarrow>
      validKey key \<and> (\<forall>b. prev = Some b \<longrightarrow> b < key) \<and> (\<forall>a. foll = Some a \<longrightarrow> key < a)" for prev foll key
    using generateKeyBetween_sound by (simp add: keyBetween_def)
qed (use generate_tail generate_inside generate_first in blast)+

section \<open>Several keys at once\<close>

lemma keysAfter_spec:
  "validKey c \<Longrightarrow> \<exists>ks. keysAfter n c = Inr ks \<and> length ks = n \<and> sorted_wrt (<) (c # ks) \<and>
     (\<forall>k \<in> set ks. validKey k)"
proof (induction n arbitrary: c)
  case 0
  then show ?case by simp
next
  case (Suc n)
  from Suc.prems obtain k where k: "generateKeyBetween (Some c) None = Inr k" "validKey k" "c < k"
    using generate_tail [of c] by (auto simp: keyBetween_def)
  from Suc.IH [OF k(2)] k show ?case by fastforce
qed

lemma keysBefore_spec:
  "keysBefore n c = Inr ks \<Longrightarrow> length ks = n \<and> sorted_wrt (>) (c # ks) \<and> (\<forall>k \<in> set ks. validKey k)"
proof (induction n arbitrary: c ks)
  case 0
  then show ?case by simp
next
  case (Suc n)
  then obtain k ks' where "generateKeyBetween None (Some c) = Inr k" "keysBefore n k = Inr ks'"
    "ks = k # ks'" by (auto simp: result_simps)
  with Suc.IH [of k ks'] generateKeyBetween_sound [of None "Some c" k] show ?case
    by (fastforce simp: keyBetween_def)
qed

definition keysBetween :: "string option \<Rightarrow> string option \<Rightarrow> string list \<Rightarrow> bool" where
  "keysBetween prev foll ks = (sorted_wrt (<) ks \<and> (\<forall>k \<in> set ks. keyBetween prev foll k))"

lemma keysBetween_join:
  assumes "keysBetween prev (Some m) ls" and "keyBetween prev foll m" and "keysBetween (Some m) foll rs"
  shows "keysBetween prev foll (ls @ m # rs)"
  using assms by (fastforce simp: keysBetween_def keyBetween_def sorted_wrt_append)

lemma generateKeys_sound:
  "generateKeys prev foll n = Inr ks \<Longrightarrow> length ks = n \<and> keysBetween prev foll ks"
proof (induction prev foll n arbitrary: ks rule: generateKeys.induct)
  case (3 prev n)
  then obtain c rest where c: "generateKeyBetween prev None = Inr c" "keysAfter (Suc n) c = Inr rest"
    "ks = c # rest" by (auto simp: result_simps)
  have "keyBetween prev None c" using c(1) by (rule generateKeyBetween_sound)
  with keysAfter_spec [of c "Suc n"] c show ?case
    by (force simp: keysBetween_def keyBetween_def)
next
  case (4 a n)
  then obtain c rest where c: "generateKeyBetween None (Some a) = Inr c" "keysBefore (Suc n) c = Inr rest"
    "ks = rev (c # rest)" by (auto simp: result_simps)
  have "keyBetween None (Some a) c" using c(1) by (rule generateKeyBetween_sound)
  with keysBefore_spec [OF c(2)] c(3) show ?case
    by (force simp: keysBetween_def keyBetween_def sorted_wrt_rev sorted_wrt_append)
next
  case (5 b a n)
  let ?mid = "Suc (Suc n) div 2"
  obtain m ls rs where m: "generateKeyBetween (Some b) (Some a) = Inr m"
      "generateKeys (Some b) (Some m) ?mid = Inr ls"
      "generateKeys (Some m) (Some a) (Suc (Suc n) - ?mid - 1) = Inr rs" "ks = ls @ m # rs"
    using "5.prems" by (auto simp: result_simps Let_def)
  have "length ls = ?mid" "keysBetween (Some b) (Some m) ls"
    using "5.IH"(1) [OF refl m(2)] by auto
  moreover have "length rs = Suc (Suc n) - ?mid - 1" "keysBetween (Some m) (Some a) rs"
    using "5.IH"(2) [OF refl m(3)] by auto
  ultimately show ?case
    using m(4) keysBetween_join generateKeyBetween_sound [OF m(1)] by auto
qed (auto simp: keysBetween_def result_simps dest: generateKeyBetween_sound)

lemma generateKeys_total:
  "prev \<noteq> None \<Longrightarrow> validBounds prev foll \<Longrightarrow> \<exists>ks. generateKeys prev foll n = Inr ks"
proof (induction prev foll n rule: generateKeys.induct)
  case (2 prev foll)
  then show ?case
    using generate_tail generate_inside by (cases foll) (fastforce simp: validBounds_def)+
next
  case (3 prev n)
  then obtain b where b: "prev = Some b" "validKey b" by (auto simp: validBounds_def)
  then obtain c where c: "generateKeyBetween (Some b) None = Inr c" "validKey c"
    using generate_tail by (auto simp: keyBetween_def)
  with keysAfter_spec [of c "Suc n"] b show ?case by (auto simp del: keysAfter.simps)
next
  case (5 b a n)
  then have v: "validKey b" "validKey a" "b < a" by (auto simp: validBounds_def)
  then obtain m where m: "generateKeyBetween (Some b) (Some a) = Inr m" "validKey m" "b < m" "m < a"
    using generate_inside [of b a] by (auto simp: keyBetween_def)
  have "\<exists>ls. generateKeys (Some b) (Some m) (Suc (Suc n) div 2) = Inr ls"
    using "5.IH"(1) v m by (simp add: validBounds_def)
  moreover have "\<exists>rs. generateKeys (Some m) (Some a) (Suc (Suc n) - Suc (Suc n) div 2 - 1) = Inr rs"
    using "5.IH"(2) v m by (simp add: validBounds_def)
  ultimately show ?case using m(1) by (auto simp: Let_def)
qed auto

section \<open>Ordering siblings\<close>

lemma compareIndex_simps:
  "compareIndex a b \<le> 0 \<longleftrightarrow> a \<le> b" "compareIndex a b = 0 \<longleftrightarrow> a = b" "compareIndex a b < 0 \<longleftrightarrow> a < b"
  by (auto simp: compareIndex_def)

lemma compareSiblings_le:
  "compareSiblings a b \<le> 0 \<longleftrightarrow> idx a < idx b \<or> idx a = idx b \<and> sid a \<le> sid b"
  by (auto simp: compareSiblings_def Let_def compareIndex_simps)

lemma comparator_compareSiblings: "comparator_on A compareSiblings"
  unfolding comparator_on_def compareSiblings_le
proof (intro conjI ballI impI)
  fix x y :: sibling
  show "(idx x < idx y \<or> idx x = idx y \<and> sid x \<le> sid y) \<or> (idx y < idx x \<or> idx y = idx x \<and> sid y \<le> sid x)"
    using linear [of "sid x" "sid y"] less_linear [of "idx x" "idx y"] by metis
  show "x = y" if "idx x < idx y \<or> idx x = idx y \<and> sid x \<le> sid y" "idx y < idx x \<or> idx y = idx x \<and> sid y \<le> sid x"
    using that by (auto simp: sibling.equality)
  show "idx x < idx z \<or> idx x = idx z \<and> sid x \<le> sid z"
    if "idx x < idx y \<or> idx x = idx y \<and> sid x \<le> sid y" "idx y < idx z \<or> idx y = idx z \<and> sid y \<le> sid z" for z
    using that by (metis order_trans order_less_trans)
qed

section \<open>Properties\<close>

text \<open>C1: a key that \<open>generateKeyBetween\<close> returns is well formed and sorts strictly after the lower
  bound and strictly before the upper bound, whenever those are given; its arguments need no
  precondition, since the function validates them itself.\<close>

theorem generateKeyBetween_strict:
  assumes "generateKeyBetween prev foll = Inr key"
  shows "validate key = Inr () \<and>
    (case prev of None \<Rightarrow> True | Some b \<Rightarrow> b < key) \<and> (case foll of None \<Rightarrow> True | Some a \<Rightarrow> key < a)"
  using fi.between_sound [OF assms] by (auto simp: validKey_def split: option.splits)

theorem generateKeyBetween_strict_witness:
  "generateKeyBetween (Some ''a0'') (Some ''a1'') = Inr ''a0V'' \<and> validate ''a0V'' = Inr () \<and>
   ''a0'' < ''a0V'' \<and> ''a0V'' < ''a1''"
proof -
  have g: "generateKeyBetween (Some ''a0'') (Some ''a1'') = Inr ''a0V''" by code_simp
  show ?thesis using g generateKeyBetween_strict [OF g] by simp
qed

text \<open>Generation fails exactly when a bound is malformed, the bounds are not strictly ordered,
  or a key is asked for below the smallest key \<open>A\<close> followed by 26 zeros. In particular the errors
  \<open>order key space exhausted\<close> and \<open>lower >= upper\<close> of the source are unreachable, and appending at
  the end of a list never fails.\<close>

theorem generateKeyBetween_succeeds_iff:
  "(\<exists>key. generateKeyBetween prev foll = Inr key) \<longleftrightarrow>
     validBounds prev foll \<and> \<not> (prev = None \<and> foll = Some smallestKey)"
proof
  assume "\<exists>key. generateKeyBetween prev foll = Inr key"
  then obtain key where k: "generateKeyBetween prev foll = Inr key" by blast
  have "validKey smallestKey" by (rule isInteger_valid) code_simp
  with k generate_head [of smallestKey] generateKeyBetween_bounds [OF k]
  show "validBounds prev foll \<and> \<not> (prev = None \<and> foll = Some smallestKey)" by auto
next
  assume b: "validBounds prev foll \<and> \<not> (prev = None \<and> foll = Some smallestKey)"
  then show "\<exists>key. generateKeyBetween prev foll = Inr key"
    using fi.between_first fi.between_above fi.between_inside generate_head [of "the foll"]
    by (cases prev; cases foll) (auto simp: validBounds_def split: if_splits)
qed

text \<open>C2: the keys \<open>generateNKeysBetween\<close> returns are as many as asked for, strictly increasing, and
  each is well formed and strictly between the bounds.\<close>

theorem generateNKeysBetween_sorted:
  assumes "generateNKeysBetween prev foll n = Inr keys"
  shows "int (length keys) = n \<and> sorted_wrt (<) keys \<and>
    (\<forall>key \<in> set keys. validate key = Inr () \<and>
       (case prev of None \<Rightarrow> True | Some b \<Rightarrow> b < key) \<and>
       (case foll of None \<Rightarrow> True | Some a \<Rightarrow> key < a))"
  using assms generateKeys_sound [of prev foll "nat n" keys]
  by (auto simp: generateNKeysBetween_def keysBetween_def keyBetween_def validKey_def
      split: if_splits option.splits)

theorem generateNKeysBetween_sorted_witness:
  "sorted_wrt (<) [''a0G'', ''a0V'', ''a0l'']"
proof -
  have "generateNKeysBetween (Some ''a0'') (Some ''a1'') 3 = Inr [''a0G'', ''a0V'', ''a0l'']"
    by code_simp
  from generateNKeysBetween_sorted [OF this] show ?thesis by blast
qed

text \<open>Above a given lower bound any number of keys can be generated: with valid ordered bounds
  of which the lower one is given, \<open>generateNKeysBetween\<close> always returns, for every count.\<close>

theorem generateNKeysBetween_total:
  assumes "prev \<noteq> None" and "validBounds prev foll" and "0 \<le> n"
  shows "\<exists>keys. generateNKeysBetween prev foll n = Inr keys"
  using assms generateKeys_total [of prev foll "nat n"] by (auto simp: generateNKeysBetween_def)

theorem generateNKeysBetween_total_witness:
  "\<exists>keys. generateNKeysBetween (Some ''a0'') (Some ''a1'') 1000 = Inr keys"
proof -
  have "validBounds (Some ''a0'') (Some ''a1'')" by code_simp
  then show ?thesis using generateNKeysBetween_total [of "Some ''a0''" "Some ''a1''" 1000] by simp
qed

text \<open>Replicas that hold the same siblings render them in the same order: sorting with
  \<open>compareSiblings\<close> depends only on which siblings there are, never on the order in which they
  arrived.\<close>

theorem compareSiblings_converges:
  assumes "mset xs = mset ys"
  shows "sort_by compareSiblings xs = sort_by compareSiblings ys"
  using comparator_compareSiblings assms by (rule sort_by_unique)

theorem compareSiblings_converges_witness:
  "sort_by compareSiblings [\<lparr>idx = ''a0V'', sid = ''q''\<rparr>, \<lparr>idx = ''a0V'', sid = ''p''\<rparr>] =
   sort_by compareSiblings [\<lparr>idx = ''a0V'', sid = ''p''\<rparr>, \<lparr>idx = ''a0V'', sid = ''q''\<rparr>]"
  by (rule compareSiblings_converges) simp

text \<open>The tie-breaker is necessary: two clients that insert into the same gap generate the same
  key, because generation is a function of the bounds, and sorting those two siblings by the key
  alone keeps each client's own arrival order.\<close>

theorem compareIndex_alone_diverges:
  "\<exists>key (p :: sibling) (q :: sibling). generateKeyBetween (Some ''a0'') (Some ''a1'') = Inr key \<and> sid p \<noteq> sid q \<and>
     idx p = key \<and> idx q = key \<and>
     sort_by (\<lambda>a b. compareIndex (idx a) (idx b)) [p, q] \<noteq>
     sort_by (\<lambda>a b. compareIndex (idx a) (idx b)) [q, p]"
proof -
  have g: "generateKeyBetween (Some ''a0'') (Some ''a1'') = Inr ''a0V''" by code_simp
  show ?thesis
    by (rule exI [of _ "''a0V''"], rule exI [of _ "\<lparr>idx = ''a0V'', sid = ''p''\<rparr>"],
        rule exI [of _ "\<lparr>idx = ''a0V'', sid = ''q''\<rparr>"]) (simp add: g compareIndex_def)
qed

end
