(* ===== verification/Database.thy ===== *)
theory Database
  imports Sone_Prelude
begin

text \<open>
  The access vocabulary of \<^verbatim>\<open>packages/core/src/types/access.ts\<close> and the tables of
  \<^verbatim>\<open>db/migrations\<close> that the authentication and access modules read and write. A table is the
  list of its rows, a nullable column an option, a timestamp its milliseconds. A query of the
  source is a filter over these lists, an \<open>INSERT\<close>, \<open>UPDATE\<close> or \<open>DELETE\<close> a list update.
\<close>

section \<open>Roles and rights\<close>

datatype role = Viewer | Commenter | Editor | Admin

definition ROLE_ORDER :: "role list" where
  "ROLE_ORDER = [Viewer, Commenter, Editor, Admin]"

fun roleIndex :: "role list \<Rightarrow> role \<Rightarrow> int" where
  "roleIndex [] r = -1"
| "roleIndex (x # xs) r =
     (if x = r then 0 else let i = roleIndex xs r in if i = -1 then -1 else i + 1)"

definition atLeast_role :: "role \<Rightarrow> role \<Rightarrow> bool" where
  "atLeast_role have need = (roleIndex ROLE_ORDER need \<le> roleIndex ROLE_ORDER have)"

text \<open>\<open>RIGHTS\<close>: the closed list of rights a role can carry, by name.\<close>

definition RIGHTS :: "string list" where
  "RIGHTS = [''people.manage'', ''groups.manage'', ''workspace.settings'', ''roles.manage'']"

text \<open>The four system roles a workspace does not make.\<close>

definition SYSTEM_KEYS :: "string list" where
  "SYSTEM_KEYS = [''owner'', ''admin'', ''member'', ''guest'']"

section \<open>Tables\<close>

type_synonym ident = string
type_synonym time = int

record user_row =
  u_id :: ident
  u_email :: "string option"
  u_display_name :: string
  u_password_hash :: "string option"
  u_is_guest :: bool
  u_disabled_at :: "time option"
  u_is_instance_admin :: bool
  u_can_manage_workspaces :: bool

record session_row =
  s_id :: ident
  s_user_id :: ident
  s_token_hash :: string
  s_user_agent :: "string option"
  s_ip_prefix :: "string option"
  s_created_at :: time
  s_last_seen_at :: time
  s_expires_at :: time
  s_revoked_at :: "time option"

record attempt_row =
  a_key :: string
  a_succeeded :: bool
  a_ip_prefix :: "string option"
  a_attempted_at :: time

record workspace_row =
  w_id :: ident
  w_personal_for :: "ident option"

record member_row =
  m_workspace_id :: ident
  m_user_id :: ident
  m_role_id :: ident
  m_is_owner :: bool

record role_row =
  r_id :: ident
  r_workspace_id :: "ident option"
  r_key :: "string option"
  r_name :: string
  r_page_level :: "role option"
  r_rights :: "string list"

record group_row =
  g_id :: ident
  g_workspace_id :: ident
  g_role_id :: "ident option"

record group_member_row =
  gm_group_id :: ident
  gm_user_id :: ident

record page_row =
  p_id :: ident
  p_workspace_id :: ident
  p_parent_page_id :: "ident option"
  p_ancestor_ids :: "ident list"
  p_restricted :: bool

text \<open>A grant to a person (subject a user) or to a group (subject a group).\<close>

record permission_row =
  pp_page_id :: ident
  pp_subject :: ident
  pp_role :: role
  pp_include_subtree :: bool

record cap_row =
  c_page_id :: ident
  c_max_level :: role
  c_include_subtree :: bool

record share_token_row =
  t_id :: ident
  t_workspace_id :: ident
  t_scope_page_id :: ident
  t_include_subtree :: bool
  t_role :: role
  t_token_hash :: string
  t_password_hash :: "string option"
  t_allow_anonymous :: bool
  t_expires_at :: "time option"
  t_revoked_at :: "time option"

record share_session_row =
  ss_id :: ident
  ss_share_token_id :: ident
  ss_display_name :: string
  ss_ip_prefix :: "string option"
  ss_last_seen_at :: time
  ss_expires_at :: time

record database =
  users :: "user_row list"
  sessions :: "session_row list"
  auth_attempts :: "attempt_row list"
  workspaces :: "workspace_row list"
  workspace_members :: "member_row list"
  roles :: "role_row list"
  groups :: "group_row list"
  group_members :: "group_member_row list"
  pages :: "page_row list"
  page_permissions :: "permission_row list"
  page_group_permissions :: "permission_row list"
  page_caps :: "cap_row list"
  share_tokens :: "share_token_row list"
  share_sessions :: "share_session_row list"

section \<open>The role ladder as a linear order\<close>

instantiation role :: linorder
begin

definition less_eq_role :: "role \<Rightarrow> role \<Rightarrow> bool" where
  "less_eq_role a b = (roleIndex ROLE_ORDER a \<le> roleIndex ROLE_ORDER b)"

definition less_role :: "role \<Rightarrow> role \<Rightarrow> bool" where
  "less_role a b = (roleIndex ROLE_ORDER a < roleIndex ROLE_ORDER b)"

instance
proof
  fix x y z :: role
  show "(x < y) = (x \<le> y \<and> \<not> y \<le> x)" by (auto simp: less_eq_role_def less_role_def)
  show "x \<le> x" by (simp add: less_eq_role_def)
  show "x \<le> y \<Longrightarrow> y \<le> z \<Longrightarrow> x \<le> z" by (simp add: less_eq_role_def)
  show "x \<le> y \<Longrightarrow> y \<le> x \<Longrightarrow> x = y"
    by (cases x; cases y) (auto simp: less_eq_role_def ROLE_ORDER_def Let_def)
  show "x \<le> y \<or> y \<le> x" by (auto simp: less_eq_role_def)
qed

end

lemma atLeast_role_iff [simp]: "atLeast_role have need = (need \<le> have)"
  by (simp add: atLeast_role_def less_eq_role_def)

lemma Admin_greatest [simp]: "r \<le> Admin"
  by (cases r) (simp_all add: less_eq_role_def ROLE_ORDER_def Let_def)

lemma Admin_le [simp]: "Admin \<le> r \<longleftrightarrow> r = Admin"
  using Admin_greatest by (auto intro: antisym)

lemma Viewer_least [simp]: "Viewer \<le> r"
  by (cases r) (simp_all add: less_eq_role_def ROLE_ORDER_def Let_def)

end
