(* ===== verification/Standing.thy ===== *)
theory Standing
  imports Database
begin

text \<open>
  \<^verbatim>\<open>packages/server/src/auth/standing.ts\<close>, \<^verbatim>\<open>auth/rights.ts\<close> and \<^verbatim>\<open>admin/rights.ts\<close>: what somebody
  holds in a workspace (the role of the membership joined with the roles of every group), the four
  system roles, the SQL conditions the listing queries paste, and the two ways to hold a right.
  The lemmas show that the standing is the maximum of the page levels and the union of the rights.
\<close>

section \<open>Definitions\<close>

record workspace_standing =
  st_role :: "string option"
  st_isMember :: bool
  st_pageLevel :: "role option"
  st_rights :: "string list"
  st_isOwner :: bool

record system_role =
  sr_key :: string
  sr_name :: string
  sr_level :: "role option"
  sr_rights :: "string list"

definition SYSTEM_ROLES :: "system_role list" where
  "SYSTEM_ROLES =
     [\<lparr>sr_key = ''owner'', sr_name = ''Owner'', sr_level = Some Admin, sr_rights = RIGHTS\<rparr>,
      \<lparr>sr_key = ''admin'', sr_name = ''Admin'', sr_level = Some Admin, sr_rights = RIGHTS\<rparr>,
      \<lparr>sr_key = ''member'', sr_name = ''Member'', sr_level = Some Editor, sr_rights = []\<rparr>,
      \<lparr>sr_key = ''guest'', sr_name = ''Guest'', sr_level = None, sr_rights = []\<rparr>]"

text \<open>\<open>INSERT ... ON CONFLICT (key) DO NOTHING\<close>, one statement per system role; \<open>fresh\<close> is the row
  identifier the database draws for a key.\<close>

definition ensureSystemRole :: "(string \<Rightarrow> ident) \<Rightarrow> system_role \<Rightarrow> database \<Rightarrow> database" where
  "ensureSystemRole fresh sr db =
     (if \<exists>r \<in> set (roles db). r_key r = Some (sr_key sr) then db
      else db\<lparr>roles := roles db @
        [\<lparr>r_id = fresh (sr_key sr), r_workspace_id = None, r_key = Some (sr_key sr), r_name = sr_name sr,
          r_page_level = sr_level sr, r_rights = sr_rights sr\<rparr>]\<rparr>)"

definition ensureSystemRoles :: "(string \<Rightarrow> ident) \<Rightarrow> database \<Rightarrow> database" where
  "ensureSystemRoles fresh db = fold (ensureSystemRole fresh) SYSTEM_ROLES db"

definition noStanding :: workspace_standing where
  "noStanding = \<lparr>st_role = None, st_isMember = False, st_pageLevel = None, st_rights = [], st_isOwner = False\<rparr>"

datatype standing_error = SystemRolesMissing

text \<open>The common table expressions of \<open>loadWorkspaceStanding\<close>: the membership row and the roles held.\<close>

definition memberRow :: "database \<Rightarrow> ident \<Rightarrow> ident \<Rightarrow> member_row option" where
  "memberRow db userId workspaceId =
     queryOne (filter (\<lambda>m. m_workspace_id m = workspaceId \<and> m_user_id m = userId) (workspace_members db))"

definition ownRoles :: "database \<Rightarrow> member_row \<Rightarrow> role_row list" where
  "ownRoles db m = filter (\<lambda>r. r_id r = m_role_id m) (roles db)"

definition groupRoles :: "database \<Rightarrow> ident \<Rightarrow> ident \<Rightarrow> role_row list" where
  "groupRoles db userId workspaceId =
     concat (map (\<lambda>gm.
       concat (map (\<lambda>g. filter (\<lambda>r. g_role_id g = Some (r_id r)) (roles db))
         (filter (\<lambda>g. g_id g = gm_group_id gm \<and> g_workspace_id g = workspaceId) (groups db))))
       (filter (\<lambda>gm. gm_user_id gm = userId) (group_members db)))"

fun greatestRole :: "role list \<Rightarrow> role option" where
  "greatestRole [] = None"
| "greatestRole (r # rs) =
     (case greatestRole rs of None \<Rightarrow> Some r | Some b \<Rightarrow> Some (if atLeast_role r b then r else b))"

fun somes :: "'a option list \<Rightarrow> 'a list" where
  "somes [] = []"
| "somes (None # xs) = somes xs"
| "somes (Some x # xs) = x # somes xs"

definition loadWorkspaceStanding ::
  "database \<Rightarrow> ident \<Rightarrow> ident \<Rightarrow> standing_error + workspace_standing" where
  "loadWorkspaceStanding db userId workspaceId =
     (case memberRow db userId workspaceId of
        None \<Rightarrow> Inr noStanding
      | Some m \<Rightarrow>
          let own = ownRoles db m;
              held = own @ groupRoles db userId workspaceId;
              roleKey = queryOne (somes (map r_key own));
              pageLevel = greatestRole (somes (map r_page_level held));
              rightNames = remdups (concat (map r_rights held))
          in
          if roleKey = None \<and> pageLevel = None \<and> \<not> m_is_owner m \<and>
             filter (\<lambda>r. r_workspace_id r = None) (roles db) = []
          then Inl SystemRolesMissing
          else Inr \<lparr>st_role = (case roleKey of None \<Rightarrow> None
                                | Some k \<Rightarrow> if k \<in> set SYSTEM_KEYS then Some k else None),
                    st_isMember = True,
                    st_pageLevel = pageLevel,
                    st_rights = filter (\<lambda>one. one \<in> set RIGHTS) rightNames,
                    st_isOwner = m_is_owner m\<rparr>)"

text \<open>\<open>workspaceLevelCondition\<close> with its \<open>test\<close> on \<open>page_level\<close>, and its two instances.\<close>

definition workspaceLevelCondition ::
  "(role option \<Rightarrow> bool) \<Rightarrow> database \<Rightarrow> page_row \<Rightarrow> ident \<Rightarrow> bool" where
  "workspaceLevelCondition test db p userId =
     (\<exists>m \<in> set (workspace_members db). m_workspace_id m = p_workspace_id p \<and> m_user_id m = userId \<and>
        (\<exists>r \<in> set (roles db). r_id r = m_role_id m \<and>
           (test (r_page_level r) \<or>
            (\<exists>gm \<in> set (group_members db). \<exists>g \<in> set (groups db). \<exists>gr \<in> set (roles db).
               g_id g = gm_group_id gm \<and> g_role_id g = Some (r_id gr) \<and> gm_user_id gm = userId \<and>
               g_workspace_id g = p_workspace_id p \<and> test (r_page_level gr)))))"

definition fullAccessCondition :: "database \<Rightarrow> page_row \<Rightarrow> ident \<Rightarrow> bool" where
  "fullAccessCondition = workspaceLevelCondition (\<lambda>l. l = Some Admin)"

definition anyPageLevelCondition :: "database \<Rightarrow> page_row \<Rightarrow> ident \<Rightarrow> bool" where
  "anyPageLevelCondition = workspaceLevelCondition (\<lambda>l. l \<noteq> None)"

definition isWorkspaceMemberCondition :: "database \<Rightarrow> page_row \<Rightarrow> ident \<Rightarrow> bool" where
  "isWorkspaceMemberCondition db p userId =
     (\<exists>m \<in> set (workspace_members db). m_workspace_id m = p_workspace_id p \<and> m_user_id m = userId)"

record administrator =
  ad_userId :: ident
  ad_instance :: bool
  ad_workspaces :: bool

definition administratorRights :: "database \<Rightarrow> ident \<Rightarrow> administrator" where
  "administratorRights db userId =
     (let row = queryOne (filter (\<lambda>u. u_id u = userId) (users db));
          inst = (case row of None \<Rightarrow> False | Some u \<Rightarrow> u_is_instance_admin u)
      in \<lparr>ad_userId = userId, ad_instance = inst,
          ad_workspaces = (inst \<or> (case row of None \<Rightarrow> False | Some u \<Rightarrow> u_can_manage_workspaces u))\<rparr>)"

text \<open>The pair \<open>{ member, held }\<close>.\<close>

definition holdsRight :: "database \<Rightarrow> ident \<Rightarrow> ident \<Rightarrow> string \<Rightarrow> standing_error + (bool \<times> bool)" where
  "holdsRight db workspaceId userId right =
     rmap (\<lambda>standing.
       if right \<in> set (st_rights standing) then (True, True)
       else (st_isMember standing, ad_workspaces (administratorRights db userId)))
       (loadWorkspaceStanding db userId workspaceId)"

text \<open>
  \<open>requireAnyRight\<close> once the session is known: the user on success, otherwise the HTTP status and
  code of the refusal. The loop asks the rights in turn.
\<close>

fun askRights :: "database \<Rightarrow> ident \<Rightarrow> ident \<Rightarrow> bool \<Rightarrow> string list \<Rightarrow>
    standing_error + ((nat \<times> string) + ident)" where
  "askRights db workspaceId userId member [] =
     Inr (Inl (if member then (403, ''forbidden'') else (404, ''not_found'')))"
| "askRights db workspaceId userId member (right # rights) =
     rbind (holdsRight db workspaceId userId right) (\<lambda>(isMember, held).
       if held then Inr (Inr userId) else askRights db workspaceId userId (member \<or> isMember) rights)"

definition requireAnyRight :: "database \<Rightarrow> ident \<Rightarrow> ident \<Rightarrow> string list \<Rightarrow>
    standing_error + ((nat \<times> string) + ident)" where
  "requireAnyRight db workspaceId userId rights = askRights db workspaceId userId False rights"

definition requireRight :: "database \<Rightarrow> ident \<Rightarrow> ident \<Rightarrow> string \<Rightarrow>
    standing_error + ((nat \<times> string) + ident)" where
  "requireRight db workspaceId userId right = requireAnyRight db workspaceId userId [right]"

definition requireWorkspaceAdministrator :: "database \<Rightarrow> ident \<Rightarrow> (nat \<times> string) + administrator" where
  "requireWorkspaceAdministrator db userId =
     (let rights = administratorRights db userId in
      if \<not> ad_workspaces rights then Inl (404, ''not_found'') else Inr rights)"

definition requireInstanceAdministrator :: "database \<Rightarrow> ident \<Rightarrow> (nat \<times> string) + administrator" where
  "requireInstanceAdministrator db userId =
     (let rights = administratorRights db userId in
      if \<not> ad_instance rights then Inl (404, ''not_found'') else Inr rights)"

text \<open>\<open>STANDING_COLUMNS\<close> over \<open>STANDING_JOIN\<close>: what a workspace listing reports of one membership.\<close>

record standing_columns =
  sc_role :: string
  sc_role_name :: string
  sc_is_owner :: bool
  sc_rights :: "string list"

definition STANDING_COLUMNS :: "database \<Rightarrow> member_row \<Rightarrow> standing_columns list" where
  "STANDING_COLUMNS db m =
     map (\<lambda>mr. \<lparr>sc_role = (case r_key mr of None \<Rightarrow> ''custom'' | Some k \<Rightarrow> k), sc_role_name = r_name mr,
               sc_is_owner = m_is_owner m,
               sc_rights = remdups (r_rights mr @ concat (map r_rights (groupRoles db (m_user_id m) (m_workspace_id m))))\<rparr>)
       (filter (\<lambda>r. r_id r = m_role_id m) (roles db))"

section \<open>Standing as maximum and union\<close>

named_theorems access_simps "unfolding of access queries to sets of rows"

lemma set_somes [simp]: "set (somes xs) = {x. Some x \<in> set xs}"
  by (induction xs rule: somes.induct) auto

lemma greatestRole_None [simp]: "greatestRole rs = None \<longleftrightarrow> rs = []"
  by (cases rs) (auto split: option.splits)

lemma greatestRole_Some: "greatestRole rs = Some g \<longleftrightarrow> g \<in> set rs \<and> (\<forall>r \<in> set rs. r \<le> g)"
proof (induction rs arbitrary: g)
  case Nil
  then show ?case by simp
next
  case (Cons r rs)
  show ?case
  proof (cases "greatestRole rs")
    case None
    then show ?thesis by auto
  next
    case (Some b)
    with Cons.IH [of b] show ?thesis by (auto intro: antisym order_trans)
  qed
qed

lemma memberRow_Some_in:
  "memberRow db u w = Some m \<Longrightarrow> m \<in> set (workspace_members db) \<and> m_workspace_id m = w \<and> m_user_id m = u"
  by (auto simp: memberRow_def dest: queryOne_Some)

lemma memberRow_None_iff:
  "memberRow db u w = None \<longleftrightarrow>
     \<not> (\<exists>m \<in> set (workspace_members db). m_workspace_id m = w \<and> m_user_id m = u)"
  by (auto simp: memberRow_def filter_empty_conv)

lemma set_ownRoles [access_simps]: "r \<in> set (ownRoles db m) \<longleftrightarrow> r \<in> set (roles db) \<and> r_id r = m_role_id m"
  by (auto simp: ownRoles_def)

lemma set_groupRoles [access_simps]:
  "r \<in> set (groupRoles db u w) \<longleftrightarrow> r \<in> set (roles db) \<and>
     (\<exists>gm \<in> set (group_members db). \<exists>g \<in> set (groups db).
        gm_user_id gm = u \<and> g_id g = gm_group_id gm \<and> g_workspace_id g = w \<and> g_role_id g = Some (r_id r))"
  by (auto simp: groupRoles_def)

text \<open>What the primary key of \<open>workspace_members\<close> and the foreign key on \<open>role_id\<close> guarantee.\<close>

definition wf_members :: "database \<Rightarrow> bool" where
  "wf_members db =
     (distinct (map (\<lambda>m. (m_workspace_id m, m_user_id m)) (workspace_members db)) \<and>
      (\<forall>m \<in> set (workspace_members db). \<exists>r \<in> set (roles db). r_id r = m_role_id m))"

lemma memberRow_unique:
  assumes "wf_members db" and "m \<in> set (workspace_members db)"
    and "m_workspace_id m = w" and "m_user_id m = u"
  shows "memberRow db u w = Some m"
proof -
  obtain m' where m': "memberRow db u w = Some m'"
    using assms(2-) memberRow_None_iff [of db u w] by (cases "memberRow db u w") auto
  have "inj_on (\<lambda>m. (m_workspace_id m, m_user_id m)) (set (workspace_members db))"
    using assms(1) by (simp add: wf_members_def distinct_map)
  then have "m' = m"
    using memberRow_Some_in [OF m'] assms(2-) by (elim inj_onD) simp_all
  with m' show ?thesis by simp
qed

lemma standing_cases:
  assumes "loadWorkspaceStanding db u w = Inr st"
  shows "if memberRow db u w = None then st = noStanding
    else \<exists>m. memberRow db u w = Some m \<and> st_isMember st \<and> st_isOwner st = m_is_owner m \<and>
      st_pageLevel st = greatestRole (somes (map r_page_level (ownRoles db m @ groupRoles db u w))) \<and>
      set (st_rights st) = {x \<in> set RIGHTS. \<exists>r \<in> set (ownRoles db m @ groupRoles db u w). x \<in> set (r_rights r)}"
proof (cases "memberRow db u w")
  case None
  with assms show ?thesis by (simp add: loadWorkspaceStanding_def)
next
  case (Some m)
  let ?held = "ownRoles db m @ groupRoles db u w"
  have "set (filter (\<lambda>one. one \<in> set RIGHTS) (remdups (concat (map r_rights ?held)))) =
      {x \<in> set RIGHTS. \<exists>r \<in> set ?held. x \<in> set (r_rights r)}" by auto
  moreover have "st_isMember st \<and> st_isOwner st = m_is_owner m \<and>
      st_pageLevel st = greatestRole (somes (map r_page_level ?held)) \<and>
      st_rights st = filter (\<lambda>one. one \<in> set RIGHTS) (remdups (concat (map r_rights ?held)))"
    using Some assms unfolding loadWorkspaceStanding_def Let_def
    by (clarsimp split: if_split_asm)
  ultimately show ?thesis using Some by simp
qed

section \<open>Properties\<close>

lemma holdsRight_eq:
  assumes "loadWorkspaceStanding db u w = Inr st"
  shows "holdsRight db w u right = Inr
    (if right \<in> set (st_rights st) then (True, True) else (st_isMember st, ad_workspaces (administratorRights db u)))"
  using assms by (simp add: holdsRight_def)

lemma rights_member: "loadWorkspaceStanding db u w = Inr st \<Longrightarrow> x \<in> set (st_rights st) \<Longrightarrow> st_isMember st"
  using standing_cases [of db u w st] by (auto simp: noStanding_def split: if_splits)

lemma askRights_eq:
  assumes "loadWorkspaceStanding db u w = Inr st"
  shows "askRights db w u member rights = Inr
    (if rights \<noteq> [] \<and> ad_workspaces (administratorRights db u) \<or> (\<exists>r \<in> set rights. r \<in> set (st_rights st)) then Inr u
     else Inl (if member \<or> rights \<noteq> [] \<and> st_isMember st then (403, ''forbidden'') else (404, ''not_found'')))"
  using rights_member [OF assms]
  by (induction rights arbitrary: member) (auto simp: holdsRight_eq [OF assms])

text \<open>A right is required exactly. A route that asks for any of some rights lets a person
  through iff their standing carries one of them or they administer workspaces; a member without it
  is told forbidden, and everybody else that there is nothing to find.\<close>

theorem requireAnyRight_decides:
  assumes "loadWorkspaceStanding db u w = Inr st" and "rights \<noteq> []"
  shows "requireAnyRight db w u rights = Inr
    (if ad_workspaces (administratorRights db u) \<or> (\<exists>r \<in> set rights. r \<in> set (st_rights st)) then Inr u
     else Inl (if st_isMember st then (403, ''forbidden'') else (404, ''not_found'')))"
  using askRights_eq [OF assms(1), of False rights] assms(2) by (simp add: requireAnyRight_def)

definition guestDb :: database where
  "guestDb = \<lparr>users = [], sessions = [], auth_attempts = [], workspaces = [],
     workspace_members = [\<lparr>m_workspace_id = ''w'', m_user_id = ''gil'', m_role_id = ''4'', m_is_owner = False\<rparr>],
     roles = [\<lparr>r_id = ''4'', r_workspace_id = None, r_key = Some ''guest'', r_name = ''Guest'', r_page_level = None, r_rights = []\<rparr>],
     groups = [], group_members = [], pages = [], page_permissions = [],
     page_group_permissions = [], page_caps = [], share_tokens = [], share_sessions = []\<rparr>"

theorem requireAnyRight_decides_witness:
  "requireAnyRight guestDb ''w'' ''gil'' [''people.manage'', ''roles.manage''] = Inr (Inl (403, ''forbidden''))"
proof -
  have "loadWorkspaceStanding guestDb ''gil'' ''w'' =
      Inr \<lparr>st_role = Some ''guest'', st_isMember = True, st_pageLevel = None, st_rights = [], st_isOwner = False\<rparr>"
    "\<not> ad_workspaces (administratorRights guestDb ''gil'')"
    by code_simp+
  then show ?thesis using requireAnyRight_decides [of guestDb "''gil''" "''w''" _ "[''people.manage'', ''roles.manage'']"] by simp
qed

text \<open>A listing reports the rights the server decides from. For a membership whose role row is
  unique, the columns a workspace listing selects carry exactly the rights of the loaded standing,
  together with any that the program does not know.\<close>

theorem listing_matches_standing:
  assumes "wf_members db" and "m \<in> set (workspace_members db)" and "ownRoles db m = [mr]"
    and "loadWorkspaceStanding db (m_user_id m) (m_workspace_id m) = Inr st"
  shows "\<exists>row. STANDING_COLUMNS db m = [row] \<and> sc_is_owner row = st_isOwner st \<and>
    set (st_rights st) = set (sc_rights row) \<inter> set RIGHTS"
proof -
  have "memberRow db (m_user_id m) (m_workspace_id m) = Some m" using memberRow_unique [OF assms(1,2)] by simp
  then show ?thesis
    using standing_cases [OF assms(4)] assms(3) unfolding STANDING_COLUMNS_def ownRoles_def [symmetric] by auto
qed

theorem listing_matches_standing_witness:
  "\<exists>row. STANDING_COLUMNS guestDb \<lparr>m_workspace_id = ''w'', m_user_id = ''gil'', m_role_id = ''4'', m_is_owner = False\<rparr> = [row] \<and>
     {} = set (sc_rights row) \<inter> set RIGHTS"
proof -
  let ?m = "\<lparr>m_workspace_id = ''w'', m_user_id = ''gil'', m_role_id = ''4'', m_is_owner = False\<rparr>"
  have "loadWorkspaceStanding guestDb ''gil'' ''w'' =
      Inr \<lparr>st_role = Some ''guest'', st_isMember = True, st_pageLevel = None, st_rights = [], st_isOwner = False\<rparr>"
    "wf_members guestDb" "ownRoles guestDb ?m =
       [\<lparr>r_id = ''4'', r_workspace_id = None, r_key = Some ''guest'', r_name = ''Guest'', r_page_level = None, r_rights = []\<rparr>]"
    by code_simp+
  moreover have "?m \<in> set (workspace_members guestDb)" by (simp add: guestDb_def)
  ultimately obtain row where "STANDING_COLUMNS guestDb ?m = [row]" "set [] = set (sc_rights row) \<inter> set RIGHTS"
    using listing_matches_standing [of guestDb ?m] by fastforce
  then show ?thesis by (intro exI [of _ row]) simp
qed

end
