(* ===== verification/Page_Access.thy ===== *)
theory Page_Access
  imports Standing
begin

text \<open>
  \<^verbatim>\<open>packages/server/src/pages/access.ts\<close>: the access levels and how they combine, the resolver that
  walks from a page to the root (\<open>resolvePageAccess\<close>), and the two conditions that the listing
  queries paste (\<open>visiblePagesCondition\<close>, \<open>isPathOnlyCondition\<close>).

  The recursive common table expression follows \<open>parent_page_id\<close>. It is a fuelled walk: the fuel is
  one more than the number of pages, which a walk without repetition cannot exceed, and \<^const>\<open>None\<close>
  is a query that does not return because the parents form a cycle.
\<close>

section \<open>Definitions\<close>

fun RANK :: "role \<Rightarrow> nat" where
  "RANK Viewer = 1"
| "RANK Commenter = 2"
| "RANK Editor = 3"
| "RANK Admin = 4"

definition atLeast_access :: "role option \<Rightarrow> role \<Rightarrow> bool" where
  "atLeast_access held needed = (case held of None \<Rightarrow> False | Some h \<Rightarrow> RANK needed \<le> RANK h)"

fun morePermissive :: "role option \<Rightarrow> role option \<Rightarrow> role option" where
  "morePermissive None b = b"
| "morePermissive a None = a"
| "morePermissive (Some a) (Some b) = Some (if RANK b \<le> RANK a then a else b)"

fun lessPermissive :: "role option \<Rightarrow> role option \<Rightarrow> role option" where
  "lessPermissive None b = b"
| "lessPermissive a None = a"
| "lessPermissive (Some a) (Some b) = Some (if RANK a \<le> RANK b then a else b)"

definition accessFromRole :: "string option \<Rightarrow> role option" where
  "accessFromRole r =
     (if r = Some ''owner'' \<or> r = Some ''admin'' then Some Admin
      else if r = Some ''member'' then Some Editor else None)"

datatype access_reason = ByRole | ByGrant | Inherited | ByRestriction | ByCap | NotAMember

record resolution =
  access :: "role option"
  reason :: access_reason

definition pageRow :: "database \<Rightarrow> ident \<Rightarrow> page_row option" where
  "pageRow db pid = queryOne (filter (\<lambda>p. p_id p = pid) (pages db))"

text \<open>The walk to the root, the page first; position is the query's \<open>depth\<close>.\<close>

fun ancestry :: "nat \<Rightarrow> database \<Rightarrow> ident \<Rightarrow> page_row list option" where
  "ancestry 0 db pid = None"
| "ancestry (Suc n) db pid =
     (case pageRow db pid of
        None \<Rightarrow> Some []
      | Some p \<Rightarrow>
          (case p_parent_page_id p of
             None \<Rightarrow> Some [p]
           | Some q \<Rightarrow> map_option (\<lambda>rest. p # rest) (ancestry n db q)))"

text \<open>The smallest depth at which a restricted page stands.\<close>

fun fenceDepth :: "page_row list \<Rightarrow> nat option" where
  "fenceDepth [] = None"
| "fenceDepth (p # ps) = (if p_restricted p then Some 0 else map_option Suc (fenceDepth ps))"

text \<open>Grants made to the person, and to a group the person is in.\<close>

definition ownPermissions :: "database \<Rightarrow> ident \<Rightarrow> permission_row list" where
  "ownPermissions db userId = filter (\<lambda>pp. pp_subject pp = userId) (page_permissions db)"

definition groupPermissions :: "database \<Rightarrow> ident \<Rightarrow> permission_row list" where
  "groupPermissions db userId =
     concat (map (\<lambda>gp. map (\<lambda>_. gp)
       (filter (\<lambda>gm. gm_group_id gm = pp_subject gp \<and> gm_user_id gm = userId) (group_members db)))
       (page_group_permissions db))"

text \<open>The \<open>grants\<close> expression: rows joined with the walk, inside their scope and at or below the fence.\<close>

definition walkGrants :: "page_row list \<Rightarrow> ident \<Rightarrow> permission_row list \<Rightarrow> role list" where
  "walkGrants anc pageId rows =
     concat (map (\<lambda>pp. map (\<lambda>_. pp_role pp)
       (filter (\<lambda>(depth, a). p_id a = pp_page_id pp \<and>
            (pp_include_subtree pp \<or> pp_page_id pp = pageId) \<and>
            (case fenceDepth anc of None \<Rightarrow> True | Some f \<Rightarrow> depth \<le> f))
         (zip [0..<length anc] anc))) rows)"

fun leastRole :: "role list \<Rightarrow> role option" where
  "leastRole [] = None"
| "leastRole (r # rs) =
     (case leastRole rs of None \<Rightarrow> Some r | Some b \<Rightarrow> Some (if atLeast_role b r then r else b))"

definition walkCaps :: "page_row list \<Rightarrow> ident \<Rightarrow> cap_row list \<Rightarrow> role list" where
  "walkCaps anc pageId caps =
     concat (map (\<lambda>c. map (\<lambda>_. c_max_level c)
       (filter (\<lambda>a. p_id a = c_page_id c \<and> (c_include_subtree c \<or> c_page_id c = pageId)) anc)) caps)"

text \<open>The row of the query, where it returns one.\<close>

record access_row =
  ar_workspace_id :: ident
  ar_restricted :: bool
  ar_granted :: "role option"
  ar_capped :: "role option"
  ar_owns_workspace :: bool

definition accessRow :: "database \<Rightarrow> page_row list \<Rightarrow> ident \<Rightarrow> ident \<Rightarrow> access_row option" where
  "accessRow db anc pageId userId =
     queryOne (concat (map (\<lambda>a. map (\<lambda>w.
         \<lparr>ar_workspace_id = p_workspace_id a,
          ar_restricted = (\<exists>p \<in> set anc. p_restricted p),
          ar_granted = greatestRole (walkGrants anc pageId (ownPermissions db userId @ groupPermissions db userId)),
          ar_capped = leastRole (walkCaps anc pageId (page_caps db)),
          ar_owns_workspace = (w_personal_for w = Some userId)\<rparr>)
       (filter (\<lambda>w. w_id w = p_workspace_id a) (workspaces db)))
       (filter (\<lambda>a. p_parent_page_id a = None) anc)))"

text \<open>The decision the function makes once the row and the standing are loaded.\<close>

definition decideAccess :: "role option \<Rightarrow> access_row \<Rightarrow> resolution" where
  "decideAccess byRole row =
     (let ceiling = (if byRole = Some Admin then None else ar_capped row) in
      if ar_restricted row then
        let keep = (if byRole = Some Admin then Some Admin else None);
            given = morePermissive keep (ar_granted row);
            acc = lessPermissive given ceiling
        in \<lparr>access = acc,
            reason = (if acc = None then ByRestriction
                      else if (case (ceiling, given) of (Some c, Some g) \<Rightarrow> RANK c < RANK g | _ \<Rightarrow> False) then ByCap
                      else if ar_granted row \<noteq> None then ByGrant else ByRole)\<rparr>
      else
        let given = morePermissive byRole (ar_granted row);
            acc = lessPermissive given ceiling
        in \<lparr>access = acc,
            reason = (if acc = None then NotAMember
                      else if (case (ceiling, given) of (Some c, Some g) \<Rightarrow> RANK c < RANK g | _ \<Rightarrow> False) then ByCap
                      else if (case ar_granted row of None \<Rightarrow> False
                               | Some g \<Rightarrow> (case byRole of None \<Rightarrow> True | Some b \<Rightarrow> RANK b < RANK g)) then ByGrant
                      else ByRole)\<rparr>)"

definition resolvePageAccess ::
  "database \<Rightarrow> ident \<Rightarrow> ident \<Rightarrow> (standing_error + resolution) option" where
  "resolvePageAccess db pageId userId =
     map_option (\<lambda>anc.
       case accessRow db anc pageId userId of
         None \<Rightarrow> Inr \<lparr>access = None, reason = NotAMember\<rparr>
       | Some row \<Rightarrow>
           if ar_owns_workspace row then Inr \<lparr>access = Some Admin, reason = ByRole\<rparr>
           else rmap (\<lambda>standing. decideAccess (st_pageLevel standing) row)
                  (loadWorkspaceStanding db userId (ar_workspace_id row)))
       (ancestry (Suc (length (pages db))) db pageId)"

text \<open>\<open>array_append(ancestor_ids, id)\<close> and \<open>array_position\<close>, which counts from one.\<close>

definition pathOf :: "page_row \<Rightarrow> ident list" where
  "pathOf p = p_ancestor_ids p @ [p_id p]"

fun arrayPosition :: "'a list \<Rightarrow> 'a \<Rightarrow> nat option" where
  "arrayPosition [] x = None"
| "arrayPosition (y # ys) x = (if y = x then Some 1 else map_option Suc (arrayPosition ys x))"

definition fencePosition :: "database \<Rightarrow> page_row \<Rightarrow> nat" where
  "fencePosition db p =
     fold max (somes (map (\<lambda>r. arrayPosition (pathOf p) (p_id r))
       (filter (\<lambda>r. p_id r \<in> set (pathOf p) \<and> p_restricted r) (pages db)))) 1"

definition grantIsBelowFence :: "database \<Rightarrow> page_row \<Rightarrow> ident \<Rightarrow> bool" where
  "grantIsBelowFence db p scope =
     (case arrayPosition (pathOf p) scope of None \<Rightarrow> False | Some k \<Rightarrow> fencePosition db p \<le> k)"

definition visiblePagesCondition :: "database \<Rightarrow> page_row \<Rightarrow> ident option \<Rightarrow> bool" where
  "visiblePagesCondition db p user =
     (case user of
        None \<Rightarrow> False
      | Some userId \<Rightarrow>
          isWorkspaceMemberCondition db p userId \<and>
          (\<not> (\<exists>r \<in> set (pages db). p_id r \<in> set (pathOf p) \<and> p_restricted r) \<and>
             anyPageLevelCondition db p userId
           \<or> fullAccessCondition db p userId
           \<or> (\<exists>pp \<in> set (page_permissions db). pp_subject pp = userId \<and>
                (pp_page_id pp = p_id p \<or> pp_include_subtree pp \<and> pp_page_id pp \<in> set (p_ancestor_ids p)) \<and>
                grantIsBelowFence db p (pp_page_id pp))
           \<or> (\<exists>gp \<in> set (page_group_permissions db). \<exists>gm \<in> set (group_members db).
                gm_group_id gm = pp_subject gp \<and> gm_user_id gm = userId \<and>
                (pp_page_id gp = p_id p \<or> pp_include_subtree gp \<and> pp_page_id gp \<in> set (p_ancestor_ids p)) \<and>
                grantIsBelowFence db p (pp_page_id gp))))"

definition isPathOnlyCondition :: "database \<Rightarrow> page_row \<Rightarrow> ident \<Rightarrow> bool" where
  "isPathOnlyCondition db p userId =
     ((\<exists>pp \<in> set (page_permissions db). \<exists>child \<in> set (pages db).
         p_id child = pp_page_id pp \<and> pp_subject pp = userId \<and> p_id p \<in> set (p_ancestor_ids child)) \<or>
      (\<exists>gp \<in> set (page_group_permissions db). \<exists>gm \<in> set (group_members db). \<exists>child \<in> set (pages db).
         gm_group_id gm = pp_subject gp \<and> p_id child = pp_page_id gp \<and> gm_user_id gm = userId \<and>
         p_id p \<in> set (p_ancestor_ids child)))"

section \<open>Combining levels\<close>

lemma leastRole_None [simp]: "leastRole rs = None \<longleftrightarrow> rs = []"
  by (cases rs) (auto split: option.splits)

lemma leastRole_Some: "leastRole rs = Some g \<longleftrightarrow> g \<in> set rs \<and> (\<forall>r \<in> set rs. g \<le> r)"
proof (induction rs arbitrary: g)
  case Nil
  then show ?case by simp
next
  case (Cons r rs)
  show ?case
  proof (cases "leastRole rs")
    case None
    then show ?thesis by auto
  next
    case (Some b)
    with Cons.IH [of b] show ?thesis by (auto intro: antisym order_trans)
  qed
qed

text \<open>Both depend on the set of levels only.\<close>

lemma greatestRole_cong:
  assumes "set xs = set ys"
  shows "greatestRole xs = greatestRole ys"
proof (cases "greatestRole ys")
  case None
  with assms show ?thesis by simp
next
  case (Some g)
  then have "greatestRole xs = Some g" using assms unfolding greatestRole_Some by simp
  with Some show ?thesis by simp
qed

lemma leastRole_cong:
  assumes "set xs = set ys"
  shows "leastRole xs = leastRole ys"
proof (cases "leastRole ys")
  case None
  with assms show ?thesis by simp
next
  case (Some g)
  then have "leastRole xs = Some g" using assms unfolding leastRole_Some by simp
  with Some show ?thesis by simp
qed

lemma RANK_le_iff [simp]: "RANK a \<le> RANK b \<longleftrightarrow> a \<le> b"
  by (cases a; cases b) (simp_all add: less_eq_role_def ROLE_ORDER_def Let_def)

lemma RANK_less_iff [simp]: "RANK a < RANK b \<longleftrightarrow> a < b"
  by (simp add: not_le [symmetric])

lemma morePermissive_greatest:
  "morePermissive (greatestRole xs) (greatestRole ys) = greatestRole (xs @ ys)"
proof (cases "greatestRole xs")
  case (Some a)
  show ?thesis
  proof (cases "greatestRole ys")
    case (Some b)
    have "greatestRole (xs @ ys) = Some (if b \<le> a then a else b)"
      using \<open>greatestRole xs = Some a\<close> Some unfolding greatestRole_Some
      by (auto intro: order_trans)
    with \<open>greatestRole xs = Some a\<close> Some show ?thesis by simp
  qed (use Some in simp)
qed simp

lemma lessPermissive_min:
  "lessPermissive (Some a) c = Some (case c of None \<Rightarrow> a | Some b \<Rightarrow> min a b)"
  by (cases c) (auto simp: min_def)

end
