(* ===== verification/Sessions.thy ===== *)
theory Sessions
  imports Database
begin

text \<open>
  \<^verbatim>\<open>packages/server/src/auth/session.ts\<close>: rate-limited login, the session rows, their resolution,
  revocation and pruning, and the password change. The cryptographic primitives (SHA-256, scrypt,
  random tokens and row identifiers drawn by the database) are parameters, collected in a record.
  An operation returns its result together with the database it leaves behind, because a refused
  login also writes.
\<close>

section \<open>Definitions\<close>

datatype auth_code =
    InvalidCredentials
  | RateLimited
  | Expired
  | Revoked
  | NotFound
  | WeakPassword
  | InvalidSetupKey

definition SESSION_TTL_DAYS :: int where
  "SESSION_TTL_DAYS = 30"

definition SESSION_IDLE_DAYS :: int where
  "SESSION_IDLE_DAYS = 14"

definition LOGIN_ATTEMPT_LIMIT :: nat where
  "LOGIN_ATTEMPT_LIMIT = 10"

definition LOGIN_ATTEMPT_WINDOW_MINUTES :: int where
  "LOGIN_ATTEMPT_WINDOW_MINUTES = 15"

definition minutes :: "int \<Rightarrow> time" where
  "minutes n = n * 60000"

definition days :: "int \<Rightarrow> time" where
  "days n = n * 86400000"

text \<open>
  What the module takes from elsewhere: \<open>hashToken\<close>, \<open>verifyPassword\<close> (validity and
  \<open>needsRehash\<close>) and \<open>hashPassword\<close> of \<^verbatim>\<open>password.ts\<close>, built on Node's crypto library.
\<close>

record crypto =
  hashToken :: "string \<Rightarrow> string"
  verifyPassword :: "string \<Rightarrow> string \<Rightarrow> bool \<times> bool"
  hashPassword :: "string \<Rightarrow> auth_code + string"

record session_user =
  su_userId :: ident
  su_email :: "string option"
  su_displayName :: string
  su_isGuest :: bool

record created_session =
  cs_token :: string
  cs_sessionId :: ident
  cs_expiresAt :: time
  cs_userId :: ident

record login_input =
  li_email :: string
  li_password :: string
  li_userAgent :: "string option"
  li_ipPrefix :: "string option"

text \<open>\<open>lower(email)\<close> in a database of C locale folds the ASCII letters only.\<close>

definition sqlLower :: "string \<Rightarrow> string" where
  "sqlLower s = map (\<lambda>c. let n = charCode c in if 65 \<le> n \<and> n \<le> 90 then fromCharCode (n + 32) else c) s"

definition isRecentFailure :: "time \<Rightarrow> string \<Rightarrow> attempt_row \<Rightarrow> bool" where
  "isRecentFailure now key a =
     (a_key a = key \<and> \<not> a_succeeded a \<and> now - minutes LOGIN_ATTEMPT_WINDOW_MINUTES < a_attempted_at a)"

definition recentFailures :: "time \<Rightarrow> database \<Rightarrow> string \<Rightarrow> nat" where
  "recentFailures now db key = length (filter (isRecentFailure now key) (auth_attempts db))"

definition recordAttempt ::
  "time \<Rightarrow> string \<Rightarrow> bool \<Rightarrow> string option \<Rightarrow> database \<Rightarrow> database" where
  "recordAttempt now key succeeded ip db =
     db\<lparr>auth_attempts := auth_attempts db @
        [\<lparr>a_key = key, a_succeeded = succeeded, a_ip_prefix = ip, a_attempted_at = now\<rparr>]\<rparr>"

definition clearAttempts :: "string \<Rightarrow> database \<Rightarrow> database" where
  "clearAttempts key db =
     db\<lparr>auth_attempts := filter (\<lambda>a. \<not> (a_key a = key \<and> \<not> a_succeeded a)) (auth_attempts db)\<rparr>"

definition DUMMY_HASH :: string where
  "DUMMY_HASH = ''scrypt$65536$8$1$AAAAAAAAAAAAAAAAAAAAAA==$AAAAAAAAAAAAAAAAAAAAAAAAAAAAAAAAAAAAAAAAAAA=''"

text \<open>\<open>token\<close> is what \<open>generateToken\<close> drew, \<open>sid\<close> the row identifier the database drew.\<close>

definition createSession ::
  "crypto \<Rightarrow> time \<Rightarrow> string \<Rightarrow> ident \<Rightarrow> ident \<Rightarrow> string option \<Rightarrow> string option \<Rightarrow> database \<Rightarrow>
     created_session \<times> database" where
  "createSession cr now token sid userId userAgent ip db =
     (let expiresAt = now + days SESSION_TTL_DAYS;
          row = \<lparr>s_id = sid, s_user_id = userId, s_token_hash = hashToken cr token,
                 s_user_agent = map_option (take 256) userAgent, s_ip_prefix = ip,
                 s_created_at = now, s_last_seen_at = now, s_expires_at = expiresAt,
                 s_revoked_at = None\<rparr>
      in (\<lparr>cs_token = token, cs_sessionId = sid, cs_expiresAt = expiresAt, cs_userId = userId\<rparr>,
          db\<lparr>sessions := sessions db @ [row]\<rparr>))"

definition setPasswordHash :: "string \<Rightarrow> ident \<Rightarrow> database \<Rightarrow> database" where
  "setPasswordHash hash userId db =
     db\<lparr>users := map (\<lambda>u. if u_id u = userId then u\<lparr>u_password_hash := Some hash\<rparr> else u) (users db)\<rparr>"

definition loginKey :: "string \<Rightarrow> string" where
  "loginKey email = ''login:'' @ toLowerCase (trim email)"

definition login ::
  "crypto \<Rightarrow> time \<Rightarrow> string \<Rightarrow> ident \<Rightarrow> login_input \<Rightarrow> database \<Rightarrow> (auth_code + created_session) \<times> database" where
  "login cr now token sid input db =
     (let email = toLowerCase (trim (li_email input));
          rateKey = loginKey (li_email input) in
      if LOGIN_ATTEMPT_LIMIT \<le> recentFailures now db rateKey then (Inl RateLimited, db)
      else
        let user = queryOne (filter (\<lambda>u. map_option sqlLower (u_email u) = Some email) (users db));
            storedHash = (case Option.bind user u_password_hash of None \<Rightarrow> DUMMY_HASH | Some h \<Rightarrow> h);
            (valid, needsRehash) = verifyPassword cr (li_password input) storedHash
        in case user of
             None \<Rightarrow> (Inl InvalidCredentials, recordAttempt now rateKey False (li_ipPrefix input) db)
           | Some u \<Rightarrow>
               if \<not> valid \<or> u_disabled_at u \<noteq> None
               then (Inl InvalidCredentials, recordAttempt now rateKey False (li_ipPrefix input) db)
               else
                 (case (if needsRehash then rmap Some (hashPassword cr (li_password input)) else Inr None) of
                    Inl e \<Rightarrow> (Inl e, db)
                  | Inr upgraded \<Rightarrow>
                      let db1 = (case upgraded of None \<Rightarrow> db | Some h \<Rightarrow> setPasswordHash h (u_id u) db);
                          db2 = recordAttempt now rateKey True (li_ipPrefix input) (clearAttempts rateKey db1);
                          (cs, db3) = createSession cr now token sid (u_id u) (li_userAgent input)
                                        (li_ipPrefix input) db2
                      in (Inr cs, db3)))"

text \<open>The rows \<open>resolveSession\<close> accepts: live, not idle, of an account that is not disabled.\<close>

definition sessionUsable :: "time \<Rightarrow> session_row \<Rightarrow> bool" where
  "sessionUsable now s =
     (s_revoked_at s = None \<and> now < s_expires_at s \<and> now - days SESSION_IDLE_DAYS < s_last_seen_at s)"

definition sessionJoin :: "(session_row \<Rightarrow> bool) \<Rightarrow> database \<Rightarrow> (session_row \<times> user_row) list" where
  "sessionJoin ok db =
     concat (map (\<lambda>s. map (\<lambda>u. (s, u))
       (filter (\<lambda>u. u_id u = s_user_id s \<and> u_disabled_at u = None) (users db)))
       (filter ok (sessions db)))"

definition resolveSession ::
  "crypto \<Rightarrow> time \<Rightarrow> string \<Rightarrow> database \<Rightarrow> (session_user \<times> ident) option \<times> database" where
  "resolveSession cr now token db =
     (case queryOne (sessionJoin (\<lambda>s. s_token_hash s = hashToken cr token \<and> sessionUsable now s) db) of
        None \<Rightarrow> (None, db)
      | Some (s, u) \<Rightarrow>
          (Some (\<lparr>su_userId = u_id u, su_email = u_email u, su_displayName = u_display_name u,
                  su_isGuest = u_is_guest u\<rparr>, s_id s),
           db\<lparr>sessions := map (\<lambda>x. if s_id x = s_id s \<and> s_last_seen_at x < now - minutes 5
                                   then x\<lparr>s_last_seen_at := now\<rparr> else x) (sessions db)\<rparr>))"

definition resolveSessionId :: "crypto \<Rightarrow> time \<Rightarrow> string \<Rightarrow> database \<Rightarrow> ident option" where
  "resolveSessionId cr now token db =
     map_option s_id (queryOne (filter (\<lambda>s. s_token_hash s = hashToken cr token \<and>
        s_revoked_at s = None \<and> now < s_expires_at s) (sessions db)))"

definition accountPresent :: "crypto \<Rightarrow> time \<Rightarrow> string option \<Rightarrow> database \<Rightarrow> bool \<times> database" where
  "accountPresent cr now token db =
     (case token of
        None \<Rightarrow> (False, db)
      | Some t \<Rightarrow>
          if t = [] then (False, db)
          else case resolveSession cr now t db of (r, db') \<Rightarrow> (r \<noteq> None, db'))"

definition revokeSession :: "time \<Rightarrow> ident \<Rightarrow> database \<Rightarrow> database" where
  "revokeSession now sid db =
     db\<lparr>sessions := map (\<lambda>s. if s_id s = sid \<and> s_revoked_at s = None
                               then s\<lparr>s_revoked_at := Some now\<rparr> else s) (sessions db)\<rparr>"

text \<open>The count is the number of rows the update touched.\<close>

definition revokeAllSessions :: "time \<Rightarrow> ident \<Rightarrow> ident option \<Rightarrow> database \<Rightarrow> nat \<times> database" where
  "revokeAllSessions now userId keep db =
     (let hit = (\<lambda>s. s_user_id s = userId \<and> s_revoked_at s = None \<and>
                     (case keep of None \<Rightarrow> True | Some k \<Rightarrow> s_id s \<noteq> k))
      in (length (filter hit (sessions db)),
          db\<lparr>sessions := map (\<lambda>s. if hit s then s\<lparr>s_revoked_at := Some now\<rparr> else s) (sessions db)\<rparr>))"

record active_session =
  as_id :: ident
  as_userAgent :: "string option"
  as_createdAt :: time
  as_lastSeenAt :: time
  as_isCurrent :: bool

definition listSessions :: "time \<Rightarrow> ident \<Rightarrow> ident \<Rightarrow> database \<Rightarrow> active_session list" where
  "listSessions now userId current db =
     map (\<lambda>s. \<lparr>as_id = s_id s, as_userAgent = s_user_agent s, as_createdAt = s_created_at s,
               as_lastSeenAt = s_last_seen_at s, as_isCurrent = (s_id s = current)\<rparr>)
       (sort_by (\<lambda>a b. s_last_seen_at b - s_last_seen_at a)
         (filter (\<lambda>s. s_user_id s = userId \<and> s_revoked_at s = None \<and> now < s_expires_at s) (sessions db)))"

definition changePassword ::
  "crypto \<Rightarrow> time \<Rightarrow> ident \<Rightarrow> string \<Rightarrow> string \<Rightarrow> ident option \<Rightarrow> database \<Rightarrow> (auth_code + unit) \<times> database" where
  "changePassword cr now userId currentPassword newPassword keep db =
     (case Option.bind (queryOne (filter (\<lambda>u. u_id u = userId) (users db))) u_password_hash of
        None \<Rightarrow> (Inl NotFound, db)
      | Some stored \<Rightarrow>
          if stored = [] then (Inl NotFound, db)
          else if \<not> fst (verifyPassword cr currentPassword stored) then (Inl InvalidCredentials, db)
          else
            (case hashPassword cr newPassword of
               Inl e \<Rightarrow> (Inl e, db)
             | Inr hash \<Rightarrow> (Inr (), snd (revokeAllSessions now userId keep (setPasswordHash hash userId db)))))"

definition pruneAuthTables :: "time \<Rightarrow> database \<Rightarrow> (nat \<times> nat) \<times> database" where
  "pruneAuthTables now db =
     (let oldSession = (\<lambda>s. s_expires_at s < now - days 7);
          oldAttempt = (\<lambda>a. a_attempted_at a < now - minutes (24 * 60))
      in ((length (filter oldSession (sessions db)), length (filter oldAttempt (auth_attempts db))),
          db\<lparr>sessions := filter (\<lambda>s. \<not> oldSession s) (sessions db),
             auth_attempts := filter (\<lambda>a. \<not> oldAttempt a) (auth_attempts db)\<rparr>))"

text \<open>A sequence of login requests, as the server answers them one after the other.\<close>

fun loginAll ::
  "crypto \<Rightarrow> (time \<times> string \<times> ident \<times> login_input) list \<Rightarrow> database \<Rightarrow>
     (auth_code + created_session) list \<times> database" where
  "loginAll cr [] db = ([], db)"
| "loginAll cr ((now, token, sid, input) # rest) db =
     (case login cr now token sid input db of
        (r, db') \<Rightarrow> (case loginAll cr rest db' of (rs, db'') \<Rightarrow> (r # rs, db'')))"

section \<open>The failure ledger\<close>

lemma recentFailures_record [simp]:
  "recentFailures now (recordAttempt at key ok ip db) key =
     recentFailures now db key +
     (if \<not> ok \<and> now - minutes LOGIN_ATTEMPT_WINDOW_MINUTES < at then 1 else 0)"
  by (simp add: recentFailures_def recordAttempt_def isRecentFailure_def)

text \<open>A refused login leaves the database as it was or adds one failure to the ledger.\<close>

lemma login_refused:
  assumes "login cr now token sid input db = (Inl e, db')"
  shows "db' = db \<or> db' = recordAttempt now (loginKey (li_email input)) False (li_ipPrefix input) db"
  using assms by (auto simp: login_def Let_def split: if_splits prod.splits option.splits sum.splits)

lemma login_invalid_credentials:
  assumes "login cr now token sid input db = (Inl InvalidCredentials, db')"
    and "\<forall>p. hashPassword cr p \<noteq> Inl InvalidCredentials"
  shows "db' = recordAttempt now (loginKey (li_email input)) False (li_ipPrefix input) db"
  using assms
  by (auto simp: login_def Let_def result_simps split: if_splits prod.splits option.splits sum.splits)

lemma loginAll_counts:
  assumes "loginAll cr attempts db = (results, db')"
    and "\<forall>p. hashPassword cr p \<noteq> Inl InvalidCredentials"
    and "\<forall>(at, token, sid, input) \<in> set attempts.
           loginKey (li_email input) = key \<and> now - minutes LOGIN_ATTEMPT_WINDOW_MINUTES < at"
    and "\<forall>r \<in> set results. \<exists>e. r = Inl e"
  shows "recentFailures now db key + length (filter (\<lambda>r. r = Inl InvalidCredentials) results)
           \<le> recentFailures now db' key"
  using assms(1,3,4)
proof (induction attempts arbitrary: db results)
  case Nil
  then show ?case by simp
next
  case (Cons a rest)
  obtain at token sid input where a: "a = (at, token, sid, input)" by (cases a)
  obtain r db1 where r: "login cr at token sid input db = (r, db1)" by fastforce
  obtain rs where rs: "loginAll cr rest db1 = (rs, db')" "results = r # rs"
    using Cons.prems(1) a r by (auto split: prod.splits)
  have IH: "recentFailures now db1 key + length (filter (\<lambda>r. r = Inl InvalidCredentials) rs)
      \<le> recentFailures now db' key"
    using Cons.IH [OF rs(1)] Cons.prems a rs(2) by auto
  obtain e where e: "r = Inl e" using Cons.prems(3) rs(2) by auto
  have "recentFailures now db key + (if e = InvalidCredentials then 1 else 0) \<le> recentFailures now db1 key"
    using login_refused [OF r [unfolded e]] login_invalid_credentials [of cr at token sid input db db1]
      assms(2) Cons.prems(2) a r e by auto
  with IH e rs(2) show ?case by auto
qed

section \<open>Resolution and revocation\<close>

lemma sessionJoin_iff:
  "(s, u) \<in> set (sessionJoin ok db) \<longleftrightarrow>
     s \<in> set (sessions db) \<and> ok s \<and> u \<in> set (users db) \<and> u_id u = s_user_id s \<and> u_disabled_at u = None"
  by (auto simp: sessionJoin_def)

text \<open>Whoever a token resolves to, it does so through a usable row of an enabled account.\<close>

lemma resolveSession_row:
  assumes "resolveSession cr now token db = (Some (user, sid), db')"
  shows "\<exists>s u. s \<in> set (sessions db) \<and> s_id s = sid \<and> s_token_hash s = hashToken cr token \<and>
    sessionUsable now s \<and> u \<in> set (users db) \<and> u_id u = s_user_id s \<and> u_disabled_at u = None \<and>
    su_userId user = u_id u"
proof -
  obtain s u where q: "queryOne (sessionJoin (\<lambda>s. s_token_hash s = hashToken cr token \<and>
      sessionUsable now s) db) = Some (s, u)" and "sid = s_id s" "su_userId user = u_id u"
    using assms by (auto simp: resolveSession_def split: option.splits)
  with queryOne_Some [OF q] show ?thesis
    by (intro exI [of _ s] exI [of _ u]) (simp add: sessionJoin_iff)
qed

lemma users_setPasswordHash_sessions [simp]: "sessions (setPasswordHash h uid db) = sessions db"
  by (simp add: setPasswordHash_def)

lemma revokeAllSessions_sessions:
  assumes "s \<in> set (sessions (snd (revokeAllSessions now userId keep db)))"
    and "s_user_id s = userId" and "s_revoked_at s = None"
  shows "keep = Some (s_id s)"
proof -
  define hit where "hit = (\<lambda>s :: session_row. s_user_id s = userId \<and> s_revoked_at s = None \<and>
    (case keep of None \<Rightarrow> True | Some k \<Rightarrow> s_id s \<noteq> k))"
  have "s \<in> (\<lambda>s. if hit s then s\<lparr>s_revoked_at := Some now\<rparr> else s) ` set (sessions db)"
    using assms(1) by (simp add: revokeAllSessions_def Let_def hit_def)
  then obtain s0 where s0: "s = (if hit s0 then s0\<lparr>s_revoked_at := Some now\<rparr> else s0)" by blast
  with assms(3) have "\<not> hit s0" by auto
  with s0 assms(2,3) show ?thesis by (auto simp: hit_def split: option.splits)
qed

section \<open>A small instance\<close>

text \<open>Concrete data for the witnesses: primitives that compare in the clear, one account.\<close>

definition plainCrypto :: crypto where
  "plainCrypto = \<lparr>hashToken = (\<lambda>t. t), verifyPassword = (\<lambda>p h. (p = h, False)), hashPassword = (\<lambda>p. Inr p)\<rparr>"

definition ada :: user_row where
  "ada = \<lparr>u_id = ''ada'', u_email = Some ''ada@example.org'', u_display_name = ''Ada'',
          u_password_hash = Some ''analytical engine'', u_is_guest = False, u_disabled_at = None,
          u_is_instance_admin = False, u_can_manage_workspaces = False\<rparr>"

definition emptyDb :: database where
  "emptyDb = \<lparr>users = [], sessions = [], auth_attempts = [], workspaces = [], workspace_members = [],
     roles = [], groups = [], group_members = [], pages = [], page_permissions = [],
     page_group_permissions = [], page_caps = [], share_tokens = [], share_sessions = []\<rparr>"

definition wrongLogin :: "string \<Rightarrow> login_input" where
  "wrongLogin pw = \<lparr>li_email = '' Ada@Example.org'', li_password = pw, li_userAgent = None, li_ipPrefix = None\<rparr>"

section \<open>Properties\<close>

text \<open>C3: ten failed logins for one address lock it. After any sequence of login attempts on the
  address inside the window that all failed, of which at least ten were refused for their
  credentials, the next attempt is refused as rate limited whatever its password, and leaves the
  database untouched.\<close>

theorem login_lockout:
  assumes "loginAll cr attempts db = (results, db')"
    and "\<forall>p. hashPassword cr p \<noteq> Inl InvalidCredentials"
    and "\<forall>(at, token, sid, input) \<in> set attempts.
           loginKey (li_email input) = loginKey (li_email again) \<and>
           now - minutes LOGIN_ATTEMPT_WINDOW_MINUTES < at"
    and "\<forall>r \<in> set results. \<exists>e. r = Inl e"
    and "10 \<le> length (filter (\<lambda>r. r = Inl InvalidCredentials) results)"
  shows "login cr now token' sid' again db' = (Inl RateLimited, db')"
  using loginAll_counts [OF assms(1-4)] assms(5)
  by (simp add: login_def LOGIN_ATTEMPT_LIMIT_def Let_def)

theorem login_lockout_witness:
  "login plainCrypto 60000 ''t'' ''s'' (wrongLogin ''analytical engine'')
     (snd (loginAll plainCrypto (replicate 10 (1000, ''t'', ''s'', wrongLogin ''guess'')) (emptyDb\<lparr>users := [ada]\<rparr>))) =
   (Inl RateLimited,
     snd (loginAll plainCrypto (replicate 10 (1000, ''t'', ''s'', wrongLogin ''guess'')) (emptyDb\<lparr>users := [ada]\<rparr>)))"
proof (rule login_lockout)
  let ?run = "loginAll plainCrypto (replicate 10 (1000, ''t'', ''s'', wrongLogin ''guess'')) (emptyDb\<lparr>users := [ada]\<rparr>)"
  have r: "fst ?run = replicate 10 (Inl InvalidCredentials)" by code_simp
  show "?run = (replicate 10 (Inl InvalidCredentials), snd ?run)"
    using r by (metis prod.collapse)
qed (auto simp: plainCrypto_def minutes_def LOGIN_ATTEMPT_WINDOW_MINUTES_def wrongLogin_def)

text \<open>C4: changing the password ends every other session of the account. After a successful change,
  a token that still resolves to that account resolves to the one session that was kept.\<close>

theorem changePassword_revokes_others:
  assumes "changePassword cr now userId old new keep db = (Inr (), db')"
    and "resolveSession cr later token db' = (Some (user, sid), db'')"
    and "su_userId user = userId"
  shows "keep = Some sid"
proof -
  obtain h where db': "db' = snd (revokeAllSessions now userId keep (setPasswordHash h userId db))"
    using assms(1) by (auto simp: changePassword_def split: option.splits if_splits sum.splits)
  obtain s where "s \<in> set (sessions db')" "s_id s = sid" "sessionUsable later s" "s_user_id s = userId"
    using resolveSession_row [OF assms(2)] assms(3) by auto
  with revokeAllSessions_sessions [of s now userId keep] db' show ?thesis
    by (auto simp: sessionUsable_def)
qed

definition twoSessions :: database where
  "twoSessions = snd (createSession plainCrypto 1000 ''t2'' ''s2'' ''ada'' None None
     (snd (createSession plainCrypto 0 ''t1'' ''s1'' ''ada'' None None (emptyDb\<lparr>users := [ada]\<rparr>))))"

theorem changePassword_revokes_others_witness:
  "\<exists>db' user sid db''.
     changePassword plainCrypto 2000 ''ada'' ''analytical engine'' ''difference engine'' (Some ''s2'') twoSessions = (Inr (), db') \<and>
     resolveSession plainCrypto 3000 ''t2'' db' = (Some (user, sid), db'') \<and> su_userId user = ''ada'' \<and>
     Some ''s2'' = Some sid \<and> fst (resolveSession plainCrypto 3000 ''t1'' db') = None"
proof -
  let ?ch = "changePassword plainCrypto 2000 ''ada'' ''analytical engine'' ''difference engine'' (Some ''s2'') twoSessions"
  let ?re = "resolveSession plainCrypto 3000 ''t2'' (snd ?ch)"
  have "fst ?ch = Inr ()" by code_simp
  then have ch: "?ch = (Inr (), snd ?ch)" by (metis prod.collapse)
  have f: "map_option (\<lambda>(u, i). su_userId u) (fst ?re) = Some ''ada''" by code_simp
  then obtain user sid where re: "?re = (Some (user, sid), snd ?re)" and u: "su_userId user = ''ada''"
    by (cases "fst ?re") (auto, metis prod.collapse)
  have "fst (resolveSession plainCrypto 3000 ''t1'' (snd ?ch)) = None" by code_simp
  with ch re u changePassword_revokes_others [OF ch re u] show ?thesis by blast
qed

text \<open>The token of a new session resolves to its account until the idle window has passed, given
  that no other session carries the token's digest and that the account is enabled.\<close>

theorem createSession_resolves:
  assumes "createSession cr now token sid (u_id u) agent ip db = (cs, db')"
    and "\<forall>s \<in> set (sessions db). s_token_hash s \<noteq> hashToken cr token"
    and "filter (\<lambda>x. u_id x = u_id u) (users db) = [u]" and "u_disabled_at u = None"
    and "now \<le> later" and "later < now + days SESSION_IDLE_DAYS"
  shows "cs_token cs = token \<and>
    fst (resolveSession cr later token db') =
      Some (\<lparr>su_userId = u_id u, su_email = u_email u, su_displayName = u_display_name u,
             su_isGuest = u_is_guest u\<rparr>, sid)"
proof -
  let ?ok = "\<lambda>s. s_token_hash s = hashToken cr token \<and> sessionUsable later s"
  have old: "filter ?ok (sessions db) = []"
    using assms(2) by (auto simp: filter_empty_conv)
  have "filter (\<lambda>x. u_id x = u_id u \<and> u_disabled_at x = None) (users db) =
      filter (\<lambda>x. u_disabled_at x = None) (filter (\<lambda>x. u_id x = u_id u) (users db))"
    by (simp add: conj_commute)
  then have us: "filter (\<lambda>x. u_id x = u_id u \<and> u_disabled_at x = None) (users db) = [u]"
    using assms(3,4) by simp
  show ?thesis
    using assms(1,5,6) old us
    by (auto simp: createSession_def resolveSession_def sessionJoin_def sessionUsable_def days_def
        SESSION_TTL_DAYS_def SESSION_IDLE_DAYS_def Let_def)
qed

theorem createSession_resolves_witness:
  "fst (resolveSession plainCrypto 5000 ''t1''
     (snd (createSession plainCrypto 0 ''t1'' ''s1'' (u_id ada) None None (emptyDb\<lparr>users := [ada]\<rparr>)))) =
   Some (\<lparr>su_userId = u_id ada, su_email = u_email ada, su_displayName = u_display_name ada,
          su_isGuest = u_is_guest ada\<rparr>, ''s1'')"
proof -
  let ?c = "createSession plainCrypto 0 ''t1'' ''s1'' (u_id ada) None None (emptyDb\<lparr>users := [ada]\<rparr>)"
  have c: "?c = (fst ?c, snd ?c)" by simp
  show ?thesis
    using createSession_resolves [OF c, of 5000]
    by (simp add: emptyDb_def ada_def days_def SESSION_IDLE_DAYS_def)
qed

end
