(* ===== verification/Claims.thy ===== *)
theory Claims
  imports Page_Access Sessions
begin

text \<open>
  \<^verbatim>\<open>packages/server/src/auth/claims.ts\<close>: every credential (a session, a share link) is reduced to the
  same claims, and \<open>effectiveRole\<close> decides over claims and a page's location. The second-factor gate
  that the server installs, the clock, the cryptographic primitives and the identifiers that the
  database draws are parameters.
\<close>

section \<open>Definitions\<close>

datatype principal =
    UserPrincipal ident string
  | GuestPrincipal ident string
  | AnonymousPrincipal ident string

datatype grant_source = FromShareToken | FromPagePermission | FromPageGroupPermission

record grant =
  gr_scopePageId :: ident
  gr_includeSubtree :: bool
  gr_role :: role
  gr_source :: grant_source
  gr_tokenId :: "ident option"

record cap =
  cap_scopePageId :: ident
  cap_includeSubtree :: bool
  cap_maxLevel :: role

record access_claims =
  cl_principal :: principal
  cl_workspaceId :: ident
  cl_workspaceRole :: "string option"
  cl_pageLevel :: "role option"
  cl_grants :: "grant list"
  cl_caps :: "cap list"

definition roleIn :: "database \<Rightarrow> ident \<Rightarrow> ident \<Rightarrow> standing_error + string option" where
  "roleIn db workspaceId userId =
     rmap (\<lambda>standing.
       if \<not> st_isMember standing then None
       else Some (case st_role standing of None \<Rightarrow> ''custom'' | Some r \<Rightarrow> r))
       (loadWorkspaceStanding db userId workspaceId)"

text \<open>Rows joined with their page, restricted to the workspace.\<close>

definition inWorkspace :: "database \<Rightarrow> ident \<Rightarrow> ident \<Rightarrow> page_row list" where
  "inWorkspace db workspaceId pid = filter (\<lambda>p. p_id p = pid \<and> p_workspace_id p = workspaceId) (pages db)"

definition pageGrantsFor :: "database \<Rightarrow> ident \<Rightarrow> ident \<Rightarrow> grant list" where
  "pageGrantsFor db userId workspaceId =
     (let grantOf = (\<lambda>source pp.
            map (\<lambda>_. \<lparr>gr_scopePageId = pp_page_id pp, gr_includeSubtree = pp_include_subtree pp,
                     gr_role = pp_role pp, gr_source = source, gr_tokenId = None\<rparr>)
              (inWorkspace db workspaceId (pp_page_id pp)))
      in concat (map (grantOf FromPagePermission) (ownPermissions db userId)) @
         concat (map (grantOf FromPageGroupPermission) (groupPermissions db userId)))"

definition pageCapsFor :: "database \<Rightarrow> ident \<Rightarrow> cap list" where
  "pageCapsFor db workspaceId =
     concat (map (\<lambda>c. map (\<lambda>_. \<lparr>cap_scopePageId = c_page_id c, cap_includeSubtree = c_include_subtree c,
                                cap_maxLevel = c_max_level c\<rparr>)
       (inWorkspace db workspaceId (c_page_id c))) (page_caps db))"

text \<open>The installed gate, if any: true when the account owes a second factor.\<close>

type_synonym gate = "(database \<Rightarrow> ident \<Rightarrow> string \<Rightarrow> bool) option"

definition gateBlocks :: "gate \<Rightarrow> database \<Rightarrow> ident \<Rightarrow> bool" where
  "gateBlocks gate db userId = (case gate of None \<Rightarrow> False | Some g \<Rightarrow> g db userId [])"

definition memberClaims ::
  "database \<Rightarrow> bool \<Rightarrow> ident \<Rightarrow> string \<Rightarrow> ident \<Rightarrow> workspace_standing \<Rightarrow> access_claims" where
  "memberClaims db isGuest userId displayName workspaceId standing =
     \<lparr>cl_principal = (if isGuest then GuestPrincipal userId displayName else UserPrincipal userId displayName),
      cl_workspaceId = workspaceId,
      cl_workspaceRole = st_role standing,
      cl_pageLevel = st_pageLevel standing,
      cl_grants = pageGrantsFor db userId workspaceId,
      cl_caps = pageCapsFor db workspaceId\<rparr>"

definition resolveSessionClaims ::
  "crypto \<Rightarrow> gate \<Rightarrow> time \<Rightarrow> string \<Rightarrow> ident \<Rightarrow> database \<Rightarrow>
     (standing_error + access_claims option) \<times> database" where
  "resolveSessionClaims cr gate now token workspaceId db =
     (case resolveSession cr now token db of
        (None, db') \<Rightarrow> (Inr None, db')
      | (Some (user, sid), db') \<Rightarrow>
          if gateBlocks gate db' (su_userId user) then (Inr None, db')
          else
            (rmap (\<lambda>standing.
               if \<not> st_isMember standing then None
               else Some (memberClaims db' (su_isGuest user) (su_userId user) (su_displayName user)
                            workspaceId standing))
               (loadWorkspaceStanding db' (su_userId user) workspaceId), db'))"

record share_resolution =
  sh_claims :: access_claims
  sh_passwordRequired :: bool
  sh_signInRequired :: bool

record share_options =
  so_displayName :: "string option"
  so_password :: "string option"
  so_ipPrefix :: "string option"
  so_existingShareSessionId :: "ident option"
  so_track :: bool
  so_signedIn :: bool

text \<open>The claims that authorise nothing, returned where a password or an account is missing.\<close>

definition lockedClaims :: "ident \<Rightarrow> access_claims" where
  "lockedClaims workspaceId =
     \<lparr>cl_principal = AnonymousPrincipal [] [], cl_workspaceId = workspaceId, cl_workspaceRole = None,
      cl_pageLevel = None, cl_grants = [], cl_caps = []\<rparr>"

definition shareClaims :: "database \<Rightarrow> ident \<Rightarrow> string \<Rightarrow> share_token_row \<Rightarrow> access_claims" where
  "shareClaims db sessionId displayName t =
     \<lparr>cl_principal = AnonymousPrincipal sessionId displayName,
      cl_workspaceId = t_workspace_id t, cl_workspaceRole = None, cl_pageLevel = None,
      cl_grants = [\<lparr>gr_scopePageId = t_scope_page_id t, gr_includeSubtree = t_include_subtree t,
                    gr_role = t_role t, gr_source = FromShareToken, gr_tokenId = Some (t_id t)\<rparr>],
      cl_caps = pageCapsFor db (t_workspace_id t)\<rparr>"

definition tokenLive :: "time \<Rightarrow> share_token_row \<Rightarrow> bool" where
  "tokenLive now t =
     (t_revoked_at t = None \<and> (case t_expires_at t of None \<Rightarrow> True | Some e \<Rightarrow> now < e))"

definition liveShareSession :: "database \<Rightarrow> time \<Rightarrow> ident \<Rightarrow> share_token_row \<Rightarrow> bool" where
  "liveShareSession db now sid t =
     (\<exists>x \<in> set (share_sessions db). ss_id x = sid \<and> ss_share_token_id x = t_id t \<and> now < ss_expires_at x)"

text \<open>A string that JavaScript treats as false is an absent one.\<close>

definition truthy :: "string option \<Rightarrow> string option" where
  "truthy s = (if s = Some [] then None else s)"

definition givenName :: "share_options \<Rightarrow> string option" where
  "givenName opts = truthy (map_option (\<lambda>n. take 64 (trim n)) (so_displayName opts))"

text \<open>What happens to \<open>share_sessions\<close>: the session id and name of the claims, and the new table.\<close>

definition trackVisit ::
  "time \<Rightarrow> ident \<Rightarrow> share_options \<Rightarrow> share_token_row \<Rightarrow> database \<Rightarrow> (ident \<times> string) \<times> database" where
  "trackVisit now fresh opts t db =
     (let given = givenName opts;
          displayName = (case given of None \<Rightarrow> ''Guest'' | Some n \<Rightarrow> n);
          existing = (case truthy (so_existingShareSessionId opts) of
                        None \<Rightarrow> None
                      | Some sid \<Rightarrow> if liveShareSession db now sid t then Some sid else None)
      in if \<not> so_track opts then (([], displayName), db)
         else case existing of
           None \<Rightarrow>
             ((fresh, displayName),
              db\<lparr>share_sessions := share_sessions db @
                 [\<lparr>ss_id = fresh, ss_share_token_id = t_id t, ss_display_name = displayName,
                   ss_ip_prefix = so_ipPrefix opts, ss_last_seen_at = now, ss_expires_at = now + days 30\<rparr>]\<rparr>)
         | Some sid \<Rightarrow>
             let touch = (\<lambda>x. if ss_id x = sid
                    then (case given of None \<Rightarrow> x\<lparr>ss_last_seen_at := now\<rparr>
                          | Some n \<Rightarrow> x\<lparr>ss_last_seen_at := now, ss_display_name := n\<rparr>) else x);
                 kept = queryOne (filter (\<lambda>x. ss_id x = sid) (share_sessions db));
                 name = (case given of Some n \<Rightarrow> n
                         | None \<Rightarrow> (case truthy (map_option (\<lambda>x. trim (ss_display_name x)) kept) of
                                      None \<Rightarrow> ''Guest'' | Some n \<Rightarrow> n))
             in ((sid, name), db\<lparr>share_sessions := map touch (share_sessions db)\<rparr>))"

definition resolveShareTokenClaims ::
  "crypto \<Rightarrow> time \<Rightarrow> ident \<Rightarrow> string \<Rightarrow> share_options \<Rightarrow> database \<Rightarrow>
     (auth_code + share_resolution option) \<times> database" where
  "resolveShareTokenClaims cr now fresh token opts db =
     (case queryOne (filter (\<lambda>t. t_token_hash t = hashToken cr token \<and> tokenLive now t) (share_tokens db)) of
        None \<Rightarrow> (Inr None, db)
      | Some t \<Rightarrow>
          let password = truthy (so_password opts);
              unlocked = (case truthy (so_existingShareSessionId opts) of
                            None \<Rightarrow> False | Some sid \<Rightarrow> liveShareSession db now sid t);
              locked = (case (t_password_hash t, password) of
                          (None, _) \<Rightarrow> Inr False
                        | (Some h, None) \<Rightarrow> Inr (\<not> unlocked)
                        | (Some h, Some p) \<Rightarrow> if fst (verifyPassword cr p h) then Inr False else Inl InvalidCredentials)
          in case locked of
               Inl e \<Rightarrow> (Inl e, db)
             | Inr True \<Rightarrow>
                 (Inr (Some \<lparr>sh_claims = lockedClaims (t_workspace_id t), sh_passwordRequired = True,
                             sh_signInRequired = False\<rparr>), db)
             | Inr False \<Rightarrow>
                 if \<not> t_allow_anonymous t \<and> \<not> so_signedIn opts then
                   (Inr (Some \<lparr>sh_claims = lockedClaims (t_workspace_id t), sh_passwordRequired = False,
                               sh_signInRequired = True\<rparr>), db)
                 else
                   (case trackVisit now fresh opts t db of
                      ((sid, name), db') \<Rightarrow>
                        (Inr (Some \<lparr>sh_claims = shareClaims db' sid name t, sh_passwordRequired = False,
                                    sh_signInRequired = False\<rparr>), db')))"

record page_location =
  loc_id :: ident
  loc_workspaceId :: ident
  loc_ancestorIds :: "ident list"
  loc_restrictedAt :: "ident option"

text \<open>\<open>restrictedAtSql\<close>: the restricted page of the path with the highest position.\<close>

definition restrictedAt :: "database \<Rightarrow> page_row \<Rightarrow> ident option" where
  "restrictedAt db p =
     map_option p_id (queryOne (sort_by
       (\<lambda>a b. case (arrayPosition (pathOf p) (p_id a), arrayPosition (pathOf p) (p_id b)) of
                (Some i, Some j) \<Rightarrow> int j - int i | _ \<Rightarrow> 0)
       (filter (\<lambda>r. p_id r \<in> set (pathOf p) \<and> p_restricted r) (pages db))))"

definition locationOf :: "database \<Rightarrow> page_row \<Rightarrow> page_location" where
  "locationOf db p = \<lparr>loc_id = p_id p, loc_workspaceId = p_workspace_id p,
                      loc_ancestorIds = p_ancestor_ids p, loc_restrictedAt = restrictedAt db p\<rparr>"

definition loadPageLocation :: "database \<Rightarrow> ident \<Rightarrow> page_location option" where
  "loadPageLocation db pageId = map_option (locationOf db) (pageRow db pageId)"

definition considerRole :: "role \<Rightarrow> role option \<Rightarrow> role option" where
  "considerRole role best = (case best of None \<Rightarrow> Some role | Some b \<Rightarrow> if atLeast_role role b then Some role else best)"

text \<open>\<open>path.indexOf(x)\<close>, \<open>-1\<close> when absent.\<close>

fun pathIndex :: "ident list \<Rightarrow> ident \<Rightarrow> int" where
  "pathIndex [] x = -1"
| "pathIndex (y # ys) x =
     (if y = x then 0 else let i = pathIndex ys x in if i = -1 then -1 else i + 1)"

definition scopeReaches :: "ident \<Rightarrow> bool \<Rightarrow> page_location \<Rightarrow> bool" where
  "scopeReaches scope subtree page = (scope = loc_id page \<or> subtree \<and> scope \<in> set (loc_ancestorIds page))"

definition considerGrant :: "page_location \<Rightarrow> grant \<Rightarrow> role option \<Rightarrow> role option" where
  "considerGrant page g best =
     (let path = loc_ancestorIds page @ [loc_id page];
          fence = (case loc_restrictedAt page of None \<Rightarrow> -1 | Some r \<Rightarrow> pathIndex path r);
          at = pathIndex path (gr_scopePageId g)
      in if \<not> scopeReaches (gr_scopePageId g) (gr_includeSubtree g) page then best
         else if 0 \<le> fence \<and> (at < 0 \<or> at < fence) then best
         else considerRole (gr_role g) best)"

definition lowerByCap :: "page_location \<Rightarrow> cap \<Rightarrow> role \<Rightarrow> role" where
  "lowerByCap page c best =
     (if scopeReaches (cap_scopePageId c) (cap_includeSubtree c) page \<and>
         \<not> atLeast_role (cap_maxLevel c) best
      then cap_maxLevel c else best)"

definition effectiveRole :: "access_claims \<Rightarrow> page_location \<Rightarrow> role option" where
  "effectiveRole claims page =
     (if loc_workspaceId page \<noteq> cl_workspaceId claims then None
      else
        let start = (if cl_pageLevel claims = Some Admin then considerRole Admin None
                     else (case cl_pageLevel claims of
                             None \<Rightarrow> None
                           | Some l \<Rightarrow> if loc_restrictedAt page = None then considerRole l None else None));
            best = fold (considerGrant page) (cl_grants claims) start
        in if cl_pageLevel claims \<noteq> Some Admin
           then map_option (fold (lowerByCap page) (cl_caps claims)) best
           else best)"

definition requireRole :: "access_claims \<Rightarrow> page_location \<Rightarrow> role \<Rightarrow> auth_code + role" where
  "requireRole claims page need =
     (case effectiveRole claims page of
        None \<Rightarrow> Inl InvalidCredentials
      | Some have \<Rightarrow> if atLeast_role have need then Inr have else Inl InvalidCredentials)"

definition canRead :: "access_claims \<Rightarrow> page_location \<Rightarrow> bool" where
  "canRead c p = (effectiveRole c p \<noteq> None)"

definition canEdit :: "access_claims \<Rightarrow> page_location \<Rightarrow> bool" where
  "canEdit c p = (case effectiveRole c p of None \<Rightarrow> False | Some role \<Rightarrow> atLeast_role role Editor)"

definition canComment :: "access_claims \<Rightarrow> page_location \<Rightarrow> bool" where
  "canComment c p = (case effectiveRole c p of None \<Rightarrow> False | Some role \<Rightarrow> atLeast_role role Commenter)"

definition authorizeDocumentOpen ::
  "database \<Rightarrow> access_claims \<Rightarrow> ident \<Rightarrow> role \<Rightarrow> auth_code + (role \<times> page_location)" where
  "authorizeDocumentOpen db claims pageId need =
     (case loadPageLocation db pageId of
        None \<Rightarrow> Inl InvalidCredentials
      | Some page \<Rightarrow> rmap (\<lambda>role. (role, page)) (requireRole claims page need))"

datatype connection_credential = SessionCredential ident | ShareCredential ident ident

fun revalidateClaims ::
  "gate \<Rightarrow> time \<Rightarrow> connection_credential \<Rightarrow> ident \<Rightarrow> database \<Rightarrow> standing_error + access_claims option" where
  "revalidateClaims gate now (SessionCredential sid) workspaceId db =
     (case queryOne (filter (\<lambda>(s, u). \<exists>m \<in> set (workspace_members db).
               m_user_id m = u_id u \<and> m_workspace_id m = workspaceId)
             (sessionJoin (\<lambda>s. s_id s = sid \<and> s_revoked_at s = None \<and> now < s_expires_at s) db)) of
        None \<Rightarrow> Inr None
      | Some (s, u) \<Rightarrow>
          if gateBlocks gate db (u_id u) then Inr None
          else rmap (\<lambda>standing.
                 if \<not> st_isMember standing then None
                 else Some (memberClaims db (u_is_guest u) (u_id u) (u_display_name u) workspaceId standing))
                 (loadWorkspaceStanding db (u_id u) workspaceId))"
| "revalidateClaims gate now (ShareCredential tid sid) workspaceId db =
     (case queryOne (concat (map (\<lambda>t. map (\<lambda>x. (t, x))
               (filter (\<lambda>x. ss_share_token_id x = t_id t \<and> ss_id x = sid \<and> now < ss_expires_at x) (share_sessions db)))
             (filter (\<lambda>t. t_id t = tid \<and> tokenLive now t) (share_tokens db)))) of
        None \<Rightarrow> Inr None
      | Some (t, x) \<Rightarrow>
          Inr (if t_workspace_id t \<noteq> workspaceId then None
               else Some (shareClaims db sid (ss_display_name x) t)))"

end
