(* ===== verification/Page_Tree.thy ===== *)
theory Page_Tree
  imports Claims
begin

text \<open>
  The page tree is stored twice: as \<open>parent_page_id\<close>, which \<open>resolvePageAccess\<close> follows, and as the
  materialised path \<open>ancestor_ids\<close>, which claims and listings read. On a table where the two agree
  the walk returns the path from the page to the root, and the three ways the source compares a
  grant with the restriction that fences it off are the same comparison.
\<close>

section \<open>Well-formed page tables\<close>

definition parentOk :: "database \<Rightarrow> page_row \<Rightarrow> bool" where
  "parentOk db p =
     (case p_parent_page_id p of
        None \<Rightarrow> p_ancestor_ids p = []
      | Some q \<Rightarrow> (\<exists>r \<in> set (pages db). p_id r = q \<and> p_workspace_id r = p_workspace_id p \<and>
                    p_ancestor_ids p = p_ancestor_ids r @ [q]))"

definition wf_pages :: "database \<Rightarrow> bool" where
  "wf_pages db = (distinct (map p_id (pages db)) \<and> (\<forall>p \<in> set (pages db). parentOk db p))"

lemma wf_pages_id_inj:
  assumes "wf_pages db" and "p \<in> set (pages db)" and "q \<in> set (pages db)" and "p_id p = p_id q"
  shows "p = q"
  using assms by (auto simp: wf_pages_def distinct_map dest: inj_onD)

lemma pageRow_eq:
  assumes "wf_pages db" and "p \<in> set (pages db)"
  shows "pageRow db (p_id p) = Some p"
proof -
  obtain q where q: "pageRow db (p_id p) = Some q"
    using assms(2) queryOne_in [of p "filter (\<lambda>q. p_id q = p_id p) (pages db)"] by (auto simp: pageRow_def)
  then have "q \<in> set (pages db)" "p_id q = p_id p" by (auto simp: pageRow_def dest!: queryOne_Some)
  with q assms wf_pages_id_inj show ?thesis by metis
qed

text \<open>Induction from the root down: the parent's path is one shorter.\<close>

lemma page_tree_induct [consumes 2, case_names root child]:
  assumes "wf_pages db" and "p \<in> set (pages db)"
    and root: "\<And>p. p \<in> set (pages db) \<Longrightarrow> p_parent_page_id p = None \<Longrightarrow> p_ancestor_ids p = [] \<Longrightarrow> P p"
    and child: "\<And>p r. p \<in> set (pages db) \<Longrightarrow> r \<in> set (pages db) \<Longrightarrow> p_parent_page_id p = Some (p_id r) \<Longrightarrow>
        p_workspace_id r = p_workspace_id p \<Longrightarrow> p_ancestor_ids p = pathOf r \<Longrightarrow> P r \<Longrightarrow> P p"
  shows "P p"
  using assms(2)
proof (induction "length (p_ancestor_ids p)" arbitrary: p rule: less_induct)
  case less
  then have ok: "parentOk db p" using assms(1) by (simp add: wf_pages_def)
  show ?case
  proof (cases "p_parent_page_id p")
    case None
    with ok less.prems show ?thesis by (auto simp: parentOk_def intro: root)
  next
    case (Some q)
    with ok obtain r where r: "r \<in> set (pages db)" "p_id r = q" "p_workspace_id r = p_workspace_id p"
      "p_ancestor_ids p = pathOf r"
      by (auto simp: parentOk_def pathOf_def)
    then have "P r" by (intro less.hyps) (auto simp: pathOf_def)
    with r Some less.prems show ?thesis by (intro child [of p r]) auto
  qed
qed

lemma path_rows:
  assumes "wf_pages db" and "p \<in> set (pages db)" and "x \<in> set (pathOf p)"
  shows "\<exists>r \<in> set (pages db). p_id r = x \<and> p_workspace_id r = p_workspace_id p \<and>
    length (p_ancestor_ids r) \<le> length (p_ancestor_ids p)"
  using assms
proof (induction rule: page_tree_induct)
  case (root p)
  then show ?case by (auto simp: pathOf_def)
next
  case (child p r)
  show ?case
  proof (cases "x = p_id p")
    case True
    with child show ?thesis by auto
  next
    case False
    with child have "x \<in> set (pathOf r)" by (auto simp: pathOf_def)
    from child.IH [OF this] child.hyps show ?thesis by (force simp: pathOf_def)
  qed
qed

lemma distinct_path:
  assumes "wf_pages db" and "p \<in> set (pages db)"
  shows "distinct (pathOf p)"
  using assms
proof (induction rule: page_tree_induct)
  case (root p)
  then show ?case by (simp add: pathOf_def)
next
  case (child p r)
  have "p_id p \<notin> set (pathOf r)"
  proof
    assume "p_id p \<in> set (pathOf r)"
    then obtain q where "q \<in> set (pages db)" "p_id q = p_id p"
      "length (p_ancestor_ids q) \<le> length (p_ancestor_ids r)"
      using path_rows [OF assms(1) child.hyps(2)] by blast
    moreover have "q = p" using wf_pages_id_inj [OF assms(1)] calculation child.hyps by blast
    ultimately show False using child.hyps by (simp add: pathOf_def)
  qed
  with child show ?case by (auto simp: pathOf_def)
qed

lemma path_length:
  assumes "wf_pages db" and "p \<in> set (pages db)"
  shows "length (pathOf p) \<le> length (pages db)"
proof -
  have "set (pathOf p) \<subseteq> set (map p_id (pages db))" using path_rows [OF assms] by fastforce
  then have "card (set (pathOf p)) \<le> length (map p_id (pages db))"
    by (meson card_length card_mono finite_set order_trans)
  then show ?thesis using distinct_card [OF distinct_path [OF assms]] by simp
qed

section \<open>The walk to the root\<close>

text \<open>The walk returns the rows of the path, the page first and the root last.\<close>

definition isAncestry :: "database \<Rightarrow> page_row \<Rightarrow> page_row list \<Rightarrow> bool" where
  "isAncestry db p anc =
     (set anc \<subseteq> set (pages db) \<and> map p_id anc = rev (pathOf p) \<and>
      (\<exists>top. filter (\<lambda>a. p_parent_page_id a = None) anc = [top] \<and> p_workspace_id top = p_workspace_id p))"

lemma ancestry_path:
  assumes "wf_pages db" and "p \<in> set (pages db)" and "length (pathOf p) \<le> n"
  shows "\<exists>anc. ancestry n db (p_id p) = Some anc \<and> isAncestry db p anc"
  using assms
proof (induction arbitrary: n rule: page_tree_induct)
  case (root p)
  then obtain m where "n = Suc m" by (cases n) (auto simp: pathOf_def)
  with root assms(1) show ?case by (simp add: pageRow_eq pathOf_def isAncestry_def)
next
  case (child p r)
  then obtain m where n: "n = Suc m" and m: "length (pathOf r) \<le> m" by (cases n) (auto simp: pathOf_def)
  from child.IH [OF m] obtain anc where "ancestry m db (p_id r) = Some anc" "isAncestry db r anc" by blast
  with n child.hyps assms(1) show ?case by (simp add: pageRow_eq isAncestry_def pathOf_def)
qed

lemma ancestry_total:
  assumes "wf_pages db" and "p \<in> set (pages db)"
  shows "\<exists>anc. ancestry (Suc (length (pages db))) db (p_id p) = Some anc \<and> isAncestry db p anc"
  using ancestry_path [OF assms, of "Suc (length (pages db))"] path_length [OF assms] by simp

section \<open>Positions in the path\<close>

lemma arrayPosition_None: "arrayPosition xs x = None \<longleftrightarrow> x \<notin> set xs"
  by (induction xs) auto

lemma arrayPosition_SomeD: "arrayPosition xs x = Some k \<Longrightarrow> 0 < k \<and> k \<le> length xs \<and> xs ! (k - 1) = x"
  by (induction xs arbitrary: k) (auto split: if_splits simp: nth_Cons')

lemma arrayPosition_nth: "distinct xs \<Longrightarrow> i < length xs \<Longrightarrow> arrayPosition xs (xs ! i) = Some (Suc i)"
  by (induction xs arbitrary: i) (auto simp: nth_Cons split: nat.splits)

lemma pathIndex_position:
  "pathIndex xs x = (case arrayPosition xs x of None \<Rightarrow> -1 | Some k \<Rightarrow> int k - 1)"
proof (induction xs)
  case Nil
  then show ?case by simp
next
  case (Cons y ys)
  then show ?case
    using arrayPosition_SomeD [of ys x] by (cases "arrayPosition ys x") (auto simp: Let_def)
qed

text \<open>A grant on \<open>x\<close> stands at or below every restriction of the path.\<close>

definition unfenced :: "database \<Rightarrow> page_row \<Rightarrow> ident \<Rightarrow> bool" where
  "unfenced db p x =
     (case arrayPosition (pathOf p) x of
        None \<Rightarrow> False
      | Some k \<Rightarrow> (\<forall>r \<in> set (pages db). p_restricted r \<longrightarrow>
          (case arrayPosition (pathOf p) (p_id r) of None \<Rightarrow> True | Some j \<Rightarrow> j \<le> k)))"

lemma fold_max_le: "fold max xs (a :: nat) \<le> k \<longleftrightarrow> a \<le> k \<and> (\<forall>x \<in> set xs. x \<le> k)"
  by (induction xs arbitrary: a) auto

lemma grantIsBelowFence_unfenced: "grantIsBelowFence db p x = unfenced db p x"
proof (cases "arrayPosition (pathOf p) x")
  case None
  then show ?thesis unfolding grantIsBelowFence_def unfenced_def by simp
next
  case (Some k)
  then have "1 \<le> k" using arrayPosition_SomeD by fastforce
  then have "fencePosition db p \<le> k \<longleftrightarrow>
      (\<forall>r \<in> set (pages db). p_restricted r \<longrightarrow> (\<forall>j. arrayPosition (pathOf p) (p_id r) = Some j \<longrightarrow> j \<le> k))"
    unfolding fencePosition_def fold_max_le
    by (auto simp: image_iff) (metis arrayPosition_None option.distinct(1))
  with Some show ?thesis unfolding grantIsBelowFence_def unfenced_def by (auto split: option.split)
qed

subsection \<open>The fence as a depth of the walk\<close>

lemma fenceDepth_le:
  "d < length anc \<Longrightarrow>
     (case fenceDepth anc of None \<Rightarrow> True | Some f \<Rightarrow> d \<le> f) \<longleftrightarrow> (\<forall>k < d. \<not> p_restricted (anc ! k))"
proof (induction anc arbitrary: d)
  case Nil
  then show ?case by simp
next
  case (Cons a anc)
  show ?case
  proof (cases d)
    case 0
    then show ?thesis by (simp split: option.split)
  next
    case (Suc e)
    with Cons.IH [of e] Cons.prems show ?thesis
      by (cases "fenceDepth anc") (auto simp: All_less_Suc2)
  qed
qed

lemma ancestry_position:
  assumes "wf_pages db" and "p \<in> set (pages db)" and "isAncestry db p anc" and "d < length anc"
  shows "arrayPosition (pathOf p) (p_id (anc ! d)) = Some (length anc - d)"
proof -
  have len: "length anc = length (pathOf p)"
    using assms(3) by (metis isAncestry_def length_map length_rev)
  have "p_id (anc ! d) = map p_id anc ! d" using assms(4) by simp
  also have "\<dots> = pathOf p ! (length anc - Suc d)"
    using assms(3,4) len by (simp add: isAncestry_def rev_nth)
  finally show ?thesis
    using arrayPosition_nth [OF distinct_path [OF assms(1,2)], of "length anc - Suc d"] assms(4) len
    by (simp add: Suc_diff_Suc)
qed

lemma ancestry_nth_ex:
  assumes "isAncestry db p anc" and "x \<in> set (pathOf p)"
  shows "\<exists>d < length anc. p_id (anc ! d) = x"
proof -
  have "x \<in> set (map p_id anc)" using assms by (simp add: isAncestry_def)
  then show ?thesis by (metis in_set_conv_nth length_map nth_map)
qed

lemma ancestry_restricted:
  assumes "wf_pages db" and "p \<in> set (pages db)" and anc: "isAncestry db p anc" and "d < length anc"
  shows "(\<forall>k < d. \<not> p_restricted (anc ! k)) \<longleftrightarrow>
    (\<forall>r \<in> set (pages db). p_restricted r \<longrightarrow>
       (\<forall>j. arrayPosition (pathOf p) (p_id r) = Some j \<longrightarrow> j \<le> length anc - d))" (is "?walk = ?path")
proof
  assume walk: ?walk
  show ?path
  proof (intro ballI impI allI)
    fix r j
    assume r: "r \<in> set (pages db)" "p_restricted r" and j: "arrayPosition (pathOf p) (p_id r) = Some j"
    then have "p_id r \<in> set (pathOf p)" by (metis arrayPosition_None option.distinct(1))
    then obtain k where k: "k < length anc" "p_id (anc ! k) = p_id r"
      using ancestry_nth_ex [OF anc] by blast
    moreover have "anc ! k \<in> set (pages db)" using anc k by (auto simp: isAncestry_def)
    ultimately have "anc ! k = r" using wf_pages_id_inj [OF assms(1)] r by blast
    then have "\<not> k < d" using walk r by auto
    moreover have "j = length anc - k" using ancestry_position [OF assms(1,2) anc k(1)] k j by simp
    ultimately show "j \<le> length anc - d" by simp
  qed
next
  assume path: ?path
  show ?walk
  proof (intro allI impI notI)
    fix k
    assume k: "k < d" and "p_restricted (anc ! k)"
    moreover have "anc ! k \<in> set (pages db)" using anc k assms(4) by (auto simp: isAncestry_def)
    moreover have "arrayPosition (pathOf p) (p_id (anc ! k)) = Some (length anc - k)"
      using ancestry_position [OF assms(1,2) anc, of k] k assms(4) by simp
    ultimately have "length anc - k \<le> length anc - d" using path by blast
    with k assms(4) show False by simp
  qed
qed

lemma walk_unfenced:
  assumes "wf_pages db" and "p \<in> set (pages db)" and anc: "isAncestry db p anc"
  shows "(\<exists>d < length anc. p_id (anc ! d) = x \<and> (case fenceDepth anc of None \<Rightarrow> True | Some f \<Rightarrow> d \<le> f))
    \<longleftrightarrow> unfenced db p x" (is "?walk = _")
proof (cases "x \<in> set (pathOf p)")
  case False
  then have "p_id (anc ! d) \<noteq> x" if "d < length anc" for d
    using ancestry_position [OF assms that] by (metis arrayPosition_None option.distinct(1))
  with False show ?thesis by (auto simp: unfenced_def arrayPosition_None [THEN iffD2])
next
  case True
  then obtain d where d: "d < length anc" "p_id (anc ! d) = x" using ancestry_nth_ex [OF anc] by blast
  have pos: "arrayPosition (pathOf p) x = Some (length anc - d)"
    using ancestry_position [OF assms d(1)] d(2) by simp
  have "e = d" if "e < length anc" "p_id (anc ! e) = x" for e
    using ancestry_position [OF assms that(1)] that pos d(1) by simp
  with d have "?walk \<longleftrightarrow> (\<forall>k < d. \<not> p_restricted (anc ! k))" using fenceDepth_le [OF d(1)] by blast
  also have "\<dots> \<longleftrightarrow> unfenced db p x"
    unfolding ancestry_restricted [OF assms d(1)] unfenced_def pos by (auto split: option.split)
  finally show ?thesis .
qed

subsection \<open>The fence as the deepest restricted page\<close>

lemma restrictedAt_None:
  "restrictedAt db p = None \<longleftrightarrow> (\<forall>r \<in> set (pages db). p_restricted r \<longrightarrow> p_id r \<notin> set (pathOf p))"
proof -
  have "sort_by cmp xs = [] \<longleftrightarrow> xs = []" for cmp :: "page_row \<Rightarrow> page_row \<Rightarrow> int" and xs
    by (metis set_sort_by set_empty)
  then show ?thesis by (auto simp: restrictedAt_def filter_empty_conv)
qed

lemma sort_by_head:
  assumes "comparator_on (set xs) cmp" and "queryOne (sort_by cmp xs) = Some y"
  shows "y \<in> set xs \<and> (\<forall>x \<in> set xs. x = y \<or> cmp y x \<le> 0)"
proof -
  obtain ys where ys: "sort_by cmp xs = y # ys" using assms(2) by (cases "sort_by cmp xs") auto
  then have "set xs = insert y (set ys)" by (metis list.simps(15) set_sort_by)
  moreover have "\<forall>x \<in> set ys. cmp y x \<le> 0"
    using sorted_sort_by [OF assms(1) subset_refl] ys by simp
  ultimately show ?thesis by auto
qed

lemma deepest_comparator:
  assumes "wf_pages db" and "p \<in> set (pages db)"
  shows "comparator_on {r \<in> set (pages db). p_id r \<in> set (pathOf p) \<and> p_restricted r}
    (\<lambda>a b. case (arrayPosition (pathOf p) (p_id a), arrayPosition (pathOf p) (p_id b)) of
             (Some i, Some j) \<Rightarrow> int j - int i | _ \<Rightarrow> 0)"
proof -
  have pos: "\<exists>k. arrayPosition (pathOf p) x = Some k" if "x \<in> set (pathOf p)" for x
    using that arrayPosition_None [of "pathOf p" x] by auto
  have same: "a = b" if "a \<in> set (pages db)" "b \<in> set (pages db)"
    "arrayPosition (pathOf p) (p_id a) = Some k" "arrayPosition (pathOf p) (p_id b) = Some k" for a b k
    using that arrayPosition_SomeD wf_pages_id_inj [OF assms(1)] by metis
  show ?thesis
    unfolding comparator_on_def
    by (intro conjI ballI impI; clarsimp dest!: pos split: option.splits) (auto intro: same)
qed

lemma restrictedAt_Some:
  assumes "wf_pages db" and "p \<in> set (pages db)" and "restrictedAt db p = Some x"
  shows "\<exists>k. arrayPosition (pathOf p) x = Some k \<and>
    (\<exists>r \<in> set (pages db). p_id r = x \<and> p_restricted r) \<and>
    (\<forall>r \<in> set (pages db). p_restricted r \<longrightarrow>
       (\<forall>j. arrayPosition (pathOf p) (p_id r) = Some j \<longrightarrow> j \<le> k))"
proof -
  let ?rows = "filter (\<lambda>r. p_id r \<in> set (pathOf p) \<and> p_restricted r) (pages db)"
  have cmp: "comparator_on (set ?rows) (\<lambda>a b. case (arrayPosition (pathOf p) (p_id a), arrayPosition (pathOf p) (p_id b)) of
             (Some i, Some j) \<Rightarrow> int j - int i | _ \<Rightarrow> 0)"
    using deepest_comparator [OF assms(1,2)] by simp
  from assms(3) obtain y where y: "p_id y = x" and "queryOne (sort_by (\<lambda>a b. case (arrayPosition (pathOf p) (p_id a),
      arrayPosition (pathOf p) (p_id b)) of (Some i, Some j) \<Rightarrow> int j - int i | _ \<Rightarrow> 0) ?rows) = Some y"
    unfolding restrictedAt_def by auto
  from sort_by_head [OF cmp this(2)] have yin: "y \<in> set ?rows"
    and top: "\<And>r. r \<in> set ?rows \<Longrightarrow> r = y \<or> (case (arrayPosition (pathOf p) (p_id y), arrayPosition (pathOf p) (p_id r)) of
             (Some i, Some j) \<Rightarrow> int j - int i | _ \<Rightarrow> 0) \<le> 0" by blast+
  then obtain k where k: "arrayPosition (pathOf p) x = Some k"
    using y arrayPosition_None [of "pathOf p" x] by auto
  have "j \<le> k" if "r \<in> set (pages db)" "p_restricted r" "arrayPosition (pathOf p) (p_id r) = Some j" for r j
  proof -
    have "r \<in> set ?rows" using that arrayPosition_None [of "pathOf p" "p_id r"] by auto
    from top [OF this] show ?thesis using that k y by auto
  qed
  with k y yin show ?thesis by auto
qed

lemma location_unfenced:
  assumes "wf_pages db" and "p \<in> set (pages db)" and "x \<in> set (pathOf p)"
  defines "fence \<equiv> (case restrictedAt db p of None \<Rightarrow> -1 | Some r \<Rightarrow> pathIndex (pathOf p) r)"
  shows "fence < 0 \<or> fence \<le> pathIndex (pathOf p) x \<longleftrightarrow> unfenced db p x"
proof -
  obtain k where k: "arrayPosition (pathOf p) x = Some k"
    using assms(3) arrayPosition_None [of "pathOf p" x] by auto
  show ?thesis
  proof (cases "restrictedAt db p")
    case None
    then have "arrayPosition (pathOf p) (p_id r) = None" if "r \<in> set (pages db)" "p_restricted r" for r
      using that restrictedAt_None arrayPosition_None by metis
    with None k show ?thesis by (simp add: fence_def unfenced_def)
  next
    case (Some y)
    from restrictedAt_Some [OF assms(1,2) Some] obtain f r where f: "arrayPosition (pathOf p) y = Some f"
      and r: "r \<in> set (pages db)" "p_id r = y" "p_restricted r"
      and top: "\<And>r j. r \<in> set (pages db) \<Longrightarrow> p_restricted r \<Longrightarrow> arrayPosition (pathOf p) (p_id r) = Some j \<Longrightarrow> j \<le> f"
      by blast
    have "0 < f" "0 < k" using arrayPosition_SomeD [OF f] arrayPosition_SomeD [OF k] by simp_all
    moreover have "unfenced db p x \<longleftrightarrow> f \<le> k"
    proof
      assume "unfenced db p x"
      then have "case arrayPosition (pathOf p) (p_id r) of None \<Rightarrow> True | Some j \<Rightarrow> j \<le> k"
        using k r(1,3) by (simp add: unfenced_def)
      with f r show "f \<le> k" by simp
    next
      assume "f \<le> k"
      then have "case arrayPosition (pathOf p) (p_id q) of None \<Rightarrow> True | Some j \<Rightarrow> j \<le> k"
        if "q \<in> set (pages db)" "p_restricted q" for q
        using top [OF that] by (cases "arrayPosition (pathOf p) (p_id q)") auto
      with k show "unfenced db p x" by (simp add: unfenced_def)
    qed
    ultimately show ?thesis using f k Some by (auto simp: fence_def pathIndex_position)
  qed
qed

end
