(* ===== verification/Access_Agreement.thy ===== *)
theory Access_Agreement
  imports Page_Tree
begin

text \<open>
  Three parts of the server answer whether a person may reach a page: \<open>resolvePageAccess\<close> walks the
  tree in the database, \<open>effectiveRole\<close> decides over claims for sync and documents, and
  \<open>visiblePagesCondition\<close> filters every listing. This theory states the rule they share as a
  locale, interprets it on the first two, and shows where the three agree on a well-formed tree and
  where they do not: the walk answers with a page's ceiling where the rule gives no access.
\<close>

section \<open>The shared rule\<close>

text \<open>
  The workspace default, withheld by a restriction except from a page admin, widened by the grants
  in reach, then lowered by the lowest ceiling except for a page admin.
\<close>

definition ladder :: "role option \<Rightarrow> bool \<Rightarrow> role list \<Rightarrow> role list \<Rightarrow> role option" where
  "ladder level restr grants caps =
     (let base = (if level = Some Admin then [Admin] else if restr then [] else somes [level]);
          best = greatestRole (base @ grants)
      in if level = Some Admin then best
         else map_option (\<lambda>b. case leastRole caps of None \<Rightarrow> b | Some c \<Rightarrow> min b c) best)"

text \<open>
  A resolver follows the rule where the rule gives access. Where it gives none, the resolver
  answers \<open>gap\<close>; a strict resolver answers nothing.
\<close>

locale access_resolver =
  fixes decide :: "'q \<Rightarrow> role option"
    and level :: "'q \<Rightarrow> role option"
    and restr :: "'q \<Rightarrow> bool"
    and grants :: "'q \<Rightarrow> role list"
    and caps :: "'q \<Rightarrow> role list"
    and gap :: "'q \<Rightarrow> role option"
  assumes decide_ladder:
      "decide q = (case ladder (level q) (restr q) (grants q) (caps q) of None \<Rightarrow> gap q | Some r \<Rightarrow> Some r)"
    and gap_capped: "gap q = Some r \<Longrightarrow> c \<in> set (caps q) \<Longrightarrow> r \<le> c"
begin

lemma decide_admin: "level q = Some Admin \<Longrightarrow> decide q = Some Admin"
  by (simp add: decide_ladder ladder_def greatestRole_Some del: greatestRole.simps split: option.split)

lemma ladder_None_iff:
  "ladder (level q) (restr q) (grants q) (caps q) = None \<longleftrightarrow>
     level q \<noteq> Some Admin \<and> (restr q \<or> level q = None) \<and> grants q = []"
  by (cases "level q") (simp_all add: ladder_def del: greatestRole.simps)

lemma decide_capped:
  assumes "level q \<noteq> Some Admin" and "c \<in> set (caps q)" and "decide q = Some r"
  shows "r \<le> c"
proof (cases "ladder (level q) (restr q) (grants q) (caps q)")
  case None
  with assms show ?thesis by (simp add: decide_ladder gap_capped)
next
  case (Some s)
  obtain l where l: "leastRole (caps q) = Some l" using assms(2) by (cases "leastRole (caps q)") auto
  then have "l \<le> c" using assms(2) by (simp add: leastRole_Some)
  with Some assms l show ?thesis
    by (auto simp: decide_ladder ladder_def Let_def min_le_iff_disj simp del: greatestRole.simps)
qed

lemma decide_bounded:
  assumes "decide q = Some r"
  shows "r = Admin \<and> level q = Some Admin \<or> gap q = Some r \<or>
    (\<exists>g. (g \<in> set (grants q) \<or> level q = Some g \<and> \<not> restr q) \<and> r \<le> g)"
proof (cases "level q = Some Admin \<or> ladder (level q) (restr q) (grants q) (caps q) = None")
  case True
  with assms decide_admin show ?thesis by (auto simp: decide_ladder)
next
  case False
  let ?xs = "(if restr q then [] else somes [level q]) @ grants q"
  from assms False obtain b where b: "greatestRole ?xs = Some b" and r: "r \<le> b"
    by (cases "leastRole (caps q)")
      (auto simp: decide_ladder ladder_def Let_def split: option.splits)
  from b have "b \<in> set ?xs" by (simp add: greatestRole_Some)
  with r show ?thesis by (cases "level q") (auto split: if_splits)
qed

end

text \<open>A ceiling lowers but never hides: whether there is access at all does not depend on caps.\<close>

locale strict_resolver = access_resolver +
  assumes gap_None: "gap q = None"
begin

lemma decide_eq: "decide q = ladder (level q) (restr q) (grants q) (caps q)"
  by (simp add: decide_ladder gap_None split: option.split)

lemma decide_None_iff:
  "decide q = None \<longleftrightarrow> level q \<noteq> Some Admin \<and> (restr q \<or> level q = None) \<and> grants q = []"
  by (simp add: decide_eq ladder_None_iff)

end

subsection \<open>The walk in the database\<close>

lemma lessPermissive_None [simp]: "lessPermissive g None = g"
  by (cases g) auto

lemma ladder_gap:
  "lessPermissive (greatestRole xs) (leastRole cs) =
     (case map_option (\<lambda>b. case leastRole cs of None \<Rightarrow> b | Some c \<Rightarrow> min b c) (greatestRole xs) of
        None \<Rightarrow> leastRole cs | Some r \<Rightarrow> Some r)"
  by (cases "greatestRole xs") (simp_all add: lessPermissive_min)

lemma greatestRole_somes: "greatestRole (somes [l]) = l"
  by (cases l) auto

text \<open>The answer of the walk: the rule, and the lowest ceiling where the rule gives no access.\<close>

lemma decideAccess_ladder:
  assumes "ar_granted row = greatestRole gs" and "ar_capped row = leastRole cs"
  shows "access (decideAccess level row) =
    (case ladder level (ar_restricted row) gs cs of None \<Rightarrow> leastRole cs | Some r \<Rightarrow> Some r)"
proof (cases "level = Some Admin")
  case True
  have "morePermissive (Some Admin) (greatestRole gs) = greatestRole (Admin # gs)"
    using morePermissive_greatest [of "[Admin]" gs] by simp
  moreover obtain r where "greatestRole (Admin # gs) = Some r"
    by (cases "greatestRole (Admin # gs)") (auto simp del: greatestRole.simps)
  ultimately show ?thesis using True assms
    by (simp add: decideAccess_def ladder_def Let_def del: greatestRole.simps)
next
  case False
  have base: "morePermissive (if ar_restricted row then None else level) (greatestRole gs) =
      greatestRole ((if ar_restricted row then [] else somes [level]) @ gs)"
    using morePermissive_greatest [of "if ar_restricted row then [] else somes [level]" gs]
      greatestRole_somes [of level] by auto
  have "access (decideAccess level row) =
      lessPermissive (morePermissive (if ar_restricted row then None else level) (greatestRole gs)) (leastRole cs)"
    using False assms by (simp add: decideAccess_def Let_def)
  then show ?thesis using False unfolding base ladder_gap by (simp add: ladder_def)
qed

text \<open>A question to the walk: the level, the walk itself, the page, the person and the database.\<close>

definition walkRow :: "database \<Rightarrow> page_row list \<Rightarrow> ident \<Rightarrow> ident \<Rightarrow> ident \<Rightarrow> bool \<Rightarrow> access_row" where
  "walkRow db anc pageId userId w owns =
     \<lparr>ar_workspace_id = w, ar_restricted = (\<exists>p \<in> set anc. p_restricted p),
      ar_granted = greatestRole (walkGrants anc pageId (ownPermissions db userId @ groupPermissions db userId)),
      ar_capped = leastRole (walkCaps anc pageId (page_caps db)), ar_owns_workspace = owns\<rparr>"

interpretation walk: access_resolver
  "\<lambda>(level, db, anc, pageId, userId, w, owns). access (decideAccess level (walkRow db anc pageId userId w owns))"
  "\<lambda>(level, db, anc, pageId, userId, w, owns). level"
  "\<lambda>(level, db, anc, pageId, userId, w, owns). \<exists>p \<in> set anc. p_restricted p"
  "\<lambda>(level, db, anc, pageId, userId, w, owns). walkGrants anc pageId (ownPermissions db userId @ groupPermissions db userId)"
  "\<lambda>(level, db, anc, pageId, userId, w, owns). walkCaps anc pageId (page_caps db)"
  "\<lambda>(level, db, anc, pageId, userId, w, owns). leastRole (walkCaps anc pageId (page_caps db))"
  by unfold_locales (auto simp: decideAccess_ladder walkRow_def leastRole_Some)

subsection \<open>Deciding over claims\<close>

definition fenceOf :: "page_location \<Rightarrow> int" where
  "fenceOf page = (case loc_restrictedAt page of None \<Rightarrow> -1
                   | Some r \<Rightarrow> pathIndex (loc_ancestorIds page @ [loc_id page]) r)"

definition grantCounts :: "page_location \<Rightarrow> grant \<Rightarrow> bool" where
  "grantCounts page g =
     (scopeReaches (gr_scopePageId g) (gr_includeSubtree g) page \<and>
      (fenceOf page < 0 \<or> fenceOf page \<le> pathIndex (loc_ancestorIds page @ [loc_id page]) (gr_scopePageId g)))"

definition claimGrants :: "access_claims \<Rightarrow> page_location \<Rightarrow> role list" where
  "claimGrants claims page =
     (if loc_workspaceId page = cl_workspaceId claims
      then map gr_role (filter (grantCounts page) (cl_grants claims)) else [])"

definition claimCaps :: "access_claims \<Rightarrow> page_location \<Rightarrow> role list" where
  "claimCaps claims page =
     map cap_maxLevel (filter (\<lambda>c. scopeReaches (cap_scopePageId c) (cap_includeSubtree c) page) (cl_caps claims))"

lemma considerRole_greatest: "considerRole r (greatestRole rs) = greatestRole (r # rs)"
  by (cases "greatestRole rs") (simp_all add: considerRole_def)

lemma considerGrant_counts:
  "considerGrant page g best = (if grantCounts page g then considerRole (gr_role g) best else best)"
  unfolding considerGrant_def grantCounts_def fenceOf_def Let_def by auto

lemma fold_considerGrant:
  "fold (considerGrant page) gs (greatestRole rs) =
     greatestRole (rs @ map gr_role (filter (grantCounts page) gs))"
proof (induction gs arbitrary: rs)
  case Nil
  then show ?case by simp
next
  case (Cons g gs)
  have "considerGrant page g (greatestRole rs) =
      greatestRole (if grantCounts page g then gr_role g # rs else rs)"
    by (simp add: considerGrant_counts considerRole_greatest)
  with Cons.IH show ?case by (auto simp del: greatestRole.simps intro: greatestRole_cong)
qed

lemma fold_lowerByCap:
  "fold (lowerByCap page) cs =
     (\<lambda>b. case leastRole (map cap_maxLevel (filter (\<lambda>c. scopeReaches (cap_scopePageId c) (cap_includeSubtree c) page) cs)) of
        None \<Rightarrow> b | Some c \<Rightarrow> min b c)"
proof (induction cs)
  case Nil
  then show ?case by auto
next
  case (Cons c cs)
  then show ?case
    by (auto simp: fun_eq_iff lowerByCap_def min_def split: option.splits)
qed

lemma effectiveRole_ladder:
  "effectiveRole claims page =
     ladder (if loc_workspaceId page = cl_workspaceId claims then cl_pageLevel claims else None)
       (loc_restrictedAt page \<noteq> None) (claimGrants claims page) (claimCaps claims page)"
proof (cases "loc_workspaceId page = cl_workspaceId claims")
  case False
  then show ?thesis by (simp add: effectiveRole_def ladder_def claimGrants_def)
next
  case True
  let ?base = "if cl_pageLevel claims = Some Admin then [Admin]
    else if loc_restrictedAt page \<noteq> None then [] else somes [cl_pageLevel claims]"
  have "(if cl_pageLevel claims = Some Admin then considerRole Admin None
         else (case cl_pageLevel claims of None \<Rightarrow> None
               | Some l \<Rightarrow> if loc_restrictedAt page = None then considerRole l None else None)) = greatestRole ?base"
    by (cases "cl_pageLevel claims") (simp_all add: considerRole_def)
  with True show ?thesis
    by (simp only: effectiveRole_def ladder_def fold_considerGrant fold_lowerByCap claimGrants_def claimCaps_def
        Let_def if_True simp_thms) simp
qed

interpretation claims: strict_resolver
  "\<lambda>(claims, page). effectiveRole claims page"
  "\<lambda>(claims, page). if loc_workspaceId page = cl_workspaceId claims then cl_pageLevel claims else None"
  "\<lambda>(claims, page). loc_restrictedAt page \<noteq> None"
  "\<lambda>(claims, page). claimGrants claims page"
  "\<lambda>(claims, page). claimCaps claims page"
  "\<lambda>_. None"
  by unfold_locales (auto simp: effectiveRole_ladder split: option.split)

section \<open>The same grants and ceilings\<close>

text \<open>Grants and caps in reach of a page, as the rows of the database that make them.\<close>

definition reaches :: "page_row \<Rightarrow> ident \<Rightarrow> bool \<Rightarrow> bool" where
  "reaches p x subtree = (x = p_id p \<or> subtree \<and> x \<in> set (p_ancestor_ids p))"

definition grantRows :: "database \<Rightarrow> ident \<Rightarrow> permission_row set" where
  "grantRows db u = set (ownPermissions db u) \<union> set (groupPermissions db u)"

definition grantedLevels :: "database \<Rightarrow> page_row \<Rightarrow> ident \<Rightarrow> role set" where
  "grantedLevels db p u =
     {pp_role pp | pp. pp \<in> grantRows db u \<and> reaches p (pp_page_id pp) (pp_include_subtree pp) \<and>
        unfenced db p (pp_page_id pp)}"

definition cappedLevels :: "database \<Rightarrow> page_row \<Rightarrow> role set" where
  "cappedLevels db p = {c_max_level c | c. c \<in> set (page_caps db) \<and> reaches p (c_page_id c) (c_include_subtree c)}"

lemma reaches_path: "reaches p x b \<longleftrightarrow> x \<in> set (pathOf p) \<and> (b \<or> x = p_id p)"
  by (auto simp: reaches_def pathOf_def)

lemma unfenced_path: "unfenced db p x \<Longrightarrow> x \<in> set (pathOf p)"
  using arrayPosition_None [of "pathOf p" x] by (auto simp: unfenced_def split: option.splits)

lemma in_zip_upt: "x \<in> set (zip [0..<length xs] xs) \<longleftrightarrow> (\<exists>d < length xs. x = (d, xs ! d))"
  by (force simp: set_zip)

lemma in_joined: "r \<in> set (concat (map (\<lambda>x. map (\<lambda>_. f x) (filter (Q x) ys)) rows)) \<longleftrightarrow>
    (\<exists>x \<in> set rows. r = f x \<and> (\<exists>y \<in> set ys. Q x y))"
  by auto

lemma set_walkGrants:
  "r \<in> set (walkGrants anc pageId rows) \<longleftrightarrow>
     (\<exists>pp \<in> set rows. r = pp_role pp \<and> (pp_include_subtree pp \<or> pp_page_id pp = pageId) \<and>
        (\<exists>d < length anc. p_id (anc ! d) = pp_page_id pp \<and>
           (case fenceDepth anc of None \<Rightarrow> True | Some f \<Rightarrow> d \<le> f)))"
  unfolding walkGrants_def in_joined by (auto simp: in_zip_upt Bex_def)

lemma walkGrants_levels:
  assumes "wf_pages db" and "p \<in> set (pages db)" and "isAncestry db p anc"
  shows "set (walkGrants anc (p_id p) (ownPermissions db u @ groupPermissions db u)) = grantedLevels db p u"
  unfolding set_eq_iff set_walkGrants walk_unfenced [OF assms] grantedLevels_def grantRows_def reaches_path
  using unfenced_path by fastforce

lemma walkCaps_levels:
  assumes "isAncestry db p anc"
  shows "set (walkCaps anc (p_id p) (page_caps db)) = cappedLevels db p"
proof -
  have "x \<in> set (pathOf p) \<longleftrightarrow> (\<exists>a \<in> set anc. p_id a = x)" for x
    using assms by (metis (no_types, lifting) image_iff isAncestry_def list.set_map set_rev)
  then show ?thesis unfolding walkCaps_def cappedLevels_def reaches_path by auto
qed

lemma walk_restricted:
  assumes "wf_pages db" and "p \<in> set (pages db)" and anc: "isAncestry db p anc"
  shows "(\<exists>a \<in> set anc. p_restricted a) \<longleftrightarrow> restrictedAt db p \<noteq> None"
proof -
  have "set (pathOf p) = p_id ` set anc" using anc by (metis isAncestry_def list.set_map set_rev)
  then show ?thesis
    using anc wf_pages_id_inj [OF assms(1)] unfolding restrictedAt_None isAncestry_def
    by (auto simp: image_iff subset_iff) metis
qed

lemma locationOf_simps [simp]:
  "loc_id (locationOf db p) = p_id p" "loc_workspaceId (locationOf db p) = p_workspace_id p"
  "loc_ancestorIds (locationOf db p) = p_ancestor_ids p" "loc_restrictedAt (locationOf db p) = restrictedAt db p"
  by (simp_all add: locationOf_def)

lemma scopeReaches_location: "scopeReaches x b (locationOf db p) = reaches p x b"
  by (simp add: scopeReaches_def reaches_def)

lemma grantCounts_location:
  assumes "wf_pages db" and "p \<in> set (pages db)"
  shows "grantCounts (locationOf db p) g \<longleftrightarrow>
    reaches p (gr_scopePageId g) (gr_includeSubtree g) \<and> unfenced db p (gr_scopePageId g)"
  using location_unfenced [OF assms, of "gr_scopePageId g"]
  unfolding grantCounts_def fenceOf_def scopeReaches_location reaches_path locationOf_simps pathOf_def by blast

lemma inWorkspace_path:
  assumes "wf_pages db" and "p \<in> set (pages db)" and "x \<in> set (pathOf p)"
  shows "inWorkspace db (p_workspace_id p) x \<noteq> []"
  using path_rows [OF assms] by (auto simp: inWorkspace_def filter_empty_conv)

lemma set_pageGrantsFor:
  "g \<in> set (pageGrantsFor db u w) \<Longrightarrow> \<exists>pp \<in> grantRows db u. gr_role g = pp_role pp \<and>
     gr_scopePageId g = pp_page_id pp \<and> gr_includeSubtree g = pp_include_subtree pp"
  by (auto simp: pageGrantsFor_def grantRows_def Let_def)

lemma joined_in: "x \<in> set rows \<Longrightarrow> ys x \<noteq> [] \<Longrightarrow> f x \<in> set (concat (map (\<lambda>x. map (\<lambda>_. f x) (ys x)) rows))"
  by (fastforce simp: neq_Nil_conv)

lemma pageGrantsFor_ex:
  assumes "pp \<in> grantRows db u" and "inWorkspace db w (pp_page_id pp) \<noteq> []"
  shows "\<exists>g \<in> set (pageGrantsFor db u w). gr_role g = pp_role pp \<and>
     gr_scopePageId g = pp_page_id pp \<and> gr_includeSubtree g = pp_include_subtree pp"
proof -
  let ?g = "\<lambda>source. \<lparr>gr_scopePageId = pp_page_id pp, gr_includeSubtree = pp_include_subtree pp,
      gr_role = pp_role pp, gr_source = source, gr_tokenId = None\<rparr>"
  have "?g FromPagePermission \<in> set (pageGrantsFor db u w) \<or> ?g FromPageGroupPermission \<in> set (pageGrantsFor db u w)"
    using assms unfolding pageGrantsFor_def grantRows_def Let_def set_append
    by (auto simp del: set_concat intro: joined_in)
  then show ?thesis by (elim disjE) (rule bexI [rotated], assumption, simp)+
qed

lemma claimGrants_levels:
  assumes "wf_pages db" and "p \<in> set (pages db)"
  shows "set (claimGrants (memberClaims db guest u name (p_workspace_id p) st) (locationOf db p)) = grantedLevels db p u"
    (is "set (claimGrants ?cl _) = _")
proof -
  have "set (claimGrants ?cl (locationOf db p)) =
      {gr_role g | g. g \<in> set (pageGrantsFor db u (p_workspace_id p)) \<and>
         reaches p (gr_scopePageId g) (gr_includeSubtree g) \<and> unfenced db p (gr_scopePageId g)}"
    by (auto simp: claimGrants_def memberClaims_def grantCounts_location [OF assms])
  also have "\<dots> = grantedLevels db p u"
  proof (intro equalityI subsetI)
    fix r assume "r \<in> {gr_role g | g. g \<in> set (pageGrantsFor db u (p_workspace_id p)) \<and>
         reaches p (gr_scopePageId g) (gr_includeSubtree g) \<and> unfenced db p (gr_scopePageId g)}"
    then show "r \<in> grantedLevels db p u" unfolding grantedLevels_def by (auto dest!: set_pageGrantsFor)
  next
    fix r assume "r \<in> grantedLevels db p u"
    then obtain pp where pp: "r = pp_role pp" "pp \<in> grantRows db u"
      "reaches p (pp_page_id pp) (pp_include_subtree pp)" "unfenced db p (pp_page_id pp)"
      by (auto simp: grantedLevels_def)
    from pageGrantsFor_ex [OF pp(2) inWorkspace_path [OF assms unfenced_path [OF pp(4)]]]
    obtain g where "g \<in> set (pageGrantsFor db u (p_workspace_id p))" "gr_role g = pp_role pp"
      "gr_scopePageId g = pp_page_id pp" "gr_includeSubtree g = pp_include_subtree pp" by blast
    with pp show "r \<in> {gr_role g | g. g \<in> set (pageGrantsFor db u (p_workspace_id p)) \<and>
         reaches p (gr_scopePageId g) (gr_includeSubtree g) \<and> unfenced db p (gr_scopePageId g)}"
      by (intro CollectI exI [of _ g]) simp
  qed
  finally show ?thesis .
qed

lemma claimCaps_levels:
  assumes "wf_pages db" and "p \<in> set (pages db)" and "cl_caps cl = pageCapsFor db (p_workspace_id p)"
  shows "set (claimCaps cl (locationOf db p)) = cappedLevels db p"
proof (intro equalityI subsetI)
  fix r assume "r \<in> set (claimCaps cl (locationOf db p))"
  then show "r \<in> cappedLevels db p"
    unfolding claimCaps_def cappedLevels_def assms(3) by (auto simp: pageCapsFor_def scopeReaches_location)
next
  fix r assume "r \<in> cappedLevels db p"
  then obtain c where c: "c \<in> set (page_caps db)" "r = c_max_level c" "reaches p (c_page_id c) (c_include_subtree c)"
    by (auto simp: cappedLevels_def)
  then have "inWorkspace db (p_workspace_id p) (c_page_id c) \<noteq> []"
    using inWorkspace_path [OF assms(1,2)] reaches_path by blast
  then obtain y where "y \<in> set (inWorkspace db (p_workspace_id p) (c_page_id c))"
    by (cases "inWorkspace db (p_workspace_id p) (c_page_id c)") auto
  with c show "r \<in> set (claimCaps cl (locationOf db p))"
    unfolding claimCaps_def assms(3) pageCapsFor_def by (force simp: scopeReaches_location)
qed

section \<open>Agreement\<close>

lemma ladder_cong:
  assumes "set gs = set gs'" and "set cs = set cs'"
  shows "ladder l b gs cs = ladder l b gs' cs'"
proof -
  have "greatestRole (xs @ gs) = greatestRole (xs @ gs')" for xs
    using assms(1) by (intro greatestRole_cong) simp
  moreover have "leastRole cs = leastRole cs'" using assms(2) by (rule leastRole_cong)
  ultimately show ?thesis by (simp add: ladder_def)
qed

lemma memberClaims_simps [simp]:
  "cl_workspaceId (memberClaims db guest u name w st) = w"
  "cl_pageLevel (memberClaims db guest u name w st) = st_pageLevel st"
  "cl_caps (memberClaims db guest u name w st) = pageCapsFor db w"
  by (simp_all add: memberClaims_def)

definition workspaceOf :: "database \<Rightarrow> page_row \<Rightarrow> workspace_row option" where
  "workspaceOf db p = queryOne (filter (\<lambda>w. w_id w = p_workspace_id p) (workspaces db))"

lemma accessRow_walk:
  assumes "isAncestry db p anc" and "workspaceOf db p = Some w"
  shows "accessRow db anc (p_id p) u =
    Some (walkRow db anc (p_id p) u (p_workspace_id p) (w_personal_for w = Some u))"
proof -
  obtain top where top: "filter (\<lambda>a. p_parent_page_id a = None) anc = [top]" "p_workspace_id top = p_workspace_id p"
    using assms(1) by (auto simp: isAncestry_def)
  obtain ws where "filter (\<lambda>w. w_id w = p_workspace_id p) (workspaces db) = w # ws"
    using assms(2) unfolding workspaceOf_def
    by (cases "filter (\<lambda>w. w_id w = p_workspace_id p) (workspaces db)") auto
  with top show ?thesis by (simp add: accessRow_def walkRow_def)
qed

text \<open>The walk, and the claims, both in terms of the rule on the same levels.\<close>

lemma walk_agrees:
  assumes "wf_pages db" and "p \<in> set (pages db)" and anc: "isAncestry db p anc"
  shows "access (decideAccess (st_pageLevel st) (walkRow db anc (p_id p) u w b)) =
    (case effectiveRole (memberClaims db guest u name (p_workspace_id p) st) (locationOf db p) of
       None \<Rightarrow> leastRole (walkCaps anc (p_id p) (page_caps db)) | Some r \<Rightarrow> Some r)"
proof -
  let ?cl = "memberClaims db guest u name (p_workspace_id p) st"
  let ?gs = "walkGrants anc (p_id p) (ownPermissions db u @ groupPermissions db u)"
  let ?cs = "walkCaps anc (p_id p) (page_caps db)"
  have "effectiveRole ?cl (locationOf db p) =
      ladder (st_pageLevel st) (\<exists>a \<in> set anc. p_restricted a) ?gs ?cs"
    unfolding effectiveRole_ladder walk_restricted [OF assms]
    using claimGrants_levels [OF assms(1,2)] walkGrants_levels [OF assms]
      claimCaps_levels [OF assms(1,2), of ?cl] walkCaps_levels [OF anc]
    by simp (intro ladder_cong; simp)
  then show ?thesis
    by (subst decideAccess_ladder [where gs = ?gs and cs = ?cs]) (simp_all add: walkRow_def)
qed

definition capsInReach :: "database \<Rightarrow> page_row \<Rightarrow> role list" where
  "capsInReach db p = map c_max_level (filter (\<lambda>c. reaches p (c_page_id c) (c_include_subtree c)) (page_caps db))"

lemma set_capsInReach: "set (capsInReach db p) = cappedLevels db p"
  by (auto simp: capsInReach_def cappedLevels_def)

lemma resolvePageAccess_eq:
  assumes "wf_pages db" and "p \<in> set (pages db)" and "workspaceOf db p = Some w"
    and "loadWorkspaceStanding db u (p_workspace_id p) = Inr st"
  shows "\<exists>res. resolvePageAccess db (p_id p) u = Some (Inr res) \<and>
    access res = (if w_personal_for w = Some u then Some Admin
      else (case effectiveRole (memberClaims db guest u name (p_workspace_id p) st) (locationOf db p) of
              None \<Rightarrow> leastRole (capsInReach db p) | Some r \<Rightarrow> Some r))"
proof -
  obtain anc where anc: "ancestry (Suc (length (pages db))) db (p_id p) = Some anc" "isAncestry db p anc"
    using ancestry_total [OF assms(1,2)] by blast
  have caps: "leastRole (walkCaps anc (p_id p) (page_caps db)) = leastRole (capsInReach db p)"
    by (rule leastRole_cong) (simp only: walkCaps_levels [OF anc(2)] set_capsInReach)
  have "ar_workspace_id (walkRow db anc x u (p_workspace_id p) b) = p_workspace_id p"
    "ar_owns_workspace (walkRow db anc x u (p_workspace_id p) b) = b" for x b
    by (simp_all add: walkRow_def)
  then show ?thesis
    using walk_agrees [OF assms(1,2) anc(2), where st = st and u = u and w = "p_workspace_id p" and b = False
        and guest = guest and name = name, unfolded caps]
    by (simp add: resolvePageAccess_def anc(1) accessRow_walk [OF anc(2) assms(3)] assms(4)
        del: ancestry.simps)
qed

text \<open>Membership conditions of the listings, in terms of the standing.\<close>

lemma levelCondition_standing:
  assumes "wf_members db" and "\<not> test None"
  shows "workspaceLevelCondition test db p u \<longleftrightarrow>
    (\<exists>m l. memberRow db u (p_workspace_id p) = Some m \<and> test (Some l) \<and>
       Some l \<in> r_page_level ` set (ownRoles db m @ groupRoles db u (p_workspace_id p)))"
    (is "_ = ?held")
proof
  assume "workspaceLevelCondition test db p u"
  then obtain m r where m: "m \<in> set (workspace_members db)" "m_workspace_id m = p_workspace_id p" "m_user_id m = u"
    and r: "r \<in> set (roles db)" "r_id r = m_role_id m"
    and t: "test (r_page_level r) \<or> (\<exists>q \<in> set (groupRoles db u (p_workspace_id p)). test (r_page_level q))"
    unfolding workspaceLevelCondition_def set_groupRoles Bex_def by (metis (lifting))
  then obtain q where q: "q \<in> set (ownRoles db m @ groupRoles db u (p_workspace_id p))" "test (r_page_level q)"
    by (auto simp: set_ownRoles)
  then obtain l where "r_page_level q = Some l" using assms(2) by (cases "r_page_level q") auto
  with q memberRow_unique [OF assms(1) m] show ?held by (metis image_eqI)
next
  assume ?held
  then obtain m l q where m: "memberRow db u (p_workspace_id p) = Some m" and t: "test (r_page_level q)"
    and q: "q \<in> set (ownRoles db m @ groupRoles db u (p_workspace_id p))" by auto
  from memberRow_Some_in [OF m] have min: "m \<in> set (workspace_members db)" "m_workspace_id m = p_workspace_id p" "m_user_id m = u"
    by simp_all
  then obtain r where "r \<in> set (roles db)" "r_id r = m_role_id m" using assms(1) by (auto simp: wf_members_def)
  with q t min show "workspaceLevelCondition test db p u"
    unfolding workspaceLevelCondition_def by (fastforce simp: set_ownRoles set_groupRoles)
qed

lemma pageLevel_standing:
  assumes "loadWorkspaceStanding db u w = Inr st"
  shows "st_pageLevel st = (case memberRow db u w of None \<Rightarrow> None
    | Some m \<Rightarrow> greatestRole (somes (map r_page_level (ownRoles db m @ groupRoles db u w))))"
  using standing_cases [OF assms] by (cases "memberRow db u w") (auto simp: noStanding_def)

lemma anyLevel_standing:
  assumes "wf_members db" and "loadWorkspaceStanding db u (p_workspace_id p) = Inr st"
  shows "anyPageLevelCondition db p u \<longleftrightarrow> st_pageLevel st \<noteq> None"
proof -
  have "somes xs = [] \<longleftrightarrow> \<not> (\<exists>l. Some l \<in> set xs)" for xs :: "role option list"
    using set_somes [of xs] by (auto simp flip: set_empty)
  then show ?thesis
    using levelCondition_standing [OF assms(1), of "\<lambda>l. l \<noteq> None" p u]
    unfolding anyPageLevelCondition_def pageLevel_standing [OF assms(2)]
    by (cases "memberRow db u (p_workspace_id p)") (auto simp: image_iff)
qed

lemma fullAccess_standing:
  assumes "wf_members db" and "loadWorkspaceStanding db u (p_workspace_id p) = Inr st"
  shows "fullAccessCondition db p u \<longleftrightarrow> st_pageLevel st = Some Admin"
  unfolding fullAccessCondition_def pageLevel_standing [OF assms(2)]
    levelCondition_standing [OF assms(1), of "\<lambda>l. l = Some Admin", OF option.distinct(1)]
  by (cases "memberRow db u (p_workspace_id p)") (auto simp: greatestRole_Some image_iff)

lemma listed_grants:
  "(\<exists>pp \<in> set (page_permissions db). pp_subject pp = u \<and>
      (pp_page_id pp = p_id p \<or> pp_include_subtree pp \<and> pp_page_id pp \<in> set (p_ancestor_ids p)) \<and>
      grantIsBelowFence db p (pp_page_id pp)) \<or>
   (\<exists>gp \<in> set (page_group_permissions db). \<exists>gm \<in> set (group_members db).
      gm_group_id gm = pp_subject gp \<and> gm_user_id gm = u \<and>
      (pp_page_id gp = p_id p \<or> pp_include_subtree gp \<and> pp_page_id gp \<in> set (p_ancestor_ids p)) \<and>
      grantIsBelowFence db p (pp_page_id gp)) \<longleftrightarrow> grantedLevels db p u \<noteq> {}"
  unfolding grantedLevels_def grantRows_def ownPermissions_def groupPermissions_def reaches_def grantIsBelowFence_unfenced
  by fastforce

lemma visible_canRead:
  assumes "wf_pages db" and "wf_members db" and "p \<in> set (pages db)"
    and "loadWorkspaceStanding db u (p_workspace_id p) = Inr st"
  shows "visiblePagesCondition db p (Some u) \<longleftrightarrow>
    st_isMember st \<and> canRead (memberClaims db guest u name (p_workspace_id p) st) (locationOf db p)"
proof -
  let ?cl = "memberClaims db guest u name (p_workspace_id p) st"
  have member: "isWorkspaceMemberCondition db p u \<longleftrightarrow> st_isMember st"
    using standing_cases [OF assms(4)] memberRow_None_iff [of db u "p_workspace_id p"]
    by (auto simp: isWorkspaceMemberCondition_def noStanding_def split: if_splits)
  have "claimGrants ?cl (locationOf db p) = [] \<longleftrightarrow> grantedLevels db p u = {}"
    using claimGrants_levels [OF assms(1,3), of guest u name st] by (metis set_empty)
  then have "canRead ?cl (locationOf db p) \<longleftrightarrow>
      st_pageLevel st = Some Admin \<or> restrictedAt db p = None \<and> st_pageLevel st \<noteq> None \<or> grantedLevels db p u \<noteq> {}"
    using claims.decide_None_iff [of "(?cl, locationOf db p)"] by (auto simp: canRead_def)
  then show ?thesis
    using listed_grants [of db u p]
    unfolding visiblePagesCondition_def member option.case anyLevel_standing [OF assms(2,4)]
      fullAccess_standing [OF assms(2,4)] restrictedAt_None by blast
qed

section \<open>A small workspace\<close>

text \<open>One workspace with an owner, a member and a page tree: a section, a restricted page below it
  that is granted to the member, and a page below that with a ceiling.\<close>

definition sectionPage :: page_row where
  "sectionPage = \<lparr>p_id = ''s'', p_workspace_id = ''w'', p_parent_page_id = None, p_ancestor_ids = [], p_restricted = False\<rparr>"

definition privatePage :: page_row where
  "privatePage = \<lparr>p_id = ''r'', p_workspace_id = ''w'', p_parent_page_id = Some ''s'', p_ancestor_ids = [''s''], p_restricted = True\<rparr>"

definition cappedPage :: page_row where
  "cappedPage = \<lparr>p_id = ''c'', p_workspace_id = ''w'', p_parent_page_id = Some ''r'', p_ancestor_ids = [''s'', ''r''], p_restricted = False\<rparr>"

definition teamDb :: database where
  "teamDb = emptyDb\<lparr>workspaces := [\<lparr>w_id = ''w'', w_personal_for = None\<rparr>],
     roles := [\<lparr>r_id = ''1'', r_workspace_id = None, r_key = Some ''owner'', r_name = ''Owner'', r_page_level = Some Admin, r_rights = RIGHTS\<rparr>,
               \<lparr>r_id = ''3'', r_workspace_id = None, r_key = Some ''member'', r_name = ''Member'', r_page_level = Some Editor, r_rights = []\<rparr>],
     workspace_members := [\<lparr>m_workspace_id = ''w'', m_user_id = ''ada'', m_role_id = ''1'', m_is_owner = True\<rparr>,
                           \<lparr>m_workspace_id = ''w'', m_user_id = ''bob'', m_role_id = ''3'', m_is_owner = False\<rparr>],
     pages := [cappedPage, privatePage, sectionPage],
     page_permissions := [\<lparr>pp_page_id = ''r'', pp_subject = ''bob'', pp_role = Commenter, pp_include_subtree = True\<rparr>],
     page_caps := [\<lparr>c_page_id = ''c'', c_max_level = Viewer, c_include_subtree = True\<rparr>]\<rparr>"

definition bobStanding :: workspace_standing where
  "bobStanding = \<lparr>st_role = Some ''member'', st_isMember = True, st_pageLevel = Some Editor, st_rights = [], st_isOwner = False\<rparr>"

lemma teamDb_wf: "wf_pages teamDb" "wf_members teamDb"
  by code_simp+

lemma teamDb_cappedPage: "cappedPage \<in> set (pages teamDb)"
  by (simp add: teamDb_def)

section \<open>Properties\<close>

text \<open>C5: the resolver that walks the tree and the decision over claims agree. On a well-formed
  page table, for a page of an existing workspace that is not the person's own personal one, the
  recursive query ends and \<open>resolvePageAccess\<close> answers exactly what \<open>effectiveRole\<close> answers for the
  person's claims, except where that is no access: there it answers the lowest ceiling in reach of
  the page, and no access only if there is none.\<close>

theorem resolvers_agree:
  assumes "wf_pages db" and "p \<in> set (pages db)" and "workspaceOf db p = Some w"
    and "w_personal_for w \<noteq> Some u" and "loadWorkspaceStanding db u (p_workspace_id p) = Inr st"
  shows "\<exists>res. resolvePageAccess db (p_id p) u = Some (Inr res) \<and>
    access res = (case effectiveRole (memberClaims db guest u name (p_workspace_id p) st) (locationOf db p) of
                    None \<Rightarrow> leastRole (capsInReach db p) | Some r \<Rightarrow> Some r)"
  using resolvePageAccess_eq [OF assms(1,2,3,5), of guest name] assms(4) by simp

theorem resolvers_agree_witness:
  "\<exists>res. resolvePageAccess teamDb ''c'' ''bob'' = Some (Inr res) \<and> access res = Some Viewer"
proof -
  have "effectiveRole (memberClaims teamDb False ''bob'' ''Bob'' ''w'' bobStanding) (locationOf teamDb cappedPage) = Some Viewer"
    by code_simp
  moreover have "workspaceOf teamDb cappedPage = Some \<lparr>w_id = ''w'', w_personal_for = None\<rparr>" by code_simp
  moreover have "loadWorkspaceStanding teamDb ''bob'' ''w'' = Inr bobStanding" by code_simp
  ultimately show ?thesis
    using resolvers_agree [OF teamDb_wf(1) teamDb_cappedPage, of _ "''bob''" bobStanding False "''Bob''"]
    by (simp add: cappedPage_def)
qed

text \<open>C6: a page is listed to somebody exactly when its document opens for them. The condition every
  listing pastes holds of a page and a member of its workspace iff \<open>canRead\<close> holds of the claims
  that member's session resolves to.\<close>

theorem visible_iff_canRead:
  assumes "wf_pages db" and "wf_members db" and "p \<in> set (pages db)"
    and "loadWorkspaceStanding db u (p_workspace_id p) = Inr st" and "st_isMember st"
  shows "visiblePagesCondition db p (Some u) \<longleftrightarrow>
    canRead (memberClaims db guest u name (p_workspace_id p) st) (locationOf db p)"
  using visible_canRead [OF assms(1-4)] assms(5) by simp

theorem visible_iff_canRead_witness:
  "visiblePagesCondition teamDb cappedPage (Some ''bob'') \<and>
   visiblePagesCondition teamDb cappedPage (Some ''bob'') =
     canRead (memberClaims teamDb False ''bob'' ''Bob'' ''w'' bobStanding) (locationOf teamDb cappedPage)"
proof -
  have "loadWorkspaceStanding teamDb ''bob'' ''w'' = Inr bobStanding" by code_simp
  then have "visiblePagesCondition teamDb cappedPage (Some ''bob'') =
     canRead (memberClaims teamDb False ''bob'' ''Bob'' ''w'' bobStanding) (locationOf teamDb cappedPage)"
    using visible_iff_canRead [OF teamDb_wf teamDb_cappedPage, of "''bob''" bobStanding False "''Bob''"]
    by (simp add: cappedPage_def bobStanding_def)
  moreover have "visiblePagesCondition teamDb cappedPage (Some ''bob'')" by code_simp
  ultimately show ?thesis by simp
qed

text \<open>A ceiling admits strangers. For somebody who is not a member of the page's workspace and
  holds no grant, one cap in reach of the page makes \<open>resolvePageAccess\<close> answer the capped level
  instead of no access, although no listing shows the page: \<open>lessPermissive\<close> of no access and a
  ceiling is the ceiling.\<close>

theorem cap_admits_stranger:
  assumes "wf_pages db" and "p \<in> set (pages db)" and "workspaceOf db p = Some w"
    and "w_personal_for w \<noteq> Some u" and "memberRow db u (p_workspace_id p) = None"
    and "ownPermissions db u = []" and "groupPermissions db u = []"
    and "c \<in> set (capsInReach db p)"
  shows "(\<exists>res l. resolvePageAccess db (p_id p) u = Some (Inr res) \<and> access res = Some l \<and> l \<le> c) \<and>
    \<not> visiblePagesCondition db p (Some u)"
proof -
  have st: "loadWorkspaceStanding db u (p_workspace_id p) = Inr noStanding"
    using assms(5) by (simp add: loadWorkspaceStanding_def)
  let ?cl = "memberClaims db False u [] (p_workspace_id p) noStanding"
  have "set (claimGrants ?cl (locationOf db p)) = {}"
    using assms(6,7) claimGrants_levels [OF assms(1,2)] by (simp add: grantedLevels_def grantRows_def)
  then have "effectiveRole ?cl (locationOf db p) = None"
    using claims.decide_None_iff [of "(?cl, locationOf db p)"] by (simp add: noStanding_def)
  moreover obtain l where "leastRole (capsInReach db p) = Some l" "l \<le> c"
    using assms(8) by (cases "leastRole (capsInReach db p)") (auto simp: leastRole_Some)
  ultimately have "\<exists>res l. resolvePageAccess db (p_id p) u = Some (Inr res) \<and> access res = Some l \<and> l \<le> c"
    using resolvePageAccess_eq [OF assms(1,2,3) st, of False "[]"] assms(4) by auto
  moreover have "\<not> isWorkspaceMemberCondition db p u"
    using assms(5) memberRow_None_iff [of db u "p_workspace_id p"] by (auto simp: isWorkspaceMemberCondition_def)
  ultimately show ?thesis by (simp add: visiblePagesCondition_def)
qed

theorem cap_admits_stranger_witness:
  "(\<exists>res l. resolvePageAccess teamDb ''c'' ''eve'' = Some (Inr res) \<and> access res = Some l \<and> l \<le> Viewer) \<and>
   \<not> visiblePagesCondition teamDb cappedPage (Some ''eve'')"
proof -
  have "workspaceOf teamDb cappedPage = Some \<lparr>w_id = ''w'', w_personal_for = None\<rparr>" by code_simp
  moreover have "memberRow teamDb ''eve'' ''w'' = None" by code_simp
  moreover have "ownPermissions teamDb ''eve'' = []" "groupPermissions teamDb ''eve'' = []" by code_simp+
  moreover have "capsInReach teamDb cappedPage = [Viewer]" by code_simp
  ultimately show ?thesis
    using cap_admits_stranger [OF teamDb_wf(1) teamDb_cappedPage, of _ "''eve''" Viewer]
    by (simp add: cappedPage_def)
qed

text \<open>Over claims a ceiling lowers and never hides. For anybody but a page admin the effective
  role is at most every cap in reach, and there is a role at all exactly when there is one without
  caps.\<close>

theorem cap_lowers_never_hides:
  assumes "cl_pageLevel claims \<noteq> Some Admin"
  shows "(effectiveRole claims page = None \<longleftrightarrow> effectiveRole (claims\<lparr>cl_caps := []\<rparr>) page = None) \<and>
    (\<forall>r. effectiveRole claims page = Some r \<longrightarrow>
       (\<forall>c \<in> set (cl_caps claims).
          scopeReaches (cap_scopePageId c) (cap_includeSubtree c) page \<longrightarrow> r \<le> cap_maxLevel c))"
proof (intro conjI allI impI ballI)
  show "effectiveRole claims page = None \<longleftrightarrow> effectiveRole (claims\<lparr>cl_caps := []\<rparr>) page = None"
    using claims.decide_None_iff [of "(claims, page)"] claims.decide_None_iff [of "(claims\<lparr>cl_caps := []\<rparr>, page)"]
    by (simp add: claimGrants_def)
next
  fix r c
  assume "effectiveRole claims page = Some r" and "c \<in> set (cl_caps claims)"
    and "scopeReaches (cap_scopePageId c) (cap_includeSubtree c) page"
  then show "r \<le> cap_maxLevel c"
    using claims.decide_capped [of "(claims, page)" "cap_maxLevel c" r] assms by (simp add: claimCaps_def)
qed

theorem cap_lowers_never_hides_witness:
  "effectiveRole (memberClaims teamDb False ''bob'' ''Bob'' ''w'' bobStanding) (locationOf teamDb cappedPage) = Some Viewer \<and>
   effectiveRole ((memberClaims teamDb False ''bob'' ''Bob'' ''w'' bobStanding)\<lparr>cl_caps := []\<rparr>) (locationOf teamDb cappedPage) \<noteq> None"
proof -
  have "effectiveRole (memberClaims teamDb False ''bob'' ''Bob'' ''w'' bobStanding) (locationOf teamDb cappedPage) = Some Viewer"
    by code_simp
  then show ?thesis
    using cap_lowers_never_hides [of "memberClaims teamDb False ''bob'' ''Bob'' ''w'' bobStanding" "locationOf teamDb cappedPage"]
    by (simp add: bobStanding_def)
qed

end
