(* ===== verification/Share_Links.thy ===== *)
theory Share_Links
  imports Access_Agreement
begin

text \<open>
  What a credential can reach. The claims of a share link authorise its scope and nothing else, a
  link that wants a password or an account authorises nothing without them, and a connection that
  revalidates keeps its claims only while the session or link behind it is still good.
\<close>

section \<open>What the claims of a link hold\<close>

lemma lockedClaims_nothing: "effectiveRole (lockedClaims w) page = None"
  using claims.decide_None_iff [of "(lockedClaims w, page)"] by (simp add: lockedClaims_def claimGrants_def)

text \<open>Tracking a visit touches the visits only.\<close>

lemma trackVisit_frame:
  "\<exists>xs. snd (trackVisit now fresh opts t db) = db\<lparr>share_sessions := xs\<rparr>"
proof (cases "so_track opts")
  case False
  then have "snd (trackVisit now fresh opts t db) = db\<lparr>share_sessions := share_sessions db\<rparr>"
    by (simp add: trackVisit_def)
  then show ?thesis ..
next
  case True
  let ?ex = "case truthy (so_existingShareSessionId opts) of None \<Rightarrow> None
    | Some sid \<Rightarrow> if liveShareSession db now sid t then Some sid else None"
  show ?thesis
  proof (cases ?ex)
    case None
    with True show ?thesis unfolding trackVisit_def Let_def by (simp only: not_True_eq_False if_False option.case snd_conv) (rule exI, rule refl)
  next
    case (Some sid)
    with True show ?thesis unfolding trackVisit_def Let_def by (simp only: not_True_eq_False if_False option.case snd_conv) (rule exI, rule refl)
  qed
qed

definition passwordMet :: "crypto \<Rightarrow> time \<Rightarrow> share_options \<Rightarrow> database \<Rightarrow> share_token_row \<Rightarrow> bool" where
  "passwordMet cr now opts db t =
     (case t_password_hash t of None \<Rightarrow> True
      | Some h \<Rightarrow> (case truthy (so_password opts) of
          Some pw \<Rightarrow> fst (verifyPassword cr pw h)
        | None \<Rightarrow> (case truthy (so_existingShareSessionId opts) of
            None \<Rightarrow> False | Some sid \<Rightarrow> liveShareSession db now sid t)))"

lemma resolveShareToken_cases:
  assumes "resolveShareTokenClaims cr now fresh token opts db = (Inr (Some sr), db')"
  obtains (locked) w where "sh_claims sr = lockedClaims w"
  | (opened) t sid name where "t \<in> set (share_tokens db)" "t_token_hash t = hashToken cr token" "tokenLive now t"
      "passwordMet cr now opts db t" "t_allow_anonymous t \<or> so_signedIn opts"
      "sh_claims sr = shareClaims db' sid name t" "db' = snd (trackVisit now fresh opts t db)"
proof -
  obtain t where q: "queryOne (filter (\<lambda>t. t_token_hash t = hashToken cr token \<and> tokenLive now t) (share_tokens db)) = Some t"
    using assms by (cases "queryOne (filter (\<lambda>t. t_token_hash t = hashToken cr token \<and> tokenLive now t) (share_tokens db))")
      (auto simp: resolveShareTokenClaims_def)
  then have t: "t \<in> set (share_tokens db)" "t_token_hash t = hashToken cr token" "tokenLive now t"
    by (auto dest!: queryOne_Some)
  obtain sid name where v: "trackVisit now fresh opts t db = ((sid, name), snd (trackVisit now fresh opts t db))"
    by (metis prod.collapse)
  let ?locked = "case (t_password_hash t, truthy (so_password opts)) of
      (None, _) \<Rightarrow> Inr False
    | (Some h, None) \<Rightarrow> Inr (\<not> (case truthy (so_existingShareSessionId opts) of
                            None \<Rightarrow> False | Some sid \<Rightarrow> liveShareSession db now sid t))
    | (Some h, Some p) \<Rightarrow> if fst (verifyPassword cr p h) then Inr False else Inl InvalidCredentials"
  have met: "passwordMet cr now opts db t" if "?locked = Inr False"
    using that unfolding passwordMet_def by (auto split: option.splits if_splits)
  have body: "(case ?locked of
      Inl e \<Rightarrow> (Inl e, db)
    | Inr True \<Rightarrow> (Inr (Some \<lparr>sh_claims = lockedClaims (t_workspace_id t), sh_passwordRequired = True, sh_signInRequired = False\<rparr>), db)
    | Inr False \<Rightarrow>
        if \<not> t_allow_anonymous t \<and> \<not> so_signedIn opts then
          (Inr (Some \<lparr>sh_claims = lockedClaims (t_workspace_id t), sh_passwordRequired = False, sh_signInRequired = True\<rparr>), db)
        else (case trackVisit now fresh opts t db of ((sid, name), db') \<Rightarrow>
                (Inr (Some \<lparr>sh_claims = shareClaims db' sid name t, sh_passwordRequired = False, sh_signInRequired = False\<rparr>), db')))
      = (Inr (Some sr), db')"
    using assms q unfolding resolveShareTokenClaims_def Let_def by simp
  show thesis
  proof (cases ?locked)
    case (Inl e)
    with body show ?thesis by simp
  next
    case (Inr b)
    show ?thesis
    proof (cases "b \<or> \<not> t_allow_anonymous t \<and> \<not> so_signedIn opts")
      case True
      with body Inr have "sh_claims sr = lockedClaims (t_workspace_id t)"
        by (cases b) (auto split: if_splits prod.splits)
      then show ?thesis by (rule locked)
    next
      case False
      with body Inr v have "sh_claims sr = shareClaims db' sid name t" "db' = snd (trackVisit now fresh opts t db)"
        by (auto split: if_splits prod.splits)
      then show ?thesis using opened [OF t met] Inr False by auto
    qed
  qed
qed

lemma shareClaims_levels:
  assumes "wf_pages db" and "p \<in> set (pages db)"
    and "effectiveRole (shareClaims db sid name t) (locationOf db p) = Some r"
  shows "p_workspace_id p = t_workspace_id t" and "reaches p (t_scope_page_id t) (t_include_subtree t)"
    and "unfenced db p (t_scope_page_id t)" and "r \<le> t_role t" and "\<forall>c \<in> set (capsInReach db p). r \<le> c"
proof -
  let ?cl = "shareClaims db sid name t"
  have simps: "cl_pageLevel ?cl = None" "cl_workspaceId ?cl = t_workspace_id t" "cl_caps ?cl = pageCapsFor db (t_workspace_id t)"
    by (simp_all add: shareClaims_def)
  show w: "p_workspace_id p = t_workspace_id t"
    using assms(3) simps by (auto simp: effectiveRole_def split: if_splits)
  obtain g where g: "g \<in> set (claimGrants ?cl (locationOf db p))" "r \<le> g"
    using claims.decide_bounded [of "(?cl, locationOf db p)" r] assms(3) simps by (auto split: if_splits)
  then show "reaches p (t_scope_page_id t) (t_include_subtree t)" "unfenced db p (t_scope_page_id t)" "r \<le> t_role t"
    by (auto simp: claimGrants_def grantCounts_location [OF assms(1,2)] shareClaims_def split: if_splits)
  have "set (claimCaps ?cl (locationOf db p)) = set (capsInReach db p)"
    using claimCaps_levels [OF assms(1,2)] simps w by (simp add: set_capsInReach)
  then show "\<forall>c \<in> set (capsInReach db p). r \<le> c"
    using claims.decide_capped [of "(?cl, locationOf db p)" _ r] assms(3) simps by auto
qed

text \<open>A link to the section of the small workspace, with a password.\<close>

definition sectionLink :: share_token_row where
  "sectionLink = \<lparr>t_id = ''t1'', t_workspace_id = ''w'', t_scope_page_id = ''s'', t_include_subtree = True,
     t_role = Commenter, t_token_hash = ''link'', t_password_hash = Some ''swordfish'', t_allow_anonymous = True,
     t_expires_at = None, t_revoked_at = None\<rparr>"

definition visitWith :: "string option \<Rightarrow> share_options" where
  "visitWith pw = \<lparr>so_displayName = Some '' Eve '', so_password = pw, so_ipPrefix = None,
     so_existingShareSessionId = None, so_track = False, so_signedIn = False\<rparr>"

definition linkDb :: database where
  "linkDb = teamDb\<lparr>share_tokens := [sectionLink]\<rparr>"

lemma linkDb_opens:
  "resolveShareTokenClaims plainCrypto 5000 ''v1'' ''link'' (visitWith (Some ''swordfish'')) linkDb =
     (Inr (Some \<lparr>sh_claims = shareClaims linkDb [] ''Eve'' sectionLink, sh_passwordRequired = False,
                 sh_signInRequired = False\<rparr>), linkDb)"
proof -
  have "queryOne (filter (\<lambda>t. t_token_hash t = hashToken plainCrypto ''link'' \<and> tokenLive 5000 t) [sectionLink]) = Some sectionLink"
    by code_simp
  moreover have "fst (verifyPassword plainCrypto ''swordfish'' ''swordfish'')" by code_simp
  moreover have "truthy (so_password (visitWith (Some ''swordfish''))) = Some ''swordfish''" by code_simp
  moreover have "trackVisit 5000 ''v1'' (visitWith (Some ''swordfish'')) sectionLink linkDb = (([], ''Eve''), linkDb)"
    by (simp add: trackVisit_def visitWith_def givenName_def truthy_def; code_simp)
  moreover have "t_password_hash sectionLink = Some ''swordfish''" "t_allow_anonymous sectionLink"
    by (simp_all add: sectionLink_def)
  ultimately show ?thesis unfolding resolveShareTokenClaims_def by (simp add: linkDb_def)
qed

lemma parentOk_frame: "pages db' = pages db \<Longrightarrow> parentOk db' p = parentOk db p"
  by (simp add: parentOk_def split: option.split)

section \<open>Properties\<close>

text \<open>C7: a share link opens its scope and nothing else. Whatever role the claims of a presented
  token give on a page, the token is live, its password was met and an account was present where it
  wants one, the page is in the token's workspace and inside its scope, no restriction fences the
  scope off, and the role is at most the token's role and at most every cap in reach.\<close>

theorem share_link_confined:
  assumes "resolveShareTokenClaims cr now fresh token opts db = (Inr (Some sr), db')"
    and "wf_pages db" and "p \<in> set (pages db)"
    and "effectiveRole (sh_claims sr) (locationOf db' p) = Some r"
  shows "\<exists>t \<in> set (share_tokens db). t_token_hash t = hashToken cr token \<and> tokenLive now t \<and>
    passwordMet cr now opts db t \<and> (t_allow_anonymous t \<or> so_signedIn opts) \<and>
    p_workspace_id p = t_workspace_id t \<and> reaches p (t_scope_page_id t) (t_include_subtree t) \<and>
    unfenced db p (t_scope_page_id t) \<and> r \<le> t_role t \<and> (\<forall>c \<in> set (capsInReach db p). r \<le> c)"
  using assms(1)
proof (cases rule: resolveShareToken_cases)
  case (locked w)
  with assms(4) lockedClaims_nothing show ?thesis by simp
next
  case (opened t sid name)
  obtain xs where db': "db' = db\<lparr>share_sessions := xs\<rparr>" using trackVisit_frame opened(7) by metis
  have wf: "wf_pages db'" "p \<in> set (pages db')"
    using assms(2,3) parentOk_frame [of db' db] by (simp_all add: db' wf_pages_def)
  have same: "unfenced db' p x = unfenced db p x" "capsInReach db' p = capsInReach db p" for x
    by (simp_all add: db' unfenced_def capsInReach_def split: option.split)
  show ?thesis
    using shareClaims_levels [OF wf, of sid name t r] assms(4) opened unfolding same by auto
qed

theorem share_link_confined_witness:
  "\<exists>r. effectiveRole (shareClaims linkDb [] ''Eve'' sectionLink) (locationOf linkDb sectionPage) = Some r \<and> r \<le> Commenter"
proof -
  have "effectiveRole (shareClaims linkDb [] ''Eve'' sectionLink) (locationOf linkDb sectionPage) = Some Commenter" "wf_pages linkDb"
    by code_simp+
  moreover have "sectionPage \<in> set (pages linkDb)" by (simp add: linkDb_def teamDb_def)
  ultimately show ?thesis
    using share_link_confined [OF linkDb_opens, of sectionPage Commenter]
    by (auto simp: linkDb_def sectionLink_def)
qed

text \<open>A connection keeps its claims only while its credential is good. If revalidation of a
  session still yields claims, the session is neither revoked nor expired, its account is not
  disabled, owes no second factor and is a member of the workspace, and the claims are that
  account's. If revalidation of a share link still yields claims, the link is live, the visit has
  not expired, and the claims are the link's.\<close>

theorem revalidateClaims_sound:
  assumes "revalidateClaims gate now cred w db = Inr (Some claims)"
  shows "case cred of
      SessionCredential sid \<Rightarrow>
        (\<exists>s \<in> set (sessions db). \<exists>u \<in> set (users db). \<exists>st.
           s_id s = sid \<and> s_revoked_at s = None \<and> now < s_expires_at s \<and>
           u_id u = s_user_id s \<and> u_disabled_at u = None \<and> \<not> gateBlocks gate db (u_id u) \<and>
           loadWorkspaceStanding db (u_id u) w = Inr st \<and> st_isMember st \<and>
           claims = memberClaims db (u_is_guest u) (u_id u) (u_display_name u) w st)
    | ShareCredential tid sid \<Rightarrow>
        (\<exists>t \<in> set (share_tokens db). \<exists>x \<in> set (share_sessions db).
           t_id t = tid \<and> tokenLive now t \<and> t_workspace_id t = w \<and>
           ss_id x = sid \<and> ss_share_token_id x = tid \<and> now < ss_expires_at x \<and>
           claims = shareClaims db sid (ss_display_name x) t)"
proof (cases cred)
  case (SessionCredential sid)
  let ?q = "queryOne (filter (\<lambda>(s, u). \<exists>m \<in> set (workspace_members db). m_user_id m = u_id u \<and> m_workspace_id m = w)
             (sessionJoin (\<lambda>s. s_id s = sid \<and> s_revoked_at s = None \<and> now < s_expires_at s) db))"
  obtain s u where q: "?q = Some (s, u)"
    using assms SessionCredential by (cases ?q) auto
  then have "s \<in> set (sessions db)" "u \<in> set (users db)" "s_id s = sid" "s_revoked_at s = None" "now < s_expires_at s"
    "u_id u = s_user_id s" "u_disabled_at u = None"
    by (auto simp: sessionJoin_def dest!: queryOne_Some)
  moreover obtain st where "\<not> gateBlocks gate db (u_id u)" "loadWorkspaceStanding db (u_id u) w = Inr st" "st_isMember st"
    "claims = memberClaims db (u_is_guest u) (u_id u) (u_display_name u) w st"
    using assms SessionCredential q by (auto simp: result_simps split: if_splits)
  ultimately show ?thesis unfolding SessionCredential connection_credential.case by blast
next
  case (ShareCredential tid sid)
  let ?q = "queryOne (concat (map (\<lambda>t. map (\<lambda>x. (t, x))
               (filter (\<lambda>x. ss_share_token_id x = t_id t \<and> ss_id x = sid \<and> now < ss_expires_at x) (share_sessions db)))
             (filter (\<lambda>t. t_id t = tid \<and> tokenLive now t) (share_tokens db))))"
  obtain t x where q: "?q = Some (t, x)" using assms ShareCredential by (cases ?q) auto
  then have "t \<in> set (share_tokens db)" "x \<in> set (share_sessions db)" "t_id t = tid" "tokenLive now t"
    "ss_share_token_id x = tid" "ss_id x = sid" "now < ss_expires_at x"
    by (auto dest!: queryOne_Some)
  moreover have "t_workspace_id t = w" "claims = shareClaims db sid (ss_display_name x) t"
    using assms ShareCredential q by (auto split: if_splits)
  ultimately show ?thesis unfolding ShareCredential connection_credential.case by blast
qed

definition linkVisit :: share_session_row where
  "linkVisit = \<lparr>ss_id = ''v1'', ss_share_token_id = ''t1'', ss_display_name = ''Eve'', ss_ip_prefix = None,
     ss_last_seen_at = 0, ss_expires_at = days 30\<rparr>"

theorem revalidateClaims_sound_witness:
  "tokenLive 5000 sectionLink \<and>
   revalidateClaims None 5000 (ShareCredential ''t1'' ''v1'') ''w'' (linkDb\<lparr>share_sessions := [linkVisit]\<rparr>) \<noteq> Inr None"
proof -
  let ?db = "linkDb\<lparr>share_sessions := [linkVisit]\<rparr>"
  have r: "revalidateClaims None 5000 (ShareCredential ''t1'' ''v1'') ''w'' ?db = Inr (Some (shareClaims ?db ''v1'' ''Eve'' sectionLink))"
    by (simp add: linkDb_def sectionLink_def linkVisit_def tokenLive_def days_def)
  have "tokenLive 5000 sectionLink"
    using revalidateClaims_sound [OF r] by (simp add: linkDb_def)
  with r show ?thesis by simp
qed

end
