(* ===== verification/Group_Access.thy ===== *)
theory Group_Access
  imports Share_Links
begin

text \<open>
  Adding is never a loss: the most permissive of everything somebody holds wins, so a grant or a
  group that is added to what they have cannot reduce it. Shown for the shared access rule, and
  from it for a person who joins a group, across the standing, the grants and the claims.
\<close>

section \<open>Monotonicity of the access rule\<close>

fun level_le :: "role option \<Rightarrow> role option \<Rightarrow> bool" where
  "level_le None b = True"
| "level_le (Some a) None = False"
| "level_le (Some a) (Some b) = (a \<le> b)"

lemma level_le_refl [simp]: "level_le a a"
  by (cases a) auto

lemma level_le_Some: "level_le (Some a) b \<longleftrightarrow> (\<exists>c. b = Some c \<and> a \<le> c)"
  by (cases b) auto

lemma greatestRole_mono:
  assumes "\<And>x. x \<in> set xs \<Longrightarrow> \<exists>y \<in> set ys. x \<le> y"
  shows "level_le (greatestRole xs) (greatestRole ys)"
proof (cases "greatestRole xs")
  case None
  then show ?thesis by simp
next
  case (Some a)
  then obtain y where y: "y \<in> set ys" "a \<le> y" using assms by (auto simp: greatestRole_Some)
  then obtain b where b: "greatestRole ys = Some b" by (cases "greatestRole ys") auto
  with y have "y \<le> b" by (simp add: greatestRole_Some)
  with y b Some show ?thesis by simp
qed

lemma ladder_mono:
  assumes "level_le l l'" and "set gs \<subseteq> set gs'" and "set cs = set cs'"
  shows "level_le (ladder l restr gs cs) (ladder l' restr gs' cs')"
proof (cases "l' = Some Admin")
  case True
  then have "ladder l' restr gs' cs' = Some Admin"
    by (simp add: ladder_def greatestRole_Some del: greatestRole.simps)
  then show ?thesis by (cases "ladder l restr gs cs") auto
next
  case False
  then have "l \<noteq> Some Admin" using assms(1) by (cases l') auto
  let ?b = "\<lambda>l gs. greatestRole ((if restr then [] else somes [l]) @ gs)"
  have "level_le (?b l gs) (?b l' gs')"
  proof (rule greatestRole_mono)
    fix x assume "x \<in> set ((if restr then [] else somes [l]) @ gs)"
    then show "\<exists>y \<in> set ((if restr then [] else somes [l']) @ gs'). x \<le> y"
      using assms(1,2) by (cases restr; cases l; cases l') auto
  qed
  moreover have "leastRole cs = leastRole cs'" using assms(3) by (rule leastRole_cong)
  ultimately show ?thesis
    using False \<open>l \<noteq> Some Admin\<close>
    by (cases "?b l gs"; cases "?b l' gs'"; cases "leastRole cs'")
      (auto simp: ladder_def Let_def min_le_iff_disj simp del: greatestRole.simps greatestRole_None)
qed

section \<open>Joining a group\<close>

definition joinGroup :: "group_member_row \<Rightarrow> database \<Rightarrow> database" where
  "joinGroup gm db = db\<lparr>group_members := group_members db @ [gm]\<rparr>"

lemma joinGroup_frame [simp]:
  "pages (joinGroup gm db) = pages db" "roles (joinGroup gm db) = roles db"
  "workspace_members (joinGroup gm db) = workspace_members db" "page_caps (joinGroup gm db) = page_caps db"
  "groups (joinGroup gm db) = groups db" "page_permissions (joinGroup gm db) = page_permissions db"
  "page_group_permissions (joinGroup gm db) = page_group_permissions db"
  "group_members (joinGroup gm db) = group_members db @ [gm]"
  by (simp_all add: joinGroup_def)

lemma joinGroup_roles: "set (groupRoles db u w) \<subseteq> set (groupRoles (joinGroup gm db) u w)"
  by (auto simp: groupRoles_def)

lemma joinGroup_grants: "grantRows db u \<subseteq> grantRows (joinGroup gm db) u"
  by (auto simp: grantRows_def ownPermissions_def groupPermissions_def)

lemma joinGroup_same [simp]:
  "memberRow (joinGroup gm db) u w = memberRow db u w" "ownRoles (joinGroup gm db) m = ownRoles db m"
  "locationOf (joinGroup gm db) p = locationOf db p" "pageCapsFor (joinGroup gm db) w = pageCapsFor db w"
  "wf_pages (joinGroup gm db) = wf_pages db" "unfenced (joinGroup gm db) p x = unfenced db p x"
  by (simp_all add: memberRow_def ownRoles_def locationOf_def restrictedAt_def pageCapsFor_def inWorkspace_def
      wf_pages_def parentOk_def unfenced_def cong: option.case_cong)

lemma standing_error_iff:
  "loadWorkspaceStanding db u w = Inl e \<longleftrightarrow>
     (\<exists>m. memberRow db u w = Some m \<and> queryOne (somes (map r_key (ownRoles db m))) = None \<and>
        greatestRole (somes (map r_page_level (ownRoles db m @ groupRoles db u w))) = None \<and>
        \<not> m_is_owner m \<and> filter (\<lambda>r. r_workspace_id r = None) (roles db) = [])"
proof (cases "memberRow db u w")
  case None
  then show ?thesis by (simp add: loadWorkspaceStanding_def)
next
  case (Some m)
  then show ?thesis unfolding loadWorkspaceStanding_def Let_def
    by (cases e) (simp only: option.case split: if_split, simp)
qed

lemma joinGroup_standing:
  assumes "loadWorkspaceStanding db u w = Inr st"
  shows "\<exists>st'. loadWorkspaceStanding (joinGroup gm db) u w = Inr st' \<and>
    level_le (st_pageLevel st) (st_pageLevel st') \<and> set (st_rights st) \<subseteq> set (st_rights st')"
proof (cases "memberRow db u w")
  case None
  then show ?thesis using assms by (simp add: loadWorkspaceStanding_def)
next
  case (Some m)
  have levels: "level_le (greatestRole (somes (map r_page_level (ownRoles db m @ groupRoles db u w))))
      (greatestRole (somes (map r_page_level (ownRoles db m @ groupRoles (joinGroup gm db) u w))))" (is "level_le ?l ?l'")
    using joinGroup_roles [of db u w gm] by (intro greatestRole_mono) (auto simp: image_iff)
  then have "?l' = None \<Longrightarrow> ?l = None" by (cases ?l; cases ?l') auto
  then have "loadWorkspaceStanding (joinGroup gm db) u w \<noteq> Inl SystemRolesMissing"
    using assms standing_error_iff [of db u w] standing_error_iff [of "joinGroup gm db" u w] Some
    by (auto simp del: greatestRole_None)
  then obtain st' where st': "loadWorkspaceStanding (joinGroup gm db) u w = Inr st'"
    by (metis standing_error.exhaust sumE)
  have "st_pageLevel st = ?l" "st_pageLevel st' = ?l'"
    using pageLevel_standing [OF assms] pageLevel_standing [OF st'] Some by simp_all
  moreover have "set (st_rights st) \<subseteq> set (st_rights st')"
    using standing_cases [OF assms] standing_cases [OF st'] Some joinGroup_roles [of db u w gm] by auto
  ultimately show ?thesis using st' levels by auto
qed

section \<open>Properties\<close>

text \<open>Joining a group never reduces access. If somebody's claims give a role on a page and
  they are added to any group, their standing still loads, they keep every right, and their claims
  then give the same role or a greater one.\<close>

theorem joining_group_never_reduces:
  assumes "wf_pages db" and "p \<in> set (pages db)"
    and "loadWorkspaceStanding db u (p_workspace_id p) = Inr st"
    and "effectiveRole (memberClaims db guest u name (p_workspace_id p) st) (locationOf db p) = Some r"
  shows "\<exists>st' r'. loadWorkspaceStanding (joinGroup gm db) u (p_workspace_id p) = Inr st' \<and>
    set (st_rights st) \<subseteq> set (st_rights st') \<and> r \<le> r' \<and>
    effectiveRole (memberClaims (joinGroup gm db) guest u name (p_workspace_id p) st')
      (locationOf (joinGroup gm db) p) = Some r'"
proof -
  obtain st' where st': "loadWorkspaceStanding (joinGroup gm db) u (p_workspace_id p) = Inr st'"
    and le: "level_le (st_pageLevel st) (st_pageLevel st')" and rights: "set (st_rights st) \<subseteq> set (st_rights st')"
    using joinGroup_standing [OF assms(3)] by blast
  let ?cl = "memberClaims db guest u name (p_workspace_id p) st"
  let ?cl' = "memberClaims (joinGroup gm db) guest u name (p_workspace_id p) st'"
  have gs: "set (claimGrants ?cl (locationOf db p)) \<subseteq> set (claimGrants ?cl' (locationOf db p))"
    using claimGrants_levels [OF assms(1,2), of guest u name st] joinGroup_grants [of db u gm]
      claimGrants_levels [of "joinGroup gm db" p guest u name st'] assms(1,2)
    by (auto simp: grantedLevels_def)
  have cs: "claimCaps ?cl (locationOf db p) = claimCaps ?cl' (locationOf db p)" by (simp add: claimCaps_def)
  have "level_le (effectiveRole ?cl (locationOf db p)) (effectiveRole ?cl' (locationOf db p))"
    using ladder_mono [OF le gs refl] cs unfolding effectiveRole_ladder by simp
  with st' rights assms(4) show ?thesis by (auto simp: level_le_Some)
qed

theorem joining_group_never_reduces_witness:
  "\<exists>st' r'. loadWorkspaceStanding (joinGroup \<lparr>gm_group_id = ''g'', gm_user_id = ''bob''\<rparr> teamDb) ''bob'' ''w'' = Inr st' \<and> Viewer \<le> r' \<and>
    effectiveRole (memberClaims (joinGroup \<lparr>gm_group_id = ''g'', gm_user_id = ''bob''\<rparr> teamDb) False ''bob'' ''Bob'' ''w'' st')
      (locationOf (joinGroup \<lparr>gm_group_id = ''g'', gm_user_id = ''bob''\<rparr> teamDb) cappedPage) = Some r'"
proof -
  have "effectiveRole (memberClaims teamDb False ''bob'' ''Bob'' ''w'' bobStanding) (locationOf teamDb cappedPage) = Some Viewer"
    "loadWorkspaceStanding teamDb ''bob'' ''w'' = Inr bobStanding" by code_simp+
  then show ?thesis
    using joining_group_never_reduces [OF teamDb_wf(1) teamDb_cappedPage, of "''bob''" bobStanding False "''Bob''" Viewer
        "\<lparr>gm_group_id = ''g'', gm_user_id = ''bob''\<rparr>"]
    by (auto simp: cappedPage_def)
qed

end
