(* ===== verification/Archive.thy ===== *)
theory Archive
  imports Sone_Prelude "HOL-Library.Word" "HOL-Library.Sublist"
begin

text \<open>
  The ZIP archives of the program: the browser's uncompressed writer
  (\<^verbatim>\<open>packages/core/src/archive/packStored.ts\<close>), the server's deflating writer
  (\<^verbatim>\<open>packages/server/src/export/zip.ts\<close>) and the reader of untrusted archives
  (\<^verbatim>\<open>packages/server/src/import/unzip.ts\<close>).

  A buffer is a list of bytes. An archive name is a list of code points, since the reader decodes
  whatever bytes it is given. Deflate and inflate are Node's zlib and are parameters, with what the
  round trip needs of them as the laws of a locale.
\<close>

unbundle bit_operations_syntax

type_synonym byte = "8 word"
type_synonym codepoint = nat

section \<open>Text encoding\<close>

text \<open>\<open>TextEncoder.encode\<close> and \<open>Buffer.from(s, 'utf8')\<close>, one code point at a time; what is not a scalar
  value is written as the replacement character.\<close>

definition scalar :: "codepoint \<Rightarrow> bool" where
  "scalar c = (c < 0x110000 \<and> \<not> (0xD800 \<le> c \<and> c < 0xE000))"

definition utf8One :: "codepoint \<Rightarrow> nat list" where
  "utf8One c =
     (if c < 0x80 then [c]
      else if c < 0x800 then [0xC0 + c div 64, 0x80 + c mod 64]
      else if c < 0x10000 then [0xE0 + c div 4096, 0x80 + c div 64 mod 64, 0x80 + c mod 64]
      else [0xF0 + c div 262144, 0x80 + c div 4096 mod 64, 0x80 + c div 64 mod 64, 0x80 + c mod 64])"

definition encodeUtf8 :: "codepoint list \<Rightarrow> byte list" where
  "encodeUtf8 s = map of_nat (concat (map (\<lambda>c. utf8One (if scalar c then c else 0xFFFD)) s))"

text \<open>\<open>Buffer.toString('utf8')\<close>: a sequence that breaks off is one replacement character, and the
  byte that broke it is read again.\<close>

definition tailByte :: "nat \<Rightarrow> nat \<Rightarrow> nat \<Rightarrow> bool" where
  "tailByte lo hi b = (lo \<le> b \<and> b \<le> hi)"

definition secondRange :: "nat \<Rightarrow> nat \<times> nat" where
  "secondRange b =
     (if b = 0xE0 then (0xA0, 0xBF) else if b = 0xED then (0x80, 0x9F)
      else if b = 0xF0 then (0x90, 0xBF) else if b = 0xF4 then (0x80, 0x8F) else (0x80, 0xBF))"

fun decodeTail :: "nat \<Rightarrow> nat \<Rightarrow> nat \<Rightarrow> nat \<Rightarrow> nat list \<Rightarrow> codepoint \<times> nat list" where
  "decodeTail 0 lo hi acc bs = (acc, bs)"
| "decodeTail (Suc n) lo hi acc [] = (0xFFFD, [])"
| "decodeTail (Suc n) lo hi acc (b # bs) =
     (if tailByte lo hi b then decodeTail n 0x80 0xBF (acc * 64 + (b - 0x80)) bs else (0xFFFD, b # bs))"

definition decodeOne :: "nat \<Rightarrow> nat list \<Rightarrow> codepoint \<times> nat list" where
  "decodeOne b bs =
     (let (lo, hi) = secondRange b in
      if b < 0x80 then (b, bs)
      else if 0xC2 \<le> b \<and> b \<le> 0xDF then decodeTail 1 lo hi (b - 0xC0) bs
      else if 0xE0 \<le> b \<and> b \<le> 0xEF then decodeTail 2 lo hi (b - 0xE0) bs
      else if 0xF0 \<le> b \<and> b \<le> 0xF4 then decodeTail 3 lo hi (b - 0xF0) bs
      else (0xFFFD, bs))"

lemma decodeTail_length: "decodeTail n lo hi acc bs = (c, rest) \<Longrightarrow> length rest \<le> length bs"
  by (induction n lo hi acc bs rule: decodeTail.induct) (auto split: if_splits)

lemma decodeOne_length: "decodeOne b bs = (c, rest) \<Longrightarrow> length rest \<le> length bs"
  by (auto simp: decodeOne_def Let_def split: if_splits prod.splits dest: decodeTail_length)

function decodeNat :: "nat list \<Rightarrow> codepoint list" where
  "decodeNat [] = []"
| "decodeNat (b # bs) = (case decodeOne b bs of (c, rest) \<Rightarrow> c # decodeNat rest)"
  by pat_completeness auto
termination
  by (relation "measure length") (auto dest!: decodeOne_length [OF sym] simp: less_Suc_eq_le)

definition decodeUtf8 :: "byte list \<Rightarrow> codepoint list" where
  "decodeUtf8 bs = decodeNat (map unat bs)"

section \<open>Buffers\<close>

text \<open>Little-endian fields. \<open>setUint16\<close> and \<open>setUint32\<close> keep the low 16 or 32 bits.\<close>

fun leBytes :: "nat \<Rightarrow> nat \<Rightarrow> byte list" where
  "leBytes 0 v = []"
| "leBytes (Suc n) v = of_nat v # leBytes n (v div 256)"

definition setUint16 :: "nat \<Rightarrow> nat \<Rightarrow> byte list \<Rightarrow> byte list" where
  "setUint16 at v bs = take at bs @ leBytes 2 v @ drop (at + 2) bs"

definition setUint32 :: "nat \<Rightarrow> nat \<Rightarrow> byte list \<Rightarrow> byte list" where
  "setUint32 at v bs = take at bs @ leBytes 4 v @ drop (at + 4) bs"

datatype archive_error =
    NotAnArchive | Unsupported | TooManyEntries | Zip64Unsupported | TooLarge | UnsafeName
  | OutOfRange

fun leValue :: "byte list \<Rightarrow> nat" where
  "leValue [] = 0"
| "leValue (b # bs) = unat b + 256 * leValue bs"

text \<open>A read beyond the buffer throws.\<close>

definition readUInt16LE :: "byte list \<Rightarrow> nat \<Rightarrow> archive_error + nat" where
  "readUInt16LE bs at = (if at + 2 \<le> length bs then Inr (leValue (take 2 (drop at bs))) else Inl OutOfRange)"

definition readUInt32LE :: "byte list \<Rightarrow> nat \<Rightarrow> archive_error + nat" where
  "readUInt32LE bs at = (if at + 4 \<le> length bs then Inr (leValue (take 4 (drop at bs))) else Inl OutOfRange)"

text \<open>\<open>subarray(from, from + len)\<close> stops at the end of the buffer.\<close>

definition subarray :: "byte list \<Rightarrow> nat \<Rightarrow> nat \<Rightarrow> byte list" where
  "subarray bs from len = take len (drop from bs)"

section \<open>Checksums and timestamps\<close>

definition crcStep :: "32 word \<Rightarrow> 32 word" where
  "crcStep c = (if c AND 1 \<noteq> 0 then 0xEDB88320 XOR drop_bit 1 c else drop_bit 1 c)"

definition CRC_TABLE :: "32 word list" where
  "CRC_TABLE = map (\<lambda>n. (crcStep ^^ 8) (of_nat n)) [0..<256]"

definition crc32 :: "byte list \<Rightarrow> 32 word" where
  "crc32 data = fold (\<lambda>b c. (CRC_TABLE ! unat ((c XOR ucast b) AND 0xFF)) XOR drop_bit 8 c) data 0xFFFFFFFF XOR 0xFFFFFFFF"

record date =
  d_year :: nat
  d_month :: nat
  d_day :: nat
  d_hours :: nat
  d_minutes :: nat
  d_seconds :: nat

text \<open>\<open>getMonth\<close> counts from zero. Truncated subtraction is the clamp at 1980.\<close>

definition dosTime :: "date \<Rightarrow> nat \<times> nat" where
  "dosTime at =
     ((push_bit 11 (d_hours at) OR push_bit 5 (d_minutes at)) OR (d_seconds at div 2 AND 0x1F),
      (push_bit 9 (d_year at - 1980) OR push_bit 5 (d_month at + 1)) OR d_day at)"

section \<open>The writers\<close>

definition localHeader :: "nat \<Rightarrow> nat \<Rightarrow> nat \<Rightarrow> nat \<Rightarrow> nat \<Rightarrow> nat \<Rightarrow> nat \<Rightarrow> byte list" where
  "localHeader method time date crc storedLen len nameLen =
     setUint16 28 0 (setUint16 26 nameLen (setUint32 22 len (setUint32 18 storedLen (setUint32 14 crc
       (setUint16 12 date (setUint16 10 time (setUint16 8 method (setUint16 6 0x0800 (setUint16 4 20
       (setUint32 0 0x04034B50 (replicate 30 0)))))))))))"

definition centralRecord :: "nat \<Rightarrow> nat \<Rightarrow> nat \<Rightarrow> nat \<Rightarrow> nat \<Rightarrow> nat \<Rightarrow> nat \<Rightarrow> nat \<Rightarrow> byte list" where
  "centralRecord method time date crc storedLen len nameLen offset =
     setUint32 42 offset (setUint16 28 nameLen (setUint32 24 len (setUint32 20 storedLen (setUint32 16 crc
       (setUint16 14 date (setUint16 12 time (setUint16 10 method (setUint16 8 0x0800 (setUint16 6 20
       (setUint16 4 20 (setUint32 0 0x02014B50 (replicate 46 0))))))))))))"

definition endRecord :: "nat \<Rightarrow> nat \<Rightarrow> nat \<Rightarrow> byte list" where
  "endRecord n centralSize offset =
     setUint32 16 offset (setUint32 12 centralSize (setUint16 10 n (setUint16 8 n
       (setUint32 0 0x06054B50 (replicate 22 0)))))"

text \<open>What one turn of a writer's loop has at hand when it writes its two headers.\<close>

record item =
  it_name :: "byte list"
  it_method :: nat
  it_at :: date
  it_crc :: "32 word"
  it_stored :: "byte list"
  it_size :: nat

fun writeItems :: "item list \<Rightarrow> nat \<Rightarrow> byte list \<times> byte list \<times> nat" where
  "writeItems [] offset = ([], [], offset)"
| "writeItems (it # its) offset =
     (let name = it_name it; stored = it_stored it; (time, date) = dosTime (it_at it);
          header = localHeader (it_method it) time date (unat (it_crc it)) (length stored) (it_size it) (length name);
          record = centralRecord (it_method it) time date (unat (it_crc it)) (length stored) (it_size it) (length name) offset;
          (locals, central, end) = writeItems its (offset + 30 + length name + length stored)
      in (header @ name @ stored @ locals, record @ name @ central, end))"

definition writeArchive :: "item list \<Rightarrow> byte list" where
  "writeArchive its =
     (let (locals, central, offset) = writeItems its 0
      in locals @ central @ endRecord (length its) (length central) offset)"

record stored_entry =
  se_name :: "codepoint list"
  se_body :: "byte list"
  se_at :: "date option"

definition MAX_STORED_ENTRIES :: nat where
  "MAX_STORED_ENTRIES = 200"

definition MAX_STORED_BYTES :: nat where
  "MAX_STORED_BYTES = 64 * 1024 * 1024"

datatype pack_error = TooManyFiles | PackTooLarge

definition storedItem :: "date \<Rightarrow> stored_entry \<Rightarrow> item" where
  "storedItem now e =
     \<lparr>it_name = encodeUtf8 (se_name e), it_method = 0, it_at = (case se_at e of None \<Rightarrow> now | Some d \<Rightarrow> d),
      it_crc = crc32 (se_body e), it_stored = se_body e, it_size = length (se_body e)\<rparr>"

definition packStored :: "date \<Rightarrow> stored_entry list \<Rightarrow> pack_error + byte list" where
  "packStored now entries =
     (if MAX_STORED_ENTRIES < length entries then Inl TooManyFiles
      else if MAX_STORED_BYTES < sum_list (map (\<lambda>e. length (se_body e)) entries) then Inl PackTooLarge
      else Inr (writeArchive (map (storedItem now) entries)))"

record zip_entry =
  ze_name :: "codepoint list"
  ze_body :: "byte list"
  ze_at :: date

definition MAX_ARCHIVE_BYTES :: nat where
  "MAX_ARCHIVE_BYTES = 0xFFFFFFFF"

datatype zip_error = ArchiveTooLarge | ValueOutOfRange

definition zipItem :: "(byte list \<Rightarrow> byte list) \<Rightarrow> zip_entry \<Rightarrow> item" where
  "zipItem deflateRawSync e =
     (let compressed = deflateRawSync (ze_body e);
          deflated = (length compressed < length (ze_body e))
      in \<lparr>it_name = encodeUtf8 (ze_name e), it_method = (if deflated then 8 else 0), it_at = ze_at e,
          it_crc = crc32 (ze_body e), it_stored = (if deflated then compressed else ze_body e),
          it_size = length (ze_body e)\<rparr>)"

text \<open>\<open>writeUInt16LE\<close> and \<open>writeUInt32LE\<close> throw on a value that does not fit its field.\<close>

fun fieldsFit :: "item list \<Rightarrow> nat \<Rightarrow> bool" where
  "fieldsFit [] offset = True"
| "fieldsFit (it # its) offset =
     (let (time, date) = dosTime (it_at it)
      in time < 2 ^ 16 \<and> date < 2 ^ 16 \<and> length (it_stored it) < 2 ^ 32 \<and> it_size it < 2 ^ 32 \<and>
         length (it_name it) < 2 ^ 16 \<and> offset < 2 ^ 32 \<and>
         fieldsFit its (offset + 30 + length (it_name it) + length (it_stored it)))"

definition zip_entries :: "(byte list \<Rightarrow> byte list) \<Rightarrow> zip_entry list \<Rightarrow> zip_error + byte list" where
  "zip_entries deflateRawSync entries =
     (let items = map (zipItem deflateRawSync) entries;
          (locals, directory, offset) = writeItems items 0;
          archive = writeArchive items
      in if \<not> (fieldsFit items 0 \<and> length entries < 2 ^ 16 \<and> length directory < 2 ^ 32 \<and> offset < 2 ^ 32)
         then Inl ValueOutOfRange
         else if MAX_ARCHIVE_BYTES < length archive then Inl ArchiveTooLarge else Inr archive)"

section \<open>The reader\<close>

definition MAX_ENTRIES :: nat where
  "MAX_ENTRIES = 5000"

definition MAX_TOTAL_BYTES :: nat where
  "MAX_TOTAL_BYTES = 512 * 1024 * 1024"

record archive_entry =
  ae_name :: "codepoint list"
  ae_body :: "byte list"

text \<open>The expression \<open>(^|/)..(/|$)\<close> with literal dots: searched at every position, \<open>fresh\<close> when the
  position begins the name or follows a slash.\<close>

fun dotDot :: "bool \<Rightarrow> codepoint list \<Rightarrow> bool" where
  "dotDot fresh [] = False"
| "dotDot fresh (c # cs) =
     (fresh \<and> c = 46 \<and> (cs = [46] \<or> take 2 cs = [46, 47]) \<or> dotDot (c = 47) cs)"

definition safeName :: "codepoint list \<Rightarrow> archive_error + codepoint list" where
  "safeName name =
     (let cleaned = map (\<lambda>c. if c = 92 then 47 else c) name
      in if take 1 cleaned = [47] \<or> dotDot True cleaned then Inl UnsafeName else Inr cleaned)"

definition ZIP64_END :: "byte list" where
  "ZIP64_END = [0x50, 0x4B, 0x06, 0x06]"

text \<open>What \<open>inflateRawSync\<close> throws: a range error with its message, or something else.\<close>

datatype inflate_error = RangeErr string | OtherErr

type_synonym inflate = "byte list \<Rightarrow> nat \<Rightarrow> inflate_error + byte list"

definition includesText :: "string \<Rightarrow> string \<Rightarrow> bool" where
  "includesText s x = sublist x s"

fun inflateFailure :: "inflate_error \<Rightarrow> archive_error" where
  "inflateFailure (RangeErr msg) =
     (if includesText msg ''ERR_BUFFER_TOO_LARGE'' \<or> includesText msg ''maxOutputLength'' then TooLarge else NotAnArchive)"
| "inflateFailure OtherErr = NotAnArchive"

text \<open>The search from the back: \<open>at\<close> counts down to \<open>earliest\<close>.\<close>

fun endRecordFrom :: "byte list \<Rightarrow> nat \<Rightarrow> nat \<Rightarrow> archive_error + nat" where
  "endRecordFrom bs at 0 = Inl NotAnArchive"
| "endRecordFrom bs at (Suc n) =
     rbind (readUInt32LE bs at) (\<lambda>sig.
       if sig = 0x06054B50 then Inr at else endRecordFrom bs (at - 1) n)"

definition findEndRecord :: "byte list \<Rightarrow> archive_error + nat" where
  "findEndRecord bs =
     (if length bs < 22 then Inl NotAnArchive
      else let earliest = length bs - 22 - 0xFFFF
           in endRecordFrom bs (length bs - 22) (length bs - 22 - earliest + 1))"

text \<open>The body of one entry: the local header, the stored bytes, and the two size checks.\<close>

definition entryBody :: "inflate \<Rightarrow> byte list \<Rightarrow> nat \<Rightarrow> nat \<Rightarrow> nat \<Rightarrow> nat \<Rightarrow> nat \<Rightarrow> archive_error + byte list" where
  "entryBody inflateRawSync bs method compressedSize declared localOffset total_so_far =
     (if length bs < localOffset + 30 then Inl NotAnArchive
      else rbind (readUInt32LE bs localOffset) (\<lambda>sig.
        if sig \<noteq> 0x04034B50 then Inl NotAnArchive
        else rbind (readUInt16LE bs (localOffset + 26)) (\<lambda>localNameLength.
          rbind (readUInt16LE bs (localOffset + 28)) (\<lambda>localExtraLength.
            let start = localOffset + 30 + localNameLength + localExtraLength;
                stored = subarray bs start compressedSize;
                remaining = MAX_TOTAL_BYTES - total_so_far
            in case (if method = 8 then inflateRawSync stored (remaining + 1) else Inr stored) of
                 Inl e \<Rightarrow> Inl (inflateFailure e)
               | Inr body \<Rightarrow>
                   if remaining < length body then Inl TooLarge
                   else if length body \<noteq> declared then Inl NotAnArchive
                   else Inr body))))"

text \<open>The loop over the central directory: \<open>n\<close> records are left, the next one at \<open>at\<close>.\<close>

fun unzipLoop :: "inflate \<Rightarrow> byte list \<Rightarrow> nat \<Rightarrow> nat \<Rightarrow> nat \<Rightarrow> archive_error + archive_entry list" where
  "unzipLoop inflateRawSync bs 0 at total_so_far = Inr []"
| "unzipLoop inflateRawSync bs (Suc n) at total_so_far =
     (if length bs < at + 46 then Inl NotAnArchive
      else rbind (readUInt32LE bs at) (\<lambda>sig.
        if sig \<noteq> 0x02014B50 then Inl NotAnArchive
        else rbind (readUInt16LE bs (at + 10)) (\<lambda>method.
          rbind (readUInt32LE bs (at + 20)) (\<lambda>compressedSize.
          rbind (readUInt32LE bs (at + 24)) (\<lambda>declared.
          rbind (readUInt16LE bs (at + 28)) (\<lambda>nameLength.
          rbind (readUInt16LE bs (at + 30)) (\<lambda>extraLength.
          rbind (readUInt16LE bs (at + 32)) (\<lambda>commentLength.
          rbind (readUInt32LE bs (at + 42)) (\<lambda>localOffset.
            let name = decodeUtf8 (subarray bs (at + 46) nameLength);
                next_at = at + 46 + nameLength + extraLength + commentLength
            in if name \<noteq> [] \<and> last name = 47 then unzipLoop inflateRawSync bs n next_at total_so_far
               else if method \<noteq> 0 \<and> method \<noteq> 8 then Inl Unsupported
               else if MAX_TOTAL_BYTES < declared \<or> MAX_TOTAL_BYTES < total_so_far + declared then Inl TooLarge
               else rbind (entryBody inflateRawSync bs method compressedSize declared localOffset total_so_far) (\<lambda>body.
                 rbind (safeName name) (\<lambda>safe.
                   rmap (\<lambda>rest. \<lparr>ae_name = safe, ae_body = body\<rparr> # rest)
                     (unzipLoop inflateRawSync bs n next_at (total_so_far + length body)))))))))))))"

definition unzip :: "inflate \<Rightarrow> byte list \<Rightarrow> archive_error + archive_entry list" where
  "unzip inflateRawSync archive =
     rbind (findEndRecord archive) (\<lambda>end.
     rbind (readUInt16LE archive (end + 10)) (\<lambda>n.
       if n = 0xFFFF \<or> sublist ZIP64_END archive then Inl Zip64Unsupported
       else if MAX_ENTRIES < n then Inl TooManyEntries
       else rbind (readUInt32LE archive (end + 16)) (\<lambda>at. unzipLoop inflateRawSync archive n at 0)))"

end
