(* ===== verification/Checksum.thy ===== *)
theory Checksum
  imports Archive
begin

text \<open>
  The checksum of an archive entry: the table-driven loop computes the same value as dividing the
  message bit by bit, which is how CRC-32 is specified. The step is linear over exclusive or, and a
  word whose low bits are clear is only shifted.
\<close>

section \<open>The step\<close>

lemma crcStep_xor: "crcStep c = (if bit c 0 then 0xEDB88320 else 0) XOR drop_bit 1 c"
  by (simp add: crcStep_def and_one_eq odd_iff_mod_2_eq_one bit_0 flip: mod_2_eq_odd)

lemma crcStep_linear: "crcStep (a XOR b) = crcStep a XOR crcStep b"
  by (simp add: crcStep_xor bit_xor_iff drop_bit_xor ac_simps)

lemma crcSteps_linear: "(crcStep ^^ n) (a XOR b) = (crcStep ^^ n) a XOR (crcStep ^^ n) b"
  by (induction n) (simp_all add: crcStep_linear)

lemma crcSteps_shift: "(\<And>i. i < n \<Longrightarrow> \<not> bit c i) \<Longrightarrow> (crcStep ^^ n) c = drop_bit n c"
proof (induction n arbitrary: c)
  case 0
  then show ?case by simp
next
  case (Suc n)
  have "crcStep c = drop_bit 1 c" using Suc.prems [of 0] by (simp add: crcStep_xor)
  moreover have "(crcStep ^^ n) (drop_bit 1 c) = drop_bit n (drop_bit 1 c)"
    using Suc.prems by (intro Suc.IH) (simp add: bit_drop_bit_eq)
  ultimately show ?case by (simp add: funpow_swap1)
qed

section \<open>Table and bits\<close>

definition crcBitwise :: "byte list \<Rightarrow> 32 word" where
  "crcBitwise data = fold (\<lambda>b c. (crcStep ^^ 8) (c XOR ucast b)) data 0xFFFFFFFF XOR 0xFFFFFFFF"

lemma CRC_TABLE_nth: "CRC_TABLE ! unat (x AND 0xFF) = (crcStep ^^ 8) (x AND 0xFF)"
proof -
  have "x AND 0xFF = take_bit 8 x" by (simp add: take_bit_eq_mask mask_eq_exp_minus_1)
  then have "unat (x AND 0xFF) < 256" using take_bit_nat_less_exp [of 8 "unat x"] by (simp add: unsigned_take_bit_eq)
  then show ?thesis by (simp add: CRC_TABLE_def)
qed

lemma low_high: "x = (x AND 0xFF) XOR (x AND NOT 0xFF)" for x :: "32 word"
  by (rule bit_eqI) (auto simp: bit_simps)

lemma table_step:
  "(CRC_TABLE ! unat ((c XOR ucast b) AND 0xFF)) XOR drop_bit 8 c = (crcStep ^^ 8) (c XOR ucast b)" for b :: byte
proof -
  let ?x = "c XOR ucast b"
  have mask: "(0xFF :: 32 word) = mask 8" by (simp add: mask_eq_exp_minus_1)
  have "\<not> bit (?x AND NOT 0xFF) i" if "i < 8" for i
    using that unfolding mask by (simp add: bit_simps)
  then have "(crcStep ^^ 8) (?x AND NOT 0xFF) = drop_bit 8 (?x AND NOT 0xFF)" by (rule crcSteps_shift)
  also have "\<dots> = drop_bit 8 c"
    unfolding mask by (rule bit_eqI) (auto simp: bit_simps dest: bit_imp_le_length)
  finally show ?thesis using crcSteps_linear [of 8 "?x AND 0xFF" "?x AND NOT 0xFF"] low_high [of ?x] CRC_TABLE_nth [of ?x]
    by metis
qed

section \<open>Properties\<close>

text \<open>The table-driven checksum is the bitwise one. For every buffer, \<open>crc32\<close> with its table of
  256 entries equals the division by the CRC-32 polynomial one bit at a time.\<close>

theorem crc32_bitwise: "crc32 data = crcBitwise data"
  unfolding crc32_def crcBitwise_def table_step ..

lemma crc32_code [code]: "crc32 data = fold (\<lambda>b c. (crcStep ^^ 8) (c XOR ucast b)) data 0xFFFFFFFF XOR 0xFFFFFFFF"
  unfolding crc32_def table_step ..

end
