(* ===== verification/Archive_Roundtrip.thy ===== *)
theory Archive_Roundtrip
  imports Checksum
begin

text \<open>
  Reading back what the two writers write. The headers are shown to hold their fields at the
  offsets the reader uses, the directory loop to return the items in order, and from this the round
  trip of either writer; the bounds the reader enforces on an arbitrary buffer are shown separately.
\<close>

section \<open>Text\<close>

lemma unat_byte_mod: "unat (of_nat v :: byte) = v mod 256"
  by (simp add: unsigned_of_nat take_bit_eq_mod)

lemma unat_byte: "v < 256 \<Longrightarrow> unat (of_nat v :: byte) = v"
  by (simp add: unat_byte_mod)

lemma decodeTail_one:
  "tailByte lo hi b \<Longrightarrow> decodeTail (Suc n) lo hi acc (b # bs) = decodeTail n 0x80 0xBF (acc * 64 + (b - 0x80)) bs"
  by simp

lemma decodeOne_two:
  assumes "0x80 \<le> c" and "c < 0x800"
  shows "decodeOne (0xC0 + c div 64) ((0x80 + c mod 64) # rest) = (c, rest)"
proof -
  have b: "2 \<le> c div 64" "c div 64 < 32" using assms by auto
  have m: "c mod 64 < 64" by simp
  have "secondRange (0xC0 + c div 64) = (0x80, 0xBF)" using b by (simp add: secondRange_def)
  then show ?thesis using b m by (simp add: decodeOne_def tailByte_def)
qed

lemma decodeOne_three:
  assumes "0x800 \<le> c" and "c < 0x10000" and "scalar c"
  shows "decodeOne (0xE0 + c div 4096) ((0x80 + c div 64 mod 64) # (0x80 + c mod 64) # rest) = (c, rest)"
proof -
  have b: "c div 4096 < 16" using assms by auto
  have m: "c mod 64 < 64" "c div 64 mod 64 < 64" by simp_all
  have q: "c div 4096 = c div 64 div 64" by (simp add: div_mult2_eq [symmetric])
  have eq: "(c div 4096 * 64 + c div 64 mod 64) * 64 + c mod 64 = c" unfolding q by simp
  have low: "32 \<le> c div 64 mod 64" if "c div 4096 = 0"
  proof -
    have "32 \<le> c div 64" "c div 64 < 64" using that assms(1) unfolding q by auto
    then show ?thesis by simp
  qed
  have high: "c div 64 mod 64 < 32" if "c div 4096 = 13"
  proof -
    have "c < 0xE000" using that by simp
    then have "c < 0xD800" using assms(3) by (auto simp: scalar_def)
    then have "c div 64 < 864" by auto
    moreover have "c div 64 = 832 + c div 64 mod 64" using that div_mult_mod_eq [of "c div 64" 64] unfolding q by simp
    ultimately show ?thesis by simp
  qed
  obtain lo hi where r: "secondRange (0xE0 + c div 4096) = (lo, hi)" and t: "tailByte lo hi (0x80 + c div 64 mod 64)"
    using b m low high
    by (cases "c div 4096 = 0"; cases "c div 4096 = 13") (auto simp: secondRange_def tailByte_def)
  show ?thesis using b m eq r t by (simp add: decodeOne_def numeral_2_eq_2 tailByte_def [of "0x80"])
qed

lemma decodeOne_four:
  assumes "0x10000 \<le> c" and "c < 0x110000"
  shows "decodeOne (0xF0 + c div 262144)
    ((0x80 + c div 4096 mod 64) # (0x80 + c div 64 mod 64) # (0x80 + c mod 64) # rest) = (c, rest)"
proof -
  have b: "c div 262144 < 5" using assms by auto
  have m: "c mod 64 < 64" "c div 64 mod 64 < 64" "c div 4096 mod 64 < 64" by simp_all
  have q: "c div 4096 = c div 64 div 64" "c div 262144 = c div 64 div 64 div 64"
    by (simp_all add: div_mult2_eq [symmetric])
  have eq: "((c div 262144 * 64 + c div 4096 mod 64) * 64 + c div 64 mod 64) * 64 + c mod 64 = c" unfolding q by simp
  have q': "c div 4096 = c div 262144 * 64 + c div 4096 mod 64" unfolding q by simp
  have low: "16 \<le> c div 4096 mod 64" if "c div 262144 = 0"
  proof -
    have "16 \<le> c div 4096" using assms(1) by auto
    with q' that show ?thesis by simp
  qed
  have high: "c div 4096 mod 64 < 16" if "c div 262144 = 4"
  proof -
    have "c div 4096 < 272" using assms(2) by auto
    with q' that show ?thesis by simp
  qed
  obtain lo hi where r: "secondRange (0xF0 + c div 262144) = (lo, hi)" and t: "tailByte lo hi (0x80 + c div 4096 mod 64)"
    using b m low high
    by (cases "c div 262144 = 0"; cases "c div 262144 = 4") (auto simp: secondRange_def tailByte_def)
  have "c mod 64 \<le> 63" "c div 64 mod 64 \<le> 63" using m by simp_all
  then show ?thesis using b eq r t by (simp add: decodeOne_def numeral_3_eq_3 tailByte_def [of "0x80"])
qed

lemma decodeNat_one:
  assumes "scalar c"
  shows "decodeNat (utf8One c @ rest) = c # decodeNat rest"
proof -
  have "decodeOne c bs = (c, bs)" if "c < 0x80" for bs
    using that by (simp add: decodeOne_def secondRange_def)
  moreover have "c < 0x110000" using assms by (simp add: scalar_def)
  ultimately show ?thesis
    using decodeOne_two [of c] decodeOne_three [of c] decodeOne_four [of c] assms
    by (auto simp: utf8One_def not_less)
qed

lemma utf8One_bytes: "scalar c \<Longrightarrow> b \<in> set (utf8One c) \<Longrightarrow> b < 256"
  by (auto simp: utf8One_def scalar_def split: if_splits)

lemma map_unat_bytes: "\<forall>b \<in> set xs. b < 256 \<Longrightarrow> map unat (map of_nat xs :: byte list) = xs"
  by (induction xs) (auto simp: unat_byte)

lemma decode_encode:
  assumes "\<And>c. c \<in> set s \<Longrightarrow> scalar c"
  shows "decodeUtf8 (encodeUtf8 s) = s"
proof -
  let ?bytes = "concat (map utf8One s)"
  have enc: "encodeUtf8 s = map of_nat ?bytes" unfolding encodeUtf8_def using assms
    by (intro arg_cong [where f = "\<lambda>x. map of_nat (concat x)"] map_cong) auto
  have "\<forall>b \<in> set ?bytes. b < 256" using assms utf8One_bytes by auto
  then have "map unat (map of_nat ?bytes :: byte list) = ?bytes" by (rule map_unat_bytes)
  moreover have "decodeNat ?bytes = s" using assms by (induction s) (auto simp: decodeNat_one)
  ultimately show ?thesis by (simp add: decodeUtf8_def enc)
qed

section \<open>Fields\<close>

lemma length_leBytes [simp]: "length (leBytes n v) = n"
  by (induction n arbitrary: v) auto

lemma leValue_leBytes: "leValue (leBytes n v) = v mod 256 ^ n"
proof (induction n arbitrary: v)
  case 0
  then show ?case by simp
next
  case (Suc n)
  show ?case using Suc [of "v div 256"] by (simp add: unat_byte_mod mod_mult2_eq)
qed

lemma leBytes_2: "leBytes 2 v = [of_nat v, of_nat (v div 256)]"
  by (simp add: numeral_2_eq_2)

lemma four: "(4 :: nat) = Suc (Suc (Suc (Suc 0)))"
  by simp

lemma leBytes_4: "leBytes 4 v = [of_nat v, of_nat (v div 256), of_nat (v div 65536), of_nat (v div 16777216)]"
  by (simp only: four leBytes.simps) (simp add: div_mult2_eq [symmetric])

lemma leValue_2: "leValue [of_nat v, of_nat (v div 256)] = v mod 65536"
  using leValue_leBytes [of 2 v] by (simp add: leBytes_2)

lemma leValue_4:
  "leValue [of_nat v, of_nat (v div 256), of_nat (v div 65536), of_nat (v div 16777216)] = v mod 4294967296"
  using leValue_leBytes [of 4 v] by (simp add: leBytes_4)

text \<open>The three records, byte by byte.\<close>

lemma replicate_30: "replicate 30 (0 :: byte) = [0,0,0,0,0,0,0,0,0,0,0,0,0,0,0,0,0,0,0,0,0,0,0,0,0,0,0,0,0,0]"
  by code_simp

lemma replicate_22: "replicate 22 (0 :: byte) = [0,0,0,0,0,0,0,0,0,0,0,0,0,0,0,0,0,0,0,0,0,0]"
  by code_simp

lemma replicate_46: "replicate 46 (0 :: byte) =
  [0,0,0,0,0,0,0,0,0,0,0,0,0,0,0,0,0,0,0,0,0,0,0,0,0,0,0,0,0,0,0,0,0,0,0,0,0,0,0,0,0,0,0,0,0,0]"
  by code_simp

lemma setUint_Cons:
  "setUint16 at v (x # xs) = take at (x # xs) @ leBytes 2 v @ drop (at + 2) (x # xs)"
  "setUint32 at v (x # xs) = take at (x # xs) @ leBytes 4 v @ drop (at + 4) (x # xs)"
  by (simp_all only: setUint16_def setUint32_def)

lemma localHeader_bytes:
  "localHeader method time date crc storedLen len nameLen =
     leBytes 4 0x04034B50 @ leBytes 2 20 @ leBytes 2 0x0800 @ leBytes 2 method @ leBytes 2 time @ leBytes 2 date @
     leBytes 4 crc @ leBytes 4 storedLen @ leBytes 4 len @ leBytes 2 nameLen @ leBytes 2 0"
  unfolding localHeader_def replicate_30 by (simp add: setUint_Cons leBytes_2 leBytes_4)

lemma centralRecord_bytes:
  "centralRecord method time date crc storedLen len nameLen offset =
     leBytes 4 0x02014B50 @ leBytes 2 20 @ leBytes 2 20 @ leBytes 2 0x0800 @ leBytes 2 method @ leBytes 2 time @
     leBytes 2 date @ leBytes 4 crc @ leBytes 4 storedLen @ leBytes 4 len @ leBytes 2 nameLen @ leBytes 2 0 @
     leBytes 2 0 @ leBytes 2 0 @ leBytes 2 0 @ leBytes 4 0 @ leBytes 4 offset"
  unfolding centralRecord_def replicate_46 by (simp add: setUint_Cons leBytes_2 leBytes_4)

lemma endRecord_bytes:
  "endRecord n centralSize offset =
     leBytes 4 0x06054B50 @ leBytes 2 0 @ leBytes 2 0 @ leBytes 2 n @ leBytes 2 n @ leBytes 4 centralSize @
     leBytes 4 offset @ leBytes 2 0"
  unfolding endRecord_def replicate_22 by (simp add: setUint_Cons leBytes_2 leBytes_4)

lemma header_lengths [simp]:
  "length (localHeader method time date crc storedLen len nameLen) = 30"
  "length (centralRecord method time date crc storedLen len nameLen offset) = 46"
  "length (endRecord n centralSize offset) = 22"
  by (simp_all add: localHeader_bytes centralRecord_bytes endRecord_bytes)

text \<open>Reading past a prefix, and a field where it stands.\<close>

lemma read_skip:
  "readUInt16LE (pre @ xs) (length pre + k) = readUInt16LE xs k"
  "readUInt32LE (pre @ xs) (length pre + k) = readUInt32LE xs k"
  by (simp_all add: readUInt16LE_def readUInt32LE_def)

lemma read_here:
  "readUInt16LE (leBytes 2 v @ xs) 0 = Inr (v mod 65536)"
  "readUInt32LE (leBytes 4 v @ xs) 0 = Inr (v mod 4294967296)"
  using leValue_leBytes [of 2 v] leValue_leBytes [of 4 v] by (simp_all add: readUInt16LE_def readUInt32LE_def)

lemma read_at:
  "length pre = k \<Longrightarrow> readUInt16LE (pre @ leBytes 2 v @ xs) k = Inr (v mod 65536)"
  "length pre = k \<Longrightarrow> readUInt32LE (pre @ leBytes 4 v @ xs) k = Inr (v mod 4294967296)"
  using read_skip [of pre _ 0] read_here by simp_all

lemma read_drop:
  "w \<le> k \<Longrightarrow> readUInt16LE (leBytes w v @ xs) k = readUInt16LE xs (k - w)"
  "w \<le> k \<Longrightarrow> readUInt32LE (leBytes w v @ xs) k = readUInt32LE xs (k - w)"
  using read_skip [of "leBytes w v" xs "k - w"] by simp_all

lemma read_field:
  assumes "bs = pre @ xs" and "length pre = at"
  shows "readUInt16LE bs (at + k) = readUInt16LE xs k" "readUInt32LE bs (at + k) = readUInt32LE xs k"
    "readUInt32LE bs at = readUInt32LE xs 0"
  using assms read_skip [of pre xs] read_skip(2) [of pre xs 0] by auto

lemma central_fields:
  assumes bs: "bs = pre @ centralRecord method time date crc storedLen len nameLen offset @ rest" and at: "length pre = at"
  shows "readUInt32LE bs at = Inr 0x02014B50" "readUInt16LE bs (at + 10) = Inr (method mod 65536)"
    "readUInt32LE bs (at + 20) = Inr (storedLen mod 4294967296)" "readUInt32LE bs (at + 24) = Inr (len mod 4294967296)"
    "readUInt16LE bs (at + 28) = Inr (nameLen mod 65536)" "readUInt16LE bs (at + 30) = Inr 0"
    "readUInt16LE bs (at + 32) = Inr 0" "readUInt32LE bs (at + 42) = Inr (offset mod 4294967296)"
  unfolding read_field [OF bs at] centralRecord_bytes append_assoc
  by (simp_all add: read_drop read_here)

lemma local_fields:
  assumes bs: "bs = pre @ localHeader method time date crc storedLen len nameLen @ rest" and at: "length pre = at"
  shows "readUInt32LE bs at = Inr 0x04034B50" "readUInt16LE bs (at + 26) = Inr (nameLen mod 65536)"
    "readUInt16LE bs (at + 28) = Inr 0"
  unfolding read_field [OF bs at] localHeader_bytes append_assoc
  by (simp_all add: read_drop read_here)

lemma end_fields:
  assumes bs: "bs = pre @ endRecord n centralSize offset" and at: "length pre = at"
  shows "readUInt32LE bs at = Inr 0x06054B50" "readUInt16LE bs (at + 10) = Inr (n mod 65536)"
    "readUInt32LE bs (at + 16) = Inr (offset mod 4294967296)"
proof -
  have bs': "bs = pre @ endRecord n centralSize offset @ []" using bs by simp
  show "readUInt32LE bs at = Inr 0x06054B50" "readUInt16LE bs (at + 10) = Inr (n mod 65536)"
    "readUInt32LE bs (at + 16) = Inr (offset mod 4294967296)"
    unfolding read_field [OF bs' at] endRecord_bytes append_assoc
    by (simp_all add: read_drop read_here)
qed

section \<open>The directory\<close>

text \<open>An item that the reader turns back into the entry \<open>e\<close>.\<close>

definition readable :: "inflate \<Rightarrow> item \<Rightarrow> archive_entry \<Rightarrow> bool" where
  "readable inflateRawSync it e =
     (decodeUtf8 (it_name it) = ae_name e \<and> length (it_name it) < 65536 \<and>
      length (it_stored it) < 4294967296 \<and> it_size it = length (ae_body e) \<and>
      (it_method it = 0 \<and> it_stored it = ae_body e \<or>
       it_method it = 8 \<and> (\<forall>n. length (ae_body e) \<le> n \<longrightarrow> inflateRawSync (it_stored it) n = Inr (ae_body e))) \<and>
      (ae_name e = [] \<or> last (ae_name e) \<noteq> 47) \<and> safeName (ae_name e) = Inr (ae_name e))"

lemma entryBody_item:
  assumes bs: "bs = pre @ localHeader (it_method it) time date crc (length (it_stored it)) (it_size it) (length (it_name it)) @
      it_name it @ it_stored it @ rest"
    and at: "length pre = at" and ok: "readable inflateRawSync it e"
    and room: "acc + length (ae_body e) \<le> MAX_TOTAL_BYTES"
  shows "entryBody inflateRawSync bs (it_method it) (length (it_stored it)) (it_size it) at acc = Inr (ae_body e)"
proof -
  have len: "at + 30 \<le> length bs" using bs at by simp
  have nl: "length (it_name it) mod 65536 = length (it_name it)" using ok by (simp add: readable_def)
  have stored: "subarray bs (at + 30 + length (it_name it) + 0) (length (it_stored it)) = it_stored it"
    using bs at by (simp add: subarray_def)
  have inf: "(if it_method it = 8 then inflateRawSync (it_stored it) (MAX_TOTAL_BYTES - acc + 1) else Inr (it_stored it)) = Inr (ae_body e)"
    using ok room unfolding readable_def by auto
  have size: "it_size it = length (ae_body e)" using ok by (simp add: readable_def)
  show ?thesis
    unfolding entryBody_def local_fields [OF bs at] rbind.simps Let_def nl stored inf sum.case size
    using len room by simp
qed

lemma unzipLoop_items:
  assumes "list_all2 (readable inflateRawSync) its es"
    and "writeItems its off = (locals, central, end)"
    and "bs = pl @ locals @ ql" and "length pl = off"
    and "bs = pc @ central @ qc" and "length pc = at"
    and "length bs < 4294967296"
    and "acc + sum_list (map (\<lambda>e. length (ae_body e)) es) \<le> MAX_TOTAL_BYTES"
  shows "unzipLoop inflateRawSync bs (length its) at acc = Inr es"
  using assms
proof (induction its es arbitrary: off locals central pl pc at acc rule: list_all2_induct)
  case Nil
  then show ?case by simp
next
  case (Cons it its e es)
  obtain time date where dt: "dosTime (it_at it) = (time, date)" by fastforce
  let ?off = "off + 30 + length (it_name it) + length (it_stored it)"
  obtain ls cs where w: "writeItems its ?off = (ls, cs, end)"
    and locals: "locals = localHeader (it_method it) time date (unat (it_crc it)) (length (it_stored it)) (it_size it) (length (it_name it)) @
      it_name it @ it_stored it @ ls"
    and central: "central = centralRecord (it_method it) time date (unat (it_crc it)) (length (it_stored it)) (it_size it) (length (it_name it)) off @
      it_name it @ cs"
    using Cons.prems(1) dt by (cases "writeItems its ?off") (auto simp: Let_def)
  note ok = Cons.hyps(1)
  have bsl: "bs = pl @ localHeader (it_method it) time date (unat (it_crc it)) (length (it_stored it)) (it_size it) (length (it_name it)) @
      it_name it @ it_stored it @ (ls @ ql)"
    using Cons.prems(2) locals by simp
  have bsc: "bs = pc @ centralRecord (it_method it) time date (unat (it_crc it)) (length (it_stored it)) (it_size it) (length (it_name it)) off @
      (it_name it @ cs @ qc)"
    using Cons.prems(4) central by simp
  have room: "acc + length (ae_body e) \<le> MAX_TOTAL_BYTES" using Cons.prems(7) by simp
  have small: "off < 4294967296" "it_size it < 4294967296"
    using Cons.prems(2,3,6) room ok by (auto simp: readable_def MAX_TOTAL_BYTES_def)
  have body: "entryBody inflateRawSync bs (it_method it) (length (it_stored it)) (it_size it) off acc = Inr (ae_body e)"
    using bsl Cons.prems(3) ok room by (rule entryBody_item)
  have name: "subarray bs (at + 46) (length (it_name it)) = it_name it"
    using bsc Cons.prems(5) by (simp add: subarray_def)
  have rest: "unzipLoop inflateRawSync bs (length its) (at + 46 + length (it_name it) + 0 + 0) (acc + length (ae_body e)) = Inr es"
  proof (rule Cons.IH [OF w])
    show "bs = (pl @ localHeader (it_method it) time date (unat (it_crc it)) (length (it_stored it)) (it_size it) (length (it_name it)) @
      it_name it @ it_stored it) @ ls @ ql" using bsl by simp
    show "bs = (pc @ centralRecord (it_method it) time date (unat (it_crc it)) (length (it_stored it)) (it_size it) (length (it_name it)) off @
      it_name it) @ cs @ qc" using bsc by simp
  qed (use Cons.prems in simp_all)
  have m: "it_method it mod 65536 = it_method it" "length (it_name it) mod 65536 = length (it_name it)"
    "length (it_stored it) mod 4294967296 = length (it_stored it)" "it_size it mod 4294967296 = it_size it" "off mod 4294967296 = off"
    using ok small by (auto simp: readable_def)
  have k: "(it_method it \<noteq> 0 \<and> it_method it \<noteq> 8) = False" "decodeUtf8 (it_name it) = ae_name e"
    "(ae_name e \<noteq> [] \<and> last (ae_name e) = 47) = False" "safeName (ae_name e) = Inr (ae_name e)"
    "(MAX_TOTAL_BYTES < it_size it \<or> MAX_TOTAL_BYTES < acc + it_size it) = False" "(length bs < at + 46) = False"
    using ok room bsc Cons.prems(5) by (auto simp: readable_def)
  show ?case
    unfolding list.size unzipLoop.simps add_Suc_right add_0_right central_fields [OF bsc Cons.prems(5)] rbind.simps m Let_def name k body
      if_False
    using rest by simp
qed

section \<open>Whole archives\<close>

lemma writeItems_end: "writeItems its off = (locals, central, end) \<Longrightarrow> end = off + length locals"
proof (induction its arbitrary: off locals central "end")
  case Nil
  then show ?case by simp
next
  case (Cons it its)
  obtain time date where "dosTime (it_at it) = (time, date)" by fastforce
  with Cons.prems show ?case
    by (cases "writeItems its (off + 30 + length (it_name it) + length (it_stored it))") (auto simp: Let_def dest: Cons.IH)
qed

lemma findEndRecord_written:
  assumes "bs = pre @ endRecord n csize offset"
  shows "findEndRecord bs = Inr (length pre)"
  using end_fields(1) [OF assms refl] assms by (simp add: findEndRecord_def Let_def)

lemma writeArchive_shape:
  obtains locals central where "writeItems its 0 = (locals, central, length locals)"
    "writeArchive its = locals @ central @ endRecord (length its) (length central) (length locals)"
  using writeItems_end [of its 0] by (cases "writeItems its 0") (auto simp: writeArchive_def)

lemma unzip_writeArchive:
  assumes "list_all2 (readable inflateRawSync) its es" and "length (writeArchive its) < 4294967296"
    and "length its \<le> MAX_ENTRIES" and "\<not> sublist ZIP64_END (writeArchive its)"
    and "sum_list (map (\<lambda>e. length (ae_body e)) es) \<le> MAX_TOTAL_BYTES"
  shows "unzip inflateRawSync (writeArchive its) = Inr es"
proof -
  obtain locals central where w: "writeItems its 0 = (locals, central, length locals)"
    and a: "writeArchive its = locals @ central @ endRecord (length its) (length central) (length locals)"
    by (rule writeArchive_shape)
  have a': "writeArchive its = (locals @ central) @ endRecord (length its) (length central) (length locals)" using a by simp
  have small: "length its mod 65536 = length its" "length its \<noteq> 0xFFFF" "length locals mod 4294967296 = length locals"
    using assms(2,3) a by (simp_all add: MAX_ENTRIES_def)
  have loop: "unzipLoop inflateRawSync (writeArchive its) (length its) (length locals) 0 = Inr es"
    by (rule unzipLoop_items [OF assms(1) w, where pl = "[]" and pc = locals])
      (use a assms(2,5) in simp_all)
  show ?thesis
    unfolding unzip_def findEndRecord_written [OF a'] rbind.simps end_fields [OF a' refl] small
    using assms(3,4) small loop by simp
qed

lemma unzip_zip64:
  assumes "sublist ZIP64_END (writeArchive its)"
  shows "unzip inflateRawSync (writeArchive its) = Inl Zip64Unsupported"
proof -
  obtain locals central where
    a: "writeArchive its = (locals @ central) @ endRecord (length its) (length central) (length locals)"
    by (rule writeArchive_shape [of its]) simp
  show ?thesis
    unfolding unzip_def findEndRecord_written [OF a] rbind.simps end_fields [OF a refl] using assms by simp
qed

lemma writeItems_length:
  assumes "writeItems its off = (locals, central, end)" and "\<And>it. it \<in> set its \<Longrightarrow> length (it_name it) < 65536"
  shows "length locals + length central \<le> length its * 131146 + sum_list (map (\<lambda>it. length (it_stored it)) its)"
  using assms
proof (induction its arbitrary: off locals central "end")
  case Nil
  then show ?case by simp
next
  case (Cons it its)
  obtain time date where dt: "dosTime (it_at it) = (time, date)" by fastforce
  obtain ls cs e where w: "writeItems its (off + 30 + length (it_name it) + length (it_stored it)) = (ls, cs, e)"
    by (cases "writeItems its (off + 30 + length (it_name it) + length (it_stored it))") auto
  have "length locals = 30 + length (it_name it) + length (it_stored it) + length ls"
    "length central = 46 + length (it_name it) + length cs"
    using Cons.prems(1) dt w by (auto simp: Let_def)
  moreover have "length (it_name it) \<le> 65535" using Cons.prems(2) [of it] by simp
  moreover have "length ls + length cs \<le> length its * 131146 + sum_list (map (\<lambda>it. length (it_stored it)) its)"
    using Cons.prems(2) by (intro Cons.IH [OF w]) simp
  ultimately show ?case by simp
qed

text \<open>A name that survives: it is text, it fits its field, it is not a directory, and it is safe.\<close>

definition goodName :: "codepoint list \<Rightarrow> bool" where
  "goodName s = (list_all scalar s \<and> length (encodeUtf8 s) < 65536 \<and> (s = [] \<or> last s \<noteq> 47) \<and> safeName s = Inr s)"

text \<open>A writer turns each entry into an item of one archive.\<close>

locale archive_writer =
  fixes pack :: "'e list \<Rightarrow> 'err + byte list"
    and itemOf :: "'e \<Rightarrow> item"
    and entryOf :: "'e \<Rightarrow> archive_entry"
    and inflateRawSync :: inflate
  assumes write_items: "pack es = Inr bs \<Longrightarrow> bs = writeArchive (map itemOf es)"
    and write_small: "pack es = Inr bs \<Longrightarrow> \<forall>e \<in> set es. goodName (ae_name (entryOf e)) \<Longrightarrow> length bs < 4294967296"
    and item_name: "it_name (itemOf e) = encodeUtf8 (ae_name (entryOf e))"
    and item_size: "it_size (itemOf e) = length (ae_body (entryOf e))"
    and item_stored: "it_method (itemOf e) = 0 \<and> it_stored (itemOf e) = ae_body (entryOf e) \<or>
      it_method (itemOf e) = 8 \<and> length (it_stored (itemOf e)) < length (ae_body (entryOf e)) \<and>
      (\<forall>n. length (ae_body (entryOf e)) \<le> n \<longrightarrow> inflateRawSync (it_stored (itemOf e)) n = Inr (ae_body (entryOf e)))"
begin

lemma item_readable:
  assumes "goodName (ae_name (entryOf e))" and "length (ae_body (entryOf e)) \<le> MAX_TOTAL_BYTES"
  shows "readable inflateRawSync (itemOf e) (entryOf e)"
proof -
  have "decodeUtf8 (it_name (itemOf e)) = ae_name (entryOf e)"
    using assms(1) decode_encode [of "ae_name (entryOf e)"] by (simp add: goodName_def item_name list_all_iff)
  moreover have "length (it_stored (itemOf e)) < 4294967296"
    using item_stored [of e] assms(2) by (auto simp: MAX_TOTAL_BYTES_def)
  ultimately show ?thesis
    using assms(1) item_stored [of e] by (auto simp: readable_def goodName_def item_name item_size)
qed

lemma unzip_written:
  assumes "pack es = Inr bs" and "\<forall>e \<in> set es. goodName (ae_name (entryOf e))"
    and "length es \<le> MAX_ENTRIES" and "sum_list (map (\<lambda>e. length (ae_body (entryOf e))) es) \<le> MAX_TOTAL_BYTES"
    and "\<not> sublist ZIP64_END bs"
  shows "unzip inflateRawSync bs = Inr (map entryOf es)"
proof -
  have bound: "length (ae_body (entryOf e)) \<le> MAX_TOTAL_BYTES" if "e \<in> set es" for e
    using assms(4) member_le_sum_list [of "length (ae_body (entryOf e))" "map (\<lambda>e. length (ae_body (entryOf e))) es"] that by force
  have items: "bs = writeArchive (map itemOf es)" using assms(1) by (rule write_items)
  have "list_all2 (readable inflateRawSync) (map itemOf es) (map entryOf es)"
    unfolding list_all2_map1 list_all2_map2 using assms(2) bound by (simp add: list_all2_same) (auto intro: item_readable)
  then show ?thesis
    unfolding items using assms items write_small [OF assms(1,2)] by (intro unzip_writeArchive) (simp_all add: comp_def)
qed

end

definition storedEntry :: "stored_entry \<Rightarrow> archive_entry" where
  "storedEntry e = \<lparr>ae_name = se_name e, ae_body = se_body e\<rparr>"

definition zippedEntry :: "zip_entry \<Rightarrow> archive_entry" where
  "zippedEntry e = \<lparr>ae_name = ze_name e, ae_body = ze_body e\<rparr>"

lemma packStored_small:
  assumes "packStored now es = Inr bs" and "\<forall>e \<in> set es. goodName (se_name e)"
  shows "length bs < 4294967296"
proof -
  have bs: "bs = writeArchive (map (storedItem now) es)" and n: "length es \<le> 200"
    and total: "sum_list (map (\<lambda>e. length (se_body e)) es) \<le> 67108864"
    using assms(1) by (auto simp: packStored_def MAX_STORED_ENTRIES_def MAX_STORED_BYTES_def split: if_splits)
  obtain locals central where w: "writeItems (map (storedItem now) es) 0 = (locals, central, length locals)"
    and a: "bs = locals @ central @ endRecord (length es) (length central) (length locals)"
    using writeArchive_shape [of "map (storedItem now) es"] bs by (metis length_map)
  have "length (it_name it) < 65536" if "it \<in> set (map (storedItem now) es)" for it
    using that assms(2) by (auto simp: storedItem_def goodName_def)
  from writeItems_length [OF w this]
  have "length locals + length central \<le> length es * 131146 + sum_list (map (\<lambda>e. length (se_body e)) es)"
    by (simp add: storedItem_def comp_def)
  with n total a show ?thesis by simp
qed

interpretation stored: archive_writer "packStored now" "storedItem now" storedEntry inflateRawSync for now inflateRawSync
proof
  show "packStored now es = Inr bs \<Longrightarrow> bs = writeArchive (map (storedItem now) es)" for es bs
    by (auto simp: packStored_def split: if_splits)
  show "packStored now es = Inr bs \<Longrightarrow> \<forall>e \<in> set es. goodName (ae_name (storedEntry e)) \<Longrightarrow> length bs < 4294967296" for es bs
    by (rule packStored_small) (simp_all add: storedEntry_def)
qed (simp_all add: storedItem_def storedEntry_def)

text \<open>What the server's writer relies on: inflating what was deflated gives it back, within the
  output limit.\<close>

definition codecLaw :: "(byte list \<Rightarrow> byte list) \<Rightarrow> inflate \<Rightarrow> bool" where
  "codecLaw deflateRawSync inflateRawSync =
     (\<forall>b n. length b \<le> n \<longrightarrow> inflateRawSync (deflateRawSync b) n = Inr b)"

lemma zip_writer:
  assumes "codecLaw deflateRawSync inflateRawSync"
  shows "archive_writer (zip_entries deflateRawSync) (zipItem deflateRawSync) zippedEntry inflateRawSync"
proof
  show "zip_entries deflateRawSync es = Inr bs \<Longrightarrow> bs = writeArchive (map (zipItem deflateRawSync) es)" for es bs
    by (auto simp: zip_entries_def Let_def split: if_splits prod.splits)
  show "zip_entries deflateRawSync es = Inr bs \<Longrightarrow> \<forall>e \<in> set es. goodName (ae_name (zippedEntry e)) \<Longrightarrow> length bs < 4294967296" for es bs
    by (auto simp: zip_entries_def Let_def MAX_ARCHIVE_BYTES_def split: if_splits prod.splits)
qed (use assms in \<open>auto simp: zipItem_def zippedEntry_def Let_def codecLaw_def\<close>)

section \<open>What the reader guarantees on any input\<close>

fun segments :: "'a \<Rightarrow> 'a list \<Rightarrow> 'a list list" where
  "segments sep [] = [[]]"
| "segments sep (c # cs) =
     (if c = sep then [] # segments sep cs
      else (case segments sep cs of [] \<Rightarrow> [[c]] | s # ss \<Rightarrow> (c # s) # ss))"

lemma segments_nonempty: "\<exists>s ss. segments sep cs = s # ss"
  by (induction cs) (auto split: list.splits)

lemma first_segment_dot:
  "segments 47 cs = s # ss \<Longrightarrow> s = [46 :: nat] \<longleftrightarrow> cs = [46] \<or> take 2 cs = [46, 47]"
proof (cases cs)
  case (Cons c cs')
  assume s: "segments 47 cs = s # ss"
  obtain t ts where t: "segments 47 cs' = t # ts" using segments_nonempty [of 47 cs'] by blast
  show ?thesis
  proof (cases cs')
    case Nil
    with s Cons show ?thesis by (auto split: if_splits)
  next
    case (Cons d cs'')
    obtain u us where "segments 47 cs'' = u # us" using segments_nonempty [of 47 cs''] by blast
    with Cons s \<open>cs = c # cs'\<close> show ?thesis by (auto split: if_splits)
  qed
qed auto

lemma dotDot_segments:
  "dotDot fresh cs \<longleftrightarrow> fresh \<and> hd (segments 47 cs) = [46, 46] \<or> [46, 46] \<in> set (tl (segments 47 cs))"
proof (induction cs arbitrary: fresh)
  case Nil
  then show ?case by simp
next
  case (Cons c cs)
  obtain s ss where s: "segments 47 cs = s # ss" using segments_nonempty [of 47 cs] by blast
  show ?case
  proof (cases "c = 47")
    case True
    with Cons.IH s show ?thesis by auto
  next
    case False
    then have "dotDot False cs \<longleftrightarrow> [46, 46] \<in> set ss" using Cons.IH s by simp
    with False s first_segment_dot [OF s] show ?thesis by auto
  qed
qed

lemma safeName_safe:
  assumes "safeName name = Inr safe"
  shows "take 1 safe \<noteq> [47]" "[46, 46] \<notin> set (segments 47 safe)" "92 \<notin> set safe"
proof -
  have safe: "safe = map (\<lambda>c. if c = 92 then 47 else c) name" and "take 1 safe \<noteq> [47]" and d: "\<not> dotDot True safe"
    using assms by (auto simp: safeName_def Let_def split: if_splits)
  then show "take 1 safe \<noteq> [47]" by simp
  obtain s ss where "segments 47 safe = s # ss" using segments_nonempty [of 47 safe] by blast
  with d show "[46, 46] \<notin> set (segments 47 safe)" by (auto simp: dotDot_segments)
  show "92 \<notin> set safe" using safe by auto
qed

lemma entryBody_bound:
  "entryBody inflateRawSync bs method clen declared off acc = Inr body \<Longrightarrow> acc \<le> MAX_TOTAL_BYTES \<Longrightarrow>
     acc + length body \<le> MAX_TOTAL_BYTES"
  by (auto simp: entryBody_def Let_def result_simps split: if_splits sum.splits)

definition entriesOk :: "nat \<Rightarrow> nat \<Rightarrow> archive_entry list \<Rightarrow> bool" where
  "entriesOk n acc es =
     (length es \<le> n \<and> acc + sum_list (map (\<lambda>e. length (ae_body e)) es) \<le> MAX_TOTAL_BYTES \<and>
      (\<forall>e \<in> set es. take 1 (ae_name e) \<noteq> [47] \<and> [46, 46] \<notin> set (segments 47 (ae_name e)) \<and> 92 \<notin> set (ae_name e)))"

lemma unzipLoop_bounds:
  "unzipLoop inflateRawSync bs n at acc = Inr es \<Longrightarrow> acc \<le> MAX_TOTAL_BYTES \<Longrightarrow> entriesOk n acc es"
proof (induction n arbitrary: at acc es)
  case 0
  then show ?case by (simp add: entriesOk_def)
next
  case (Suc n)
  from Suc.prems(1) have "(\<exists>at'. unzipLoop inflateRawSync bs n at' acc = Inr es) \<or>
      (\<exists>at' body name safe others clen declared off mtd.
        entryBody inflateRawSync bs mtd clen declared off acc = Inr body \<and> safeName name = Inr safe \<and>
        unzipLoop inflateRawSync bs n at' (acc + length body) = Inr others \<and> es = \<lparr>ae_name = safe, ae_body = body\<rparr> # others)"
    by (auto simp: result_simps Let_def split: if_splits)
  then show ?case
  proof (elim disjE exE conjE)
    fix at' assume "unzipLoop inflateRawSync bs n at' acc = Inr es"
    from Suc.IH [OF this Suc.prems(2)] show ?case by (simp add: entriesOk_def)
  next
    fix at' body name safe others clen declared off mtd
    assume b: "entryBody inflateRawSync bs mtd clen declared off acc = Inr body" and n: "safeName name = Inr safe"
      and l: "unzipLoop inflateRawSync bs n at' (acc + length body) = Inr others"
      and es: "es = \<lparr>ae_name = safe, ae_body = body\<rparr> # others"
    from Suc.IH [OF l entryBody_bound [OF b Suc.prems(2)]] safeName_safe [OF n] es
    show ?case by (simp add: entriesOk_def)
  qed
qed

lemma read_in_range:
  "at + 2 \<le> length bs \<Longrightarrow> readUInt16LE bs at \<noteq> Inl e" "at + 4 \<le> length bs \<Longrightarrow> readUInt32LE bs at \<noteq> Inl e"
  by (simp_all add: readUInt16LE_def readUInt32LE_def)

lemma inflateFailure_range: "inflateFailure e \<noteq> OutOfRange"
  by (cases e) auto

lemma endRecordFrom_range:
  "at + 22 \<le> length bs \<Longrightarrow> endRecordFrom bs at n \<noteq> Inl OutOfRange \<and> (\<forall>e. endRecordFrom bs at n = Inr e \<longrightarrow> e + 22 \<le> length bs)"
  by (induction bs at n rule: endRecordFrom.induct) (auto simp: result_simps read_in_range split: if_splits)

lemma findEndRecord_range:
  "findEndRecord bs \<noteq> Inl OutOfRange \<and> (\<forall>e. findEndRecord bs = Inr e \<longrightarrow> e + 22 \<le> length bs)"
  using endRecordFrom_range [of "length bs - 22" bs] by (auto simp: findEndRecord_def Let_def simp del: endRecordFrom.simps)

lemma entryBody_range: "entryBody inflateRawSync bs method clen declared off acc \<noteq> Inl OutOfRange"
  using inflateFailure_range
  by (auto simp: entryBody_def Let_def result_simps read_in_range split: sum.splits if_splits)

lemma unzipLoop_range: "unzipLoop inflateRawSync bs n at acc \<noteq> Inl OutOfRange"
proof (induction n arbitrary: at acc)
  case 0
  then show ?case by simp
next
  case (Suc n)
  have "safeName name \<noteq> Inl OutOfRange" for name by (simp add: safeName_def Let_def)
  with Suc entryBody_range show ?case
    by (auto simp: result_simps read_in_range Let_def split: if_splits)
qed

section \<open>Evaluation\<close>

text \<open>Rewriting a step only once its argument is a numeral keeps the evaluation linear.\<close>

lemma pow8: "(f ^^ 8) x = f (f (f (f (f (f (f (f x)))))))"
  by (simp add: eval_nat_numeral)

lemma crcStep_numeral:
  "crcStep (numeral n) =
     (if numeral n AND 1 \<noteq> (0 :: 32 word) then 0xEDB88320 XOR drop_bit 1 (numeral n) else drop_bit 1 (numeral n))"
  by (simp only: crcStep_def)

lemmas archive_eval = writeArchive_def localHeader_bytes centralRecord_bytes endRecord_bytes leBytes_2 leBytes_4
  ZIP64_END_def sublist_Cons_right crc32_code pow8 crcStep_numeral encodeUtf8_def scalar_def utf8One_def dosTime_def

lemma writeItems_contains:
  "writeItems its off = (locals, central, end) \<Longrightarrow> it \<in> set its \<Longrightarrow> sublist (it_stored it) locals"
proof (induction its arbitrary: off locals central "end")
  case Nil
  then show ?case by simp
next
  case (Cons x its)
  obtain time date where dt: "dosTime (it_at x) = (time, date)" by fastforce
  obtain ls cs e where w: "writeItems its (off + 30 + length (it_name x) + length (it_stored x)) = (ls, cs, e)"
    by (cases "writeItems its (off + 30 + length (it_name x) + length (it_stored x))") auto
  obtain h where locals: "locals = (h @ it_name x) @ it_stored x @ ls" using Cons.prems(1) dt w by (auto simp: Let_def)
  show ?case
  proof (cases "it = x")
    case True
    then show ?thesis unfolding locals by (simp only: sublist_appendI)
  next
    case False
    then have "sublist (it_stored it) ls" using Cons.IH [OF w] Cons.prems(2) by simp
    moreover have "sublist ls locals" unfolding locals using sublist_append_leftI [of ls "h @ it_name x @ it_stored x"] by simp
    ultimately show ?thesis by (rule sublist_order.order_trans)
  qed
qed

section \<open>Properties\<close>

text \<open>What the browser packs, the server reads. For entries that \<open>packStored\<close> accepts, whose
  names are text without a directory mark or an unsafe path, and an archive that does not happen
  to contain the Zip64 signature, \<open>unzip\<close> returns exactly the packed names and bodies in order.\<close>

theorem unzip_packStored:
  assumes "packStored now es = Inr bs" and "\<forall>e \<in> set es. goodName (se_name e)"
    and "\<not> sublist ZIP64_END bs"
  shows "unzip inflateRawSync bs = Inr (map (\<lambda>e. \<lparr>ae_name = se_name e, ae_body = se_body e\<rparr>) es)"
proof -
  have "length es \<le> MAX_ENTRIES" "sum_list (map (\<lambda>e. length (se_body e)) es) \<le> MAX_TOTAL_BYTES"
    using assms(1) by (auto simp: packStored_def MAX_STORED_ENTRIES_def MAX_STORED_BYTES_def MAX_ENTRIES_def
        MAX_TOTAL_BYTES_def split: if_splits)
  then show ?thesis
    using stored.unzip_written [of now es bs inflateRawSync] assms by (simp add: storedEntry_def)
qed

definition noteEntry :: "byte list \<Rightarrow> stored_entry" where
  "noteEntry body = \<lparr>se_name = [100, 47, 252], se_body = body,
     se_at = Some \<lparr>d_year = 2024, d_month = 5, d_day = 29, d_hours = 12, d_minutes = 30, d_seconds = 40\<rparr>\<rparr>"

definition noDate :: date where
  "noDate = \<lparr>d_year = 0, d_month = 0, d_day = 0, d_hours = 0, d_minutes = 0, d_seconds = 0\<rparr>"

theorem unzip_packStored_witness:
  "\<exists>bs. packStored noDate [noteEntry [1, 2]] = Inr bs \<and>
     unzip (\<lambda>b n. Inl OtherErr) bs = Inr [\<lparr>ae_name = [100, 47, 252], ae_body = [1, 2]\<rparr>]"
proof -
  obtain bs where bs: "packStored noDate [noteEntry [1, 2]] = Inr bs"
    by (simp add: packStored_def MAX_STORED_ENTRIES_def MAX_STORED_BYTES_def noteEntry_def)
  have "case packStored noDate [noteEntry [1, 2]] of Inr x \<Rightarrow> \<not> sublist ZIP64_END x | _ \<Rightarrow> False"
    by (simp add: packStored_def MAX_STORED_ENTRIES_def MAX_STORED_BYTES_def noteEntry_def storedItem_def archive_eval)
  then have "\<not> sublist ZIP64_END bs" by (simp add: bs)
  moreover have "goodName (se_name (noteEntry [1, 2]))" by (simp add: goodName_def archive_eval safeName_def noteEntry_def)
  ultimately show ?thesis
    using unzip_packStored [OF bs, of "\<lambda>b n. Inl OtherErr"] bs by (simp add: noteEntry_def)
qed

text \<open>C8: an export can be read back. With a codec that inflates what it deflated, entries whose
  names are safe text and whose number and size are within the reader's limits come back exactly
  from the archive \<open>zip\<close> writes, whether an entry was deflated or stored, unless the archive happens
  to contain the Zip64 signature.\<close>

theorem unzip_zip:
  assumes "codecLaw deflateRawSync inflateRawSync" and "zip_entries deflateRawSync es = Inr bs"
    and "\<forall>e \<in> set es. goodName (ze_name e)" and "length es \<le> MAX_ENTRIES"
    and "sum_list (map (\<lambda>e. length (ze_body e)) es) \<le> MAX_TOTAL_BYTES" and "\<not> sublist ZIP64_END bs"
  shows "unzip inflateRawSync bs = Inr (map (\<lambda>e. \<lparr>ae_name = ze_name e, ae_body = ze_body e\<rparr>) es)"
  using archive_writer.unzip_written [OF zip_writer [OF assms(1)] assms(2)] assms(3-) by (simp add: zippedEntry_def)

text \<open>A codec that compresses one buffer.\<close>

definition tinyDeflate :: "byte list \<Rightarrow> byte list" where
  "tinyDeflate b = (if b = [7, 7, 7] then [1] else 2 # b)"

definition tinyInflate :: inflate where
  "tinyInflate bs n =
     (case bs of [] \<Rightarrow> Inl OtherErr
      | c # b \<Rightarrow> (let out = (if c = 1 then [7, 7, 7] else b)
                  in if n < length out then Inl (RangeErr ''maxOutputLength'') else Inr out))"

definition sevens :: zip_entry where
  "sevens = \<lparr>ze_name = [97], ze_body = [7, 7, 7],
     ze_at = \<lparr>d_year = 2024, d_month = 5, d_day = 29, d_hours = 12, d_minutes = 30, d_seconds = 40\<rparr>\<rparr>"

theorem unzip_zip_witness:
  "\<exists>bs. zip_entries tinyDeflate [sevens] = Inr bs \<and> unzip tinyInflate bs = Inr [\<lparr>ae_name = [97], ae_body = [7, 7, 7]\<rparr>]"
proof -
  have codec: "codecLaw tinyDeflate tinyInflate"
    by (simp add: codecLaw_def tinyDeflate_def tinyInflate_def)
  have "case zip_entries tinyDeflate [sevens] of Inr x \<Rightarrow> \<not> sublist ZIP64_END x | _ \<Rightarrow> False"
    by (simp add: zip_entries_def MAX_ARCHIVE_BYTES_def sevens_def zipItem_def tinyDeflate_def archive_eval)
  then obtain bs where bs: "zip_entries tinyDeflate [sevens] = Inr bs" and "\<not> sublist ZIP64_END bs"
    by (auto split: sum.splits)
  moreover have "goodName (ze_name sevens)" by (simp add: goodName_def archive_eval safeName_def sevens_def)
  ultimately show ?thesis
    using unzip_zip [OF codec bs] by (simp add: sevens_def MAX_ENTRIES_def MAX_TOTAL_BYTES_def)
qed

text \<open>C9: an archive cannot exhaust or escape. Whatever the buffer and whatever the inflater
  returns, a successful read has at most 5000 entries, their bodies together have at most 512
  megabytes however little the directory declared, and no name is absolute, has a parent segment or
  a backslash; and a failed read is one of the reader's own errors, never a read outside the
  buffer.\<close>

theorem unzip_bounds:
  "unzip inflateRawSync bs \<noteq> Inl OutOfRange \<and>
   (case unzip inflateRawSync bs of Inl e \<Rightarrow> True | Inr es \<Rightarrow>
      length es \<le> MAX_ENTRIES \<and> sum_list (map (\<lambda>e. length (ae_body e)) es) \<le> MAX_TOTAL_BYTES \<and>
      list_all (\<lambda>e. take 1 (ae_name e) \<noteq> [47] \<and> [46, 46] \<notin> set (segments 47 (ae_name e)) \<and> 92 \<notin> set (ae_name e)) es)"
proof
  show "unzip inflateRawSync bs \<noteq> Inl OutOfRange"
    using findEndRecord_range [of bs] unzipLoop_range
    by (fastforce simp: unzip_def result_simps readUInt16LE_def readUInt32LE_def split: if_splits)
  show "case unzip inflateRawSync bs of Inl e \<Rightarrow> True | Inr es \<Rightarrow>
      length es \<le> MAX_ENTRIES \<and> sum_list (map (\<lambda>e. length (ae_body e)) es) \<le> MAX_TOTAL_BYTES \<and>
      list_all (\<lambda>e. take 1 (ae_name e) \<noteq> [47] \<and> [46, 46] \<notin> set (segments 47 (ae_name e)) \<and> 92 \<notin> set (ae_name e)) es"
  proof (cases "unzip inflateRawSync bs")
    case (Inr es)
    then obtain n at where "n \<le> MAX_ENTRIES" "unzipLoop inflateRawSync bs n at 0 = Inr es"
      by (auto simp: unzip_def result_simps not_less split: if_splits)
    then show ?thesis using unzipLoop_bounds [of inflateRawSync bs n at 0 es] Inr by (auto simp: entriesOk_def list_all_iff)
  qed simp
qed

text \<open>A stored file can make its own archive unreadable. If any packed file contains the four
  bytes of the Zip64 signature, for instance because it is itself such an archive, the reader
  refuses the archive as Zip64, which it is not.\<close>

theorem packStored_zip64_refused:
  assumes "packStored now es = Inr bs" and "e \<in> set es" and "sublist ZIP64_END (se_body e)"
  shows "unzip inflateRawSync bs = Inl Zip64Unsupported"
proof -
  have bs: "bs = writeArchive (map (storedItem now) es)" using assms(1) by (auto simp: packStored_def split: if_splits)
  obtain locals central where w: "writeItems (map (storedItem now) es) 0 = (locals, central, length locals)"
    and a: "bs = locals @ central @ endRecord (length (map (storedItem now) es)) (length central) (length locals)"
    using writeArchive_shape [of "map (storedItem now) es"] bs by metis
  have "sublist (it_stored (storedItem now e)) locals" using assms(2) by (intro writeItems_contains [OF w]) simp
  then have "sublist (se_body e) bs" unfolding a by (simp add: storedItem_def sublist_append)
  with assms(3) have "sublist ZIP64_END bs" by (rule sublist_order.order_trans)
  then show ?thesis unfolding bs by (rule unzip_zip64)
qed

theorem packStored_zip64_refused_witness:
  "\<exists>bs. packStored noDate [noteEntry [0x50, 0x4B, 0x06, 0x06]] = Inr bs \<and>
     unzip (\<lambda>b n. Inl OtherErr) bs = Inl Zip64Unsupported"
proof -
  obtain bs where bs: "packStored noDate [noteEntry [0x50, 0x4B, 0x06, 0x06]] = Inr bs"
    by (simp add: packStored_def MAX_STORED_ENTRIES_def MAX_STORED_BYTES_def noteEntry_def)
  then show ?thesis
    using packStored_zip64_refused [OF bs, of "noteEntry [0x50, 0x4B, 0x06, 0x06]"] by (simp add: noteEntry_def ZIP64_END_def)
qed

end
