(* ===== verification/Formula_Parse.thy ===== *)
theory Formula_Parse
  imports Sone_Prelude
begin

text \<open>
  \<^verbatim>\<open>packages/core/src/formula/parse.ts\<close>: the tokeniser, the recursive-descent parser with its bounds,
  the column names a formula uses and their binding to ids, and completion at the caret.

  Numbers are JavaScript's and their type is a parameter, with \<open>Number\<close> the reading of a numeral. The
  parser's closures share an index and the first failure; here both are passed along, the index as
  the tokens that are left. The recursion carries fuel: eight units per token and a few per level
  are enough, because between two tokens the parser descends through at most seven calls.
\<close>

section \<open>Expressions and tokens\<close>

datatype unary_op = Negate | NotOp

datatype binary_op = Plus | Minus | Times | Divide | Equal | NotEqual | Less | LessEq | Greater | GreaterEq | And | Or

datatype 'n expr =
    Number 'n
  | Text string
  | Boolean bool
  | Blank
  | Field string "string option"
  | Unary unary_op "'n expr"
  | Binary binary_op "'n expr" "'n expr"
  | Call string "'n expr list"

datatype parse_code = FormulaTooLong | FormulaTooDeep | UnexpectedEnd | UnexpectedToken | UnclosedBracket | UnclosedString

record parse_error =
  pe_code :: parse_code
  pe_at :: nat
  pe_found :: "string option"

definition parseErr :: "parse_code \<Rightarrow> nat \<Rightarrow> parse_error" where
  "parseErr c i = \<lparr>pe_code = c, pe_at = i, pe_found = None\<rparr>"

definition MAX_FORMULA :: nat where
  "MAX_FORMULA = 500"

definition MAX_DEPTH :: nat where
  "MAX_DEPTH = 32"

text \<open>Each function with the fewest and the most arguments.\<close>

definition FUNCTIONS :: "(string \<times> nat \<times> nat) list" where
  "FUNCTIONS =
     [(''if'', 3, 3), (''round'', 1, 2), (''abs'', 1, 1), (''min'', 1, 8), (''max'', 1, 8), (''concat'', 1, 8),
      (''length'', 1, 1), (''lower'', 1, 1), (''upper'', 1, 1), (''contains'', 2, 2), (''coalesce'', 2, 8),
      (''days'', 2, 2), (''today'', 0, 0), (''isblank'', 1, 1)]"

datatype 'n token =
    TNumber 'n nat
  | TString string nat
  | TName string nat
  | TField string nat
  | TOp string nat
  | TEnd nat

fun tokenAt :: "'n token \<Rightarrow> nat" where
  "tokenAt (TNumber v i) = i"
| "tokenAt (TString v i) = i"
| "tokenAt (TName v i) = i"
| "tokenAt (TField v i) = i"
| "tokenAt (TOp v i) = i"
| "tokenAt (TEnd i) = i"

definition OPERATORS :: "string list" where
  "OPERATORS = [''<='', ''>='', ''<>'', ''+'', ''-'', ''*'', ''/'', ''('', '')'', '','', ''='', ''<'', ''>'']"

section \<open>The tokeniser\<close>

definition isDigit :: "char \<Rightarrow> bool" where
  "isDigit c = (48 \<le> charCode c \<and> charCode c \<le> 57)"

text \<open>The Unicode classes \<open>L\<close> and \<open>N\<close> among the first 256 code units, with the underscore.\<close>

definition isNameStart :: "char \<Rightarrow> bool" where
  "isNameStart c =
     (let n = charCode c in
      65 \<le> n \<and> n \<le> 90 \<or> 97 \<le> n \<and> n \<le> 122 \<or> n = 95 \<or> n \<in> {170, 181, 186} \<or>
      192 \<le> n \<and> n \<le> 255 \<and> n \<noteq> 215 \<and> n \<noteq> 247)"

definition isNameChar :: "char \<Rightarrow> bool" where
  "isNameChar c = (isNameStart c \<or> isDigit c \<or> charCode c \<in> {178, 179, 185, 188, 189, 190})"

definition startsWith :: "string \<Rightarrow> string \<Rightarrow> bool" where
  "startsWith text s = (take (length s) text = s)"

text \<open>The longest match of digits, an optional point and digits.\<close>

definition digitFirst :: "string \<Rightarrow> bool" where
  "digitFirst cs = (case cs of [] \<Rightarrow> False | c # _ \<Rightarrow> isDigit c)"

definition pointDigit :: "string \<Rightarrow> bool" where
  "pointDigit cs = (case cs of [] \<Rightarrow> False | c # rest \<Rightarrow> c = CHR ''.'' \<and> digitFirst rest)"

definition startsNumber :: "string \<Rightarrow> bool" where
  "startsNumber cs = (digitFirst cs \<or> pointDigit cs)"

definition numberMatch :: "string \<Rightarrow> string" where
  "numberMatch cs =
     (let whole = takeWhile isDigit cs; tail = dropWhile isDigit cs
      in if pointDigit tail then whole @ CHR ''.'' # takeWhile isDigit (tl tail) else whole)"

lemma numberMatch_pos: "startsNumber cs \<Longrightarrow> 0 < length (numberMatch cs)"
  by (cases cs) (auto simp: startsNumber_def numberMatch_def pointDigit_def digitFirst_def Let_def)

lemma OPERATORS_pos: "op \<in> set OPERATORS \<Longrightarrow> 0 < length op"
  by (auto simp: OPERATORS_def)

lemma find_in_set: "find P xs = Some x \<Longrightarrow> x \<in> set xs \<and> P x"
  by (induction xs) (auto split: if_splits)

function tokenise :: "(string \<Rightarrow> 'n) \<Rightarrow> nat \<Rightarrow> string \<Rightarrow> parse_error + 'n token list" where
  "tokenise readNumber i [] = Inr [TEnd i]"
| "tokenise readNumber i (c # cs) =
     (if isSpace c then tokenise readNumber (i + 1) cs
      else if startsNumber (c # cs) then
        let s = numberMatch (c # cs)
        in rmap (\<lambda>ts. TNumber (readNumber s) i # ts) (tokenise readNumber (i + length s) (drop (length s) (c # cs)))
      else if c = CHR 0x22 then
        (if CHR 0x22 \<notin> set cs then Inl (parseErr UnclosedString i)
         else let s = takeWhile (\<lambda>x. x \<noteq> CHR 0x22) cs
              in rmap (\<lambda>ts. TString s i # ts) (tokenise readNumber (i + length s + 2) (drop (length s + 1) cs)))
      else if c = CHR ''['' then
        (if CHR '']'' \<notin> set cs then Inl (parseErr UnclosedBracket i)
         else let s = takeWhile (\<lambda>x. x \<noteq> CHR '']'') cs
              in rmap (\<lambda>ts. TField (trim s) i # ts) (tokenise readNumber (i + length s + 2) (drop (length s + 1) cs)))
      else if isNameStart c then
        let s = takeWhile isNameChar (c # cs)
        in rmap (\<lambda>ts. TName s i # ts) (tokenise readNumber (i + length s) (drop (length s) (c # cs)))
      else
        case find (startsWith (c # cs)) OPERATORS of
          Some op \<Rightarrow> rmap (\<lambda>ts. TOp op i # ts) (tokenise readNumber (i + length op) (drop (length op) (c # cs)))
        | None \<Rightarrow> Inl \<lparr>pe_code = UnexpectedToken, pe_at = i, pe_found = Some [c]\<rparr>)"
  by pat_completeness auto
termination
proof (relation "measure (\<lambda>(_, _, cs). length cs)")
  fix c cs s
  assume "startsNumber (c # cs)" and "s = numberMatch (c # cs)"
  then show "((readNumber, i + length s, drop (length s) (c # cs)), readNumber, i, c # cs) \<in> measure (\<lambda>(_, _, cs). length cs)"
    for readNumber :: "string \<Rightarrow> 'n" and i
    using numberMatch_pos [of "c # cs"] by auto
next
  fix c cs s
  assume "isNameStart c" and "s = takeWhile isNameChar (c # cs)"
  then show "((readNumber, i + length s, drop (length s) (c # cs)), readNumber, i, c # cs) \<in> measure (\<lambda>(_, _, cs). length cs)"
    for readNumber :: "string \<Rightarrow> 'n" and i
    by (auto simp: isNameChar_def)
next
  fix c cs op
  assume "find (startsWith (c # cs)) OPERATORS = Some op"
  then show "((readNumber, i + length op, drop (length op) (c # cs)), readNumber, i, c # cs) \<in> measure (\<lambda>(_, _, cs). length cs)"
    for readNumber :: "string \<Rightarrow> 'n" and i
    using OPERATORS_pos find_in_set by fastforce
qed auto

section \<open>The grammar\<close>

text \<open>What the closures share: the tokens from the index on, and the first failure.\<close>

type_synonym 'n parse_state = "'n token list \<times> parse_error option"

definition peek :: "nat \<Rightarrow> 'n parse_state \<Rightarrow> 'n token" where
  "peek textLen st = (case fst st of [] \<Rightarrow> TEnd textLen | t # _ \<Rightarrow> t)"

definition advance :: "'n parse_state \<Rightarrow> 'n parse_state" where
  "advance st = (tl (fst st), snd st)"

fun isOpTok :: "string \<Rightarrow> 'n token \<Rightarrow> bool" where
  "isOpTok v (TOp w _) = (w = v)"
| "isOpTok v _ = False"

definition isOp :: "nat \<Rightarrow> string \<Rightarrow> 'n parse_state \<Rightarrow> bool" where
  "isOp textLen v st = isOpTok v (peek textLen st)"

text \<open>\<open>failure ??= error\<close>, and the blank expression in place of a result.\<close>

definition fail :: "parse_error \<Rightarrow> 'n parse_state \<Rightarrow> 'n expr \<times> 'n parse_state" where
  "fail e st = (Blank, fst st, (case snd st of None \<Rightarrow> Some e | Some f \<Rightarrow> Some f))"

text \<open>The operators of the five binary levels, lowest precedence first: the first two are words.\<close>

definition levelOps :: "nat \<Rightarrow> (string \<times> binary_op) list" where
  "levelOps l =
     (if l = 0 then [(''or'', Or)] else if l = 1 then [(''and'', And)]
      else if l = 2 then [(''='', Equal), (''<>'', NotEqual), (''<'', Less), (''<='', LessEq), (''>'', Greater), (''>='', GreaterEq)]
      else if l = 3 then [(''+'', Plus), (''-'', Minus)]
      else [(''*'', Times), (''/'', Divide)])"

definition matchOp :: "nat \<Rightarrow> 'n token \<Rightarrow> binary_op option" where
  "matchOp l t =
     (case t of
        TName v _ \<Rightarrow> if l < 2 then map_of (levelOps l) (toLowerCase v) else None
      | TOp v _ \<Rightarrow> if l < 2 then None else map_of (levelOps l) v
      | _ \<Rightarrow> None)"

fun tokenText :: "('n \<Rightarrow> string) \<Rightarrow> 'n token \<Rightarrow> string" where
  "tokenText showNumber (TNumber v _) = showNumber v"
| "tokenText showNumber (TString v _) = v"
| "tokenText showNumber (TName v _) = v"
| "tokenText showNumber (TField v _) = v"
| "tokenText showNumber (TOp v _) = v"
| "tokenText showNumber (TEnd _) = []"

text \<open>\<open>binaryLevel l\<close> is \<open>expression\<close>, \<open>conjunction\<close>, \<open>comparison\<close>, \<open>sum\<close> and \<open>product\<close> for \<open>l\<close> from 0
  to 4, each of them a call of \<open>binary\<close>; \<open>depth\<close> counts the calls of \<open>primary\<close> that are open.\<close>

function binaryLevel :: "nat \<Rightarrow> nat \<Rightarrow> ('n \<Rightarrow> string) \<Rightarrow> nat \<Rightarrow> nat \<Rightarrow> 'n parse_state \<Rightarrow> ('n expr \<times> 'n parse_state) option"
  and binaryLoop :: "nat \<Rightarrow> nat \<Rightarrow> ('n \<Rightarrow> string) \<Rightarrow> nat \<Rightarrow> nat \<Rightarrow> 'n expr \<Rightarrow> 'n parse_state \<Rightarrow> ('n expr \<times> 'n parse_state) option"
  and primary :: "nat \<Rightarrow> nat \<Rightarrow> ('n \<Rightarrow> string) \<Rightarrow> nat \<Rightarrow> 'n parse_state \<Rightarrow> ('n expr \<times> 'n parse_state) option"
  and callArgs :: "nat \<Rightarrow> nat \<Rightarrow> ('n \<Rightarrow> string) \<Rightarrow> nat \<Rightarrow> 'n parse_state \<Rightarrow> ('n expr list \<times> 'n parse_state) option"
where
  "binaryLevel 0 textLen sh l depth st = None"
| "binaryLevel (Suc n) textLen sh l depth st =
     (case (if l < 4 then binaryLevel n textLen sh (Suc l) depth st else primary n textLen sh depth st) of
        None \<Rightarrow> None
      | Some (left, st') \<Rightarrow> binaryLoop n textLen sh l depth left st')"
| "binaryLoop 0 textLen sh l depth left st = None"
| "binaryLoop (Suc n) textLen sh l depth left st =
     (case matchOp l (peek textLen st) of
        None \<Rightarrow> Some (left, st)
      | Some op \<Rightarrow>
          (case (if l < 4 then binaryLevel n textLen sh (Suc l) depth (advance st) else primary n textLen sh depth (advance st)) of
             None \<Rightarrow> None
           | Some (right, st') \<Rightarrow> binaryLoop n textLen sh l depth (Binary op left right) st'))"
| "primary 0 textLen sh depth st = None"
| "primary (Suc n) textLen sh depth st =
     (if snd st \<noteq> None then Some (Blank, st)
      else if MAX_DEPTH < depth + 1 then Some (fail (parseErr FormulaTooDeep (tokenAt (peek textLen st))) st)
      else
        case peek textLen st of
          TNumber v i \<Rightarrow> Some (Number v, advance st)
        | TString v i \<Rightarrow> Some (Text v, advance st)
        | TField v i \<Rightarrow> Some (Field v None, advance st)
        | TName v i \<Rightarrow>
            (let lower = toLowerCase v in
             if lower = ''true'' \<or> lower = ''false'' then Some (Boolean (lower = ''true''), advance st)
             else if lower = ''not'' then
               map_option (\<lambda>(e, st'). (Unary NotOp e, st')) (primary n textLen sh (depth + 1) (advance st))
             else
               let st1 = advance st in
               if isOp textLen ''('' st1 then
                 (case (if isOp textLen '')'' (advance st1) then Some ([], advance st1)
                        else callArgs n textLen sh (depth + 1) (advance st1)) of
                    None \<Rightarrow> None
                  | Some (args, st2) \<Rightarrow>
                      if \<not> isOp textLen '')'' st2 then Some (fail (parseErr UnclosedBracket i) st2)
                      else Some (Call lower args, advance st2))
               else Some (Field v None, st1))
        | TOp v i \<Rightarrow>
            if v = ''('' then
              (case binaryLevel n textLen sh 0 (depth + 1) (advance st) of
                 None \<Rightarrow> None
               | Some (inner, st') \<Rightarrow>
                   if \<not> isOp textLen '')'' st' then Some (fail (parseErr UnclosedBracket i) st')
                   else Some (inner, advance st'))
            else if v = ''-'' then
              map_option (\<lambda>(e, st'). (Unary Negate e, st')) (primary n textLen sh (depth + 1) (advance st))
            else Some (fail \<lparr>pe_code = UnexpectedToken, pe_at = i, pe_found = Some v\<rparr> st)
        | TEnd i \<Rightarrow> Some (fail (parseErr UnexpectedEnd i) st))"
| "callArgs 0 textLen sh depth st = None"
| "callArgs (Suc n) textLen sh depth st =
     (case binaryLevel n textLen sh 0 depth st of
        None \<Rightarrow> None
      | Some (e, st') \<Rightarrow>
          if isOp textLen '','' st'
          then map_option (\<lambda>(es, st''). (e # es, st'')) (callArgs n textLen sh depth (advance st'))
          else Some ([e], st'))"
  by pat_completeness auto
termination
  by (relation "measure (\<lambda>x. case x of Inl (Inl (n, _)) \<Rightarrow> n | Inl (Inr (n, _)) \<Rightarrow> n | Inr (Inl (n, _)) \<Rightarrow> n | Inr (Inr (n, _)) \<Rightarrow> n)")
    simp_all

definition parseTokens :: "nat \<Rightarrow> ('n \<Rightarrow> string) \<Rightarrow> 'n token list \<Rightarrow> (parse_error + 'n expr) option" where
  "parseTokens textLen sh tokens =
     map_option (\<lambda>(e, st).
       case snd st of
         Some f \<Rightarrow> Inl f
       | None \<Rightarrow>
           (case peek textLen st of
              TEnd _ \<Rightarrow> Inr e
            | t \<Rightarrow> Inl \<lparr>pe_code = UnexpectedToken, pe_at = tokenAt t, pe_found = Some (tokenText sh t)\<rparr>))
       (binaryLevel (8 * length tokens + 7) textLen sh 0 0 (tokens, None))"

definition parseFormula :: "(string \<Rightarrow> 'n) \<Rightarrow> ('n \<Rightarrow> string) \<Rightarrow> string \<Rightarrow> (parse_error + 'n expr) option" where
  "parseFormula readNumber sh text =
     (if MAX_FORMULA < length text then Some (Inl (parseErr FormulaTooLong MAX_FORMULA))
      else case tokenise readNumber 0 text of
             Inl e \<Rightarrow> Some (Inl e)
           | Inr tokens \<Rightarrow> parseTokens (length text) sh tokens)"

section \<open>Columns\<close>

text \<open>\<open>fieldsUsed\<close> collects into a set, which keeps the order of first insertion.\<close>

definition setAdd :: "'a \<Rightarrow> 'a list \<Rightarrow> 'a list" where
  "setAdd x xs = (if x \<in> set xs then xs else xs @ [x])"

fun fieldsWalk :: "'n expr \<Rightarrow> string list \<Rightarrow> string list" where
  "fieldsWalk (Field name _) found = setAdd name found"
| "fieldsWalk (Unary _ e) found = fieldsWalk e found"
| "fieldsWalk (Binary _ l r) found = fieldsWalk r (fieldsWalk l found)"
| "fieldsWalk (Call _ args) found = fold fieldsWalk args found"
| "fieldsWalk (Number _) found = found"
| "fieldsWalk (Text _) found = found"
| "fieldsWalk (Boolean _) found = found"
| "fieldsWalk Blank found = found"

definition fieldsUsed :: "'n expr \<Rightarrow> string list" where
  "fieldsUsed e = fieldsWalk e []"

text \<open>An id that is the empty string is false in JavaScript and leaves the column unbound.\<close>

fun bindFormula :: "'n expr \<Rightarrow> (string \<Rightarrow> string option) \<Rightarrow> 'n expr" where
  "bindFormula (Field name fid) idOf =
     (case idOf name of None \<Rightarrow> Field name fid | Some i \<Rightarrow> if i = [] then Field name fid else Field name (Some i))"
| "bindFormula (Unary op e) idOf = Unary op (bindFormula e idOf)"
| "bindFormula (Binary op l r) idOf = Binary op (bindFormula l idOf) (bindFormula r idOf)"
| "bindFormula (Call name args) idOf = Call name (map (\<lambda>a. bindFormula a idOf) args)"
| "bindFormula (Number v) idOf = Number v"
| "bindFormula (Text v) idOf = Text v"
| "bindFormula (Boolean b) idOf = Boolean b"
| "bindFormula Blank idOf = Blank"

section \<open>Completion\<close>

text \<open>The expression matches a name that ends at the caret: the longest run of name characters before
  it, from the first one that can start a name.\<close>

definition wordBefore :: "string \<Rightarrow> string" where
  "wordBefore prev = dropWhile (\<lambda>c. \<not> isNameStart c) (rev (takeWhile isNameChar (rev prev)))"

datatype completion_kind = Column | FunctionName

definition completions :: "string \<Rightarrow> nat \<Rightarrow> string list \<Rightarrow> (string \<times> completion_kind) list" where
  "completions text caret columns =
     (let word = wordBefore (take caret text); lower = toLowerCase word
      in if word = [] then []
         else take 8 (map (\<lambda>n. (n, Column)) (filter (\<lambda>n. startsWith (toLowerCase n) lower) columns) @
                      map (\<lambda>n. (n, FunctionName)) (filter (\<lambda>n. startsWith n lower) (map fst FUNCTIONS))))"

definition applyCompletion :: "string \<Rightarrow> nat \<Rightarrow> string \<Rightarrow> completion_kind \<Rightarrow> string \<times> nat" where
  "applyCompletion text caret v kind =
     (let word = wordBefore (take caret text);
          start = caret - length word;
          inserted = (case kind of FunctionName \<Rightarrow> v @ ''(''
                      | Column \<Rightarrow> if \<exists>c \<in> set v. isSpace c then ''['' @ v @ '']'' else v)
      in (take start text @ inserted @ drop caret text, start + length inserted))"

end
