(* ===== verification/Formula_Grammar.thy ===== *)
theory Formula_Grammar
  imports Formula_Parse
begin

text \<open>
  The parser always answers, and it reads back what the grammar says: printing an expression with
  brackets only where the precedence table asks for them, and with every operator associating to the
  left, is inverted by the parser.
\<close>

section \<open>The fuel is enough\<close>

lemma advance_length: "length (fst (advance st)) \<le> length (fst st)"
  by (simp add: advance_def)

lemma matched_nonempty: "matchOp l (peek textLen st) = Some op \<Longrightarrow> fst st \<noteq> []"
  by (auto simp: matchOp_def peek_def)

lemma isOp_nonempty: "isOp textLen v st \<Longrightarrow> fst st \<noteq> []"
  by (auto simp: isOp_def peek_def)

lemma peek_nonempty: "peek textLen st \<noteq> TEnd textLen \<Longrightarrow> fst st \<noteq> []"
  by (auto simp: peek_def)

lemma advance_less: "fst st \<noteq> [] \<Longrightarrow> Suc (length (fst (advance st))) = length (fst st)"
  by (simp add: advance_def)

text \<open>A call returns, with no more tokens left than it was given.\<close>

definition answers :: "('a \<times> 'n parse_state) option \<Rightarrow> 'n parse_state \<Rightarrow> bool" where
  "answers r st = (\<exists>e st'. r = Some (e, st') \<and> length (fst st') \<le> length (fst st))"

lemma answersI: "r = Some (e, st') \<Longrightarrow> length (fst st') \<le> length (fst st) \<Longrightarrow> answers r st"
  by (auto simp: answers_def)

lemma answers_trans: "answers r st' \<Longrightarrow> length (fst st') \<le> length (fst st) \<Longrightarrow> answers r st"
  by (auto simp: answers_def)

lemma answers_map: "answers r st \<Longrightarrow> answers (map_option (\<lambda>(e, st'). (f e, st')) r) st"
  by (auto simp: answers_def)

lemma answers_fail [simp]: "answers (Some (fail e st)) st"
  by (simp add: answers_def fail_def)

lemma answers_advance [simp]: "answers (Some (e, advance st)) st"
  by (simp add: answers_def advance_length)

lemma answers_here [simp]: "answers (Some (e, st)) st"
  by (simp add: answers_def)

text \<open>One unfolding of each function answers if its calls with one unit less do.\<close>

lemma loop_answers:
  assumes "\<And>st'. length (fst st') < length (fst st) \<Longrightarrow>
      answers (if l < 4 then binaryLevel n textLen sh (Suc l) depth st' else primary n textLen sh depth st') st'"
    and "\<And>e st'. length (fst st') < length (fst st) \<Longrightarrow> answers (binaryLoop n textLen sh l depth e st') st'"
  shows "answers (binaryLoop (Suc n) textLen sh l depth left st) st"
proof (cases "matchOp l (peek textLen st)")
  case None
  then show ?thesis by simp
next
  case (Some op)
  then have less: "length (fst (advance st)) < length (fst st)" using advance_less matched_nonempty by (metis lessI)
  then obtain right st' where r: "(if l < 4 then binaryLevel n textLen sh (Suc l) depth (advance st)
      else primary n textLen sh depth (advance st)) = Some (right, st')" and le: "length (fst st') \<le> length (fst (advance st))"
    using assms(1) [OF less] unfolding answers_def by blast
  with less have "answers (binaryLoop n textLen sh l depth (Binary op left right) st') st'" by (intro assms(2)) simp
  with le less have "answers (binaryLoop n textLen sh l depth (Binary op left right) st') st" by (auto intro: answers_trans)
  with Some r show ?thesis by simp
qed

lemma level_answers:
  assumes "answers (if l < 4 then binaryLevel n textLen sh (Suc l) depth st else primary n textLen sh depth st) st"
    and "\<And>e st'. length (fst st') \<le> length (fst st) \<Longrightarrow> answers (binaryLoop n textLen sh l depth e st') st'"
  shows "answers (binaryLevel (Suc n) textLen sh l depth st) st"
proof -
  obtain left st' where "(if l < 4 then binaryLevel n textLen sh (Suc l) depth st else primary n textLen sh depth st) = Some (left, st')"
    and le: "length (fst st') \<le> length (fst st)"
    using assms(1) by (auto simp: answers_def)
  with assms(2) [OF le, of left] show ?thesis by (auto intro: answers_trans)
qed

lemma args_answers:
  assumes "answers (binaryLevel n textLen sh 0 depth st) st"
    and "\<And>st'. length (fst st') < length (fst st) \<Longrightarrow> answers (callArgs n textLen sh depth st') st'"
  shows "answers (callArgs (Suc n) textLen sh depth st) st"
proof -
  obtain e st' where e: "binaryLevel n textLen sh 0 depth st = Some (e, st')" and le: "length (fst st') \<le> length (fst st)"
    using assms(1) by (auto simp: answers_def)
  show ?thesis
  proof (cases "isOp textLen '','' st'")
    case True
    then have less: "Suc (length (fst (advance st'))) = length (fst st')" using isOp_nonempty advance_less by blast
    with le have "answers (callArgs n textLen sh depth (advance st')) (advance st')" by (intro assms(2)) simp
    with less le have "answers (callArgs n textLen sh depth (advance st')) st" by (auto intro: answers_trans)
    then have "answers (map_option (\<lambda>(es, st''). (e # es, st'')) (callArgs n textLen sh depth (advance st'))) st" by (rule answers_map)
    with True e show ?thesis by simp
  next
    case False
    with e le show ?thesis by (auto simp: answers_def)
  qed
qed

lemma bracket_answers:
  assumes "answers r st'" and "length (fst st') \<le> length (fst st)"
  shows "answers (case r of None \<Rightarrow> None | Some (inner, st'') \<Rightarrow>
      if \<not> isOp textLen '')'' st'' then Some (fail err st'') else Some (f inner, advance st'')) st"
proof -
  obtain inner st'' where r: "r = Some (inner, st'')" and le: "length (fst st'') \<le> length (fst st)"
    using assms by (auto simp: answers_def)
  have "answers (Some (fail err st'')) st" by (rule answers_trans [OF answers_fail le])
  moreover have "answers (Some (f inner, advance st'')) st" using le by (rule answers_trans [OF answers_advance])
  ultimately show ?thesis by (simp add: r)
qed

lemma primary_answers:
  assumes prim: "\<And>st'. length (fst st') < length (fst st) \<Longrightarrow> answers (primary n textLen sh (depth + 1) st') st'"
    and level: "\<And>st'. length (fst st') < length (fst st) \<Longrightarrow> answers (binaryLevel n textLen sh 0 (depth + 1) st') st'"
    and args: "\<And>st'. Suc (length (fst st')) < length (fst st) \<Longrightarrow> answers (callArgs n textLen sh (depth + 1) st') st'"
  shows "answers (primary (Suc n) textLen sh depth st) st"
proof (cases "snd st \<noteq> None \<or> MAX_DEPTH < depth + 1")
  case True
  then show ?thesis by auto
next
  case False
  then have ok: "snd st = None" "\<not> MAX_DEPTH < depth + 1" by auto
  have less: "length (fst (advance st)) < length (fst st)" if "peek textLen st \<noteq> TEnd textLen"
    using advance_less [OF peek_nonempty [OF that]] by simp
  have un: "answers (map_option (\<lambda>(e, st'). (Unary u e, st')) (primary n textLen sh (depth + 1) (advance st))) st"
    if "peek textLen st \<noteq> TEnd textLen" for u
    using prim [OF less [OF that]] less [OF that] by (intro answers_map) (auto intro: answers_trans)
  show ?thesis
  proof (cases "peek textLen st")
    case (TName v i)
    let ?st1 = "advance st"
    have l1: "length (fst ?st1) < length (fst st)" using less TName by simp
    have call: "answers (case (if isOp textLen '')'' (advance ?st1) then Some ([], advance ?st1)
          else callArgs n textLen sh (depth + 1) (advance ?st1)) of None \<Rightarrow> None | Some (as, st2) \<Rightarrow>
          if \<not> isOp textLen '')'' st2 then Some (fail (parseErr UnclosedBracket i) st2) else Some (Call (toLowerCase v) as, advance st2)) st"
      if "isOp textLen ''('' ?st1"
    proof (rule bracket_answers)
      have "Suc (length (fst (advance ?st1))) < length (fst st)" using advance_less [OF isOp_nonempty [OF that]] l1 by simp
      then show "answers (if isOp textLen '')'' (advance ?st1) then Some ([], advance ?st1)
          else callArgs n textLen sh (depth + 1) (advance ?st1)) (advance ?st1)" using args by auto
    qed (use advance_length [of ?st1] l1 in simp)
    then show ?thesis using ok TName un by (simp add: Let_def)
  next
    case (TOp v i)
    have "length (fst (advance st)) \<le> length (fst st)" by (rule advance_length)
    with bracket_answers [OF level [OF less], where f = "\<lambda>x. x"] ok TOp un show ?thesis by auto
  qed (use ok in simp_all)
qed

lemma parser_answers:
  "(\<forall>l depth st. l \<le> 4 \<longrightarrow> 8 * length (fst st) + 7 - l \<le> n \<longrightarrow> answers (binaryLevel n textLen sh l depth st) st) \<and>
   (\<forall>l depth e st. l \<le> 4 \<longrightarrow> 8 * length (fst st) + 1 \<le> n \<longrightarrow> answers (binaryLoop n textLen sh l depth e st) st) \<and>
   (\<forall>depth st. 8 * length (fst st) + 2 \<le> n \<longrightarrow> answers (primary n textLen sh depth st) st) \<and>
   (\<forall>depth st. 8 * length (fst st) + 8 \<le> n \<longrightarrow> answers (callArgs n textLen sh depth st) st)"
proof (induction n)
  case 0
  then show ?case by auto
next
  case (Suc n)
  then have L: "l \<le> 4 \<Longrightarrow> 8 * length (fst st) + 7 - l \<le> n \<Longrightarrow> answers (binaryLevel n textLen sh l depth st) st"
    and B: "l \<le> 4 \<Longrightarrow> 8 * length (fst st) + 1 \<le> n \<Longrightarrow> answers (binaryLoop n textLen sh l depth e st) st"
    and P: "8 * length (fst st) + 2 \<le> n \<Longrightarrow> answers (primary n textLen sh depth st) st"
    and A: "8 * length (fst st) + 8 \<le> n \<Longrightarrow> answers (callArgs n textLen sh depth st) st" for l depth e st
    by blast+
  have "answers (binaryLevel (Suc n) textLen sh l depth st) st" if "l \<le> 4" "8 * length (fst st) + 7 - l \<le> Suc n" for l depth st
    using that by (intro level_answers) (auto intro!: L B P)
  moreover have "answers (binaryLoop (Suc n) textLen sh l depth e st) st" if "l \<le> 4" "8 * length (fst st) + 1 \<le> Suc n" for l depth e st
    using that by (intro loop_answers) (auto intro!: L B P)
  moreover have "answers (primary (Suc n) textLen sh depth st) st" if "8 * length (fst st) + 2 \<le> Suc n" for depth st
    using that by (intro primary_answers) (auto intro!: L A P)
  moreover have "answers (callArgs (Suc n) textLen sh depth st) st" if "8 * length (fst st) + 8 \<le> Suc n" for depth st
    using that by (intro args_answers) (auto intro!: L A)
  ultimately show ?case by blast
qed

section \<open>Printing with the precedence table\<close>

fun opLevel :: "binary_op \<Rightarrow> nat" where
  "opLevel Or = 0"
| "opLevel And = 1"
| "opLevel Plus = 3"
| "opLevel Minus = 3"
| "opLevel Times = 4"
| "opLevel Divide = 4"
| "opLevel _ = 2"

fun opToken :: "binary_op \<Rightarrow> 'n token" where
  "opToken Or = TName ''or'' 0"
| "opToken And = TName ''and'' 0"
| "opToken Plus = TOp ''+'' 0"
| "opToken Minus = TOp ''-'' 0"
| "opToken Times = TOp ''*'' 0"
| "opToken Divide = TOp ''/'' 0"
| "opToken Equal = TOp ''='' 0"
| "opToken NotEqual = TOp ''<>'' 0"
| "opToken Less = TOp ''<'' 0"
| "opToken LessEq = TOp ''<='' 0"
| "opToken Greater = TOp ''>'' 0"
| "opToken GreaterEq = TOp ''>='' 0"

fun prec :: "'n expr \<Rightarrow> nat" where
  "prec (Binary op _ _) = opLevel op"
| "prec _ = 5"

definition bracket :: "nat \<Rightarrow> 'n expr \<Rightarrow> 'n token list \<Rightarrow> 'n token list" where
  "bracket l e ts = (if prec e < l then TOp ''('' 0 # ts @ [TOp '')'' 0] else ts)"

fun commaSep :: "'n token list list \<Rightarrow> 'n token list" where
  "commaSep [] = []"
| "commaSep [ts] = ts"
| "commaSep (ts # us # rest) = ts @ TOp '','' 0 # commaSep (us # rest)"

text \<open>Brackets only around an operand that binds more loosely; operators associate to the left.\<close>

fun printTokens :: "'n expr \<Rightarrow> 'n token list" where
  "printTokens (Number v) = [TNumber v 0]"
| "printTokens (Text v) = [TString v 0]"
| "printTokens (Boolean b) = [TName (if b then ''true'' else ''false'') 0]"
| "printTokens Blank = []"
| "printTokens (Field name _) = [TField name 0]"
| "printTokens (Unary op e) = (if op = Negate then TOp ''-'' 0 else TName ''not'' 0) # bracket 5 e (printTokens e)"
| "printTokens (Binary op a b) =
     bracket (opLevel op) a (printTokens a) @ opToken op # bracket (Suc (opLevel op)) b (printTokens b)"
| "printTokens (Call f args) = TName f 0 # TOp ''('' 0 # commaSep (map printTokens args) @ [TOp '')'' 0]"

text \<open>How many calls of \<open>primary\<close> are open at once while an expression is read.\<close>

fun nesting :: "'n expr \<Rightarrow> nat" where
  "nesting (Unary op e) = Suc (if prec e < 5 then Suc (nesting e) else nesting e)"
| "nesting (Binary op a b) =
     max (if prec a < opLevel op then Suc (nesting a) else nesting a)
         (if prec b < Suc (opLevel op) then Suc (nesting b) else nesting b)"
| "nesting (Call f args) = Suc (fold max (map nesting args) 0)"
| "nesting _ = 1"

definition nestingAt :: "nat \<Rightarrow> 'n expr \<Rightarrow> nat" where
  "nestingAt l e = (if prec e < l then Suc (nesting e) else nesting e)"

text \<open>What the grammar can write: no blank, no bound column, and calls of lower-case names that are
  not words of the language.\<close>

fun printable :: "'n expr \<Rightarrow> bool" where
  "printable Blank = False"
| "printable (Field name fid) = (fid = None)"
| "printable (Unary op e) = printable e"
| "printable (Binary op a b) = (printable a \<and> printable b)"
| "printable (Call f args) = (toLowerCase f = f \<and> f \<notin> {''true'', ''false'', ''not''} \<and> list_all printable args)"
| "printable _ = True"

lemma toLowerCase_words [simp]:
  "toLowerCase ''or'' = ''or''" "toLowerCase ''and'' = ''and''" "toLowerCase ''not'' = ''not''"
  "toLowerCase ''true'' = ''true''" "toLowerCase ''false'' = ''false''"
  by code_simp+

lemma matchOp_opToken: "k \<le> 4 \<Longrightarrow> matchOp k (opToken op) = (if k = opLevel op then Some op else None)"
proof -
  assume "k \<le> 4"
  then have "k = 0 \<or> k = 1 \<or> k = 2 \<or> k = 3 \<or> k = 4" by auto
  then show ?thesis by (cases op) (auto simp: matchOp_def levelOps_def)
qed

lemma matchOp_bracket [simp]: "matchOp k (TOp '')'' i) = None" "matchOp k (TOp '','' i) = None" "matchOp k (TEnd i) = None"
  by (auto simp: matchOp_def levelOps_def)

lemma peek_Cons [simp]: "peek textLen (t # ts, f) = t"
  by (simp add: peek_def)

lemma advance_Cons [simp]: "advance (t # ts, f) = (ts, f)"
  by (simp add: advance_def)

lemma isOp_Cons [simp]: "isOp textLen v (TOp w i # ts, f) = (w = v)"
  by (simp add: isOp_def)

lemma opLevel_le: "opLevel op \<le> 4"
  by (cases op) auto

section \<open>Reading back\<close>

definition clearAbove :: "nat \<Rightarrow> nat \<Rightarrow> 'n token list \<Rightarrow> bool" where
  "clearAbove textLen l ts = (\<forall>k. l < k \<and> k \<le> 4 \<longrightarrow> matchOp k (peek textLen (ts, None)) = None)"

text \<open>A level reads a printed operand and goes on as its loop would; \<open>primary\<close> reads it exactly.\<close>

definition okLevel :: "nat \<Rightarrow> ('n \<Rightarrow> string) \<Rightarrow> 'n expr \<Rightarrow> nat \<Rightarrow> bool" where
  "okLevel textLen sh e l =
     (\<forall>n d ts r. clearAbove textLen l ts \<longrightarrow>
        8 * length (bracket l e (printTokens e) @ ts) + 7 - l \<le> n \<longrightarrow> d + nestingAt l e \<le> MAX_DEPTH \<longrightarrow>
        (\<forall>m \<ge> 8 * length ts + 1. binaryLoop m textLen sh l d e (ts, None) = Some r) \<longrightarrow>
        binaryLevel n textLen sh l d (bracket l e (printTokens e) @ ts, None) = Some r)"

definition okPrimary :: "nat \<Rightarrow> ('n \<Rightarrow> string) \<Rightarrow> 'n expr \<Rightarrow> bool" where
  "okPrimary textLen sh e =
     (\<forall>n d ts. 8 * length (bracket 5 e (printTokens e) @ ts) + 2 \<le> n \<longrightarrow> d + nestingAt 5 e \<le> MAX_DEPTH \<longrightarrow>
        primary n textLen sh d (bracket 5 e (printTokens e) @ ts, None) = Some (e, ts, None))"

text \<open>The next level, whichever it is, reads an operand exactly.\<close>

definition okNext :: "nat \<Rightarrow> ('n \<Rightarrow> string) \<Rightarrow> 'n expr \<Rightarrow> nat \<Rightarrow> bool" where
  "okNext textLen sh e l = (if l < 4 then okLevel textLen sh e (Suc l) else okPrimary textLen sh e)"

lemma loop_stops:
  "matchOp l (peek textLen st) = None \<Longrightarrow> 0 < m \<Longrightarrow> binaryLoop m textLen sh l d e st = Some (e, st)"
  by (cases m) simp_all

lemma okNext_reads:
  assumes "okNext textLen sh e l" and "clearAbove textLen l ts" and "l \<le> 4"
    and "8 * length (bracket (Suc l) e (printTokens e) @ ts) + 6 - l \<le> n" and "d + nestingAt (Suc l) e \<le> MAX_DEPTH"
  shows "(if l < 4 then binaryLevel n textLen sh (Suc l) d (bracket (Suc l) e (printTokens e) @ ts, None)
          else primary n textLen sh d (bracket (Suc l) e (printTokens e) @ ts, None)) = Some (e, ts, None)"
proof (cases "l < 4")
  case True
  have stop: "binaryLoop m textLen sh (Suc l) d e (ts, None) = Some (e, ts, None)" if "8 * length ts + 1 \<le> m" for m
    using assms(2) True that by (intro loop_stops) (auto simp: clearAbove_def)
  have "clearAbove textLen (Suc l) ts" using assms(2) by (simp add: clearAbove_def)
  then have "binaryLevel n textLen sh (Suc l) d (bracket (Suc l) e (printTokens e) @ ts, None) = Some (e, ts, None)"
    using assms(1,4,5) True stop unfolding okNext_def okLevel_def by simp
  with True show ?thesis by simp
next
  case False
  with assms(3) have l: "l = 4" by simp
  have "primary n textLen sh d (bracket 5 e (printTokens e) @ ts, None) = Some (e, ts, None)"
    using assms(1,4,5) False unfolding okNext_def okPrimary_def l by simp
  with False l show ?thesis by simp
qed

lemma okLevelI:
  assumes "\<And>n d ts r. clearAbove textLen l ts \<Longrightarrow> 8 * length (bracket l e (printTokens e) @ ts) + 6 - l \<le> n \<Longrightarrow>
      d + nestingAt l e \<le> MAX_DEPTH \<Longrightarrow> (\<And>m. 8 * length ts + 1 \<le> m \<Longrightarrow> binaryLoop m textLen sh l d e (ts, None) = Some r) \<Longrightarrow>
      binaryLevel (Suc n) textLen sh l d (bracket l e (printTokens e) @ ts, None) = Some r"
    and "l \<le> 4"
  shows "okLevel textLen sh e l"
  unfolding okLevel_def
proof (intro allI impI)
  fix n d ts r
  assume c: "clearAbove textLen l ts" and n: "8 * length (bracket l e (printTokens e) @ ts) + 7 - l \<le> n"
    and d: "d + nestingAt l e \<le> MAX_DEPTH" and loop: "\<forall>m \<ge> 8 * length ts + 1. binaryLoop m textLen sh l d e (ts, None) = Some r"
  from n assms(2) obtain m where m: "n = Suc m" and "8 * length (bracket l e (printTokens e) @ ts) + 6 - l \<le> m" by (cases n) auto
  with assms(1) [OF c _ d, of m r] loop show "binaryLevel n textLen sh l d (bracket l e (printTokens e) @ ts, None) = Some r" by simp
qed

text \<open>An operand that is not an operation of the level is the next level's.\<close>

lemma okLevel_down:
  assumes "okNext textLen sh e l" and "prec e \<noteq> l" and "l \<le> 4"
  shows "okLevel textLen sh e l"
proof (rule okLevelI [OF _ assms(3)])
  fix n d ts r
  assume c: "clearAbove textLen l ts" and n: "8 * length (bracket l e (printTokens e) @ ts) + 6 - l \<le> n"
    and d: "d + nestingAt l e \<le> MAX_DEPTH" and loop: "\<And>m. 8 * length ts + 1 \<le> m \<Longrightarrow> binaryLoop m textLen sh l d e (ts, None) = Some r"
  have same: "bracket (Suc l) e (printTokens e) = bracket l e (printTokens e)" "nestingAt (Suc l) e = nestingAt l e"
    using assms(2) by (auto simp: bracket_def nestingAt_def)
  have "8 * length ts + 1 \<le> n" using n assms(3) by simp
  with okNext_reads [OF assms(1) c assms(3), of n d] n d loop
  show "binaryLevel (Suc n) textLen sh l d (bracket l e (printTokens e) @ ts, None) = Some r"
    unfolding same by simp
qed

text \<open>An operation of the level: its left operand, then the loop takes the operator and the right.\<close>

lemma okLevel_op:
  assumes "okLevel textLen sh a l" and "okNext textLen sh b l" and "opLevel op = l"
  shows "okLevel textLen sh (Binary op a b) l"
proof -
  have l: "l \<le> 4" using opLevel_le [of op] assms(3) by simp
  show ?thesis unfolding okLevel_def
  proof (intro allI impI)
    fix n d ts r
    let ?b = "bracket (Suc l) b (printTokens b)"
    assume c: "clearAbove textLen l ts" and n: "8 * length (bracket l (Binary op a b) (printTokens (Binary op a b)) @ ts) + 7 - l \<le> n"
      and d: "d + nestingAt l (Binary op a b) \<le> MAX_DEPTH"
      and loop: "\<forall>m \<ge> 8 * length ts + 1. binaryLoop m textLen sh l d (Binary op a b) (ts, None) = Some r"
    have toks: "bracket l (Binary op a b) (printTokens (Binary op a b)) = bracket l a (printTokens a) @ opToken op # ?b"
      using assms(3) by (simp add: bracket_def)
    have da: "d + nestingAt l a \<le> MAX_DEPTH" and db: "d + nestingAt (Suc l) b \<le> MAX_DEPTH"
      using d assms(3) by (auto simp: nestingAt_def max_def split: if_splits)
    have next_loop: "binaryLoop m textLen sh l d a (opToken op # ?b @ ts, None) = Some r"
      if m: "8 * length (opToken op # ?b @ ts) + 1 \<le> m" for m
    proof -
      obtain k where k: "m = Suc k" using m by (cases m) auto
      have "(if l < 4 then binaryLevel k textLen sh (Suc l) d (?b @ ts, None) else primary k textLen sh d (?b @ ts, None)) = Some (b, ts, None)"
        using m k by (intro okNext_reads [OF assms(2) c l _ db]) simp
      moreover have "binaryLoop k textLen sh l d (Binary op a b) (ts, None) = Some r" using loop m k by simp
      ultimately show ?thesis using assms(3) by (cases "l < 4") (simp_all add: k matchOp_opToken [OF l])
    qed
    have ca: "clearAbove textLen l (opToken op # ?b @ ts)" using assms(3) by (simp add: clearAbove_def matchOp_opToken)
    have "8 * length (bracket l a (printTokens a) @ opToken op # ?b @ ts) + 7 - l \<le> n" using n toks by simp
    with assms(1) ca da next_loop
    have "binaryLevel n textLen sh l d (bracket l a (printTokens a) @ (opToken op # ?b @ ts), None) = Some r"
      unfolding okLevel_def by blast
    then show "binaryLevel n textLen sh l d (bracket l (Binary op a b) (printTokens (Binary op a b)) @ ts, None) = Some r"
      unfolding toks by simp
  qed
qed

lemma okLevels_below:
  assumes "okNext textLen sh e k" and "k \<le> 4" and "l \<le> k" and "\<forall>i \<in> {l..k}. prec e \<noteq> i"
  shows "okLevel textLen sh e l"
  using assms
proof (induction "k - l" arbitrary: l)
  case 0
  then show ?case by (intro okLevel_down) auto
next
  case (Suc x)
  then have "okLevel textLen sh e (Suc l)" by (intro Suc.hyps(1)) auto
  with Suc show ?case by (intro okLevel_down) (auto simp: okNext_def)
qed

lemma okLevel_reads:
  assumes "okLevel textLen sh e 0" and "\<And>k. matchOp k (peek textLen (ts, None)) = None"
    and "8 * length (printTokens e @ ts) + 7 \<le> n" and "d + nesting e \<le> MAX_DEPTH"
  shows "binaryLevel n textLen sh 0 d (printTokens e @ ts, None) = Some (e, ts, None)"
proof -
  have "binaryLoop m textLen sh 0 d e (ts, None) = Some (e, ts, None)" if "8 * length ts + 1 \<le> m" for m
    using assms(2) that by (intro loop_stops) auto
  then show ?thesis
    using assms unfolding okLevel_def bracket_def nestingAt_def by (simp add: clearAbove_def)
qed

text \<open>A bracketed operation is read by \<open>primary\<close> through the lowest level.\<close>

lemma okPrimary_bracket:
  assumes "okLevel textLen sh e 0" and "prec e < 5"
  shows "okPrimary textLen sh e"
  unfolding okPrimary_def
proof (intro allI impI)
  fix n d ts
  assume n: "8 * length (bracket 5 e (printTokens e) @ ts) + 2 \<le> n" and d: "d + nestingAt 5 e \<le> MAX_DEPTH"
  obtain m where m: "n = Suc m" using n by (cases n) auto
  have "binaryLevel m textLen sh 0 (d + 1) (printTokens e @ TOp '')'' 0 # ts, None) = Some (e, TOp '')'' 0 # ts, None)"
    using n d m assms by (intro okLevel_reads) (auto simp: bracket_def nestingAt_def)
  then show "primary n textLen sh d (bracket 5 e (printTokens e) @ ts, None) = Some (e, ts, None)"
    using assms(2) d by (simp add: m bracket_def nestingAt_def)
qed

lemma fold_max_start: "(a :: nat) \<le> fold max xs a"
proof (induction xs arbitrary: a)
  case (Cons y ys)
  have "a \<le> max y a" by simp
  also have "\<dots> \<le> fold max ys (max y a)" by (rule Cons.IH)
  finally show ?case by simp
qed simp

lemma fold_max_mono: "x \<in> set xs \<Longrightarrow> (x :: nat) \<le> fold max xs a"
proof (induction xs arbitrary: a)
  case (Cons y ys)
  have "y \<le> fold max ys (max y a)" using fold_max_start [of "max y a" ys] by simp
  with Cons show ?case by auto
qed simp

text \<open>The arguments of a call, each read by the lowest level.\<close>

lemma callArgs_reads:
  assumes "\<forall>e \<in> set args. okLevel textLen sh e 0 \<and> d + nesting e \<le> MAX_DEPTH" and "args \<noteq> []"
    and "8 * length (commaSep (map printTokens args) @ TOp '')'' 0 # ts) + 8 \<le> n"
  shows "callArgs n textLen sh d (commaSep (map printTokens args) @ TOp '')'' 0 # ts, None) = Some (args, TOp '')'' 0 # ts, None)"
  using assms
proof (induction args arbitrary: n)
  case Nil
  then show ?case by simp
next
  case (Cons e args)
  obtain m where m: "n = Suc m" using Cons.prems(3) by (cases n) auto
  show ?case
  proof (cases args)
    case Nil
    have "binaryLevel m textLen sh 0 d (printTokens e @ TOp '')'' 0 # ts, None) = Some (e, TOp '')'' 0 # ts, None)"
      using Cons.prems m Nil by (intro okLevel_reads) auto
    with m Nil show ?thesis by simp
  next
    case (Cons f rest)
    let ?more = "commaSep (map printTokens args) @ TOp '')'' 0 # ts"
    have "binaryLevel m textLen sh 0 d (printTokens e @ TOp '','' 0 # ?more, None) = Some (e, TOp '','' 0 # ?more, None)"
      using Cons.prems m Cons by (intro okLevel_reads) auto
    moreover have "callArgs m textLen sh d (?more, None) = Some (args, TOp '')'' 0 # ts, None)"
      using Cons.prems m Cons by (intro Cons.IH) auto
    ultimately show ?thesis using m Cons by simp
  qed
qed

lemma bracket_head:
  assumes "\<exists>t ts. us = t # ts \<and> \<not> isOpTok '')'' t"
  shows "\<exists>t ts. bracket l e us @ vs = t # ts \<and> \<not> isOpTok '')'' t"
  using assms by (auto simp: bracket_def)

lemma printTokens_head: "printable e \<Longrightarrow> \<exists>t ts. printTokens e = t # ts \<and> \<not> isOpTok '')'' t"
proof (induction e)
  case (Binary op a b)
  then show ?case using bracket_head [of "printTokens a"] by simp
qed auto

lemma commaSep_head:
  assumes "args \<noteq> []" and "list_all printable args"
  shows "\<exists>t ts. commaSep (map printTokens args) = t # ts \<and> \<not> isOpTok '')'' t"
proof (cases args)
  case (Cons e rest)
  then obtain t ts where "printTokens e = t # ts" "\<not> isOpTok '')'' t" using assms(2) printTokens_head [of e] by auto
  with Cons show ?thesis by (cases rest) auto
qed (use assms in simp)

lemma okPrimary_call:
  assumes "\<forall>e \<in> set args. okLevel textLen sh e 0" and "printable (Call f args)"
  shows "okPrimary textLen sh (Call f args)"
  unfolding okPrimary_def
proof (intro allI impI)
  fix n d ts
  assume n: "8 * length (bracket 5 (Call f args) (printTokens (Call f args)) @ ts) + 2 \<le> n"
    and d: "d + nestingAt 5 (Call f args) \<le> MAX_DEPTH"
  obtain m where m: "n = Suc m" using n by (cases n) auto
  have f: "toLowerCase f = f" "f \<noteq> ''true''" "f \<noteq> ''false''" "f \<noteq> ''not''" using assms(2) by auto
  have depth: "\<not> MAX_DEPTH < Suc d" using d by (simp add: nestingAt_def)
  have nest: "d + 1 + nesting e \<le> MAX_DEPTH" if "e \<in> set args" for e
    using fold_max_mono [of "nesting e" "map nesting args" 0] that d by (auto simp: nestingAt_def)
  show "primary n textLen sh d (bracket 5 (Call f args) (printTokens (Call f args)) @ ts, None) = Some (Call f args, ts, None)"
  proof (cases "args = []")
    case True
    with f depth show ?thesis by (simp add: m bracket_def Let_def)
  next
    case False
    have "callArgs m textLen sh (d + 1) (commaSep (map printTokens args) @ TOp '')'' 0 # ts, None) = Some (args, TOp '')'' 0 # ts, None)"
      using assms(1) nest n m by (intro callArgs_reads [OF _ False]) (auto simp: bracket_def)
    moreover have "\<not> isOp textLen '')'' (commaSep (map printTokens args) @ TOp '')'' 0 # ts, None)"
      using commaSep_head [OF False] assms(2) by (auto simp: isOp_def)
    ultimately show ?thesis using f depth by (simp add: m bracket_def Let_def)
  qed
qed

lemma okPrimary_atom:
  assumes "\<And>n d ts. d < MAX_DEPTH \<Longrightarrow> primary (Suc n) textLen sh d (printTokens e @ ts, None) = Some (e, ts, None)"
    and "prec e = 5" and "1 \<le> nesting e"
  shows "okPrimary textLen sh e"
  unfolding okPrimary_def
proof (intro allI impI)
  fix n d ts
  assume n: "8 * length (bracket 5 e (printTokens e) @ ts) + 2 \<le> n" and d: "d + nestingAt 5 e \<le> MAX_DEPTH"
  obtain m where "n = Suc m" using n by (cases n) auto
  moreover have "d < MAX_DEPTH" using d assms(2,3) by (simp add: nestingAt_def)
  ultimately show "primary n textLen sh d (bracket 5 e (printTokens e) @ ts, None) = Some (e, ts, None)"
    using assms(1,2) by (simp add: bracket_def)
qed

lemma okPrimary_unary:
  assumes "okPrimary textLen sh e"
  shows "okPrimary textLen sh (Unary op e)"
  unfolding okPrimary_def
proof (intro allI impI)
  fix n d ts
  assume n: "8 * length (bracket 5 (Unary op e) (printTokens (Unary op e)) @ ts) + 2 \<le> n"
    and d: "d + nestingAt 5 (Unary op e) \<le> MAX_DEPTH"
  obtain m where m: "n = Suc m" using n by (cases n) auto
  have "primary m textLen sh (d + 1) (bracket 5 e (printTokens e) @ ts, None) = Some (e, ts, None)"
    using assms n d m unfolding okPrimary_def by (simp add: bracket_def [of 5 "Unary op e"] nestingAt_def)
  with d m show "primary n textLen sh d (bracket 5 (Unary op e) (printTokens (Unary op e)) @ ts, None) = Some (Unary op e, ts, None)"
    by (cases op) (simp_all add: bracket_def [of 5 "Unary _ e"] nestingAt_def Let_def)
qed

lemma reads_from_primary:
  assumes "okPrimary textLen sh e" and "prec e = 5" and "l \<le> 4"
  shows "okLevel textLen sh e l"
  using assms by (intro okLevels_below [of _ _ _ 4]) (auto simp: okNext_def)

text \<open>Every printed expression is read back, by \<open>primary\<close> and at every level.\<close>

lemma printed_reads:
  "printable e \<Longrightarrow> okPrimary textLen sh e \<and> (\<forall>l \<le> 4. okLevel textLen sh e l)"
proof (induction e)
  case (Unary op e)
  then have "okPrimary textLen sh (Unary op e)" by (intro okPrimary_unary) simp
  then show ?case by (simp add: reads_from_primary)
next
  case (Call f args)
  then have "okPrimary textLen sh (Call f args)" by (intro okPrimary_call) (auto simp: list_all_iff)
  then show ?case by (simp add: reads_from_primary)
next
  case (Binary op a b)
  let ?e = "Binary op a b" and ?l = "opLevel op"
  have l: "?l \<le> 4" by (rule opLevel_le)
  with Binary have here: "okLevel textLen sh ?e ?l" by (intro okLevel_op) (auto simp: okNext_def)
  have below: "okLevel textLen sh ?e i" if "i \<le> ?l" for i
  proof (cases "i = ?l")
    case False
    with that l here show ?thesis by (intro okLevels_below [of _ _ _ "?l - 1"]) (auto simp: okNext_def)
  qed (use here in simp)
  then have prim: "okPrimary textLen sh ?e" using l by (intro okPrimary_bracket) auto
  have "okLevel textLen sh ?e i" if "?l < i" "i \<le> 4" for i
    using that prim by (intro okLevels_below [of _ _ _ 4]) (auto simp: okNext_def)
  with below prim show ?case by (metis not_le)
qed (auto intro!: okPrimary_atom reads_from_primary simp: Let_def)

section \<open>Properties\<close>

text \<open>C10: reading a formula always ends with an answer. Whatever the text, the parser returns an
  expression or one error: its recursion is bounded by eight calls for every token.\<close>

theorem parseFormula_total: "\<exists>r. parseFormula readNumber sh text = Some r"
proof -
  have "answers (binaryLevel (8 * length tokens + 7) (length text) sh 0 0 (tokens, None)) (tokens, None)" for tokens
    using parser_answers [of "8 * length tokens + 7" "length text" sh] by simp
  then have "\<exists>e st. binaryLevel (8 * length tokens + 7) (length text) sh 0 0 (tokens, None) = Some (e, st)" for tokens
    unfolding answers_def by blast
  then have "\<exists>r. parseTokens (length text) sh tokens = Some r" for tokens
    unfolding parseTokens_def by (metis option.simps(9))
  then show ?thesis by (auto simp: parseFormula_def split: sum.split)
qed

text \<open>C11: the parser reads the grammar it documents. Printing an expression with brackets only
  where the table \<open>or < and < comparison < + - < * / < unary\<close> asks for them and every operator
  associating to the left, the parser returns exactly that expression, as long as at most 32
  brackets, calls and signs are open at once.\<close>

theorem parse_print:
  assumes "printable e" and "nesting e \<le> MAX_DEPTH"
  shows "parseTokens textLen sh (printTokens e @ [TEnd textLen]) = Some (Inr e)"
proof -
  have "binaryLevel (8 * length (printTokens e @ [TEnd textLen]) + 7) textLen sh 0 0 (printTokens e @ [TEnd textLen], None) =
      Some (e, [TEnd textLen], None)"
    using printed_reads [OF assms(1)] assms(2) by (intro okLevel_reads) auto
  then show ?thesis by (simp add: parseTokens_def)
qed

text \<open>\<open>if(not (1 + 2) * 3 >= -"x", min(), [a] or true)\<close>, with the brackets it needs.\<close>

definition sampleExpr :: "nat expr" where
  "sampleExpr = Call ''if''
     [Binary GreaterEq (Binary Times (Unary NotOp (Binary Plus (Number 1) (Number 2))) (Number 3)) (Unary Negate (Text ''x'')),
      Call ''min'' [], Binary Or (Field ''a'' None) (Boolean True)]"

theorem parse_print_witness:
  "parseTokens 0 (\<lambda>_. []) (printTokens sampleExpr @ [TEnd 0]) = Some (Inr sampleExpr) \<and>
   length (printTokens sampleExpr) = 22"
proof -
  have "printable sampleExpr" "nesting sampleExpr \<le> MAX_DEPTH" by code_simp+
  moreover have "length (printTokens sampleExpr) = 22" by code_simp
  ultimately show ?thesis using parse_print [of sampleExpr 0 "\<lambda>_. []"] by simp
qed

end
