(* ===== verification/Formula_Eval.thy ===== *)
theory Formula_Eval
  imports Formula_Grammar
begin

text \<open>
  \<^verbatim>\<open>packages/core/src/formula/evaluate.ts\<close>: what a formula says for one row. JavaScript's number
  arithmetic, its date parsing and its upper-casing are the record \<open>runtime\<close>; everything the source
  decides itself is defined here. A read of a property of \<open>undefined\<close> throws and is \<open>Crash\<close>.
\<close>

section \<open>Values and failures\<close>

datatype 'n val = VNumber 'n | VText string | VBoolean bool | VDate string | VBlank

datatype eval_code = UnknownField | TypeMismatch | UnknownFunction | WrongArity | DivideByZero | NotADate

datatype eval_failure = EvalError eval_code "string option" | Crash

type_synonym 'n eval_result = "eval_failure + 'n val"

type_synonym 'n row = "string \<Rightarrow> 'n val option"

record 'n runtime =
  rt_add :: "'n \<Rightarrow> 'n \<Rightarrow> 'n"
  rt_sub :: "'n \<Rightarrow> 'n \<Rightarrow> 'n"
  rt_mul :: "'n \<Rightarrow> 'n \<Rightarrow> 'n"
  rt_div :: "'n \<Rightarrow> 'n \<Rightarrow> 'n"
  rt_pow :: "'n \<Rightarrow> 'n \<Rightarrow> 'n"
  rt_neg :: "'n \<Rightarrow> 'n"
  rt_abs :: "'n \<Rightarrow> 'n"
  rt_trunc :: "'n \<Rightarrow> 'n"
  rt_round :: "'n \<Rightarrow> 'n"
  rt_min :: "'n \<Rightarrow> 'n \<Rightarrow> 'n"
  rt_max :: "'n \<Rightarrow> 'n \<Rightarrow> 'n"
  rt_lt0 :: "'n \<Rightarrow> bool"
  rt_eq0 :: "'n \<Rightarrow> bool"
  rt_gt0 :: "'n \<Rightarrow> bool"
  rt_isNaN :: "'n \<Rightarrow> bool"
  rt_ofNat :: "nat \<Rightarrow> 'n"
  rt_show :: "'n \<Rightarrow> string"
  rt_parseDate :: "string \<Rightarrow> 'n"
  rt_upper :: "string \<Rightarrow> string"
  rt_today :: string

fun kindOf :: "'n val \<Rightarrow> string" where
  "kindOf (VNumber _) = ''number''"
| "kindOf (VText _) = ''text''"
| "kindOf (VBoolean _) = ''boolean''"
| "kindOf (VDate _) = ''date''"
| "kindOf VBlank = ''blank''"

fun isBlank :: "'n val \<Rightarrow> bool" where
  "isBlank VBlank = True"
| "isBlank (VText s) = (s = [])"
| "isBlank _ = False"

fun asNumber :: "'n val \<Rightarrow> eval_failure + 'n" where
  "asNumber (VNumber n) = Inr n"
| "asNumber v = Inl (EvalError TypeMismatch (Some (kindOf v)))"

definition mismatch :: "string \<Rightarrow> eval_failure" where
  "mismatch k = EvalError TypeMismatch (Some k)"

text \<open>The sign of the number \<open>compare\<close> returns: below, equal to or above zero.\<close>

definition signOf :: "'n runtime \<Rightarrow> 'n \<Rightarrow> bool \<times> bool \<times> bool" where
  "signOf rt d = (rt_lt0 rt d, rt_eq0 rt d, rt_gt0 rt d)"

fun compare :: "'n runtime \<Rightarrow> 'n val \<Rightarrow> 'n val \<Rightarrow> eval_failure + bool \<times> bool \<times> bool" where
  "compare rt (VNumber a) (VNumber b) = Inr (signOf rt (rt_sub rt a b))"
| "compare rt (VText a) (VText b) = Inr (a < b, a = b, b < a)"
| "compare rt (VDate a) (VDate b) = Inr (signOf rt (rt_sub rt (rt_parseDate rt a) (rt_parseDate rt b)))"
| "compare rt l r = Inl (mismatch (kindOf l @ ''/'' @ kindOf r))"

definition holds :: "binary_op \<Rightarrow> bool \<times> bool \<times> bool \<Rightarrow> bool" where
  "holds op s =
     (case s of (lt, eq, gt) \<Rightarrow>
        (case op of Equal \<Rightarrow> eq | NotEqual \<Rightarrow> \<not> eq | Less \<Rightarrow> lt | LessEq \<Rightarrow> lt \<or> eq
         | Greater \<Rightarrow> gt | GreaterEq \<Rightarrow> gt \<or> eq | _ \<Rightarrow> False))"

section \<open>Operators\<close>

definition arith :: "'n runtime \<Rightarrow> binary_op \<Rightarrow> 'n val \<Rightarrow> 'n val \<Rightarrow> 'n eval_result" where
  "arith rt op l r =
     rbind (asNumber l) (\<lambda>a. rbind (asNumber r) (\<lambda>b.
       if op = Divide \<and> rt_eq0 rt b then Inl (EvalError DivideByZero None)
       else Inr (VNumber (case op of Plus \<Rightarrow> rt_add rt a b | Minus \<Rightarrow> rt_sub rt a b
                          | Times \<Rightarrow> rt_mul rt a b | _ \<Rightarrow> rt_div rt a b))))"

text \<open>The binary operators other than \<open>and\<close> and \<open>or\<close>, both sides evaluated.\<close>

definition applyBinary :: "'n runtime \<Rightarrow> binary_op \<Rightarrow> 'n val \<Rightarrow> 'n val \<Rightarrow> 'n eval_result" where
  "applyBinary rt op l r =
     (if isBlank l \<or> isBlank r then
        Inr (if op = Equal then VBoolean (isBlank l \<and> isBlank r)
             else if op = NotEqual then VBoolean (isBlank l \<noteq> isBlank r) else VBlank)
      else if op = Plus then
        (case (l, r) of (VText a, VText b) \<Rightarrow> Inr (VText (a @ b)) | _ \<Rightarrow> arith rt op l r)
      else if op \<in> {Minus, Times, Divide} then arith rt op l r
      else rmap (\<lambda>s. VBoolean (holds op s)) (compare rt l r))"

fun applyUnary :: "'n runtime \<Rightarrow> unary_op \<Rightarrow> 'n val \<Rightarrow> 'n eval_result" where
  "applyUnary rt op VBlank = Inr VBlank"
| "applyUnary rt NotOp v =
     (case v of VBoolean b \<Rightarrow> Inr (VBoolean (\<not> b)) | _ \<Rightarrow> Inl (mismatch (kindOf v)))"
| "applyUnary rt Negate v = rmap (\<lambda>n. VNumber (rt_neg rt n)) (asNumber v)"

section \<open>Functions\<close>

fun numbers :: "'n val list \<Rightarrow> eval_failure + 'n list" where
  "numbers [] = Inr []"
| "numbers (v # vs) = rbind (asNumber v) (\<lambda>n. rmap (\<lambda>ns. n # ns) (numbers vs))"

fun concatText :: "'n runtime \<Rightarrow> 'n val \<Rightarrow> string" where
  "concatText rt VBlank = []"
| "concatText rt (VNumber n) = rt_show rt n"
| "concatText rt (VBoolean b) = (if b then ''true'' else ''false'')"
| "concatText rt (VDate d) = d"
| "concatText rt (VText s) = s"

text \<open>\<open>values[i]!\<close>: a missing argument is \<open>undefined\<close>, and asking for its kind throws.\<close>

definition argAt :: "'n val list \<Rightarrow> nat \<Rightarrow> eval_failure + 'n val" where
  "argAt vs i = (if i < length vs then Inr (vs ! i) else Inl Crash)"

definition fnText :: "'n val \<Rightarrow> 'n val \<Rightarrow> (string \<Rightarrow> 'n val) \<Rightarrow> 'n eval_result" where
  "fnText v ifBlank f =
     (if isBlank v then Inr ifBlank
      else (case v of VText s \<Rightarrow> Inr (f s) | _ \<Rightarrow> Inl (mismatch (kindOf v))))"

fun sublistText :: "string \<Rightarrow> string \<Rightarrow> bool" where
  "sublistText [] needle = (needle = [])"
| "sublistText (c # cs) needle = (startsWith (c # cs) needle \<or> sublistText cs needle)"

definition fnContains :: "'n val list \<Rightarrow> 'n eval_result" where
  "fnContains vs =
     rbind (argAt vs 0) (\<lambda>haystack.
       if isBlank haystack then Inr (VBoolean False)
       else rbind (argAt vs 1) (\<lambda>needle.
         if isBlank needle then Inr (VBoolean False)
         else (case (haystack, needle) of
                 (VText h, VText n) \<Rightarrow> Inr (VBoolean (sublistText h n))
               | _ \<Rightarrow> Inl (mismatch (kindOf haystack @ ''/'' @ kindOf needle)))))"

definition fnRound :: "'n runtime \<Rightarrow> 'n val list \<Rightarrow> 'n eval_result" where
  "fnRound rt vs =
     rbind (argAt vs 0) (\<lambda>first.
       if isBlank first then Inr VBlank
       else rmap (\<lambda>got.
         let places = (if 1 < length got then got ! 1 else rt_ofNat rt 0);
             factor = rt_pow rt (rt_ofNat rt 10)
                        (rt_max rt (rt_ofNat rt 0) (rt_min rt (rt_ofNat rt 10) (rt_trunc rt places)))
         in VNumber (rt_div rt (rt_round rt (rt_mul rt (hd got) factor)) factor)) (numbers vs))"

definition fnExtreme :: "('n \<Rightarrow> 'n \<Rightarrow> 'n) \<Rightarrow> 'n val list \<Rightarrow> 'n eval_result" where
  "fnExtreme f vs =
     (let present = filter (\<lambda>v. \<not> isBlank v) vs in
      if present = [] then Inr VBlank
      else rmap (\<lambda>got. VNumber (fold f (tl got) (hd got))) (numbers present))"

definition DAY :: nat where
  "DAY = 86400000"

definition fnDays :: "'n runtime \<Rightarrow> 'n val list \<Rightarrow> 'n eval_result" where
  "fnDays rt vs =
     rbind (argAt vs 0) (\<lambda>from.
       if isBlank from then Inr VBlank
       else rbind (argAt vs 1) (\<lambda>to.
         if isBlank to then Inr VBlank
         else (case (from, to) of
                 (VDate f, VDate t) \<Rightarrow>
                   (let a = rt_parseDate rt f; b = rt_parseDate rt t in
                    if rt_isNaN rt a \<or> rt_isNaN rt b then Inl (EvalError NotADate None)
                    else Inr (VNumber (rt_trunc rt (rt_div rt (rt_sub rt b a) (rt_ofNat rt DAY)))))
               | _ \<Rightarrow> Inl (EvalError NotADate (Some (kindOf from @ ''/'' @ kindOf to))))))"

text \<open>The \<open>switch\<close> over the functions that evaluate all their arguments first.\<close>

definition callValues :: "'n runtime \<Rightarrow> string \<Rightarrow> 'n val list \<Rightarrow> 'n eval_result" where
  "callValues rt name vs =
     (if name = ''today'' then Inr (VDate (rt_today rt))
      else if name = ''isblank'' then rmap (\<lambda>v. VBoolean (isBlank v)) (argAt vs 0)
      else if name = ''length'' then
        rbind (argAt vs 0) (\<lambda>v. fnText v (VNumber (rt_ofNat rt 0)) (\<lambda>s. VNumber (rt_ofNat rt (length s))))
      else if name = ''lower'' then rbind (argAt vs 0) (\<lambda>v. fnText v VBlank (\<lambda>s. VText (toLowerCase s)))
      else if name = ''upper'' then rbind (argAt vs 0) (\<lambda>v. fnText v VBlank (\<lambda>s. VText (rt_upper rt s)))
      else if name = ''contains'' then fnContains vs
      else if name = ''concat'' then Inr (VText (concat (map (concatText rt) vs)))
      else if name = ''abs'' then
        rbind (argAt vs 0) (\<lambda>v. if isBlank v then Inr VBlank
          else rmap (\<lambda>got. VNumber (rt_abs rt (hd got))) (numbers vs))
      else if name = ''round'' then fnRound rt vs
      else if name = ''min'' then fnExtreme (rt_min rt) vs
      else if name = ''max'' then fnExtreme (rt_max rt) vs
      else if name = ''days'' then fnDays rt vs
      else Inl (EvalError UnknownFunction (Some name)))"

section \<open>Evaluation\<close>

fun evaluate :: "'n runtime \<Rightarrow> 'n row \<Rightarrow> 'n expr \<Rightarrow> 'n eval_result"
  and evalArgs :: "'n runtime \<Rightarrow> 'n row \<Rightarrow> 'n expr list \<Rightarrow> eval_failure + 'n val list"
  and coalesce :: "'n runtime \<Rightarrow> 'n row \<Rightarrow> 'n expr list \<Rightarrow> 'n eval_result"
where
  "evaluate rt row (Number n) = Inr (VNumber n)"
| "evaluate rt row (Text s) = Inr (VText s)"
| "evaluate rt row (Boolean b) = Inr (VBoolean b)"
| "evaluate rt row Blank = Inr VBlank"
| "evaluate rt row (Field name fieldId) =
     (case fieldId of
        None \<Rightarrow> Inl (EvalError UnknownField (Some name))
      | Some i \<Rightarrow> if i = [] then Inl (EvalError UnknownField (Some name))
                  else Inr (case row i of None \<Rightarrow> VBlank | Some v \<Rightarrow> v))"
| "evaluate rt row (Unary op e) = rbind (evaluate rt row e) (applyUnary rt op)"
| "evaluate rt row (Binary op l r) =
     rbind (evaluate rt row l) (\<lambda>left.
       if op = And \<or> op = Or then
         (case left of
            VBlank \<Rightarrow> Inr VBlank
          | VBoolean a \<Rightarrow>
              if op = And \<and> \<not> a then Inr (VBoolean False)
              else if op = Or \<and> a then Inr (VBoolean True)
              else rbind (evaluate rt row r) (\<lambda>right.
                (case right of VBlank \<Rightarrow> Inr VBlank | VBoolean b \<Rightarrow> Inr (VBoolean b)
                 | _ \<Rightarrow> Inl (mismatch (kindOf right))))
          | _ \<Rightarrow> Inl (mismatch (kindOf left)))
       else rbind (evaluate rt row r) (applyBinary rt op left))"
| "evaluate rt row (Call name args) =
     (if name = ''if'' then
        (case args of
           [t, a, b] \<Rightarrow>
             rbind (evaluate rt row t) (\<lambda>test.
               (case test of VBlank \<Rightarrow> Inr VBlank
                | VBoolean c \<Rightarrow> if c then evaluate rt row a else evaluate rt row b
                | _ \<Rightarrow> Inl (mismatch (kindOf test))))
         | _ \<Rightarrow> Inl (EvalError WrongArity (Some name)))
      else if name = ''coalesce'' then coalesce rt row args
      else rbind (evalArgs rt row args) (callValues rt name))"
| "evalArgs rt row [] = Inr []"
| "evalArgs rt row (e # es) = rbind (evaluate rt row e) (\<lambda>v. rmap (\<lambda>vs. v # vs) (evalArgs rt row es))"
| "coalesce rt row [] = Inr VBlank"
| "coalesce rt row (e # es) =
     rbind (evaluate rt row e) (\<lambda>v. if \<not> isBlank v then Inr v else coalesce rt row es)"

end
