(* ===== verification/Formula_Types.thy ===== *)
theory Formula_Types
  imports Formula_Eval
begin

text \<open>
  A type assignment for formulas. The program computes none; it states what the header of
  \<^verbatim>\<open>packages/core/src/formula/evaluate.ts\<close> promises (four types and no coercion that guesses), and the
  evaluator is sound for it. Then what saving a formula establishes (\<open>bindFormula\<close>), and where the
  evaluator throws because nothing compares a call with the arities \<open>FUNCTIONS\<close> lists.
\<close>

section \<open>Types\<close>

datatype ty = TyNumber | TyText | TyBoolean | TyDate

definition TYPES :: "ty list" where
  "TYPES = [TyNumber, TyText, TyBoolean, TyDate]"

text \<open>A value has a type when it is empty or of that kind.\<close>

fun conforms :: "'n val \<Rightarrow> ty \<Rightarrow> bool" where
  "conforms VBlank t = True"
| "conforms (VNumber _) t = (t = TyNumber)"
| "conforms (VText _) t = (t = TyText)"
| "conforms (VBoolean _) t = (t = TyBoolean)"
| "conforms (VDate _) t = (t = TyDate)"

definition rowTyped :: "(string \<Rightarrow> ty option) \<Rightarrow> 'n row \<Rightarrow> bool" where
  "rowTyped \<Gamma> row = (\<forall>i t v. \<Gamma> i = Some t \<longrightarrow> row i = Some v \<longrightarrow> conforms v t)"

definition signature :: "string \<Rightarrow> (ty list \<times> ty) option" where
  "signature = map_of
     [(''today'', ([], TyDate)), (''length'', ([TyText], TyNumber)), (''lower'', ([TyText], TyText)),
      (''upper'', ([TyText], TyText)), (''contains'', ([TyText, TyText], TyBoolean)),
      (''abs'', ([TyNumber], TyNumber)), (''days'', ([TyDate, TyDate], TyNumber))]"

text \<open>
  The second argument of \<open>round\<close> has to be a literal: an empty number of places is a type error, unlike
  an empty operand anywhere else.
\<close>

fun hasType :: "(string \<Rightarrow> ty option) \<Rightarrow> 'n expr \<Rightarrow> ty \<Rightarrow> bool" where
  "hasType \<Gamma> (Number n) t = (t = TyNumber)"
| "hasType \<Gamma> (Text s) t = (t = TyText)"
| "hasType \<Gamma> (Boolean b) t = (t = TyBoolean)"
| "hasType \<Gamma> Blank t = True"
| "hasType \<Gamma> (Field name fieldId) t =
     (case fieldId of None \<Rightarrow> False | Some i \<Rightarrow> i \<noteq> [] \<and> \<Gamma> i = Some t)"
| "hasType \<Gamma> (Unary op e) t = (t = (if op = NotOp then TyBoolean else TyNumber) \<and> hasType \<Gamma> e t)"
| "hasType \<Gamma> (Binary op l r) t =
     (if op \<in> {And, Or} then t = TyBoolean \<and> hasType \<Gamma> l TyBoolean \<and> hasType \<Gamma> r TyBoolean
      else if op = Plus then t \<in> {TyNumber, TyText} \<and> hasType \<Gamma> l t \<and> hasType \<Gamma> r t
      else if op \<in> {Minus, Times, Divide} then t = TyNumber \<and> hasType \<Gamma> l t \<and> hasType \<Gamma> r t
      else t = TyBoolean \<and> list_ex (\<lambda>s. hasType \<Gamma> l s \<and> hasType \<Gamma> r s) [TyNumber, TyText, TyDate])"
| "hasType \<Gamma> (Call name args) t =
     (if name = ''if'' then
        (case args of [c, a, b] \<Rightarrow> hasType \<Gamma> c TyBoolean \<and> hasType \<Gamma> a t \<and> hasType \<Gamma> b t | _ \<Rightarrow> False)
      else if name = ''coalesce'' then (\<forall>e\<in>set args. hasType \<Gamma> e t)
      else if name = ''concat'' then t = TyText \<and> (\<forall>e\<in>set args. list_ex (hasType \<Gamma> e) TYPES)
      else if name = ''isblank'' then
        t = TyBoolean \<and> length args = 1 \<and> (\<forall>e\<in>set args. list_ex (hasType \<Gamma> e) TYPES)
      else if name = ''min'' \<or> name = ''max'' then t = TyNumber \<and> (\<forall>e\<in>set args. hasType \<Gamma> e TyNumber)
      else if name = ''round'' then
        t = TyNumber \<and> (case args of [a] \<Rightarrow> hasType \<Gamma> a TyNumber
                         | [a, Number k] \<Rightarrow> hasType \<Gamma> a TyNumber | _ \<Rightarrow> False)
      else (case signature name of
              None \<Rightarrow> False
            | Some (ts, s) \<Rightarrow> t = s \<and> length args = length ts \<and> list_all2 (hasType \<Gamma>) args ts))"

text \<open>What a well-typed formula can still fail with: division by zero and a date that is none.\<close>

definition outcome :: "('a \<Rightarrow> bool) \<Rightarrow> eval_failure + 'a \<Rightarrow> bool" where
  "outcome P r = (case r of Inl f \<Rightarrow> f = EvalError DivideByZero None \<or> f = EvalError NotADate None | Inr v \<Rightarrow> P v)"

lemma outcome_simps [simp]:
  "outcome P (Inr v) = P v"
  "outcome P (Inl f) = (f = EvalError DivideByZero None \<or> f = EvalError NotADate None)"
  by (simp_all add: outcome_def)

lemma outcome_rbind:
  "outcome P r \<Longrightarrow> (\<And>v. P v \<Longrightarrow> outcome Q (k v)) \<Longrightarrow> outcome Q (rbind r k)"
  by (cases r) simp_all

lemma outcome_rmap:
  "outcome P r \<Longrightarrow> (\<And>v. P v \<Longrightarrow> Q (f v)) \<Longrightarrow> outcome Q (rmap f r)"
  by (cases r) simp_all

lemma outcome_mono: "outcome P r \<Longrightarrow> (\<And>v. P v \<Longrightarrow> Q v) \<Longrightarrow> outcome Q r"
  by (cases r) simp_all

lemma conformsE:
  assumes "conforms v t"
  obtains "v = VBlank" | n where "v = VNumber n" "t = TyNumber" | s where "v = VText s" "t = TyText"
    | b where "v = VBoolean b" "t = TyBoolean" | d where "v = VDate d" "t = TyDate"
  using assms by (cases v) auto

lemma applyUnary_typed:
  "conforms v t \<Longrightarrow> t = (if op = NotOp then TyBoolean else TyNumber) \<Longrightarrow>
   outcome (\<lambda>w. conforms w t) (applyUnary rt op v)"
  by (cases op; cases v) (auto split: if_splits)

lemma arith_typed:
  "conforms l TyNumber \<Longrightarrow> conforms r TyNumber \<Longrightarrow> \<not> isBlank l \<Longrightarrow> \<not> isBlank r \<Longrightarrow>
   outcome (\<lambda>w. conforms w TyNumber) (arith rt op l r)"
  by (cases l; cases r) (auto simp: arith_def)

lemma applyBinary_arith_typed:
  "conforms l t \<Longrightarrow> conforms r t \<Longrightarrow> op \<in> {Plus, Minus, Times, Divide} \<Longrightarrow>
   t = TyNumber \<or> op = Plus \<and> t = TyText \<Longrightarrow> outcome (\<lambda>w. conforms w t) (applyBinary rt op l r)"
  by (elim conformsE) (auto simp: applyBinary_def intro: arith_typed)

lemma applyBinary_compare_typed:
  "conforms l s \<Longrightarrow> conforms r s \<Longrightarrow> s \<noteq> TyBoolean \<Longrightarrow> op \<notin> {Plus, Minus, Times, Divide} \<Longrightarrow>
   outcome (\<lambda>w. conforms w TyBoolean) (applyBinary rt op l r)"
  by (elim conformsE) (auto simp: applyBinary_def)

lemma numbers_typed:
  "(\<And>v. v \<in> set vs \<Longrightarrow> conforms v TyNumber \<and> \<not> isBlank v) \<Longrightarrow>
   \<exists>ns. numbers vs = Inr ns \<and> length ns = length vs"
proof (induction vs)
  case (Cons v vs)
  then obtain n where "v = VNumber n"
    by (metis conformsE isBlank.simps(1) list.set_intros(1) ty.distinct(1) ty.distinct(3) ty.distinct(5))
  with Cons show ?case by force
qed simp

lemma fnExtreme_typed:
  "(\<And>v. v \<in> set vs \<Longrightarrow> conforms v TyNumber) \<Longrightarrow> outcome (\<lambda>w. conforms w TyNumber) (fnExtreme f vs)"
  using numbers_typed [of "filter (\<lambda>v. \<not> isBlank v) vs"] by (auto simp: fnExtreme_def Let_def)

lemma conforms_number_cases: "conforms v TyNumber \<Longrightarrow> v = VBlank \<or> (\<exists>n. v = VNumber n)"
  by (cases v) auto

lemma fnRound_typed:
  "conforms v TyNumber \<Longrightarrow> ws = [] \<or> (\<exists>k. ws = [VNumber k]) \<Longrightarrow>
   outcome (\<lambda>w. conforms w TyNumber) (fnRound rt (v # ws))"
  by (drule conforms_number_cases) (auto simp: fnRound_def argAt_def Let_def)

lemma signature_cases:
  assumes "signature name = Some (ts, s)"
  shows "(name, ts, s) \<in> {(''today'', [], TyDate), (''length'', [TyText], TyNumber), (''lower'', [TyText], TyText),
      (''upper'', [TyText], TyText), (''contains'', [TyText, TyText], TyBoolean),
      (''abs'', [TyNumber], TyNumber), (''days'', [TyDate, TyDate], TyNumber)}"
  using map_of_SomeD [OF assms [unfolded signature_def]] by simp

lemma conforms_text_cases: "conforms v TyText \<Longrightarrow> v = VBlank \<or> (\<exists>s. v = VText s)"
  by (cases v) auto

lemma conforms_date_cases: "conforms v TyDate \<Longrightarrow> v = VBlank \<or> (\<exists>d. v = VDate d)"
  by (cases v) auto

lemma fnText_typed:
  "conforms v TyText \<Longrightarrow> conforms b t \<Longrightarrow> (\<And>s. conforms (f s) t) \<Longrightarrow>
   outcome (\<lambda>w. conforms w t) (fnText v b f)"
  by (drule conforms_text_cases) (auto simp: fnText_def)

lemma fnContains_typed:
  "conforms h TyText \<Longrightarrow> conforms n TyText \<Longrightarrow> outcome (\<lambda>w. conforms w TyBoolean) (fnContains [h, n])"
  by (drule conforms_text_cases)+ (auto simp: fnContains_def argAt_def)

lemma fnDays_typed:
  "conforms a TyDate \<Longrightarrow> conforms b TyDate \<Longrightarrow> outcome (\<lambda>w. conforms w TyNumber) (fnDays rt [a, b])"
  by (drule conforms_date_cases)+ (auto simp: fnDays_def argAt_def Let_def)

lemma callValues_simps:
  "callValues rt ''today'' vs = Inr (VDate (rt_today rt))"
  "callValues rt ''isblank'' vs = rmap (\<lambda>v. VBoolean (isBlank v)) (argAt vs 0)"
  "callValues rt ''length'' vs =
     rbind (argAt vs 0) (\<lambda>v. fnText v (VNumber (rt_ofNat rt 0)) (\<lambda>s. VNumber (rt_ofNat rt (length s))))"
  "callValues rt ''lower'' vs = rbind (argAt vs 0) (\<lambda>v. fnText v VBlank (\<lambda>s. VText (toLowerCase s)))"
  "callValues rt ''upper'' vs = rbind (argAt vs 0) (\<lambda>v. fnText v VBlank (\<lambda>s. VText (rt_upper rt s)))"
  "callValues rt ''contains'' vs = fnContains vs"
  "callValues rt ''concat'' vs = Inr (VText (concat (map (concatText rt) vs)))"
  "callValues rt ''abs'' vs = rbind (argAt vs 0) (\<lambda>v. if isBlank v then Inr VBlank
          else rmap (\<lambda>got. VNumber (rt_abs rt (hd got))) (numbers vs))"
  "callValues rt ''round'' vs = fnRound rt vs"
  "callValues rt ''min'' vs = fnExtreme (rt_min rt) vs"
  "callValues rt ''max'' vs = fnExtreme (rt_max rt) vs"
  "callValues rt ''days'' vs = fnDays rt vs"
  by (simp_all add: callValues_def)

lemma callValues_typed:
  assumes "signature name = Some (ts, s)" and "list_all2 conforms vs ts"
  shows "outcome (\<lambda>w. conforms w s) (callValues rt name vs)"
proof -
  have abs: "outcome (\<lambda>w. conforms w TyNumber) (callValues rt ''abs'' [v])" if "conforms v TyNumber" for v
    using conforms_number_cases [OF that] by (auto simp: callValues_simps argAt_def)
  show ?thesis using signature_cases [OF assms(1)] assms(2)
    by (auto simp: list_all2_Cons2 callValues_simps(1-6,12) argAt_def
        intro!: abs fnText_typed fnContains_typed fnDays_typed)
qed

lemma evalArgs_typed:
  "list_all2 (\<lambda>e t. outcome (\<lambda>w. conforms w t) (evaluate rt row e)) es ts \<Longrightarrow>
   outcome (\<lambda>vs. list_all2 conforms vs ts) (evalArgs rt row es)"
  by (induction rule: list_all2_induct) (auto intro!: outcome_rbind outcome_rmap)

lemma evalArgs_all:
  "(\<And>e. e \<in> set es \<Longrightarrow> outcome P (evaluate rt row e)) \<Longrightarrow>
   outcome (\<lambda>vs. length vs = length es \<and> (\<forall>v\<in>set vs. P v)) (evalArgs rt row es)"
proof (induction es)
  case (Cons e es)
  have "outcome P (evaluate rt row e)"
    and "outcome (\<lambda>vs. length vs = length es \<and> (\<forall>v\<in>set vs. P v)) (evalArgs rt row es)"
    using Cons by simp_all
  then show ?case by (auto intro!: outcome_rbind outcome_rmap elim!: outcome_rbind outcome_rmap)
qed simp

lemma coalesce_typed:
  "(\<And>e. e \<in> set es \<Longrightarrow> outcome (\<lambda>w. conforms w t) (evaluate rt row e)) \<Longrightarrow>
   outcome (\<lambda>w. conforms w t) (coalesce rt row es)"
  by (induction es) (auto intro!: outcome_rbind)

lemma some_type: "list_ex (hasType \<Gamma> e) TYPES \<Longrightarrow> \<exists>t. hasType \<Gamma> e t"
  by (auto simp: list_ex_iff)

lemma evaluate_call_typed:
  assumes IH: "\<And>e t. e \<in> set args \<Longrightarrow> hasType \<Gamma> e t \<Longrightarrow> outcome (\<lambda>w. conforms w t) (evaluate rt row e)"
    and ty: "hasType \<Gamma> (Call name args) t"
  shows "outcome (\<lambda>w. conforms w t) (evaluate rt row (Call name args))"
proof -
  have any: "outcome (\<lambda>vs. length vs = length args) (evalArgs rt row args)"
    if "\<forall>e\<in>set args. list_ex (hasType \<Gamma> e) TYPES"
  proof (rule outcome_mono [OF evalArgs_all [where P = "\<lambda>_. True"]])
    fix e assume e: "e \<in> set args"
    with that obtain t where t: "hasType \<Gamma> e t" using some_type by blast
    show "outcome (\<lambda>_. True) (evaluate rt row e)" by (rule outcome_mono [OF IH [OF e t]]) simp
  qed simp
  have nums: "outcome (\<lambda>vs. length vs = length args \<and> (\<forall>v\<in>set vs. conforms v TyNumber)) (evalArgs rt row args)"
    if "\<forall>e\<in>set args. hasType \<Gamma> e TyNumber"
    using that IH by (intro evalArgs_all) auto
  consider "name = ''if''" | "name = ''coalesce''" | "name = ''concat''" | "name = ''isblank''"
    | "name = ''min'' \<or> name = ''max''" | "name = ''round''"
    | "name \<notin> {''if'', ''coalesce'', ''concat'', ''isblank'', ''min'', ''max'', ''round''}" by auto
  then show ?thesis
  proof cases
    case 1
    then obtain c a b where args: "args = [c, a, b]"
      and t: "hasType \<Gamma> c TyBoolean" "hasType \<Gamma> a t" "hasType \<Gamma> b t"
      using ty by (auto split: list.splits)
    show ?thesis using IH [OF _ t(1)] IH [OF _ t(2)] IH [OF _ t(3)] unfolding 1 args
      by (auto intro!: outcome_rbind elim!: conformsE)
  next
    case 2
    then show ?thesis using ty IH by (auto intro!: coalesce_typed)
  next
    case 3
    then show ?thesis using ty any by (auto simp: callValues_simps intro!: outcome_rbind)
  next
    case 4
    then show ?thesis using ty any by (auto simp: callValues_simps argAt_def intro!: outcome_rbind)
  next
    case 5
    then have all: "\<forall>e\<in>set args. hasType \<Gamma> e TyNumber" and t: "t = TyNumber" using ty by auto
    have "outcome (\<lambda>w. conforms w TyNumber) (callValues rt name vs)" if "\<forall>v\<in>set vs. conforms v TyNumber" for vs
      using 5 that fnExtreme_typed [of vs] by (auto simp: callValues_simps)
    then have "outcome (\<lambda>w. conforms w t) (rbind (evalArgs rt row args) (callValues rt name))"
      unfolding t by (intro outcome_rbind [OF nums [OF all]]) simp
    then show ?thesis using 5 by auto
  next
    case 6
    then obtain a ws where args: "args = a # ws" "ws = [] \<or> (\<exists>k. ws = [Number k])" "hasType \<Gamma> a TyNumber"
      and t: "t = TyNumber" using ty by (auto split: list.splits expr.splits)
    have "outcome (\<lambda>w. conforms w TyNumber) (evaluate rt row a)" using IH [OF _ args(3)] args(1) by simp
    then show ?thesis using args(2) unfolding 6 args(1) t
      by (cases "evaluate rt row a") (auto simp: callValues_simps intro!: fnRound_typed)
  next
    case 7
    then obtain ts where sig: "signature name = Some (ts, t)" and l: "list_all2 (hasType \<Gamma>) args ts"
      using ty by (auto split: option.splits)
    have "list_all2 (\<lambda>e t. outcome (\<lambda>w. conforms w t) (evaluate rt row e)) args ts"
      using l IH by (auto simp: list_all2_conv_all_nth)
    then show ?thesis using 7 callValues_typed [OF sig]
      by (auto intro: outcome_rbind [OF evalArgs_typed])
  qed
qed

lemma evaluate_typed:
  assumes row: "rowTyped \<Gamma> row"
  shows "hasType \<Gamma> e t \<Longrightarrow> outcome (\<lambda>w. conforms w t) (evaluate rt row e)"
proof (induction e arbitrary: t)
  case (Field name fieldId)
  then show ?case using row by (auto simp: rowTyped_def split: option.splits)
next
  case (Unary op e)
  then show ?case by (auto intro!: outcome_rbind applyUnary_typed)
next
  case (Binary op l r)
  note l = Binary.IH(1) and r = Binary.IH(2) and ty = Binary.prems
  consider "op \<in> {And, Or}" | "op \<in> {Plus, Minus, Times, Divide}" | "op \<notin> {And, Or, Plus, Minus, Times, Divide}"
    by auto
  then show ?case
  proof cases
    case 1
    then have t: "t = TyBoolean" "hasType \<Gamma> l TyBoolean" "hasType \<Gamma> r TyBoolean" using ty by auto
    show ?thesis using 1 t l [OF t(2)] r [OF t(3)]
      by (cases "evaluate rt row l"; cases "evaluate rt row r") (auto elim!: conformsE split: if_splits)
  next
    case 2
    then have t: "hasType \<Gamma> l t" "hasType \<Gamma> r t" "t = TyNumber \<or> op = Plus \<and> t = TyText"
      using ty by (auto split: if_splits)
    have "outcome (\<lambda>w. conforms w t) (rbind (evaluate rt row l) (\<lambda>left. rbind (evaluate rt row r) (applyBinary rt op left)))"
      using applyBinary_arith_typed [OF _ _ 2 t(3)]
      by (blast intro: outcome_rbind [OF l [OF t(1)]] outcome_rbind [OF r [OF t(2)]])
    with 2 show ?thesis by auto
  next
    case 3
    then obtain s where t: "hasType \<Gamma> l s" "hasType \<Gamma> r s" "s \<noteq> TyBoolean" "t = TyBoolean"
      using ty by auto
    show ?thesis using 3 t(4)
      by (auto intro!: outcome_rbind [OF l [OF t(1)]] outcome_rbind [OF r [OF t(2)]]
          applyBinary_compare_typed [OF _ _ t(3)])
  qed
next
  case (Call name args)
  then show ?case by (intro evaluate_call_typed)
qed simp_all


section \<open>Properties\<close>

text \<open>C12: no coercion that guesses, and none that is needed. A formula that the type assignment
  accepts, on a row whose cells have the types of their columns, evaluates to an empty value or to a
  value of the formula's type. The only failures left are division by zero and an unreadable date: no
  type mismatch, no wrong arity, no unknown field or function, and no throw.\<close>

theorem evaluate_type_sound:
  assumes "hasType \<Gamma> e t" and "rowTyped \<Gamma> row"
  shows "case evaluate rt row e of
           Inl f \<Rightarrow> f \<in> {EvalError DivideByZero None, EvalError NotADate None}
         | Inr v \<Rightarrow> conforms v t"
  using evaluate_typed [OF assms(2,1), of rt] by (cases "evaluate rt row e") auto

text \<open>JavaScript numbers stand in as integers in the samples, dates as their length.\<close>

definition sampleRuntime :: "int runtime" where
  "sampleRuntime =
     \<lparr>rt_add = (+), rt_sub = (-), rt_mul = (*), rt_div = (div), rt_pow = (\<lambda>a b. a ^ nat b), rt_neg = uminus,
      rt_abs = abs, rt_trunc = (\<lambda>n. n), rt_round = (\<lambda>n. n), rt_min = min, rt_max = max,
      rt_lt0 = (\<lambda>n. n < 0), rt_eq0 = (\<lambda>n. n = 0), rt_gt0 = (\<lambda>n. 0 < n), rt_isNaN = (\<lambda>n. n = 0),
      rt_ofNat = int, rt_show = (\<lambda>n. if n < 0 then ''-'' else ''+''), rt_parseDate = (\<lambda>s. int (length s)),
      rt_upper = (\<lambda>s. s), rt_today = ''2026-01-01''\<rparr>"

definition sampleTypes :: "string \<Rightarrow> ty option" where
  "sampleTypes = map_of [(''p'', TyNumber), (''q'', TyNumber), (''n'', TyText)]"

definition sampleRow :: "int row" where
  "sampleRow = map_of [(''p'', VNumber 7), (''n'', VText ''pen'')]"

definition sampleFormula :: "int expr" where
  "sampleFormula = Call ''if''
     [Binary Greater (Field ''Price'' (Some ''p'')) (Number 5),
      Binary Plus (Field ''Name'' (Some ''n'')) (Text ''!''),
      Call ''concat'' [Binary Times (Field ''Price'' (Some ''p'')) (Field ''Qty'' (Some ''q''))]]"

lemma sample_typed: "hasType sampleTypes sampleFormula TyText" "rowTyped sampleTypes sampleRow"
  by (simp_all add: sampleTypes_def sampleFormula_def sampleRow_def rowTyped_def TYPES_def)

lemma evaluate_type_sound_witness:
  "evaluate sampleRuntime sampleRow sampleFormula = Inr (VText ''pen!'') \<and>
   conforms (VText ''pen!'' :: int val) TyText"
proof -
  have "evaluate sampleRuntime sampleRow sampleFormula = Inr (VText ''pen!'')"
    by (simp add: sampleRuntime_def sampleRow_def sampleFormula_def applyBinary_def signOf_def holds_def)
  with evaluate_type_sound [OF sample_typed, of sampleRuntime] show ?thesis by simp
qed

section \<open>Columns\<close>

text \<open>The columns a formula names.\<close>

fun fieldNames :: "'n expr \<Rightarrow> string set" where
  "fieldNames (Field name _) = {name}"
| "fieldNames (Unary _ e) = fieldNames e"
| "fieldNames (Binary _ l r) = fieldNames l \<union> fieldNames r"
| "fieldNames (Call _ args) = (\<Union>a\<in>set args. fieldNames a)"
| "fieldNames _ = {}"

lemma fieldsWalk_set: "set (fieldsWalk e found) = fieldNames e \<union> set found"
proof (induction e arbitrary: found)
  case (Call name args)
  then have "set (fold fieldsWalk args found) = (\<Union>a\<in>set args. fieldNames a) \<union> set found"
    by (induction args arbitrary: found) auto
  then show ?case by simp
qed (auto simp: setAdd_def)

lemma fieldsUsed_set: "set (fieldsUsed e) = fieldNames e"
  by (simp add: fieldsUsed_def fieldsWalk_set)

definition known :: "eval_failure + 'a \<Rightarrow> bool" where
  "known r = (\<forall>d. r \<noteq> Inl (EvalError UnknownField d))"

lemma known_simps [simp]: "known (Inr v)" "known (Inl (EvalError c d)) = (c \<noteq> UnknownField)" "known (Inl Crash)"
  by (auto simp: known_def)

lemma known_rbind: "known r \<Longrightarrow> (\<And>v. known (k v)) \<Longrightarrow> known (rbind r k)"
  by (cases r) (auto simp: known_def)

lemma known_rmap [simp]: "known (rmap f r) = known r"
  by (cases r) (auto simp: known_def)

lemma known_asNumber [simp]: "known (asNumber v)"
  by (cases v) auto

lemma known_numbers [simp]: "known (numbers vs)"
  by (induction vs) (auto intro!: known_rbind)

lemma known_compare [simp]: "known (compare rt l r)"
  by (cases l; cases r) (auto simp: mismatch_def)

lemma known_applyBinary [simp]: "known (applyBinary rt op l r)"
  by (auto simp: applyBinary_def arith_def intro!: known_rbind split: val.splits)

lemma known_applyUnary [simp]: "known (applyUnary rt op v)"
  by (cases op; cases v) (auto simp: mismatch_def)

lemma known_argAt [simp]: "known (argAt vs i)"
  by (auto simp: argAt_def)

lemma known_fnText [simp]: "known (fnText v b f)"
  by (auto simp: fnText_def mismatch_def split: val.splits)

lemma known_fnContains [simp]: "known (fnContains vs)"
proof -
  have "known (case (h, n) of (VText h, VText n) \<Rightarrow> Inr (VBoolean (sublistText h n))
               | _ \<Rightarrow> Inl (mismatch (kindOf h @ ''/'' @ kindOf n)))" for h n :: "'n val"
    by (cases h; cases n) (simp_all add: mismatch_def)
  then show ?thesis by (auto simp: fnContains_def intro!: known_rbind)
qed

lemma known_fnDays [simp]: "known (fnDays rt vs)"
proof -
  have "known (case (h, n) of
                 (VDate f, VDate t) \<Rightarrow>
                   (let a = rt_parseDate rt f; b = rt_parseDate rt t in
                    if rt_isNaN rt a \<or> rt_isNaN rt b then Inl (EvalError NotADate None)
                    else Inr (VNumber (rt_trunc rt (rt_div rt (rt_sub rt b a) (rt_ofNat rt DAY)))))
               | _ \<Rightarrow> Inl (EvalError NotADate (Some (kindOf h @ ''/'' @ kindOf n))))" for h n
    by (cases h; cases n) (simp_all add: Let_def)
  then show ?thesis by (auto simp: fnDays_def intro!: known_rbind)
qed

lemma known_callValues [simp]: "known (callValues rt name vs)"
  by (simp add: callValues_def fnRound_def fnExtreme_def Let_def known_rbind)

lemma known_evalArgs: "(\<And>e. e \<in> set es \<Longrightarrow> known (evaluate rt row e)) \<Longrightarrow> known (evalArgs rt row es)"
  by (induction es) (auto intro!: known_rbind)

lemma known_coalesce: "(\<And>e. e \<in> set es \<Longrightarrow> known (evaluate rt row e)) \<Longrightarrow> known (coalesce rt row es)"
  by (induction es) (auto intro!: known_rbind)

lemma known_binary:
  assumes "known (evaluate rt row l)" and "known (evaluate rt row r)"
  shows "known (evaluate rt row (Binary op l r))"
proof -
  have right: "known (rbind (evaluate rt row r) (\<lambda>right.
                (case right of VBlank \<Rightarrow> Inr VBlank | VBoolean b \<Rightarrow> Inr (VBoolean b)
                 | _ \<Rightarrow> Inl (mismatch (kindOf right)))))"
    using assms(2) by (rule known_rbind) (simp add: mismatch_def split: val.split)
  have both: "known (rbind (evaluate rt row r) (applyBinary rt op left))" for left
    using assms(2) by (rule known_rbind) simp
  show ?thesis unfolding evaluate.simps
  proof (rule known_rbind [OF assms(1)], goal_cases)
    case (1 left)
    show ?case using right both by (cases left) (auto simp: mismatch_def)
  qed
qed

lemma known_call:
  assumes "\<And>e. e \<in> set args \<Longrightarrow> known (evaluate rt row e)"
  shows "known (evaluate rt row (Call name args))"
proof -
  have "known (rbind (evaluate rt row t) (\<lambda>test.
               (case test of VBlank \<Rightarrow> Inr VBlank
                | VBoolean c \<Rightarrow> if c then evaluate rt row a else evaluate rt row b
                | _ \<Rightarrow> Inl (mismatch (kindOf test)))))" if "args = [t, a, b]" for t a b
    using assms that by (intro known_rbind) (simp_all add: mismatch_def split: val.split)
  then show ?thesis
    using assms known_evalArgs [of args] known_coalesce [of args]
    by (simp add: known_rbind split: list.split)
qed

lemma bound_known:
  "\<forall>name\<in>fieldNames e. \<exists>i. idOf name = Some i \<and> i \<noteq> [] \<Longrightarrow> known (evaluate rt row (bindFormula e idOf))"
proof (induction e)
  case (Unary op e)
  then show ?case by (auto intro!: known_rbind)
next
  case (Binary op l r)
  then have "known (evaluate rt row (Binary op (bindFormula l idOf) (bindFormula r idOf)))"
    by (intro known_binary) auto
  then show ?case by (simp only: bindFormula.simps)
next
  case (Call name args)
  then have "known (evaluate rt row (Call name (map (\<lambda>a. bindFormula a idOf) args)))"
    by (intro known_call) auto
  then show ?case by (simp only: bindFormula.simps)
qed auto


text \<open>A saved formula does not lose its columns. When every column the formula names has an id at
  the time it is bound, evaluating the bound formula on any row never reports an unknown field,
  whatever the row holds and whichever other error it meets.\<close>

theorem bindFormula_resolves:
  assumes "\<forall>name\<in>set (fieldsUsed e). \<exists>i. idOf name = Some i \<and> i \<noteq> []"
  shows "evaluate rt row (bindFormula e idOf) \<noteq> Inl (EvalError UnknownField detail)"
  using bound_known [of e idOf rt row] assms by (auto simp: fieldsUsed_set known_def)

definition sampleText :: "int expr" where
  "sampleText = Binary Plus (Field ''Price'' None) (Call ''abs'' [Field ''Qty'' None])"

definition sampleIds :: "string \<Rightarrow> string option" where
  "sampleIds = map_of [(''Price'', ''p''), (''Qty'', ''q'')]"

theorem bindFormula_resolves_witness:
  "evaluate sampleRuntime sampleRow (bindFormula sampleText sampleIds) \<noteq> Inl (EvalError UnknownField (Some ''Price'')) \<and>
   evaluate sampleRuntime sampleRow sampleText = Inl (EvalError UnknownField (Some ''Price'')) \<and>
   evaluate sampleRuntime sampleRow (bindFormula sampleText sampleIds) = Inr VBlank"
proof (intro conjI)
  show "evaluate sampleRuntime sampleRow (bindFormula sampleText sampleIds) \<noteq> Inl (EvalError UnknownField (Some ''Price''))"
    by (rule bindFormula_resolves) (simp add: sampleText_def sampleIds_def fieldsUsed_def setAdd_def)
qed (simp_all add: sampleText_def sampleIds_def sampleRow_def sampleRuntime_def callValues_def argAt_def applyBinary_def)

lemma lower_abs: "toLowerCase ''abs'' = ''abs''"
  by code_simp

lemma tokenise_call:
  "tokenise readNumber 0 ''abs()'' = Inr [TName ''abs'' 0, TOp ''('' 3, TOp '')'' 4, TEnd 5]"
  by (simp add: isSpace_def startsNumber_def digitFirst_def pointDigit_def isDigit_def isNameStart_def isNameChar_def
      OPERATORS_def startsWith_def charCode_def numeral_2_eq_2 [symmetric])

lemma parse_call:
  "binaryLevel (Suc (Suc (Suc (Suc (Suc (Suc n)))))) 5 sh 0 0 ([TName ''abs'' 0, TOp ''('' 3, TOp '')'' 4, TEnd 5], None) =
   Some (Call ''abs'' [], [TEnd 5], None)"
proof -
  have "primary (Suc n) 5 sh 0 ([TName ''abs'' 0, TOp ''('' 3, TOp '')'' 4, TEnd 5], None) =
        Some (Call ''abs'' [], [TEnd 5], None)" for n
    by (simp add: peek_def advance_def isOp_def lower_abs MAX_DEPTH_def)
  moreover have "binaryLoop (Suc n) 5 sh l 0 e ([TEnd 5], None) = Some (e, [TEnd 5], None)" for n l e
    by (simp add: peek_def matchOp_def)
  ultimately show ?thesis by (simp only: binaryLevel.simps) simp
qed

lemma parse_call_fuel:
  "binaryLevel 39 5 sh 0 0 ([TName ''abs'' 0, TOp ''('' 3, TOp '')'' 4, TEnd 5], None) = Some (Call ''abs'' [], [TEnd 5], None)"
proof -
  have "(39::nat) = Suc (Suc (Suc (Suc (Suc (Suc 33)))))" by simp
  then show ?thesis by (simp only: parse_call)
qed

lemma parseTokens_call:
  fixes sh :: "'a \<Rightarrow> string"
  shows "parseTokens 5 sh [TName ''abs'' 0, TOp ''('' 3, TOp '')'' 4, TEnd 5] = Some (Inr (Call ''abs'' []))"
proof -
  have "8 * length [a, b, c, d] + 7 = (39::nat)" for a b c d :: "'a token" by simp
  then show ?thesis unfolding parseTokens_def
    by (simp only: parse_call_fuel option.map prod.case snd_conv fst_conv option.case peek_def list.case token.case)
qed

text \<open>Nothing compares a call with the arities that \<open>FUNCTIONS\<close> lists. The formula \<open>abs()\<close> parses,
  although \<open>abs\<close> takes one argument, and evaluating it throws on every row: it is neither a value nor one
  of the evaluator's errors.\<close>

theorem missing_argument_throws:
  "parseFormula readNumber sh ''abs()'' = Some (Inr (Call ''abs'' [])) \<and>
   map_of FUNCTIONS ''abs'' = Some (1, 1) \<and> evaluate rt row (Call ''abs'' []) = Inl Crash"
proof (intro conjI)
  show "evaluate rt row (Call ''abs'' []) = Inl Crash" by (simp add: callValues_def argAt_def)
  show "map_of FUNCTIONS ''abs'' = Some (1, 1)" by (simp add: FUNCTIONS_def)
  show "parseFormula readNumber sh ''abs()'' = Some (Inr (Call ''abs'' []))"
    using parseTokens_call [of sh]
    by (simp add: parseFormula_def tokenise_call MAX_FORMULA_def eval_nat_numeral del: tokenise.simps)
qed

end
