(* ===== verification/Search_Query.thy ===== *)
theory Search_Query
  imports Sone_Prelude
begin

text \<open>
  \<^verbatim>\<open>packages/core/src/search/query.ts\<close>: reading filters out of a search query and writing them back.
  The regular expression that splits the query is \<open>queryTokens\<close>, \<open>Date.UTC\<close> and the accessors of a
  date are the day arithmetic of the language's definition. Looking a prefix up in an object literal
  also finds what every object inherits, which is the kind \<open>Inherited\<close>.
\<close>

section \<open>Dates\<close>

definition dayFromYear :: "int \<Rightarrow> int" where
  "dayFromYear y = 365 * (y - 1970) + (y - 1969) div 4 - (y - 1901) div 100 + (y - 1601) div 400"

definition leapYear :: "int \<Rightarrow> bool" where
  "leapYear y = (y mod 4 = 0 \<and> (y mod 100 \<noteq> 0 \<or> y mod 400 = 0))"

text \<open>The days before each month, and before the end of the year.\<close>

definition monthStarts :: "int \<Rightarrow> int list" where
  "monthStarts y =
     (let l = (if leapYear y then 1 else 0) in
      [0, 31, 59 + l, 90 + l, 120 + l, 151 + l, 181 + l, 212 + l, 243 + l, 273 + l, 304 + l, 334 + l, 365 + l])"

definition makeDay :: "int \<Rightarrow> int \<Rightarrow> int \<Rightarrow> int" where
  "makeDay year month date =
     (let ym = year + month div 12; mn = month mod 12
      in dayFromYear ym + monthStarts ym ! nat mn + date - 1)"

text \<open>A year below 100 counts from 1900.\<close>

definition dateUTC :: "int \<Rightarrow> int \<Rightarrow> int \<Rightarrow> int" where
  "dateUTC year month date = makeDay (if 0 \<le> year \<and> year \<le> 99 then 1900 + year else year) month date"

text \<open>The year a day lies in; the estimate is off by at most one.\<close>

definition yearOf :: "int \<Rightarrow> int" where
  "yearOf d =
     (let y = 1970 + (400 * d) div 146097 in
      if d < dayFromYear y then y - 1 else if dayFromYear (y + 1) \<le> d then y + 1 else y)"

definition monthOf :: "int \<Rightarrow> nat" where
  "monthOf d =
     (let y = yearOf d; off = d - dayFromYear y in length (filter (\<lambda>s. s \<le> off) (tl (monthStarts y))))"

definition dateOf :: "int \<Rightarrow> int" where
  "dateOf d = (let y = yearOf d in d - dayFromYear y - monthStarts y ! monthOf d + 1)"

definition isDigitChar :: "char \<Rightarrow> bool" where
  "isDigitChar c = (48 \<le> charCode c \<and> charCode c \<le> 57)"

definition toNumber :: "string \<Rightarrow> int" where
  "toNumber s = foldl (\<lambda>n c. 10 * n + (of_nat (charCode c) - 48)) 0 s"

text \<open>\<open>/^\d{4}-\d{2}-\d{2}$/\<close>\<close>

definition dateShape :: "string \<Rightarrow> bool" where
  "dateShape v =
     (length v = 10 \<and> v ! 4 = CHR ''-'' \<and> v ! 7 = CHR ''-'' \<and>
      list_all isDigitChar (take 4 v) \<and> list_all isDigitChar (take 2 (drop 5 v)) \<and> list_all isDigitChar (drop 8 v))"

definition yearDigits :: "string \<Rightarrow> int" where
  "yearDigits v = toNumber (take 4 v)"

definition monthDigits :: "string \<Rightarrow> int" where
  "monthDigits v = toNumber (take 2 (drop 5 v))"

definition dayDigits :: "string \<Rightarrow> int" where
  "dayDigits v = toNumber (drop 8 v)"

definition readDate :: "string \<Rightarrow> string option" where
  "readDate v =
     (if \<not> dateShape v then None
      else let year = yearDigits v; month = monthDigits v; day = dayDigits v;
               date = dateUTC year (month - 1) day
           in if yearOf date = year \<and> int (monthOf date) = month - 1 \<and> dateOf date = day then Some v else None)"

section \<open>Filters\<close>

datatype filter_kind = KTag | KAuthor | KAfter | KBefore | KAssigned | KIn | Inherited

record unreadable_filter =
  uf_prefix :: filter_kind
  uf_value :: string

record search_filters =
  sf_assigned :: "string list"
  sf_tags :: "string list"
  sf_in :: "string list"
  sf_authors :: "string list"
  sf_after :: "string option"
  sf_before :: "string option"
  sf_text :: string
  sf_unreadable :: "unreadable_filter list"

definition PREFIXES :: "(string \<times> filter_kind) list" where
  "PREFIXES =
     [(''assigned'', KAssigned), (''zugewiesen'', KAssigned), (''in'', KIn), (''ordner'', KIn), (''folder'', KIn),
      (''tag'', KTag), (''schlagwort'', KTag), (''author'', KAuthor), (''autor'', KAuthor),
      (''after'', KAfter), (''ab'', KAfter), (''seit'', KAfter),
      (''before'', KBefore), (''bis'', KBefore), (''vor'', KBefore)]"

text \<open>The lower-case names among what every object inherits.\<close>

definition prefixKind :: "string \<Rightarrow> filter_kind option" where
  "prefixKind p =
     (case map_of PREFIXES p of
        Some k \<Rightarrow> Some k
      | None \<Rightarrow> if p = ''constructor'' \<or> p = ''__proto__'' then Some Inherited else None)"

section \<open>Reading\<close>

definition isQuote :: "char \<Rightarrow> bool" where
  "isQuote c = (c = CHR 0x22)"

text \<open>\<open>[^\s"]*"[^"]*"\<close> at the front of the text, if it matches there.\<close>

definition quotedMatch :: "string \<Rightarrow> string option" where
  "quotedMatch s =
     (let run = takeWhile (\<lambda>c. \<not> isSpace c \<and> \<not> isQuote c) s; rest = drop (length run) s
      in case rest of
           [] \<Rightarrow> None
         | c # others \<Rightarrow>
             if isQuote c \<and> (\<exists>x\<in>set others. isQuote x)
             then Some (run @ [c] @ takeWhile (\<lambda>x. \<not> isQuote x) others @ [CHR 0x22])
             else None)"

lemma quotedMatch_pos: "quotedMatch s = Some t \<Longrightarrow> 0 < length t"
  by (auto simp: quotedMatch_def Let_def split: list.splits if_splits)

text \<open>\<open>raw.match(/[^\s"]*"[^"]*"|[^\s]+/g)\<close>\<close>

function queryTokens :: "string \<Rightarrow> string list" where
  "queryTokens [] = []"
| "queryTokens (c # cs) =
     (case quotedMatch (c # cs) of
        Some t \<Rightarrow> t # queryTokens (drop (length t) (c # cs))
      | None \<Rightarrow>
          if isSpace c then queryTokens cs
          else let w = takeWhile (\<lambda>x. \<not> isSpace x) (c # cs) in w # queryTokens (drop (length w) (c # cs)))"
  by pat_completeness auto
termination
  by (relation "measure length") (auto dest: quotedMatch_pos)

text \<open>\<open>replace(/^"|"$/g, '')\<close>\<close>

definition stripQuotes :: "string \<Rightarrow> string" where
  "stripQuotes s =
     (let s1 = (case s of c # cs \<Rightarrow> if isQuote c then cs else s | [] \<Rightarrow> [])
      in if s1 \<noteq> [] \<and> isQuote (last s1) then butlast s1 else s1)"

definition indexOfColon :: "string \<Rightarrow> nat option" where
  "indexOfColon t = (if CHR '':'' \<in> set t then Some (length (takeWhile (\<lambda>c. c \<noteq> CHR '':'') t)) else None)"

text \<open>The kind and value a token gives, if it is a filter.\<close>

definition filterOf :: "string \<Rightarrow> (filter_kind \<times> string) option" where
  "filterOf t =
     (case indexOfColon t of
        None \<Rightarrow> None
      | Some at \<Rightarrow>
          if at = 0 then None
          else (case prefixKind (toLowerCase (take at t)) of
                  None \<Rightarrow> None
                | Some k \<Rightarrow> Some (k, trim (stripQuotes (drop (at + 1) t)))))"

definition applyFilter :: "filter_kind \<Rightarrow> string \<Rightarrow> search_filters \<Rightarrow> search_filters" where
  "applyFilter k v f =
     (if v = [] then f
      else case k of
        KIn \<Rightarrow> f\<lparr>sf_in := sf_in f @ [toLowerCase v]\<rparr>
      | KAssigned \<Rightarrow> f\<lparr>sf_assigned := sf_assigned f @ [toLowerCase v]\<rparr>
      | KTag \<Rightarrow> f\<lparr>sf_tags := sf_tags f @ [toLowerCase v]\<rparr>
      | KAuthor \<Rightarrow> f\<lparr>sf_authors := sf_authors f @ [toLowerCase v]\<rparr>
      | _ \<Rightarrow>
          (case readDate v of
             None \<Rightarrow> f\<lparr>sf_unreadable := sf_unreadable f @ [\<lparr>uf_prefix = k, uf_value = v\<rparr>]\<rparr>
           | Some d \<Rightarrow> if k = KAfter then f\<lparr>sf_after := Some d\<rparr> else f\<lparr>sf_before := Some d\<rparr>))"

fun readTokens :: "string list \<Rightarrow> search_filters \<Rightarrow> string list \<Rightarrow> search_filters \<times> string list" where
  "readTokens [] f words = (f, words)"
| "readTokens (t # ts) f words =
     (case filterOf t of
        None \<Rightarrow> readTokens ts f (words @ [t])
      | Some (k, v) \<Rightarrow> readTokens ts (applyFilter k v f) words)"

definition noFilters :: search_filters where
  "noFilters = \<lparr>sf_assigned = [], sf_tags = [], sf_in = [], sf_authors = [], sf_after = None, sf_before = None,
     sf_text = [], sf_unreadable = []\<rparr>"

definition parseSearchQuery :: "string \<Rightarrow> search_filters" where
  "parseSearchQuery raw =
     (let (f, words) = readTokens (queryTokens raw) noFilters []
      in f\<lparr>sf_text := trim (join '' '' words)\<rparr>)"

definition hasSearchCriteria :: "search_filters \<Rightarrow> bool" where
  "hasSearchCriteria f =
     (2 \<le> length (sf_text f) \<or> 0 < length (sf_tags f) \<or> 0 < length (sf_in f) \<or> 0 < length (sf_assigned f) \<or>
      0 < length (sf_authors f) \<or> sf_after f \<noteq> None \<or> sf_before f \<noteq> None)"

section \<open>Writing\<close>

definition writeFilter :: "string \<Rightarrow> string \<Rightarrow> string" where
  "writeFilter prefix v =
     prefix @ '':'' @
     (if \<exists>c\<in>set v. isSpace c \<or> isQuote c
      then [CHR 0x22] @ filter (\<lambda>c. \<not> isQuote c) v @ [CHR 0x22] else v)"

text \<open>A date is written when it is neither absent nor the empty string.\<close>

definition dateParts :: "string \<Rightarrow> string option \<Rightarrow> string list" where
  "dateParts prefix d = (case d of None \<Rightarrow> [] | Some v \<Rightarrow> if v = [] then [] else [writeFilter prefix v])"

definition filterParts :: "search_filters \<Rightarrow> string list" where
  "filterParts f =
     map (writeFilter ''tag'') (sf_tags f) @ map (writeFilter ''in'') (sf_in f) @
     map (writeFilter ''author'') (sf_authors f) @ map (writeFilter ''assigned'') (sf_assigned f) @
     dateParts ''after'' (sf_after f) @ dateParts ''before'' (sf_before f)"

definition buildSearchQuery :: "search_filters \<Rightarrow> string" where
  "buildSearchQuery f =
     join '' '' (filterParts f @ (if sf_text f \<noteq> [] then [sf_text f] else []))"

end
