(* ===== verification/Query_Dates.thy ===== *)
theory Query_Dates
  imports Search_Query
begin

text \<open>
  The calendar behind \<open>readDate\<close>: the year of a day is well defined, every day decodes to a day of a
  month, and encoding a real day decodes to itself. So building a date and comparing it with what was
  typed accepts exactly the days of the calendar.
\<close>

definition daysInMonth :: "int \<Rightarrow> int \<Rightarrow> int" where
  "daysInMonth y m = (if m = 2 then (if leapYear y then 29 else 28) else if m \<in> {4, 6, 9, 11} then 30 else 31)"

definition yearLength :: "int \<Rightarrow> int" where
  "yearLength y = (if leapYear y then 366 else 365)"

lemma div_bounds: "0 < k \<Longrightarrow> k * (n div k) \<le> n \<and> n < k * (n div k) + (k::int)"
  using minus_mod_eq_mult_div [of n k] pos_mod_sign [of k n] pos_mod_bound [of k n] by linarith

lemma div_step: "0 < k \<Longrightarrow> (n + 1) div k = n div k + (if (n + 1) mod k = 0 then 1 else (0::int))"
proof -
  assume k: "0 < k"
  have n: "n = k * (n div k) + n mod k" by simp
  have b: "0 \<le> n mod k" "n mod k < k" using k by simp_all
  show ?thesis
  proof (cases "n mod k + 1 = k")
    case True
    then have "n + 1 = k * (n div k + 1)" unfolding distrib_left using n by linarith
    then show ?thesis using k by (metis mod_mult_self1_is_0 nonzero_mult_div_cancel_left order_less_irrefl)
  next
    case False
    have e: "n + 1 = k * (n div k) + (n mod k + 1)" using n by linarith
    have "(n + 1) div k = n div k" using False b by (intro int_div_pos_eq [OF e]) simp_all
    moreover have "(n + 1) mod k = n mod k + 1" using False b by (intro int_mod_pos_eq [OF e]) simp_all
    ultimately show ?thesis using b by simp
  qed
qed

lemma div_offset:
  assumes "0 < k" and "k dvd c" and "c' = c + 1"
  shows "(y - c) div k = (y - c') div k + (if y mod k = 0 then 1 else (0::int))"
proof -
  have e: "y - (c + 1) + 1 = y - c" by simp
  have "(y - c) mod k = 0 \<longleftrightarrow> y mod k = 0" using assms(2) by (simp add: mod_eq_0_iff_dvd dvd_diff_left_iff)
  with div_step [OF assms(1), of "y - (c + 1)"] show ?thesis unfolding e assms(3) by (simp only:)
qed

lemma leap_sum:
  fixes y :: int
  assumes "m400 \<longrightarrow> m100" and "m100 \<longrightarrow> m4" and "a' = a + (if m4 then 1 else 0)"
    and "b' = b + (if m100 then 1 else 0)" and "c' = c + (if m400 then 1 else 0)"
  shows "365 * (y + 1 - 1970) + a' - b' + c' =
    365 * (y - 1970) + a - b + c + (if m4 \<and> (\<not> m100 \<or> m400) then 366 else 365)"
  unfolding assms(3-5) using assms(1,2) by (cases m4; cases m100; cases m400) simp_all

lemma dayFromYear_Suc: "dayFromYear (y + 1) = dayFromYear y + yearLength y"
proof -
  have "(y - 1968) div 4 = (y - 1969) div 4 + (if y mod 4 = 0 then 1 else 0)"
    and "(y - 1900) div 100 = (y - 1901) div 100 + (if y mod 100 = 0 then 1 else 0)"
    and "(y - 1600) div 400 = (y - 1601) div 400 + (if y mod 400 = 0 then 1 else 0)"
    by (rule div_offset; simp)+
  moreover have "y mod 400 = 0 \<longrightarrow> y mod 100 = 0" "y mod 100 = 0 \<longrightarrow> y mod 4 = 0"
    using dvd_trans [of 100 400 y] dvd_trans [of 4 100 y] by (simp_all add: mod_eq_0_iff_dvd)
  moreover have "y + 1 - 1969 = y - 1968" "y + 1 - 1901 = y - 1900" "y + 1 - 1601 = y - 1600" by simp_all
  ultimately show ?thesis unfolding dayFromYear_def yearLength_def leapYear_def by (simp only: leap_sum)
qed

lemma dayFromYear_mono: "y \<le> z \<Longrightarrow> dayFromYear y \<le> dayFromYear z"
proof (induction z rule: int_ge_induct)
  case (step z)
  then show ?case using dayFromYear_Suc [of z] by (simp add: yearLength_def split: if_splits)
qed simp

lemma dayFromYear_near:
  "400 * dayFromYear (1970 + x) \<le> 146097 * x + 589" "146097 * x - 506 \<le> 400 * dayFromYear (1970 + x)"
  using div_bounds [of 4 "x + 1"] div_bounds [of 100 "x + 69"] div_bounds [of 400 "x + 369"]
  by (simp_all add: dayFromYear_def algebra_simps)

lemma yearOf_bounds: "dayFromYear (yearOf d) \<le> d \<and> d < dayFromYear (yearOf d + 1)"
proof -
  define q where "q = (400 * d) div 146097"
  have q: "146097 * q \<le> 400 * d" "400 * d < 146097 * q + 146097"
    using div_bounds [of 146097 "400 * d"] by (simp_all add: q_def)
  have lo: "dayFromYear (1970 + q - 1) \<le> d" using dayFromYear_near(1) [of "q - 1"] q by simp
  have hi: "d < dayFromYear (1970 + q + 1 + 1)" using dayFromYear_near(2) [of "q + 2"] q by (simp add: algebra_simps)
  show ?thesis using lo hi by (auto simp: yearOf_def Let_def q_def [symmetric])
qed

lemma yearOf_unique:
  assumes "dayFromYear y \<le> d" and "d < dayFromYear (y + 1)"
  shows "yearOf d = y"
proof -
  have "yearOf d + 1 \<le> y \<Longrightarrow> False" using dayFromYear_mono [of "yearOf d + 1" y] yearOf_bounds [of d] assms by simp
  moreover have "y + 1 \<le> yearOf d \<Longrightarrow> False" using dayFromYear_mono [of "y + 1" "yearOf d"] yearOf_bounds [of d] assms by simp
  ultimately show ?thesis by force
qed

lemma upto_12: "{..<12::nat} = {0, 1, 2, 3, 4, 5, 6, 7, 8, 9, 10, 11}"
  by (auto simp: lessThan_nat_numeral lessThan_Suc)

lemma monthStarts_step:
  "m < 12 \<Longrightarrow> monthStarts y ! Suc m = monthStarts y ! m + daysInMonth y (int m + 1)"
proof -
  assume "m < 12"
  then have "m \<in> {..<12}" by simp
  then show ?thesis unfolding upto_12 by (auto simp: monthStarts_def daysInMonth_def Let_def)
qed

lemma monthStarts_simps: "length (monthStarts y) = 13" "monthStarts y ! 0 = 0" "monthStarts y ! 12 = yearLength y"
  by (simp_all add: monthStarts_def yearLength_def Let_def)

lemma daysInMonth_pos: "1 \<le> daysInMonth y m"
  by (simp add: daysInMonth_def)

lemma monthStarts_mono: "i \<le> j \<Longrightarrow> j \<le> 12 \<Longrightarrow> monthStarts y ! i \<le> monthStarts y ! j"
proof (induction j rule: dec_induct)
  case (step j)
  then show ?case using monthStarts_step [of j y] daysInMonth_pos [of y "int j + 1"] by simp
qed simp

text \<open>How many of the later months have begun.\<close>

lemma months_begun:
  assumes "m < 12" and "monthStarts y ! m \<le> off" and "off < monthStarts y ! Suc m"
  shows "length (filter (\<lambda>s. s \<le> off) (tl (monthStarts y))) = m"
proof -
  have "monthStarts y ! Suc i \<le> off \<longleftrightarrow> i < m" if "i < 12" for i
    using that assms monthStarts_mono [of "Suc i" m y] monthStarts_mono [of "Suc m" "Suc i" y] by force
  then have "{i. i < length (tl (monthStarts y)) \<and> tl (monthStarts y) ! i \<le> off} = {..<m}"
    using assms(1) by (auto simp: monthStarts_simps nth_tl)
  then show ?thesis by (simp add: length_filter_conv_card)
qed

lemma month_exists:
  assumes "0 \<le> off" and "off < yearLength y"
  shows "\<exists>m<12. monthStarts y ! m \<le> off \<and> off < monthStarts y ! Suc m"
proof (rule ccontr)
  assume no: "\<not> ?thesis"
  have "m \<le> 12 \<Longrightarrow> monthStarts y ! m \<le> off" for m
  proof (induction m)
    case 0
    then show ?case using assms(1) by (simp add: monthStarts_simps)
  next
    case (Suc m)
    then show ?case using no by force
  qed
  from this [of 12] show False using assms(2) by (simp add: monthStarts_simps)
qed

text \<open>Every day is a day of a month of a year, and reading it back from them gives the same day.\<close>

definition realDay :: "int \<Rightarrow> int \<Rightarrow> int \<Rightarrow> bool" where
  "realDay y m d = (1 \<le> m \<and> m \<le> 12 \<and> 1 \<le> d \<and> d \<le> daysInMonth y m)"

lemma decode_real: "realDay (yearOf d) (int (monthOf d) + 1) (dateOf d)"
proof -
  have off: "0 \<le> d - dayFromYear (yearOf d)" "d - dayFromYear (yearOf d) < yearLength (yearOf d)"
    using yearOf_bounds [of d] dayFromYear_Suc [of "yearOf d"] by simp_all
  obtain m where m: "m < 12" "monthStarts (yearOf d) ! m \<le> d - dayFromYear (yearOf d)"
    "d - dayFromYear (yearOf d) < monthStarts (yearOf d) ! Suc m" using month_exists [OF off] by blast
  then have "monthOf d = m" by (simp add: monthOf_def Let_def months_begun)
  then show ?thesis using m monthStarts_step [OF m(1), of "yearOf d"] by (simp add: realDay_def dateOf_def Let_def)
qed

lemma decode_makeDay:
  assumes "realDay y m d"
  shows "yearOf (makeDay y (m - 1) d) = y" "int (monthOf (makeDay y (m - 1) d)) = m - 1" "dateOf (makeDay y (m - 1) d) = d"
proof -
  define i where "i = nat (m - 1)"
  have i: "i < 12" "m - 1 = int i" "m = int i + 1" using assms by (auto simp: i_def realDay_def)
  have eq: "makeDay y (m - 1) d = dayFromYear y + monthStarts y ! i + d - 1"
    using i by (simp add: makeDay_def Let_def)
  have d: "1 \<le> d" "d \<le> daysInMonth y (int i + 1)" using assms i by (simp_all add: realDay_def)
  have off: "monthStarts y ! i \<le> monthStarts y ! i + d - 1" "monthStarts y ! i + d - 1 < monthStarts y ! Suc i"
    using d monthStarts_step [OF i(1), of y] by simp_all
  have year: "yearOf (dayFromYear y + monthStarts y ! i + d - 1) = y"
    using off monthStarts_mono [of 0 i y] monthStarts_mono [of "Suc i" 12 y] i(1)
    by (intro yearOf_unique) (simp_all add: monthStarts_simps dayFromYear_Suc)
  have month: "monthOf (dayFromYear y + monthStarts y ! i + d - 1) = i"
    using months_begun [OF i(1) off] unfolding monthOf_def Let_def year by (simp add: algebra_simps)
  show "yearOf (makeDay y (m - 1) d) = y" "int (monthOf (makeDay y (m - 1) d)) = m - 1" "dateOf (makeDay y (m - 1) d) = d"
    unfolding eq using year month i(2) by (simp_all add: dateOf_def Let_def)
qed

lemma toNumber_nonneg: "list_all isDigitChar s \<Longrightarrow> 0 \<le> toNumber s"
proof -
  have "0 \<le> n \<Longrightarrow> list_all isDigitChar s \<Longrightarrow> 0 \<le> foldl (\<lambda>n c. 10 * n + (int (charCode c) - 48)) n s" for n :: int
    by (induction s arbitrary: n) (auto simp: isDigitChar_def)
  then show "list_all isDigitChar s \<Longrightarrow> 0 \<le> toNumber s" by (simp add: toNumber_def)
qed

text \<open>A date filter is accepted exactly when it names a day of the calendar. \<open>readDate\<close> builds a
  date, lets it roll over and compares; that accepts precisely the texts \<open>YYYY-MM-DD\<close> whose month
  exists, whose day that month has in that year, and whose year is at least 100.\<close>

theorem readDate_exact:
  "readDate v =
     (if dateShape v \<and> 100 \<le> yearDigits v \<and> realDay (yearDigits v) (monthDigits v) (dayDigits v) then Some v else None)"
proof (cases "dateShape v")
  case True
  let ?y = "yearDigits v" and ?m = "monthDigits v" and ?d = "dayDigits v"
  let ?date = "dateUTC ?y (?m - 1) ?d"
  have y0: "0 \<le> ?y" using True by (simp add: yearDigits_def dateShape_def toNumber_nonneg)
  have "(yearOf ?date = ?y \<and> int (monthOf ?date) = ?m - 1 \<and> dateOf ?date = ?d) \<longleftrightarrow> 100 \<le> ?y \<and> realDay ?y ?m ?d"
    (is "?same \<longleftrightarrow> ?real")
  proof
    assume same: ?same
    have real: "realDay ?y ?m ?d" using decode_real [of ?date] same by (simp add: algebra_simps)
    moreover have "100 \<le> ?y"
    proof (rule ccontr)
      assume "\<not> 100 \<le> ?y"
      then have century: "?date = makeDay (1900 + ?y) (?m - 1) ?d" using y0 by (simp add: dateUTC_def)
      have i: "nat (?m - 1) \<le> 12" "(?m - 1) div 12 = 0" "(?m - 1) mod 12 = ?m - 1" "1 \<le> ?d"
        using real by (auto simp: realDay_def)
      have "dayFromYear (1900 + ?y) \<le> ?date"
        using monthStarts_mono [of 0 "nat (?m - 1)" "1900 + ?y"] i
        unfolding century by (simp add: makeDay_def Let_def monthStarts_simps)
      moreover have "?date < dayFromYear (?y + 1)" using yearOf_bounds [of ?date] same by simp
      moreover have "dayFromYear (?y + 1) \<le> dayFromYear (1900 + ?y)" by (rule dayFromYear_mono) simp
      ultimately show False by simp
    qed
    ultimately show ?real by blast
  next
    assume real: ?real
    then have "?date = makeDay ?y (?m - 1) ?d" by (simp add: dateUTC_def)
    then show ?same using decode_makeDay real by simp
  qed
  with True show ?thesis by (simp add: readDate_def Let_def)
qed (simp add: readDate_def)
end
