(* ===== verification/Query_Roundtrip.thy ===== *)
theory Query_Roundtrip
  imports Search_Query
begin

text \<open>
  Reading a query that was written from filters gives the filters back. The tokens of a query are of
  three shapes (plain, quoted, and one with a quotation mark that nothing closes); splitting their
  concatenation finds them again, and a written filter is read as the same filter.
\<close>

section \<open>Quotation marks\<close>

lemma isQuote_code: "isQuote c \<longleftrightarrow> charCode c = 34"
  using charCode_inj [of c "CHR 0x22"] by (simp add: isQuote_def charCode_def)

lemma isQuote_lower [simp]: "isQuote (lowerChar c) = isQuote c"
  using lowerChar_code [of c] unfolding isQuote_code by (intro iffI) linarith+

section \<open>Tokens\<close>

definition plainTok :: "string \<Rightarrow> bool" where
  "plainTok t = (t \<noteq> [] \<and> (\<forall>c\<in>set t. \<not> isSpace c \<and> \<not> isQuote c))"

definition quotedTok :: "string \<Rightarrow> bool" where
  "quotedTok t = (\<exists>run body. t = run @ [CHR 0x22] @ body @ [CHR 0x22] \<and>
     (\<forall>c\<in>set run. \<not> isSpace c \<and> \<not> isQuote c) \<and> (\<forall>c\<in>set body. \<not> isQuote c))"

text \<open>A token with the last quote of the query in it, which nothing closes.\<close>

definition openTok :: "string \<Rightarrow> bool" where
  "openTok t = (\<exists>run rest. t = run @ [CHR 0x22] @ rest \<and>
     (\<forall>c\<in>set run. \<not> isSpace c \<and> \<not> isQuote c) \<and> (\<forall>c\<in>set rest. \<not> isSpace c \<and> \<not> isQuote c))"

fun tokenised :: "string list \<Rightarrow> bool" where
  "tokenised [] = True"
| "tokenised (t # ts) = ((quotedTok t \<or> plainTok t) \<and> tokenised ts \<or> openTok t \<and> list_all plainTok ts)"

definition breaks :: "string \<Rightarrow> bool" where
  "breaks s = (s = [] \<or> isSpace (hd s))"

lemma quote_facts [simp]: "isQuote (CHR 0x22)" "\<not> isSpace (CHR 0x22)" "isSpace (CHR '' '')" "\<not> isQuote (CHR '' '')"
  by (simp_all add: isQuote_def isSpace_def charCode_def)

lemma isQuote_eq: "isQuote c \<Longrightarrow> c = CHR 0x22"
  by (simp add: isQuote_def)

lemma span_append:
  "\<forall>c\<in>set xs. P c \<Longrightarrow> s = [] \<or> \<not> P (hd s) \<Longrightarrow> takeWhile P (xs @ s) = xs \<and> dropWhile P (xs @ s) = s"
  by (cases s) auto

lemma quotedMatch_run:
  assumes "\<forall>c\<in>set run. \<not> isSpace c \<and> \<not> isQuote c" and "s = [] \<or> isSpace (hd s) \<or> isQuote (hd s)"
  shows "quotedMatch (run @ s) =
    (case s of [] \<Rightarrow> None
     | c # others \<Rightarrow> if isQuote c \<and> (\<exists>x\<in>set others. isQuote x)
                     then Some (run @ [c] @ takeWhile (\<lambda>x. \<not> isQuote x) others @ [CHR 0x22]) else None)"
proof -
  have "takeWhile (\<lambda>c. \<not> isSpace c \<and> \<not> isQuote c) (run @ s) = run"
    using span_append [of run "\<lambda>c. \<not> isSpace c \<and> \<not> isQuote c" s] assms by auto
  then show ?thesis by (simp add: quotedMatch_def Let_def)
qed

lemma queryTokens_unfold:
  "s \<noteq> [] \<Longrightarrow> queryTokens s =
     (case quotedMatch s of
        Some t \<Rightarrow> t # queryTokens (drop (length t) s)
      | None \<Rightarrow> if isSpace (hd s) then queryTokens (tl s)
                else let w = takeWhile (\<lambda>x. \<not> isSpace x) s in w # queryTokens (drop (length w) s))"
  by (cases s) (simp_all split: option.split)

lemma queryTokens_quoted: "quotedTok t \<Longrightarrow> queryTokens (t @ s) = t # queryTokens s"
proof -
  assume "quotedTok t"
  then obtain run body where t: "t = run @ [CHR 0x22] @ body @ [CHR 0x22]"
    and run: "\<forall>c\<in>set run. \<not> isSpace c \<and> \<not> isQuote c" and body: "\<forall>c\<in>set body. \<not> isQuote c"
    by (auto simp: quotedTok_def)
  have "quotedMatch (run @ (CHR 0x22 # body @ CHR 0x22 # s)) = Some t"
    using body by (subst quotedMatch_run [OF run]) (auto simp: t takeWhile_tail span_append)
  then show ?thesis by (subst queryTokens_unfold) (simp_all add: t)
qed

lemma queryTokens_word:
  assumes "t \<noteq> []" and "\<forall>c\<in>set t. \<not> isSpace c" and "breaks s" and "quotedMatch (t @ s) = None"
  shows "queryTokens (t @ s) = t # queryTokens s"
proof -
  have "takeWhile (\<lambda>x. \<not> isSpace x) (t @ s) = t"
    using span_append [of t "\<lambda>x. \<not> isSpace x" s] assms by (auto simp: breaks_def)
  then show ?thesis using assms by (subst queryTokens_unfold) auto
qed

lemma space_no_quote: "isSpace c \<Longrightarrow> \<not> isQuote c"
  by (auto simp: isQuote_def)

lemma queryTokens_plain:
  assumes "plainTok t" and "breaks s"
  shows "queryTokens (t @ s) = t # queryTokens s"
proof (rule queryTokens_word)
  have "quotedMatch (t @ s) = (case s of [] \<Rightarrow> None
     | c # others \<Rightarrow> if isQuote c \<and> (\<exists>x\<in>set others. isQuote x)
                     then Some (t @ [c] @ takeWhile (\<lambda>x. \<not> isQuote x) others @ [CHR 0x22]) else None)"
    using assms by (intro quotedMatch_run) (auto simp: plainTok_def breaks_def)
  then show "quotedMatch (t @ s) = None"
    using assms(2) by (auto simp: breaks_def space_no_quote split: list.splits)
qed (use assms in \<open>auto simp: plainTok_def\<close>)

lemma queryTokens_open:
  assumes "openTok t" and "breaks s" and "\<forall>c\<in>set s. \<not> isQuote c"
  shows "queryTokens (t @ s) = t # queryTokens s"
proof -
  obtain run rest where t: "t = run @ [CHR 0x22] @ rest"
    and run: "\<forall>c\<in>set run. \<not> isSpace c \<and> \<not> isQuote c" and rest: "\<forall>c\<in>set rest. \<not> isSpace c \<and> \<not> isQuote c"
    using assms(1) by (auto simp: openTok_def)
  have "quotedMatch (run @ (CHR 0x22 # rest @ s)) = None"
    using rest assms(3) by (subst quotedMatch_run [OF run]) auto
  then show ?thesis using run rest assms(2) by (intro queryTokens_word) (auto simp: t)
qed

lemma queryTokens_space: "isSpace c \<Longrightarrow> queryTokens (c # s) = queryTokens s"
  using quotedMatch_run [of "[]" "c # s"] by (auto simp: isQuote_def)

lemma plain_no_quote: "list_all plainTok ts \<Longrightarrow> \<forall>c\<in>set (join '' '' ts). \<not> isQuote c"
  by (induction ts rule: induct_list012) (auto simp: plainTok_def)

lemma queryTokens_join: "tokenised ts \<Longrightarrow> queryTokens (join '' '' ts) = ts"
proof (induction ts rule: induct_list012)
  case (2 t)
  then show ?case
    using queryTokens_quoted [of t "[]"] queryTokens_plain [of t "[]"] queryTokens_open [of t "[]"]
    by (auto simp: breaks_def)
next
  case (3 t u ts)
  let ?rest = "join '' '' (u # ts)"
  have br: "breaks ('' '' @ ?rest)" by (simp add: breaks_def)
  have "list_all plainTok us \<Longrightarrow> tokenised us" for us by (induction us) auto
  then have "tokenised (u # ts)" using "3.prems" by (metis tokenised.simps(2))
  then have rest: "queryTokens ('' '' @ ?rest) = u # ts"
    using "3.IH"(2) queryTokens_space [of "CHR '' ''" ?rest] by simp
  have quote: "\<forall>c\<in>set ('' '' @ ?rest). \<not> isQuote c" if "list_all plainTok (u # ts)"
    using plain_no_quote [OF that] by auto
  have "queryTokens (t @ '' '' @ ?rest) = t # queryTokens ('' '' @ ?rest)"
    using "3.prems" queryTokens_quoted queryTokens_plain [OF _ br] queryTokens_open [OF _ br quote]
    unfolding tokenised.simps(2) by blast
  then show ?case using rest by simp
qed simp

lemma span_split: "s = takeWhile P s @ dropWhile P s" "dropWhile P s = c # others \<Longrightarrow> \<not> P c"
  using hd_dropWhile [of P s] by auto

lemma word_shape:
  assumes none: "quotedMatch s = None" and hd: "s \<noteq> []" "\<not> isSpace (hd s)"
  defines "w \<equiv> takeWhile (\<lambda>x. \<not> isSpace x) s"
  shows "plainTok w \<or> openTok w \<and> (\<forall>c\<in>set (drop (length w) s). \<not> isQuote c)"
proof -
  let ?P = "\<lambda>c. \<not> isSpace c \<and> \<not> isQuote c" and ?S = "\<lambda>x. \<not> isSpace x"
  define run where "run = takeWhile ?P s"
  define rest where "rest = dropWhile ?P s"
  have s: "s = run @ rest" by (simp add: run_def rest_def)
  have run: "\<forall>c\<in>set run. \<not> isSpace c \<and> \<not> isQuote c" by (auto simp: run_def dest: set_takeWhileD)
  show ?thesis
  proof (cases rest)
    case Nil
    then have "w = run" using s run by (simp add: w_def takeWhile_eq_all_conv)
    then show ?thesis using run hd s Nil by (simp add: plainTok_def)
  next
    case (Cons c others)
    then have c: "isSpace c \<or> isQuote c" using span_split(2) [of ?P s c others] by (simp add: rest_def)
    show ?thesis
    proof (cases "isSpace c")
      case True
      then have "w = run" using s run Cons span_append [of run ?S rest] by (simp add: w_def)
      moreover have "run \<noteq> []" using hd s Cons True by auto
      ultimately show ?thesis using run by (simp add: plainTok_def)
    next
      case False
      with c have q: "isQuote c" by simp
      then have no: "\<forall>x\<in>set others. \<not> isQuote x"
        using none quotedMatch_run [OF run, of rest] unfolding s Cons by (auto split: if_splits)
      have w: "w = run @ [CHR 0x22] @ takeWhile ?S others"
        using s run Cons q isQuote_eq [OF q] by (simp add: w_def takeWhile_append)
      have "drop (length w) s = dropWhile ?S others"
        using s Cons by (simp add: w dropWhile_eq_drop)
      moreover have "openTok w" unfolding openTok_def using run no w by (auto dest!: set_takeWhileD)
      ultimately show ?thesis using no by (auto dest: set_dropWhileD)
    qed
  qed
qed

lemma quotedMatch_shape: "quotedMatch s = Some t \<Longrightarrow> quotedTok t"
  unfolding quotedMatch_def quotedTok_def
  by (auto simp: Let_def split: list.splits if_splits dest!: set_takeWhileD isQuote_eq)

lemma no_quote_no_match: "\<forall>c\<in>set s. \<not> isQuote c \<Longrightarrow> quotedMatch s = None"
  by (auto simp: quotedMatch_def Let_def split: list.split) (metis in_set_dropD list.set_intros(1))

lemma plain_no_quote_iff: "openTok t \<Longrightarrow> \<exists>c\<in>set t. isQuote c"
  by (auto simp: openTok_def)

lemma plain_tokens: "\<forall>c\<in>set s. \<not> isQuote c \<Longrightarrow> list_all plainTok (queryTokens s)"
proof (induction s rule: queryTokens.induct)
  case (2 c cs)
  have none: "quotedMatch (c # cs) = None" using "2.prems" by (rule no_quote_no_match)
  let ?w = "takeWhile (\<lambda>x. \<not> isSpace x) (c # cs)"
  show ?case
  proof (cases "isSpace c")
    case True
    then show ?thesis using 2 none by simp
  next
    case False
    have "\<forall>x\<in>set ?w. \<not> isQuote x" using "2.prems" by (auto dest!: set_takeWhileD split: if_splits)
    then have "plainTok ?w" using word_shape [OF none] False plain_no_quote_iff by (metis list.distinct(1) list.sel(1))
    moreover have "list_all plainTok (queryTokens (drop (length ?w) (c # cs)))"
      by (rule "2.IH"(2) [OF none False refl]) (use "2.prems" in \<open>auto dest: in_set_dropD\<close>)
    ultimately show ?thesis using none False by (simp add: Let_def)
  qed
qed simp

lemma tokenised_queryTokens: "tokenised (queryTokens s)"
proof (induction s rule: queryTokens.induct)
  case (2 c cs)
  show ?case
  proof (cases "quotedMatch (c # cs)")
    case (Some t)
    then show ?thesis using 2 quotedMatch_shape [OF Some] by simp
  next
    case None
    let ?w = "takeWhile (\<lambda>x. \<not> isSpace x) (c # cs)"
    show ?thesis
    proof (cases "isSpace c")
      case True
      then show ?thesis using 2 None by simp
    next
      case False
      have "tokenised (queryTokens (drop (length ?w) (c # cs)))" by (rule "2.IH"(2) [OF None False refl])
      then show ?thesis using word_shape [OF None] plain_tokens None False by (simp add: Let_def) blast
    qed
  qed
qed simp


section \<open>Reading what was written\<close>

lemma tokenised_filter: "tokenised ts \<Longrightarrow> tokenised (filter P ts)"
proof (induction ts)
  case (Cons t ts)
  have "list_all plainTok ts \<Longrightarrow> list_all plainTok (filter P ts)" by (auto simp: list_all_iff)
  moreover have "list_all plainTok us \<Longrightarrow> tokenised us" for us by (induction us) auto
  ultimately show ?case using Cons by auto
qed simp

lemma tokenised_append:
  "(\<And>p. p \<in> set ps \<Longrightarrow> quotedTok p \<or> plainTok p) \<Longrightarrow> tokenised ts \<Longrightarrow> tokenised (ps @ ts)"
  by (induction ps) auto

lemma token_ends:
  assumes "quotedTok t \<or> plainTok t \<or> openTok t"
  shows "t \<noteq> []" "\<not> isSpace (hd t)" "\<not> isSpace (last t)"
  using assms by (auto simp: quotedTok_def plainTok_def openTok_def hd_append last_append split: if_splits)

lemma tokenised_in: "tokenised ts \<Longrightarrow> t \<in> set ts \<Longrightarrow> quotedTok t \<or> plainTok t \<or> openTok t"
  by (induction ts) (auto simp: list_all_iff)

lemma join_ends:
  "ts \<noteq> [] \<Longrightarrow> \<forall>t\<in>set ts. t \<noteq> [] \<Longrightarrow>
   join '' '' ts \<noteq> [] \<and> hd (join '' '' ts) = hd (hd ts) \<and> last (join '' '' ts) = last (last ts)"
  by (induction ts rule: induct_list012) auto

lemma trim_join: "tokenised ts \<Longrightarrow> trim (join '' '' ts) = join '' '' ts"
  using join_ends [of ts] tokenised_in [of ts] token_ends by (cases "ts = []") (auto intro!: trim_id)

lemma join_append: "ts \<noteq> [] \<Longrightarrow> join sep (ps @ [join sep ts]) = join sep (ps @ ts)"
  by (induction ps rule: induct_list012) (auto simp: neq_Nil_conv)

definition applyToken :: "string \<Rightarrow> search_filters \<Rightarrow> search_filters" where
  "applyToken t f = (case filterOf t of None \<Rightarrow> f | Some (k, v) \<Rightarrow> applyFilter k v f)"

definition isWord :: "string \<Rightarrow> bool" where
  "isWord t = (filterOf t = None)"

lemma readTokens_fold: "readTokens ts f ws = (fold applyToken ts f, ws @ filter isWord ts)"
  by (induction ts arbitrary: f ws) (auto simp: applyToken_def isWord_def split: option.split)

lemma parse_fold:
  "parseSearchQuery raw =
     (fold applyToken (queryTokens raw) noFilters)\<lparr>sf_text := join '' '' (filter isWord (queryTokens raw))\<rparr>"
  by (simp add: parseSearchQuery_def readTokens_fold Let_def trim_join tokenised_filter tokenised_queryTokens)

lemma fold_words: "\<forall>t\<in>set ts. isWord t \<Longrightarrow> fold applyToken ts f = f"
  by (induction ts arbitrary: f) (auto simp: applyToken_def isWord_def)

definition quoteFree :: "string \<Rightarrow> bool" where
  "quoteFree v = (\<forall>c\<in>set v. \<not> isQuote c)"

lemma stripQuotes_free: "quoteFree v \<Longrightarrow> stripQuotes v = v"
  by (cases v) (auto simp: stripQuotes_def quoteFree_def Let_def)

lemma stripQuotes_quoted: "stripQuotes (CHR 0x22 # v @ [CHR 0x22]) = v"
  by (simp add: stripQuotes_def Let_def)

lemma filterOf_write:
  assumes "p \<noteq> []" "CHR '':'' \<notin> set p" "prefixKind (toLowerCase p) = Some k" "trim v = v" "quoteFree v"
  shows "filterOf (writeFilter p v) = Some (k, v)"
proof -
  define q where "q = (if \<exists>c\<in>set v. isSpace c \<or> isQuote c
      then [CHR 0x22] @ filter (\<lambda>c. \<not> isQuote c) v @ [CHR 0x22] else v)"
  have "stripQuotes q = v"
    using assms(5) stripQuotes_free stripQuotes_quoted [of v] by (auto simp: q_def quoteFree_def filter_id_conv)
  moreover have "indexOfColon (p @ '':'' @ q) = Some (length p)"
    using assms(2) by (auto simp: indexOfColon_def takeWhile_append)
  ultimately show ?thesis using assms by (simp add: filterOf_def writeFilter_def q_def [symmetric])
qed

lemma colon_facts [simp]: "\<not> isSpace (CHR '':'')" "\<not> isQuote (CHR '':'')"
  by (simp_all add: isQuote_def isSpace_def charCode_def)

lemma write_token:
  assumes "plainTok p" "quoteFree v" "CHR '':'' \<notin> set p"
  shows "quotedTok (writeFilter p v) \<or> plainTok (writeFilter p v)"
proof (cases "\<exists>c\<in>set v. isSpace c")
  case True
  then have "writeFilter p v = (p @ '':'') @ [CHR 0x22] @ v @ [CHR 0x22]"
    using assms(2) by (auto simp: writeFilter_def quoteFree_def filter_id_conv)
  then have "quotedTok (writeFilter p v)" unfolding quotedTok_def
    using assms(1,2) by (intro exI [of _ "p @ '':''"] exI [of _ v])
      (auto simp: plainTok_def quoteFree_def)
  then show ?thesis ..
next
  case False
  then show ?thesis using assms
    by (auto simp: writeFilter_def plainTok_def quoteFree_def)
qed

definition goodFilterName :: "string \<Rightarrow> bool" where
  "goodFilterName v = (v \<noteq> [] \<and> trim v = v \<and> toLowerCase v = v)"

definition goodDate :: "string option \<Rightarrow> bool" where
  "goodDate d = (case d of None \<Rightarrow> True | Some v \<Rightarrow> readDate v = Some v)"

definition canonical :: "search_filters \<Rightarrow> bool" where
  "canonical f = ((\<forall>v\<in>set (sf_tags f @ sf_in f @ sf_authors f @ sf_assigned f). goodFilterName v) \<and>
     goodDate (sf_after f) \<and> goodDate (sf_before f))"

lemma readDate_same: "readDate v = Some d \<Longrightarrow> d = v"
  by (auto simp: readDate_def Let_def split: if_splits)

lemma canonical_applyToken: "canonical f \<Longrightarrow> canonical (applyToken t f)"
proof -
  assume f: "canonical f"
  show ?thesis
  proof (cases "filterOf t")
    case (Some kv)
    obtain k v where kv: "kv = (k, v)" by (cases kv)
    have "trim v = v" using Some kv by (auto simp: filterOf_def split: option.splits if_splits)
    then have "v \<noteq> [] \<Longrightarrow> goodFilterName (toLowerCase v)" by (simp add: goodFilterName_def trim_lower) (simp add: toLowerCase_def)
    then show ?thesis using f Some kv
      by (cases k) (auto simp: applyToken_def applyFilter_def canonical_def goodDate_def dest: readDate_same split: option.split)
  qed (use f in \<open>simp add: applyToken_def\<close>)
qed

lemma canonical_fold: "canonical f \<Longrightarrow> canonical (fold applyToken ts f)"
  by (induction ts arbitrary: f) (auto simp: canonical_applyToken)

lemma fold_write:
  assumes "\<And>v f. v \<in> set vs \<Longrightarrow> applyToken (w v) f = up (\<lambda>xs. xs @ [v]) f"
    and "\<And>g h f. up g (up h f) = up (g \<circ> h) f" and "\<And>f. up (\<lambda>xs. xs) f = f"
  shows "fold applyToken (map w vs) f = up (\<lambda>xs. xs @ vs) f"
  using assms(1)
proof (induction vs arbitrary: f)
  case (Cons v vs)
  have "fold applyToken (map w (v # vs)) f = up (\<lambda>xs. xs @ vs) (up (\<lambda>xs. xs @ [v]) f)" using Cons by simp
  then show ?case unfolding assms(2) by (simp add: comp_def)
qed (simp add: assms(3))

lemma apply_write:
  assumes "goodFilterName v" "quoteFree v" "p \<noteq> []" "CHR '':'' \<notin> set p" "prefixKind (toLowerCase p) = Some k"
  shows "applyToken (writeFilter p v) f = applyFilter k v f"
  using assms by (simp add: applyToken_def filterOf_write goodFilterName_def)

lemma prefix_facts:
  "prefixKind (toLowerCase ''tag'') = Some KTag" "prefixKind (toLowerCase ''in'') = Some KIn"
  "prefixKind (toLowerCase ''author'') = Some KAuthor" "prefixKind (toLowerCase ''assigned'') = Some KAssigned"
  "prefixKind (toLowerCase ''after'') = Some KAfter" "prefixKind (toLowerCase ''before'') = Some KBefore"
  "plainTok ''tag''" "plainTok ''in''" "plainTok ''author''" "plainTok ''assigned''" "plainTok ''after''" "plainTok ''before''"
  by code_simp+

lemma date_chars:
  assumes "readDate v = Some v"
  shows "v \<noteq> []" "\<forall>c\<in>set v. \<not> isSpace c \<and> \<not> isQuote c"
proof -
  have shape: "dateShape v" using assms by (simp add: readDate_def split: if_splits)
  then show "v \<noteq> []" by (auto simp: dateShape_def)
  have digit: "isDigitChar c \<Longrightarrow> \<not> isSpace c \<and> \<not> isQuote c" for c
    by (auto simp: isDigitChar_def isSpace_def isQuote_code)
  have dash: "\<not> isSpace (CHR ''-'') \<and> \<not> isQuote (CHR ''-'')" by (simp add: isSpace_def isQuote_def charCode_def)
  have "length v = Suc (Suc (Suc (Suc (Suc (Suc (Suc (Suc (Suc (Suc 0)))))))))" using shape by (simp add: dateShape_def)
  then obtain c0 c1 c2 c3 c4 c5 c6 c7 c8 c9 where v: "v = [c0, c1, c2, c3, c4, c5, c6, c7, c8, c9]"
    by (auto simp only: length_Suc_conv length_0_conv)
  show "\<forall>c\<in>set v. \<not> isSpace c \<and> \<not> isQuote c"
    using shape digit dash unfolding v dateShape_def by (simp add: eval_nat_numeral)
qed

lemma date_good:
  assumes "readDate v = Some v"
  shows "trim v = v" "quoteFree v"
  using date_chars [OF assms] by (auto simp: quoteFree_def intro!: trim_id)

definition namesQuoteFree :: "search_filters \<Rightarrow> bool" where
  "namesQuoteFree f = list_all quoteFree (sf_tags f @ sf_in f @ sf_authors f @ sf_assigned f)"

definition knownPrefix :: "string \<Rightarrow> bool" where
  "knownPrefix p = (plainTok p \<and> CHR '':'' \<notin> set p \<and> prefixKind (toLowerCase p) \<noteq> None)"

lemma prefixes_known:
  "knownPrefix ''tag''" "knownPrefix ''in''" "knownPrefix ''author''" "knownPrefix ''assigned''"
  "knownPrefix ''after''" "knownPrefix ''before''"
  by (simp_all add: knownPrefix_def prefix_facts)

lemma dateParts_cases:
  "goodDate d \<Longrightarrow> t \<in> set (dateParts p d) \<Longrightarrow> \<exists>v. t = writeFilter p v \<and> trim v = v \<and> quoteFree v"
  using date_good by (auto simp: dateParts_def goodDate_def split: option.splits if_splits)

lemma filterParts_cases:
  assumes "canonical f" "namesQuoteFree f" "t \<in> set (filterParts f)"
  shows "\<exists>p v. t = writeFilter p v \<and> knownPrefix p \<and> trim v = v \<and> quoteFree v"
proof -
  have names: "trim v = v \<and> quoteFree v" if "v \<in> set (sf_tags f @ sf_in f @ sf_authors f @ sf_assigned f)" for v
    using assms(1,2) that by (auto simp: canonical_def namesQuoteFree_def list_all_iff goodFilterName_def)
  have dates: "goodDate (sf_after f)" "goodDate (sf_before f)" using assms(1) by (simp_all add: canonical_def)
  from assms(3) have "(\<exists>p v. t = writeFilter p v \<and> knownPrefix p \<and> v \<in> set (sf_tags f @ sf_in f @ sf_authors f @ sf_assigned f)) \<or>
      t \<in> set (dateParts ''after'' (sf_after f)) \<or> t \<in> set (dateParts ''before'' (sf_before f))"
    unfolding filterParts_def set_append set_map using prefixes_known(1-4) by blast
  then show ?thesis using names dateParts_cases [OF dates(1)] dateParts_cases [OF dates(2)] prefixes_known(5,6) by metis
qed

lemma filterParts_tokens:
  "canonical f \<Longrightarrow> namesQuoteFree f \<Longrightarrow> t \<in> set (filterParts f) \<Longrightarrow> quotedTok t \<or> plainTok t"
  using filterParts_cases write_token by (fastforce simp: knownPrefix_def)

lemma fold_names:
  assumes "\<forall>v\<in>set vs. goodFilterName v" "\<forall>v\<in>set vs. quoteFree v"
  shows "fold applyToken (map (writeFilter ''tag'') vs) f = f\<lparr>sf_tags := sf_tags f @ vs\<rparr>"
    "fold applyToken (map (writeFilter ''in'') vs) f = f\<lparr>sf_in := sf_in f @ vs\<rparr>"
    "fold applyToken (map (writeFilter ''author'') vs) f = f\<lparr>sf_authors := sf_authors f @ vs\<rparr>"
    "fold applyToken (map (writeFilter ''assigned'') vs) f = f\<lparr>sf_assigned := sf_assigned f @ vs\<rparr>"
  using assms
  by (induction vs arbitrary: f) (simp_all add: apply_write prefix_facts applyFilter_def goodFilterName_def)

lemma fold_dates:
  assumes "goodDate d"
  shows "fold applyToken (dateParts ''after'' d) f = (case d of None \<Rightarrow> f | Some v \<Rightarrow> f\<lparr>sf_after := Some v\<rparr>)"
    "fold applyToken (dateParts ''before'' d) f = (case d of None \<Rightarrow> f | Some v \<Rightarrow> f\<lparr>sf_before := Some v\<rparr>)"
  using assms date_good date_chars(1) [of "[]"]
  by (auto simp: dateParts_def goodDate_def applyToken_def filterOf_write prefix_facts applyFilter_def split: option.split)

lemma fold_parts:
  assumes "canonical f" "namesQuoteFree f"
  shows "fold applyToken (filterParts f) noFilters = f\<lparr>sf_text := [], sf_unreadable := []\<rparr>"
  using assms
  by (simp add: filterParts_def canonical_def namesQuoteFree_def list_all_iff fold_names fold_dates noFilters_def split: option.split)

lemma isWord_parts:
  assumes "canonical f" "namesQuoteFree f" "t \<in> set (filterParts f)"
  shows "\<not> isWord t"
proof -
  obtain p v k where "t = writeFilter p v" "plainTok p" "CHR '':'' \<notin> set p" "prefixKind (toLowerCase p) = Some k"
      "trim v = v" "quoteFree v"
    using filterParts_cases [OF assms] by (auto simp: knownPrefix_def)
  then show ?thesis using filterOf_write [of p k v] by (simp add: isWord_def plainTok_def)
qed

text \<open>C13: the panel writes what the field reads. Parsing a query, writing the filters out and parsing
  again gives the same filters and the same words, with only the filters that could not be read left
  out, provided no name holds a quotation mark.\<close>

theorem parse_build:
  assumes "namesQuoteFree (parseSearchQuery raw)"
  shows "parseSearchQuery (buildSearchQuery (parseSearchQuery raw)) = (parseSearchQuery raw)\<lparr>sf_unreadable := []\<rparr>"
proof -
  define f where "f = parseSearchQuery raw"
  define ws where "ws = filter isWord (queryTokens raw)"
  have joined: "sf_text f = join '' '' ws" by (simp add: f_def ws_def parse_fold)
  have "canonical noFilters" by (simp add: canonical_def noFilters_def goodDate_def)
  then have can: "canonical f" using canonical_fold [of noFilters "queryTokens raw"]
    by (simp add: f_def parse_fold canonical_def)
  have free: "namesQuoteFree f" using assms by (simp add: f_def)
  have ws: "tokenised ws" unfolding ws_def by (intro tokenised_filter tokenised_queryTokens)
  have "ws \<noteq> [] \<Longrightarrow> join '' '' ws \<noteq> []" using join_ends [of ws] tokenised_in [OF ws] token_ends(1) by blast
  then have "buildSearchQuery f = join '' '' (filterParts f @ ws)"
    by (cases "ws = []") (simp_all add: buildSearchQuery_def joined join_append)
  moreover have "tokenised (filterParts f @ ws)"
    using filterParts_tokens [OF can free] ws by (rule tokenised_append)
  ultimately have toks: "queryTokens (buildSearchQuery f) = filterParts f @ ws" by (simp add: queryTokens_join)
  have words: "\<forall>t\<in>set ws. isWord t" by (simp add: ws_def)
  have "filter isWord (filterParts f @ ws) = ws" using isWord_parts [OF can free] words by (auto simp: filter_empty_conv)
  then show ?thesis
    using fold_parts [OF can free] fold_words [OF words] joined
    by (simp add: f_def [symmetric] parse_fold [of "buildSearchQuery f"] toks)
qed

definition sampleQuery :: string where
  "sampleQuery = ''tag:'' @ [CHR 0x22] @ ''Rechnung 2026'' @ [CHR 0x22] @ '' vor:2026-08-01 Budget before:tuesday http://x''"

theorem parse_build_witness:
  "parseSearchQuery (buildSearchQuery (parseSearchQuery sampleQuery)) = (parseSearchQuery sampleQuery)\<lparr>sf_unreadable := []\<rparr> \<and>
   sf_tags (parseSearchQuery sampleQuery) = [''rechnung 2026''] \<and> sf_before (parseSearchQuery sampleQuery) = Some ''2026-08-01'' \<and>
   sf_text (parseSearchQuery sampleQuery) = ''Budget http://x''"
proof -
  have "namesQuoteFree (parseSearchQuery sampleQuery)" by code_simp
  moreover have "sf_tags (parseSearchQuery sampleQuery) = [''rechnung 2026'']" by code_simp
  moreover have "sf_before (parseSearchQuery sampleQuery) = Some ''2026-08-01''" by code_simp
  moreover have "sf_text (parseSearchQuery sampleQuery) = ''Budget http://x''" by code_simp
  ultimately show ?thesis using parse_build [of sampleQuery] by blast
qed

text \<open>What the round trip leaves out: a name with a quotation mark in it is written without it, so the
  filter panel changes it; and \<open>constructor:\<close>, which no one listed as a prefix, is read as a date filter,
  because every object inherits a property of that name.\<close>

lemma quote_is_lost:
  "sf_tags (parseSearchQuery (''tag:a'' @ [CHR 0x22] @ ''b'')) = [''a'' @ [CHR 0x22] @ ''b''] \<and>
   sf_tags (parseSearchQuery (buildSearchQuery (parseSearchQuery (''tag:a'' @ [CHR 0x22] @ ''b'')))) = [''ab'']"
  by (rule conjI) code_simp+

lemma inherited_prefix_sets_before:
  "sf_before (parseSearchQuery ''constructor:2026-08-01'') = Some ''2026-08-01''"
  by code_simp

end
