(* ===== verification/Jobs.thy ===== *)
theory Jobs
  imports Claims
begin

text \<open>
  \<^verbatim>\<open>packages/server/src/jobs/runner.ts\<close> and \<^verbatim>\<open>packages/server/src/jobs/routes.ts\<close>: work that outlives a
  request. A job is a row; an instance claims one, runs its handler, and records what came of it. The
  handlers, the clock, the identifiers that the database draws and the file store are parameters. One
  statement of the database is one step, so what two instances do interleaves statement by statement.
\<close>

section \<open>Rows\<close>

datatype job_state = Queued | Running | JobDone | JobFailed

text \<open>The members of a result that the sources read.\<close>

record job_result =
  jr_key :: "string option"
  jr_bytes :: "nat option"
  jr_pages :: "nat option"

record job_row =
  j_id :: ident
  j_workspace_id :: ident
  j_kind :: string
  j_state :: job_state
  j_payload :: string
  j_result :: "job_result option"
  j_progress :: "string option"
  j_error :: "string option"
  j_created_by :: "ident option"
  j_created_at :: time
  j_started_at :: "time option"
  j_finished_at :: "time option"
  j_expires_at :: "time option"
  j_attempts :: nat
  j_run_after :: time

record job =
  jb_id :: ident
  jb_workspaceId :: ident
  jb_kind :: string
  jb_payload :: string
  jb_createdBy :: "ident option"
  jb_attempts :: nat

record finished_job = job +
  fj_result :: "job_result option"
  fj_expiresAt :: "time option"

datatype job_outcome = OutcomeDone | OutcomeFailed

definition MAX_JOB_ATTEMPTS :: nat where
  "MAX_JOB_ATTEMPTS = 5"

definition jobRetryDelayMs :: "nat \<Rightarrow> time" where
  "jobRetryDelayMs attempts = min (60000 * 2 ^ (attempts - 1)) (60 * 60000)"

text \<open>An \<open>UPDATE\<close> of the row with an id.\<close>

definition updateJob :: "ident \<Rightarrow> (job_row \<Rightarrow> job_row) \<Rightarrow> job_row list \<Rightarrow> job_row list" where
  "updateJob i f rows = map (\<lambda>r. if j_id r = i then f r else r) rows"

section \<open>The runner\<close>

definition enqueue ::
  "time \<Rightarrow> ident \<Rightarrow> ident \<Rightarrow> string \<Rightarrow> string \<Rightarrow> ident option \<Rightarrow> job_row list \<Rightarrow> ident \<times> job_row list" where
  "enqueue now newId workspaceId kind payload createdBy rows =
     (newId, rows @ [\<lparr>j_id = newId, j_workspace_id = workspaceId, j_kind = kind, j_state = Queued,
        j_payload = payload, j_result = None, j_progress = None, j_error = None, j_created_by = createdBy,
        j_created_at = now, j_started_at = None, j_finished_at = None, j_expires_at = None, j_attempts = 0,
        j_run_after = now\<rparr>])"

definition claimable :: "time \<Rightarrow> string list \<Rightarrow> ident list \<Rightarrow> job_row \<Rightarrow> bool" where
  "claimable now kinds locked r =
     (j_state r = Queued \<and> j_kind r \<in> set kinds \<and> j_run_after r \<le> now \<and> j_id r \<notin> set locked)"

definition dueOrder :: "job_row \<Rightarrow> job_row \<Rightarrow> int" where
  "dueOrder a b =
     (if j_run_after a \<noteq> j_run_after b then j_run_after a - j_run_after b else j_created_at a - j_created_at b)"

definition jobOf :: "job_row \<Rightarrow> job" where
  "jobOf r = \<lparr>jb_id = j_id r, jb_workspaceId = j_workspace_id r, jb_kind = j_kind r, jb_payload = j_payload r,
     jb_createdBy = j_created_by r, jb_attempts = j_attempts r\<rparr>"

definition startJob :: "time \<Rightarrow> job_row \<Rightarrow> job_row" where
  "startJob now r = r\<lparr>j_state := Running, j_started_at := Some now, j_attempts := j_attempts r + 1\<rparr>"

text \<open>\<open>locked\<close> are the rows other statements hold at that moment, which \<open>SKIP LOCKED\<close> passes over.\<close>

definition claimJob :: "time \<Rightarrow> string list \<Rightarrow> ident list \<Rightarrow> job_row list \<Rightarrow> job option \<times> job_row list" where
  "claimJob now kinds locked rows =
     (case queryOne (sort_by dueOrder (filter (claimable now kinds locked) rows)) of
        None \<Rightarrow> (None, rows)
      | Some r \<Rightarrow> (Some (jobOf (startJob now r)), updateJob (j_id r) (startJob now) rows))"

definition reportProgress :: "ident \<Rightarrow> string \<Rightarrow> job_row list \<Rightarrow> job_row list" where
  "reportProgress i progress rows = updateJob i (\<lambda>r. r\<lparr>j_progress := Some progress\<rparr>) rows"

text \<open>A handler reports progress and returns a result with an optional expiry, or throws a message.\<close>

type_synonym handler_outcome = "string + job_result \<times> time option"
type_synonym job_handler = "job \<Rightarrow> string list \<times> handler_outcome"
type_synonym told = "finished_job \<times> job_outcome"

definition finishedJob :: "job \<Rightarrow> job_result option \<Rightarrow> time option \<Rightarrow> finished_job" where
  "finishedJob jb res expiry = job.extend jb \<lparr>fj_result = res, fj_expiresAt = expiry\<rparr>"

definition completeJob :: "time \<Rightarrow> time \<Rightarrow> job \<Rightarrow> job_result \<Rightarrow> time option \<Rightarrow> job_row list \<Rightarrow> job_row list \<times> told list" where
  "completeJob now hours jb res expiresAt rows =
     (let expiry = (case expiresAt of None \<Rightarrow> now + hours * 3600000 | Some e \<Rightarrow> e)
      in (updateJob (jb_id jb) (\<lambda>r. r\<lparr>j_state := JobDone, j_result := Some res, j_progress := None,
            j_finished_at := Some now, j_expires_at := Some expiry\<rparr>) rows,
          [(finishedJob jb (Some res) (Some expiry), OutcomeDone)]))"

definition failJob :: "time \<Rightarrow> job \<Rightarrow> string \<Rightarrow> job_row list \<Rightarrow> job_row list \<times> told list" where
  "failJob now jb message rows =
     (updateJob (jb_id jb) (\<lambda>r. r\<lparr>j_state := JobFailed, j_error := Some message, j_finished_at := Some now\<rparr>) rows,
      [(finishedJob jb None None, OutcomeFailed)])"

definition requeueJob :: "time \<Rightarrow> job \<Rightarrow> string \<Rightarrow> job_row list \<Rightarrow> job_row list" where
  "requeueJob now jb message rows =
     updateJob (jb_id jb) (\<lambda>r. r\<lparr>j_state := Queued, j_error := Some message, j_started_at := None,
       j_run_after := now + jobRetryDelayMs (jb_attempts jb)\<rparr>) rows"

definition settleJob :: "time \<Rightarrow> time \<Rightarrow> job \<Rightarrow> handler_outcome \<Rightarrow> job_row list \<Rightarrow> job_row list \<times> told list" where
  "settleJob now hours jb oc rows =
     (case oc of
        Inr (res, expiresAt) \<Rightarrow> completeJob now hours jb res expiresAt rows
      | Inl message \<Rightarrow>
          if jb_attempts jb < MAX_JOB_ATTEMPTS then (requeueJob now jb message rows, [])
          else failJob now jb message rows)"

text \<open>\<open>now\<close> is the time of the claim, \<open>later\<close> the time the handler is through.\<close>

definition runOneJob ::
  "time \<Rightarrow> time \<Rightarrow> time \<Rightarrow> (string \<times> job_handler) list \<Rightarrow> job_row list \<Rightarrow> bool \<times> job_row list \<times> told list" where
  "runOneJob now later hours handlers rows =
     (case claimJob now (map fst handlers) [] rows of
        (None, rows1) \<Rightarrow> (False, rows1, [])
      | (Some jb, rows1) \<Rightarrow>
          (case map_of handlers (jb_kind jb) of
             None \<Rightarrow> (True, failJob now jb (''unknown job kind: '' @ jb_kind jb) rows1)
           | Some handler \<Rightarrow>
               (let (reports, oc) = handler jb
                in (True, settleJob later hours jb oc (fold (reportProgress (jb_id jb)) reports rows1)))))"

definition expired :: "time \<Rightarrow> job_row \<Rightarrow> bool" where
  "expired now r = (case j_expires_at r of None \<Rightarrow> False | Some e \<Rightarrow> e < now)"

text \<open>\<open>deleteResult\<close> acts on the store; when it throws, the store is as it left it. The rows are selected
  at \<open>now\<close> and deleted by a later statement, at \<open>later\<close>.\<close>

definition expireJobs ::
  "time \<Rightarrow> time \<Rightarrow> (job_result \<Rightarrow> 's \<Rightarrow> 's) \<Rightarrow> job_row list \<Rightarrow> 's \<Rightarrow> nat \<times> job_row list \<times> 's" where
  "expireJobs now later deleteResult rows store =
     (let old = filter (expired now) rows;
          store' = fold (\<lambda>r s. case j_result r of None \<Rightarrow> s | Some res \<Rightarrow> deleteResult res s) old store
      in (length (filter (expired later) rows), filter (\<lambda>r. \<not> expired later r) rows, store'))"

section \<open>The routes\<close>

text \<open>\<open>claimsOrNull\<close> of \<^verbatim>\<open>http/auth.ts\<close>; the token is the session cookie's value, if there is one.\<close>

definition claimsOrNull ::
  "crypto \<Rightarrow> gate \<Rightarrow> time \<Rightarrow> string option \<Rightarrow> ident \<Rightarrow> database \<Rightarrow> (standing_error + access_claims option) \<times> database" where
  "claimsOrNull cr gate now token workspaceId db =
     (case token of
        None \<Rightarrow> (Inr None, db)
      | Some t \<Rightarrow> if t = [] then (Inr None, db) else resolveSessionClaims cr gate now t workspaceId db)"

definition WORKSPACE_EXPORT :: string where
  "WORKSPACE_EXPORT = ''workspace_export''"

record job_listing =
  jl_id :: ident
  jl_kind :: string
  jl_state :: job_state
  jl_progress :: "string option"
  jl_error :: "string option"
  jl_bytes :: "nat option"
  jl_pages :: "nat option"
  jl_createdAt :: time
  jl_expiresAt :: "time option"

datatype 'b job_response =
    Refused nat string
  | Accepted ident
  | AlreadyRunning ident
  | Listing "job_listing list"
  | Archive 'b
  | Removed

text \<open>The account a principal stands for; an anonymous one has none.\<close>

fun principalUser :: "principal \<Rightarrow> ident option" where
  "principalUser (UserPrincipal i _) = Some i"
| "principalUser (GuestPrincipal i _) = Some i"
| "principalUser (AnonymousPrincipal _ _) = None"

definition hasToken :: "string option \<Rightarrow> bool" where
  "hasToken token = (case token of None \<Rightarrow> False | Some t \<Rightarrow> t \<noteq> [])"

text \<open>\<open>!claims || anonymous || !claims.workspaceRole\<close>, else the account.\<close>

definition memberOf :: "access_claims option \<Rightarrow> ident option" where
  "memberOf claims =
     (case claims of
        None \<Rightarrow> None
      | Some c \<Rightarrow> if cl_workspaceRole c = None \<or> cl_workspaceRole c = Some [] then None
                  else principalUser (cl_principal c))"

definition exportInHand :: "ident \<Rightarrow> ident \<Rightarrow> job_row \<Rightarrow> bool" where
  "exportInHand workspaceId userId r =
     (j_workspace_id r = workspaceId \<and> j_created_by r = Some userId \<and> j_kind r = WORKSPACE_EXPORT \<and>
      j_state r \<in> {Queued, Running})"

definition requestExport ::
  "time \<Rightarrow> ident \<Rightarrow> string \<Rightarrow> string option \<Rightarrow> access_claims option \<Rightarrow> ident \<Rightarrow> job_row list \<Rightarrow> 'b job_response \<times> job_row list" where
  "requestExport now newId payload token claims workspaceId rows =
     (if \<not> hasToken token then (Refused 401 ''not_authenticated'', rows)
      else case memberOf claims of
        None \<Rightarrow> (Refused 404 ''not_found'', rows)
      | Some userId \<Rightarrow>
          (case queryOne (filter (exportInHand workspaceId userId) rows) of
             Some r \<Rightarrow> (AlreadyRunning (j_id r), rows)
           | None \<Rightarrow>
               (let (i, rows') = enqueue now newId workspaceId WORKSPACE_EXPORT payload (Some userId) rows
                in (Accepted i, rows'))))"

definition listingOf :: "job_row \<Rightarrow> job_listing" where
  "listingOf r = \<lparr>jl_id = j_id r, jl_kind = j_kind r, jl_state = j_state r, jl_progress = j_progress r,
     jl_error = j_error r, jl_bytes = Option.bind (j_result r) jr_bytes, jl_pages = Option.bind (j_result r) jr_pages,
     jl_createdAt = j_created_at r, jl_expiresAt = j_expires_at r\<rparr>"

definition listJobs :: "string option \<Rightarrow> access_claims option \<Rightarrow> ident \<Rightarrow> job_row list \<Rightarrow> 'b job_response" where
  "listJobs token claims workspaceId rows =
     (if \<not> hasToken token then Refused 401 ''not_authenticated''
      else case memberOf claims of
        None \<Rightarrow> Refused 404 ''not_found''
      | Some userId \<Rightarrow>
          Listing (map listingOf (take 20 (sort_by (\<lambda>a b. j_created_at b - j_created_at a)
            (filter (\<lambda>r. j_workspace_id r = workspaceId \<and> j_created_by r = Some userId) rows)))))"

text \<open>\<open>!claims || anonymous || claims.principal.userId !== job.created_by\<close>, negated.\<close>

definition isAsker :: "access_claims option \<Rightarrow> job_row \<Rightarrow> bool" where
  "isAsker claims r =
     (case claims of
        None \<Rightarrow> False
      | Some c \<Rightarrow> (case principalUser (cl_principal c) of None \<Rightarrow> False | Some u \<Rightarrow> j_created_by r = Some u))"

text \<open>The claims are resolved in the workspace of the job; \<open>get\<close> is the store's, None when it throws.\<close>

definition downloadJob ::
  "(string \<Rightarrow> 'b option) \<Rightarrow> time \<Rightarrow> string option \<Rightarrow> (ident \<Rightarrow> access_claims option) \<Rightarrow> ident \<Rightarrow> job_row list \<Rightarrow> 'b job_response" where
  "downloadJob get now token claimsIn jobId rows =
     (if \<not> hasToken token then Refused 401 ''not_authenticated''
      else case queryOne (filter (\<lambda>r. j_id r = jobId) rows) of
        None \<Rightarrow> Refused 404 ''not_found''
      | Some r \<Rightarrow>
          if \<not> isAsker (claimsIn (j_workspace_id r)) r then Refused 404 ''not_found''
          else (case (j_state r, Option.bind (j_result r) jr_key) of
                  (JobDone, Some key) \<Rightarrow>
                    if key = [] then Refused 409 ''not_ready''
                    else if expired now r then Refused 410 ''expired''
                    else (case get key of None \<Rightarrow> Refused 410 ''expired'' | Some bytes \<Rightarrow> Archive bytes)
                | _ \<Rightarrow> Refused 409 ''not_ready''))"

definition removeJob ::
  "(string \<Rightarrow> 's \<Rightarrow> 's) \<Rightarrow> string option \<Rightarrow> (ident \<Rightarrow> access_claims option) \<Rightarrow> ident \<Rightarrow> job_row list \<Rightarrow> 's \<Rightarrow>
     'b job_response \<times> job_row list \<times> 's" where
  "removeJob delete token claimsIn jobId rows store =
     (if \<not> hasToken token then (Refused 401 ''not_authenticated'', rows, store)
      else case queryOne (filter (\<lambda>r. j_id r = jobId) rows) of
        None \<Rightarrow> (Refused 404 ''not_found'', rows, store)
      | Some r \<Rightarrow>
          if \<not> isAsker (claimsIn (j_workspace_id r)) r then (Refused 404 ''not_found'', rows, store)
          else if j_state r = Queued \<or> j_state r = Running then (Refused 409 ''job_running'', rows, store)
          else (Removed, filter (\<lambda>x. j_id x \<noteq> jobId) rows,
                (case Option.bind (j_result r) jr_key of None \<Rightarrow> store | Some key \<Rightarrow> delete key store)))"

end
