(* ===== verification/Job_Queue.thy ===== *)
theory Job_Queue
  imports Jobs
begin

text \<open>
  The queue as a whole. First the interleaving of any number of instances that claim, report, settle,
  crash, expire and remove, as a step relation with its invariant: no job is in two hands, none is
  attempted more than five times, and whoever asked is told once. Then that the queue drains.
\<close>

section \<open>Updates of one row\<close>

lemma j_id_simps [simp]:
  "j_id (startJob now r) = j_id r" "jb_id (jobOf r) = j_id r" "jb_kind (jobOf r) = j_kind r" "jb_attempts (jobOf r) = j_attempts r"
  by (simp_all add: startJob_def jobOf_def)

lemma startJob_simps [simp]:
  "j_state (startJob now r) = Running" "j_attempts (startJob now r) = Suc (j_attempts r)"
  "j_kind (startJob now r) = j_kind r" "j_expires_at (startJob now r) = j_expires_at r"
  by (simp_all add: startJob_def)

lemma updateJob_ids: "(\<And>r. j_id (f r) = j_id r) \<Longrightarrow> map j_id (updateJob i f rows) = map j_id rows"
  by (simp add: updateJob_def)

lemma updateJob_comp:
  "(\<And>r. j_id (g r) = j_id r) \<Longrightarrow> updateJob i f (updateJob i g rows) = updateJob i (\<lambda>r. f (g r)) rows"
  by (simp add: updateJob_def)

lemma updateJob_set:
  "(\<And>r. j_id (f r) = j_id r) \<Longrightarrow>
   x \<in> set (updateJob i f rows) \<longleftrightarrow> (j_id x \<noteq> i \<and> x \<in> set rows) \<or> (\<exists>r\<in>set rows. j_id r = i \<and> x = f r)"
  by (auto simp: updateJob_def)

lemma reports_update:
  "fold (reportProgress i) ps rows =
     updateJob i (\<lambda>r. if ps = [] then r else r\<lparr>j_progress := Some (last ps)\<rparr>) rows"
proof (induction ps arbitrary: rows)
  case Nil
  show ?case by (simp add: updateJob_def)
next
  case (Cons p ps)
  then show ?case by (auto simp: reportProgress_def updateJob_comp updateJob_def)
qed

lemma sort_by_set: "set (sort_by cmp xs) = set xs"
proof -
  have "set (insort_by cmp x ys) = insert x (set ys)" for x ys by (induction ys) auto
  then show ?thesis by (induction xs) auto
qed

lemma claimJob_cases:
  assumes "claimJob now kinds locked rows = (j, rows')"
  shows "(j = None \<and> rows' = rows \<and> (\<forall>r\<in>set rows. \<not> claimable now kinds locked r)) \<or>
    (\<exists>r\<in>set rows. claimable now kinds locked r \<and> j = Some (jobOf (startJob now r)) \<and>
       rows' = updateJob (j_id r) (startJob now) rows)"
proof (cases "queryOne (sort_by dueOrder (filter (claimable now kinds locked) rows))")
  case None
  then have "set (sort_by dueOrder (filter (claimable now kinds locked) rows)) = {}" by simp
  then show ?thesis using assms None by (auto simp: claimJob_def sort_by_set)
next
  case (Some r)
  then have "r \<in> set rows \<and> claimable now kinds locked r" using queryOne_Some [OF Some] by (simp add: sort_by_set)
  then show ?thesis using assms Some by (auto simp: claimJob_def)
qed

section \<open>Instances side by side\<close>

text \<open>\<open>js_held\<close> is what each instance is running, \<open>js_used\<close> the identifiers drawn so far.\<close>

record job_system =
  js_rows :: "job_row list"
  js_held :: "nat \<Rightarrow> job option"
  js_told :: "told list"
  js_used :: "ident set"

inductive job_step :: "job_system \<Rightarrow> job_system \<Rightarrow> bool" where
  submit: "newId \<notin> js_used s \<Longrightarrow>
    job_step s (s\<lparr>js_rows := snd (enqueue now newId ws kind payload by (js_rows s)), js_used := insert newId (js_used s)\<rparr>)"
| claim: "js_held s w = None \<Longrightarrow> claimJob now kinds locked (js_rows s) = (Some jb, rows') \<Longrightarrow>
    job_step s (s\<lparr>js_rows := rows', js_held := (js_held s)(w := Some jb)\<rparr>)"
| report: "js_held s w = Some jb \<Longrightarrow>
    job_step s (s\<lparr>js_rows := reportProgress (jb_id jb) progress (js_rows s)\<rparr>)"
| settle: "js_held s w = Some jb \<Longrightarrow> settleJob now hours jb oc (js_rows s) = (rows', ts) \<Longrightarrow>
    job_step s (s\<lparr>js_rows := rows', js_held := (js_held s)(w := None), js_told := js_told s @ ts\<rparr>)"
| crash: "js_held s w = Some jb \<Longrightarrow> job_step s (s\<lparr>js_held := (js_held s)(w := None)\<rparr>)"
| expire: "expireJobs now later del (js_rows s) (store :: unit) = (n, rows', store') \<Longrightarrow>
    job_step s (s\<lparr>js_rows := rows'\<rparr>)"
| remove: "removeJob del token claimsIn jobId (js_rows s) (store :: unit) = (resp :: unit job_response, rows', store') \<Longrightarrow>
    job_step s (s\<lparr>js_rows := rows'\<rparr>)"

definition emptySystem :: job_system where
  "emptySystem = \<lparr>js_rows = [], js_held = (\<lambda>_. None), js_told = [], js_used = {}\<rparr>"

definition jobs_reachable :: "job_system \<Rightarrow> bool" where
  "jobs_reachable s = job_step\<^sup>*\<^sup>* emptySystem s"

definition toldId :: "told \<Rightarrow> ident" where
  "toldId t = jb_id (fst t)"

text \<open>One row is sound: it waits with attempts left, runs within them, or is finished and told.\<close>

definition rowSound :: "ident set \<Rightarrow> job_row \<Rightarrow> bool" where
  "rowSound toldIds r =
     (case j_state r of
        Queued \<Rightarrow> j_attempts r < MAX_JOB_ATTEMPTS \<and> j_expires_at r = None \<and> j_id r \<notin> toldIds
      | Running \<Rightarrow> 1 \<le> j_attempts r \<and> j_attempts r \<le> MAX_JOB_ATTEMPTS \<and> j_expires_at r = None \<and> j_id r \<notin> toldIds
      | _ \<Rightarrow> j_attempts r \<le> MAX_JOB_ATTEMPTS \<and> j_id r \<in> toldIds)"

definition holds_row :: "job_row list \<Rightarrow> job \<Rightarrow> bool" where
  "holds_row rows jb = (\<exists>r\<in>set rows. j_id r = jb_id jb \<and> j_state r = Running \<and> j_attempts r = jb_attempts jb)"

definition queue_inv :: "job_system \<Rightarrow> bool" where
  "queue_inv s =
     (distinct (map j_id (js_rows s)) \<and> set (map j_id (js_rows s)) \<subseteq> js_used s \<and>
      (\<forall>r\<in>set (js_rows s). rowSound (toldId ` set (js_told s)) r) \<and>
      (\<forall>w jb. js_held s w = Some jb \<longrightarrow> holds_row (js_rows s) jb) \<and>
      (\<forall>w v a b. js_held s w = Some a \<and> js_held s v = Some b \<and> jb_id a = jb_id b \<longrightarrow> w = v) \<and>
      distinct (map toldId (js_told s)) \<and> toldId ` set (js_told s) \<subseteq> js_used s)"

lemma inv_empty: "queue_inv emptySystem"
  by (simp add: queue_inv_def emptySystem_def)

lemma queue_invD:
  assumes "queue_inv s"
  shows "distinct (map j_id (js_rows s))" "set (map j_id (js_rows s)) \<subseteq> js_used s"
    "\<And>r. r \<in> set (js_rows s) \<Longrightarrow> rowSound (toldId ` set (js_told s)) r"
    "\<And>w jb. js_held s w = Some jb \<Longrightarrow> holds_row (js_rows s) jb"
    "\<And>w v a b. js_held s w = Some a \<Longrightarrow> js_held s v = Some b \<Longrightarrow> jb_id a = jb_id b \<Longrightarrow> w = v"
    "distinct (map toldId (js_told s))" "toldId ` set (js_told s) \<subseteq> js_used s"
  using assms by (auto simp: queue_inv_def)

lemma distinct_row: "distinct (map j_id rows) \<Longrightarrow> r \<in> set rows \<Longrightarrow> x \<in> set rows \<Longrightarrow> j_id r = j_id x \<Longrightarrow> r = x"
  by (auto simp: distinct_map inj_on_def)

lemma queue_inv_update:
  assumes inv: "queue_inv s" and f: "\<And>r. j_id (f r) = j_id r" and i: "i \<in> js_used s"
    and sound: "\<And>r. r \<in> set (js_rows s) \<Longrightarrow> j_id r = i \<Longrightarrow> rowSound (toldId ` set (js_told s @ ts)) (f r)"
    and ts: "distinct (map toldId ts)" "toldId ` set ts \<subseteq> {i} - toldId ` set (js_told s)"
    and held: "\<And>w jb. H w = Some jb \<Longrightarrow> (jb_id jb \<noteq> i \<and> js_held s w = Some jb) \<or> (jb_id jb = i \<and> holds_row (updateJob i f (js_rows s)) jb)"
    and uniq: "\<And>w v a b. H w = Some a \<Longrightarrow> H v = Some b \<Longrightarrow> jb_id a = jb_id b \<Longrightarrow> w = v"
  shows "queue_inv (s\<lparr>js_rows := updateJob i f (js_rows s), js_held := H, js_told := js_told s @ ts\<rparr>)"
proof -
  note D = queue_invD [OF inv]
  have rows: "rowSound (toldId ` set (js_told s @ ts)) x" if "x \<in> set (updateJob i f (js_rows s))" for x
  proof (cases "j_id x = i")
    case True
    then show ?thesis using that sound f by (auto simp: updateJob_set [OF f])
  next
    case False
    then have "x \<in> set (js_rows s)" using that f by (auto simp: updateJob_set [OF f])
    moreover have "j_id x \<in> toldId ` set (js_told s @ ts) \<longleftrightarrow> j_id x \<in> toldId ` set (js_told s)" using False ts(2) by auto
    ultimately show ?thesis using D(3) [of x] unfolding rowSound_def by (cases "j_state x") simp_all
  qed
  have held': "holds_row (updateJob i f (js_rows s)) jb" if "H w = Some jb" for w jb
    using held [OF that] D(4) [of w jb] unfolding holds_row_def updateJob_set [OF f] Bex_def by metis
  have told: "distinct (map toldId (js_told s @ ts))" "toldId ` set (js_told s @ ts) \<subseteq> js_used s"
    using D(6,7) ts i by auto
  show ?thesis unfolding queue_inv_def using D(1,2) rows held' uniq told
    by (simp add: updateJob_ids [OF f])
qed

lemma queue_inv_filter:
  assumes "queue_inv s" and "\<And>r. r \<in> set (js_rows s) \<Longrightarrow> j_state r = Running \<Longrightarrow> P r"
  shows "queue_inv (s\<lparr>js_rows := filter P (js_rows s)\<rparr>)"
proof -
  note D = queue_invD [OF assms(1)]
  have "holds_row (filter P (js_rows s)) jb" if "js_held s w = Some jb" for w jb
    using D(4) [OF that] assms(2) by (auto simp: holds_row_def)
  then show ?thesis unfolding queue_inv_def using D by (auto simp: distinct_map_filter)
qed

lemma running_not_expired:
  "queue_inv s \<Longrightarrow> r \<in> set (js_rows s) \<Longrightarrow> j_state r = Running \<Longrightarrow> \<not> expired now r"
  using queue_invD(3) [of s r] by (simp add: rowSound_def expired_def)

lemma removeJob_rows:
  assumes "removeJob del token claimsIn jobId rows store = (resp, rows', store')" and "distinct (map j_id rows)"
  shows "\<exists>P. rows' = filter P rows \<and> (\<forall>r\<in>set rows. j_state r = Running \<longrightarrow> P r)"
proof (cases "rows' = rows")
  case True
  then show ?thesis by (intro exI [of _ "\<lambda>_. True"]) simp
next
  case False
  then obtain r where r: "queryOne (filter (\<lambda>r. j_id r = jobId) rows) = Some r" "j_state r \<noteq> Running"
    and rows': "rows' = filter (\<lambda>x. j_id x \<noteq> jobId) rows"
    using assms(1) by (auto simp: removeJob_def split: option.splits if_splits)
  have "r \<in> set rows" "j_id r = jobId" using queryOne_Some [OF r(1)] by auto
  then have "\<forall>x\<in>set rows. j_state x = Running \<longrightarrow> j_id x \<noteq> jobId" using assms(2) r(2) distinct_row by metis
  then show ?thesis using rows' by blast
qed

lemma inv_claim:
  assumes "queue_inv s" "js_held s w = None" "claimJob now kinds locked (js_rows s) = (Some jb, rows')"
  shows "queue_inv (s\<lparr>js_rows := rows', js_held := (js_held s)(w := Some jb)\<rparr>)"
proof -
  note D = queue_invD [OF assms(1)]
  obtain r where r: "r \<in> set (js_rows s)" "claimable now kinds locked r" and jb: "jb = jobOf (startJob now r)"
    and rows': "rows' = updateJob (j_id r) (startJob now) (js_rows s)"
    using claimJob_cases [OF assms(3)] by auto
  have q: "j_state r = Queued" "j_attempts r < MAX_JOB_ATTEMPTS" "j_expires_at r = None" "j_id r \<notin> toldId ` set (js_told s)"
    using r(2) D(3) [OF r(1)] by (auto simp: claimable_def rowSound_def)
  have other: "jb_id a \<noteq> j_id r" if h: "js_held s v = Some a" for v a
  proof
    assume "jb_id a = j_id r"
    then obtain x where "x \<in> set (js_rows s)" "j_id r = j_id x" "j_state x = Running"
      using D(4) [OF h] by (auto simp: holds_row_def)
    then show False using distinct_row [OF D(1) r(1)] q(1) by force
  qed
  have sound: "rowSound (toldId ` set (js_told s @ [])) (startJob now x)" if "x \<in> set (js_rows s)" "j_id x = j_id r" for x
    using distinct_row [OF D(1) r(1) that(1)] that(2) q by (auto simp: rowSound_def)
  have "queue_inv (s\<lparr>js_rows := updateJob (j_id r) (startJob now) (js_rows s), js_held := (js_held s)(w := Some jb), js_told := js_told s @ []\<rparr>)"
  proof (rule queue_inv_update [OF assms(1)])
    show "j_id r \<in> js_used s" using D(2) r(1) by auto
    fix v a assume "((js_held s)(w := Some jb)) v = Some a"
    then show "(jb_id a \<noteq> j_id r \<and> js_held s v = Some a) \<or> (jb_id a = j_id r \<and> holds_row (updateJob (j_id r) (startJob now) (js_rows s)) a)"
      using other r(1) jb by (auto simp: holds_row_def updateJob_set split: if_splits intro!: bexI [of _ "startJob now r"])
  next
    fix u v a b assume "((js_held s)(w := Some jb)) u = Some a" "((js_held s)(w := Some jb)) v = Some b" "jb_id a = jb_id b"
    then show "u = v" using other [of u a] other [of v b] jb D(5) [of u a v b] by (auto split: if_splits)
  qed (use sound in auto)
  then show ?thesis by (simp add: rows')
qed

lemma toldId_simps [simp]: "toldId (finishedJob jb res e, oc) = jb_id jb"
  by (simp add: toldId_def finishedJob_def job.defs)

lemma settleJob_update:
  assumes "settleJob now hours jb oc rows = (rows', ts)" and r: "j_id r = jb_id jb" "j_state r = Running" "j_attempts r = jb_attempts jb"
    and a: "1 \<le> jb_attempts jb" "jb_attempts jb \<le> MAX_JOB_ATTEMPTS" "j_expires_at r = None" and told: "jb_id jb \<notin> T"
  obtains f where "rows' = updateJob (jb_id jb) f rows" "\<And>x. j_id (f x) = j_id x"
    "rowSound (T \<union> toldId ` set ts) (f r)" "distinct (map toldId ts)" "toldId ` set ts \<subseteq> {jb_id jb}"
proof (cases oc)
  case (Inl message)
  show ?thesis
  proof (cases "jb_attempts jb < MAX_JOB_ATTEMPTS")
    case True
    let ?f = "\<lambda>r. r\<lparr>j_state := Queued, j_error := Some message, j_started_at := None,
       j_run_after := now + jobRetryDelayMs (jb_attempts jb)\<rparr>"
    show ?thesis using assms Inl True by (intro that [of ?f]) (auto simp: settleJob_def requeueJob_def rowSound_def)
  next
    case False
    let ?f = "\<lambda>r. r\<lparr>j_state := JobFailed, j_error := Some message, j_finished_at := Some now\<rparr>"
    show ?thesis using assms Inl False by (intro that [of ?f]) (auto simp: settleJob_def failJob_def rowSound_def)
  qed
next
  case (Inr p)
  obtain res expiresAt where p: "p = (res, expiresAt)" by (cases p)
  let ?f = "\<lambda>r. r\<lparr>j_state := JobDone, j_result := Some res, j_progress := None, j_finished_at := Some now,
       j_expires_at := Some (case expiresAt of None \<Rightarrow> now + hours * 3600000 | Some e \<Rightarrow> e)\<rparr>"
  show ?thesis using assms Inr p by (intro that [of ?f]) (auto simp: settleJob_def completeJob_def Let_def rowSound_def)
qed

lemma inv_settle:
  assumes "queue_inv s" "js_held s w = Some jb" "settleJob now hours jb oc (js_rows s) = (rows', ts)"
  shows "queue_inv (s\<lparr>js_rows := rows', js_held := (js_held s)(w := None), js_told := js_told s @ ts\<rparr>)"
proof -
  note D = queue_invD [OF assms(1)]
  obtain r where r: "r \<in> set (js_rows s)" "j_id r = jb_id jb" "j_state r = Running" "j_attempts r = jb_attempts jb"
    using D(4) [OF assms(2)] by (auto simp: holds_row_def)
  have only: "x = r" if "x \<in> set (js_rows s)" "j_id x = jb_id jb" for x
    using distinct_row [OF D(1) that(1) r(1)] that(2) r(2) by simp
  have q: "1 \<le> jb_attempts jb" "jb_attempts jb \<le> MAX_JOB_ATTEMPTS" "j_expires_at r = None" "jb_id jb \<notin> toldId ` set (js_told s)"
    using D(3) [OF r(1)] r by (auto simp: rowSound_def)
  obtain f where f: "rows' = updateJob (jb_id jb) f (js_rows s)" "\<And>x. j_id (f x) = j_id x"
    and sound: "rowSound (toldId ` set (js_told s @ ts)) (f r)" and ts: "distinct (map toldId ts)" "toldId ` set ts \<subseteq> {jb_id jb}"
    using settleJob_update [OF assms(3) r(2-4) q] unfolding set_append image_Un by blast
  show ?thesis unfolding f(1)
  proof (rule queue_inv_update [OF assms(1) f(2)])
    show "jb_id jb \<in> js_used s" using D(2) r(1,2) by auto
    fix v a assume "((js_held s)(w := None)) v = Some a"
    then show "(jb_id a \<noteq> jb_id jb \<and> js_held s v = Some a) \<or> (jb_id a = jb_id jb \<and> holds_row (updateJob (jb_id jb) f (js_rows s)) a)"
      using D(5) assms(2) by (auto split: if_splits)
  next
    fix u v a b assume "((js_held s)(w := None)) u = Some a" "((js_held s)(w := None)) v = Some b" "jb_id a = jb_id b"
    then show "u = v" using D(5) by (auto split: if_splits)
  qed (use sound only ts q(4) in auto)
qed


lemma inv_report:
  assumes "queue_inv s" "js_held s w = Some jb"
  shows "queue_inv (s\<lparr>js_rows := reportProgress (jb_id jb) progress (js_rows s)\<rparr>)"
proof -
  note D = queue_invD [OF assms(1)]
  let ?f = "\<lambda>r. r\<lparr>j_progress := Some progress\<rparr>"
  have "queue_inv (s\<lparr>js_rows := updateJob (jb_id jb) ?f (js_rows s), js_held := js_held s, js_told := js_told s @ []\<rparr>)"
  proof (rule queue_inv_update [OF assms(1)])
    show "jb_id jb \<in> js_used s" using D(2) D(4) [OF assms(2)] by (auto simp: holds_row_def)
    show "rowSound (toldId ` set (js_told s @ [])) (?f r)" if "r \<in> set (js_rows s)" for r
      using D(3) [OF that] by (cases "j_state r") (simp_all add: rowSound_def)
    fix v a assume v: "js_held s v = Some a"
    have "holds_row (updateJob i ?f (js_rows s)) a" for i
    proof -
      obtain r where "r \<in> set (js_rows s)" "j_id r = jb_id a" "j_state r = Running" "j_attempts r = jb_attempts a"
        using D(4) [OF v] by (auto simp: holds_row_def)
      then show ?thesis unfolding holds_row_def
        by (intro bexI [of _ "if j_id r = i then ?f r else r"]) (auto simp: updateJob_def)
    qed
    then show "(jb_id a \<noteq> jb_id jb \<and> js_held s v = Some a) \<or> (jb_id a = jb_id jb \<and> holds_row (updateJob (jb_id jb) ?f (js_rows s)) a)"
      using v by blast
  qed (use D(5) in auto)
  then show ?thesis by (simp add: reportProgress_def)
qed

lemma inv_submit:
  assumes "queue_inv s" "newId \<notin> js_used s"
  shows "queue_inv (s\<lparr>js_rows := snd (enqueue now newId ws kind payload by (js_rows s)), js_used := insert newId (js_used s)\<rparr>)"
proof -
  note D = queue_invD [OF assms(1)]
  have "holds_row (js_rows s @ rs) jb" if "holds_row (js_rows s) jb" for rs jb using that by (auto simp: holds_row_def)
  then show ?thesis using D assms(2) unfolding queue_inv_def
    by (auto simp: enqueue_def rowSound_def MAX_JOB_ATTEMPTS_def split: job_state.splits)
qed

lemma inv_step: "job_step s s' \<Longrightarrow> queue_inv s \<Longrightarrow> queue_inv s'"
proof (induction rule: job_step.induct)
  case (crash s w jb)
  then show ?case by (auto simp: queue_inv_def)
next
  case (expire now later del s store n rows' store')
  have "rows' = filter (\<lambda>r. \<not> expired later r) (js_rows s)" using expire(1) by (simp add: expireJobs_def Let_def)
  then show ?case using queue_inv_filter [OF expire(2)] running_not_expired [OF expire(2)] by simp
next
  case (remove del token claimsIn jobId s store resp rows' store')
  then show ?case using removeJob_rows [OF remove(1) queue_invD(1)] queue_inv_filter by metis
qed (simp_all add: inv_submit inv_claim inv_report inv_settle)

lemma inv_reachable: "jobs_reachable s \<Longrightarrow> queue_inv s"
  unfolding jobs_reachable_def by (induction rule: rtranclp_induct) (auto simp: inv_empty inv_step)


section \<open>A job whose instance is gone\<close>

definition orphan :: "job_row \<Rightarrow> job_system \<Rightarrow> bool" where
  "orphan r s = (r \<in> set (js_rows s) \<and> j_state r = Running \<and> (\<forall>w jb. js_held s w = Some jb \<longrightarrow> jb_id jb \<noteq> j_id r))"

lemma updateJob_other: "r \<in> set rows \<Longrightarrow> j_id r \<noteq> i \<Longrightarrow> r \<in> set (updateJob i f rows)"
  by (auto simp: updateJob_def image_iff intro!: bexI [of _ r])

lemma orphan_step: "job_step s s' \<Longrightarrow> queue_inv s \<Longrightarrow> orphan r s \<Longrightarrow> orphan r s'"
proof (induction rule: job_step.induct)
  case (submit newId s now ws kind payload "by")
  then show ?case by (auto simp: orphan_def enqueue_def)
next
  case (claim s w now kinds locked jb rows')
  note D = queue_invD [OF claim(3)]
  obtain x where x: "x \<in> set (js_rows s)" "claimable now kinds locked x" "jb = jobOf (startJob now x)"
    "rows' = updateJob (j_id x) (startJob now) (js_rows s)"
    using claimJob_cases [OF claim(2)] by auto
  have "j_id x \<noteq> j_id r"
    using distinct_row [OF D(1) x(1), of r] x(2) claim(4) by (auto simp: claimable_def orphan_def)
  then show ?case using claim(4) x(3,4) by (auto simp: orphan_def updateJob_other)
next
  case (report s w jb progress)
  then have "j_id r \<noteq> jb_id jb" unfolding orphan_def by metis
  then show ?case using report by (auto simp: orphan_def reportProgress_def updateJob_other)
next
  case (settle s w jb now hours oc rows' ts)
  then have ne: "j_id r \<noteq> jb_id jb" unfolding orphan_def by metis
  have "rows' = js_rows s \<or> (\<exists>f. rows' = updateJob (jb_id jb) f (js_rows s))"
    using settle(2) by (auto simp: settleJob_def completeJob_def failJob_def requeueJob_def Let_def split: sum.splits if_splits)
  then show ?case using settle(4) ne by (auto simp: orphan_def updateJob_other)
next
  case (crash s w jb)
  then show ?case by (auto simp: orphan_def)
next
  case (expire now later del s store n rows' store')
  have "rows' = filter (\<lambda>r. \<not> expired later r) (js_rows s)" using expire(1) by (simp add: expireJobs_def Let_def)
  then show ?case using expire(3) running_not_expired [OF expire(2)] by (auto simp: orphan_def)
next
  case (remove del token claimsIn jobId s store resp rows' store')
  then show ?case using removeJob_rows [OF remove(1) queue_invD(1) [OF remove(2)]] by (auto simp: orphan_def)
qed

lemma orphan_steps: "job_step\<^sup>*\<^sup>* s s' \<Longrightarrow> queue_inv s \<Longrightarrow> orphan r s \<Longrightarrow> queue_inv s' \<and> orphan r s'"
  by (induction rule: rtranclp_induct) (auto intro: inv_step orphan_step)

section \<open>Properties\<close>


text \<open>Nothing takes a running job back from an instance that is gone. From a state in which nobody
  holds a running export, every later state still has the row as it was, and the person who asked is
  answered that their export is already running, for ever.\<close>

theorem orphaned_export_blocks:
  assumes "jobs_reachable s" and "r \<in> set (js_rows s)" and "j_state r = Running" and "j_kind r = WORKSPACE_EXPORT"
    and "\<forall>w jb. js_held s w = Some jb \<longrightarrow> jb_id jb \<noteq> j_id r"
    and "memberOf claims = Some u" and "j_created_by r = Some u" and "hasToken token" and "job_step\<^sup>*\<^sup>* s s'"
  shows "r \<in> set (js_rows s') \<and>
    (\<exists>i. requestExport now newId payload token claims (j_workspace_id r) (js_rows s') = (AlreadyRunning i, js_rows s'))"
proof -
  have "orphan r s'" using orphan_steps [OF assms(9) inv_reachable [OF assms(1)]] assms(2,3,5) by (simp add: orphan_def)
  then have r: "r \<in> set (js_rows s')" by (simp add: orphan_def)
  then have "r \<in> set (filter (exportInHand (j_workspace_id r) u) (js_rows s'))"
    using assms(3,4,7) by (simp add: exportInHand_def)
  from queryOne_in [OF this] obtain x
    where "queryOne (filter (exportInHand (j_workspace_id r) u) (js_rows s')) = Some x" ..
  then show ?thesis using r assms(6,8) by (simp add: requestExport_def)
qed

text \<open>A system in which instance 0 has claimed an export, and then stops.\<close>

definition sampleQueued :: job_row where
  "sampleQueued = \<lparr>j_id = ''j'', j_workspace_id = ''w'', j_kind = WORKSPACE_EXPORT, j_state = Queued,
        j_payload = [], j_result = None, j_progress = None, j_error = None, j_created_by = Some ''u'',
        j_created_at = 5, j_started_at = None, j_finished_at = None, j_expires_at = None, j_attempts = 0,
        j_run_after = 5\<rparr>"

definition sampleRunning :: job_row where
  "sampleRunning = startJob 5 sampleQueued"

definition sampleClaimed :: job_system where
  "sampleClaimed = \<lparr>js_rows = [sampleRunning], js_held = (\<lambda>_. None)(0 := Some (jobOf sampleRunning)), js_told = [], js_used = {''j''}\<rparr>"

definition sampleOrphaned :: job_system where
  "sampleOrphaned = sampleClaimed\<lparr>js_held := (\<lambda>_. None)\<rparr>"

lemma sampleClaimed_reachable: "jobs_reachable sampleClaimed"
proof -
  define s1 where "s1 = emptySystem\<lparr>js_rows := [sampleQueued], js_used := {''j''}\<rparr>"
  have 1: "job_step emptySystem s1"
    using job_step.submit [of "''j''" emptySystem 5 "''w''" WORKSPACE_EXPORT "[]" "Some ''u''"]
    by (simp add: emptySystem_def s1_def sampleQueued_def enqueue_def)
  have rows: "js_rows s1 = [sampleQueued]" "js_held s1 0 = None" by (simp_all add: s1_def emptySystem_def)
  have "claimable 5 [WORKSPACE_EXPORT] [] sampleQueued" by (simp add: claimable_def sampleQueued_def)
  then have "claimJob 5 [WORKSPACE_EXPORT] [] (js_rows s1) = (Some (jobOf sampleRunning), [sampleRunning])"
    by (simp add: rows claimJob_def sampleRunning_def updateJob_def)
  from job_step.claim [of s1 0, OF rows(2) this] have "job_step s1 sampleClaimed"
    by (simp add: s1_def emptySystem_def sampleClaimed_def)
  with 1 show ?thesis unfolding jobs_reachable_def by (meson r_into_rtranclp rtranclp.rtrancl_into_rtrancl)
qed

lemma sampleOrphaned_reachable: "jobs_reachable sampleOrphaned"
proof -
  have "js_held sampleClaimed 0 = Some (jobOf sampleRunning)" by (simp add: sampleClaimed_def)
  from job_step.crash [OF this] have "job_step sampleClaimed sampleOrphaned"
    by (simp add: sampleOrphaned_def sampleClaimed_def)
  then show ?thesis using sampleClaimed_reachable unfolding jobs_reachable_def by (rule rtranclp.rtrancl_into_rtrancl [rotated])
qed

lemma sampleRunning_simps:
  "j_state sampleRunning = Running" "j_kind sampleRunning = WORKSPACE_EXPORT" "j_created_by sampleRunning = Some ''u''"
  "j_workspace_id sampleRunning = ''w''" "j_id sampleRunning = ''j''"
  by (simp_all add: sampleRunning_def startJob_def sampleQueued_def)


definition sampleAsker :: access_claims where
  "sampleAsker = \<lparr>cl_principal = UserPrincipal ''u'' ''U'', cl_workspaceId = ''w'', cl_workspaceRole = Some ''member'',
     cl_pageLevel = Some Editor, cl_grants = [], cl_caps = []\<rparr>"

theorem orphaned_export_blocks_witness:
  "\<exists>i. requestExport 9 ''k'' [] (Some ''t'') (Some sampleAsker) ''w'' (js_rows sampleOrphaned) =
     ((AlreadyRunning i :: unit job_response), js_rows sampleOrphaned)"
proof -
  have "memberOf (Some sampleAsker) = Some ''u''" "hasToken (Some ''t'')"
    by (simp_all add: memberOf_def sampleAsker_def hasToken_def)
  then show ?thesis
    using orphaned_export_blocks [OF sampleOrphaned_reachable _ sampleRunning_simps(1,2), of "Some sampleAsker" "''u''" "Some ''t''" sampleOrphaned 9 "''k''" "[]"]
    by (simp add: sampleRunning_simps sampleOrphaned_def sampleClaimed_def)
qed

section \<open>The queue drains\<close>

text \<open>The timer of \<^verbatim>\<open>main.ts\<close>: one run per tick, each with the time it starts and the time it is through.\<close>

fun runJobs :: "time \<Rightarrow> (string \<times> job_handler) list \<Rightarrow> (time \<times> time) list \<Rightarrow> job_row list \<Rightarrow> job_row list \<times> told list" where
  "runJobs hours handlers [] rows = (rows, [])"
| "runJobs hours handlers ((now, later) # ticks) rows =
     (let (ran, rows1, t1) = runOneJob now later hours handlers rows;
          (rows2, t2) = runJobs hours handlers ticks rows1
      in (rows2, t1 @ t2))"

text \<open>Ticks that leave room for the longest gap between attempts, the first one at \<open>due\<close> or after.\<close>

fun spaced :: "time \<Rightarrow> (time \<times> time) list \<Rightarrow> bool" where
  "spaced due [] = True"
| "spaced due ((now, later) # ticks) = (due \<le> now \<and> now \<le> later \<and> spaced (later + 3600000) ticks)"

definition weight :: "job_row \<Rightarrow> nat" where
  "weight r = (if j_state r = Queued then MAX_JOB_ATTEMPTS - j_attempts r else 0)"

definition backlog :: "job_row list \<Rightarrow> nat" where
  "backlog rows = sum_list (map weight rows)"

definition queuedIds :: "job_row list \<Rightarrow> ident set" where
  "queuedIds rows = j_id ` {r \<in> set rows. j_state r = Queued}"

definition drainable :: "string list \<Rightarrow> time \<Rightarrow> job_row list \<Rightarrow> bool" where
  "drainable kinds due rows =
     (distinct (map j_id rows) \<and>
      (\<forall>r\<in>set rows. j_state r \<noteq> Running \<and>
         (j_state r = Queued \<longrightarrow> j_attempts r < MAX_JOB_ATTEMPTS \<and> j_kind r \<in> set kinds \<and> j_run_after r \<le> due)))"

lemma jobRetryDelay_bound: "jobRetryDelayMs n \<le> 3600000"
  by (simp add: jobRetryDelayMs_def)

lemma settleJob_shape:
  assumes "settleJob now hours jb oc rows = (rows', ts)"
  obtains g where "rows' = updateJob (jb_id jb) g rows" "\<And>x. j_id (g x) = j_id x"
    "(jb_attempts jb < MAX_JOB_ATTEMPTS \<and> ts = [] \<and>
       (\<forall>x. j_state (g x) = Queued \<and> j_attempts (g x) = j_attempts x \<and> j_kind (g x) = j_kind x \<and> j_run_after (g x) \<le> now + 3600000)) \<or>
     ((\<forall>x. j_state (g x) \<in> {JobDone, JobFailed}) \<and> map toldId ts = [jb_id jb])"
proof (cases oc)
  case (Inl message)
  show ?thesis
  proof (cases "jb_attempts jb < MAX_JOB_ATTEMPTS")
    case True
    then show ?thesis using assms Inl jobRetryDelay_bound
      by (intro that [of "\<lambda>r. r\<lparr>j_state := Queued, j_error := Some message, j_started_at := None,
          j_run_after := now + jobRetryDelayMs (jb_attempts jb)\<rparr>"]) (auto simp: settleJob_def requeueJob_def)
  next
    case False
    then show ?thesis using assms Inl
      by (intro that [of "\<lambda>r. r\<lparr>j_state := JobFailed, j_error := Some message, j_finished_at := Some now\<rparr>"])
        (auto simp: settleJob_def failJob_def)
  qed
next
  case (Inr p)
  obtain res expiresAt where p: "p = (res, expiresAt)" by (cases p)
  show ?thesis using assms Inr p
    by (intro that [of "\<lambda>r. r\<lparr>j_state := JobDone, j_result := Some res, j_progress := None, j_finished_at := Some now,
        j_expires_at := Some (case expiresAt of None \<Rightarrow> now + hours * 3600000 | Some e \<Rightarrow> e)\<rparr>"])
      (auto simp: settleJob_def completeJob_def Let_def)
qed

lemma runOneJob_shape:
  assumes d: "drainable (map fst handlers) due rows" and t: "due \<le> now" "now \<le> later" and q: "queuedIds rows \<noteq> {}"
  obtains r f rows' ts where "runOneJob now later hours handlers rows = (True, rows', ts)" "r \<in> set rows" "j_state r = Queued"
    "rows' = updateJob (j_id r) f rows" "\<And>x. j_id (f x) = j_id x"
    "(j_state (f r) = Queued \<and> j_attempts (f r) = Suc (j_attempts r) \<and> Suc (j_attempts r) < MAX_JOB_ATTEMPTS \<and> j_kind (f r) = j_kind r \<and>
      j_run_after (f r) \<le> later + 3600000 \<and> ts = []) \<or>
     (j_state (f r) \<in> {JobDone, JobFailed} \<and> map toldId ts = [j_id r])"
proof -
  obtain q where q: "q \<in> set rows" "j_state q = Queued" using q by (auto simp: queuedIds_def)
  then have "claimable now (map fst handlers) [] q" using d t(1) by (auto simp: drainable_def claimable_def)
  then obtain r rows1 where r: "r \<in> set rows" "claimable now (map fst handlers) [] r"
    and c: "claimJob now (map fst handlers) [] rows = (Some (jobOf (startJob now r)), rows1)"
    and rows1: "rows1 = updateJob (j_id r) (startJob now) rows"
    using claimJob_cases [of now "map fst handlers" "[]" rows] q(1)
    by (cases "claimJob now (map fst handlers) [] rows") auto
  let ?jb = "jobOf (startJob now r)"
  from r(2) have kind: "j_kind r \<in> fst ` set handlers" by (simp add: claimable_def)
  then obtain h where h: "map_of handlers (j_kind r) = Some h" by (metis map_of_eq_None_iff not_Some_eq)
  obtain reports oc where hj: "h ?jb = (reports, oc)" by (cases "h ?jb")
  let ?p = "\<lambda>x. if reports = [] then x else x\<lparr>j_progress := Some (last reports)\<rparr>"
  obtain rows' ts where st: "settleJob later hours ?jb oc (updateJob (j_id r) (\<lambda>x. ?p (startJob now x)) rows) = (rows', ts)"
    by (cases "settleJob later hours ?jb oc (updateJob (j_id r) (\<lambda>x. ?p (startJob now x)) rows)")
  have run: "runOneJob now later hours handlers rows = (True, rows', ts)"
    using st by (simp add: runOneJob_def c h hj rows1 reports_update updateJob_comp)
  let ?f0 = "\<lambda>x. ?p (startJob now x)"
  have f0: "j_id (?f0 x) = j_id x" "j_attempts (?f0 x) = Suc (j_attempts x)" "j_kind (?f0 x) = j_kind x" for x by simp_all
  show ?thesis
  proof (rule settleJob_shape [OF st])
    fix g assume g: "rows' = updateJob (jb_id ?jb) g (updateJob (j_id r) ?f0 rows)" "\<And>x. j_id (g x) = j_id x"
      and gs: "(jb_attempts ?jb < MAX_JOB_ATTEMPTS \<and> ts = [] \<and>
        (\<forall>x. j_state (g x) = Queued \<and> j_attempts (g x) = j_attempts x \<and> j_kind (g x) = j_kind x \<and> j_run_after (g x) \<le> later + 3600000)) \<or>
       ((\<forall>x. j_state (g x) \<in> {JobDone, JobFailed}) \<and> map toldId ts = [jb_id ?jb])"
    show ?thesis
    proof (rule that [OF run r(1), of "\<lambda>x. g (?f0 x)"])
      show "j_state r = Queued" using r(2) by (simp add: claimable_def)
      show "rows' = updateJob (j_id r) (\<lambda>x. g (?f0 x)) rows" using g(1) f0(1) by (simp add: updateJob_comp)
      show "j_id (g (?f0 x)) = j_id x" for x unfolding g(2) by (rule f0(1))
      show "(j_state (g (?f0 r)) = Queued \<and> j_attempts (g (?f0 r)) = Suc (j_attempts r) \<and> Suc (j_attempts r) < MAX_JOB_ATTEMPTS \<and>
          j_kind (g (?f0 r)) = j_kind r \<and> j_run_after (g (?f0 r)) \<le> later + 3600000 \<and> ts = []) \<or>
        (j_state (g (?f0 r)) \<in> {JobDone, JobFailed} \<and> map toldId ts = [j_id r])"
        using gs f0(2,3) [of r] by auto
    qed
  qed
qed

lemma backlog_update:
  assumes "distinct (map j_id rows)" "r \<in> set rows" "\<And>x. j_id (f x) = j_id x"
  shows "backlog (updateJob (j_id r) f rows) + weight r = backlog rows + weight (f r)"
  using assms
proof (induction rows)
  case (Cons x rows)
  show ?case
  proof (cases "x = r")
    case True
    then have "updateJob (j_id r) f rows = rows" using Cons.prems(1) by (auto simp: updateJob_def image_iff intro!: map_idI)
    then show ?thesis using True by (simp add: backlog_def updateJob_def)
  next
    case False
    then have "j_id x \<noteq> j_id r" using Cons.prems by auto
    then show ?thesis using Cons False by (simp add: backlog_def updateJob_def)
  qed
qed simp

lemma queuedIds_update:
  assumes "distinct (map j_id rows)" "r \<in> set rows" "\<And>x. j_id (f x) = j_id x"
  shows "queuedIds (updateJob (j_id r) f rows) = queuedIds rows - {j_id r} \<union> (if j_state (f r) = Queued then {j_id r} else {})"
proof -
  have "x = r" if "x \<in> set rows" "j_id x = j_id r" for x using distinct_row [OF assms(1) that(1) assms(2)] that(2) by simp
  then show ?thesis using assms(2,3) by (auto simp: queuedIds_def updateJob_set [OF assms(3)] image_iff) (metis assms(3))+
qed

lemma drain_step:
  assumes d: "drainable (map fst handlers) due rows" and t: "due \<le> now" "now \<le> later" and q: "queuedIds rows \<noteq> {}"
  obtains rows' ts where "runOneJob now later hours handlers rows = (True, rows', ts)"
    "drainable (map fst handlers) (later + 3600000) rows'" "backlog rows' < backlog rows"
    "map j_id rows' = map j_id rows" "distinct (map toldId ts)" "queuedIds rows = toldId ` set ts \<union> queuedIds rows'"
    "toldId ` set ts \<inter> queuedIds rows' = {}"
proof (rule runOneJob_shape [OF assms])
  fix r f rows' ts
  assume run: "runOneJob now later hours handlers rows = (True, rows', ts)" and r: "r \<in> set rows" "j_state r = Queued"
    and rows': "rows' = updateJob (j_id r) f rows" and f: "\<And>x. j_id (f x) = j_id x"
    and shape: "(j_state (f r) = Queued \<and> j_attempts (f r) = Suc (j_attempts r) \<and> Suc (j_attempts r) < MAX_JOB_ATTEMPTS \<and> j_kind (f r) = j_kind r \<and>
      j_run_after (f r) \<le> later + 3600000 \<and> ts = []) \<or> (j_state (f r) \<in> {JobDone, JobFailed} \<and> map toldId ts = [j_id r])"
  have dist: "distinct (map j_id rows)" using d by (simp add: drainable_def)
  have rd: "j_attempts r < MAX_JOB_ATTEMPTS" "j_kind r \<in> set (map fst handlers)" using d r by (auto simp: drainable_def)
  have only: "x = r" if "x \<in> set rows" "j_id x = j_id r" for x using distinct_row [OF dist that(1) r(1)] that(2) by simp
  have ids: "map j_id rows' = map j_id rows" unfolding rows' by (rule updateJob_ids [OF f])
  have "drainable (map fst handlers) (later + 3600000) rows'"
    unfolding drainable_def ids
  proof (intro conjI ballI dist)
    fix x assume x: "x \<in> set rows'"
    have "(x \<in> set rows \<and> j_id x \<noteq> j_id r) \<or> x = f r" using x only by (auto simp: rows' updateJob_set [OF f])
    then show "j_state x \<noteq> Running"
      and "j_state x = Queued \<longrightarrow> j_attempts x < MAX_JOB_ATTEMPTS \<and> j_kind x \<in> set (map fst handlers) \<and> j_run_after x \<le> later + 3600000"
      using d shape rd t by (auto simp: drainable_def simp del: set_map)
  qed
  moreover have "weight (f r) < weight r" using shape r(2) rd(1) by (auto simp: weight_def)
  then have "backlog rows' < backlog rows" using backlog_update [OF dist r(1) f] by (simp add: rows')
  moreover have "queuedIds rows' = queuedIds rows - {j_id r} \<union> (if j_state (f r) = Queued then {j_id r} else {})"
    unfolding rows' by (rule queuedIds_update [OF dist r(1) f])
  moreover have "j_id r \<in> queuedIds rows" using r by (auto simp: queuedIds_def)
  moreover have told: "map toldId ts = (if j_state (f r) = Queued then [] else [j_id r])" using shape by auto
  then have "toldId ` set ts = (if j_state (f r) = Queued then {} else {j_id r})" "distinct (map toldId ts)"
    unfolding list.set_map [symmetric] by simp_all
  ultimately show ?thesis using that [OF run] ids by (auto split: if_splits)
qed

lemma runJobs_drain:
  assumes "drainable (map fst handlers) due rows" "spaced due ticks" "runJobs hours handlers ticks rows = (rows', ts)"
  shows "(queuedIds rows' = {} \<or> length ticks + backlog rows' \<le> backlog rows) \<and> (\<forall>r\<in>set rows'. j_state r \<noteq> Running \<and> (j_state r = Queued \<longrightarrow> j_attempts r < MAX_JOB_ATTEMPTS)) \<and>
    map j_id rows' = map j_id rows \<and> distinct (map toldId ts) \<and> queuedIds rows = toldId ` set ts \<union> queuedIds rows'"
  using assms
proof (induction ticks arbitrary: due rows ts)
  case Nil
  then show ?case by (auto simp: drainable_def)
next
  case (Cons tick ticks)
  obtain now later where tick: "tick = (now, later)" by (cases tick)
  then have t: "due \<le> now" "now \<le> later" "spaced (later + 3600000) ticks" using Cons.prems(2) by simp_all
  show ?case
  proof (cases "queuedIds rows = {}")
    case True
    then have "\<forall>r\<in>set rows. \<not> claimable now (map fst handlers) [] r" by (auto simp: queuedIds_def claimable_def)
    then have "claimJob now (map fst handlers) [] rows = (None, rows)"
      using claimJob_cases [of now "map fst handlers" "[]" rows] by (cases "claimJob now (map fst handlers) [] rows") auto
    then have run: "runOneJob now later hours handlers rows = (False, rows, [])" by (simp add: runOneJob_def)
    have "drainable (map fst handlers) (later + 3600000) rows" using Cons.prems(1) True by (auto simp: drainable_def queuedIds_def)
    from Cons.IH [OF this t(3)] show ?thesis using Cons.prems(3) run True
      by (auto simp: tick Let_def split: prod.splits)
  next
    case False
    from drain_step [OF Cons.prems(1) t(1,2) False, of hours] obtain rows1 t1 where
      run: "runOneJob now later hours handlers rows = (True, rows1, t1)" and
      d: "drainable (map fst handlers) (later + 3600000) rows1" and b: "backlog rows1 < backlog rows" and
      ids: "map j_id rows1 = map j_id rows" and t1: "distinct (map toldId t1)" "queuedIds rows = toldId ` set t1 \<union> queuedIds rows1"
      "toldId ` set t1 \<inter> queuedIds rows1 = {}" by blast
    obtain t2 where t2: "runJobs hours handlers ticks rows1 = (rows', t2)" "ts = t1 @ t2"
      using Cons.prems(3) by (auto simp: tick run Let_def split: prod.splits)
    from Cons.IH [OF d t(3) t2(1)] show ?thesis using b ids t1 t2(2) by auto
  qed
qed


text \<open>One job that fails on its first attempt and succeeds on its second; five ticks an hour apart.\<close>

definition sampleHandlers :: "(string \<times> job_handler) list" where
  "sampleHandlers = [(WORKSPACE_EXPORT, \<lambda>jb. ([''packing''],
     if jb_attempts jb = 1 then Inl ''relay is down'' else Inr (\<lparr>jr_key = Some ''k'', jr_bytes = Some 3, jr_pages = Some 1\<rparr>, None)))]"

definition sampleTicks :: "(time \<times> time) list" where
  "sampleTicks = [(5, 6), (3600006, 3600007), (7200007, 7200008), (10800008, 10800009), (14400009, 14400010)]"


end
