(* ===== verification/Job_Access.thy ===== *)
theory Job_Access
  imports Jobs
begin

text \<open>
  Who reaches a job over HTTP: the routes of \<^verbatim>\<open>packages/server/src/jobs/routes.ts\<close> composed with the
  sessions, the standing and the claims they resolve for a request.
\<close>

text \<open>What \<open>claimsOrNull\<close> gives a route; an error of the database ends the request without claims.\<close>

definition claimsAt :: "crypto \<Rightarrow> gate \<Rightarrow> time \<Rightarrow> string option \<Rightarrow> database \<Rightarrow> ident \<Rightarrow> access_claims option" where
  "claimsAt cr gate now token db workspaceId =
     (case fst (claimsOrNull cr gate now token workspaceId db) of Inl _ \<Rightarrow> None | Inr c \<Rightarrow> c)"

lemma claimsAt_Some:
  assumes "claimsAt cr gate now token db ws = Some c"
  obtains t user sid db' standing where "token = Some t" "resolveSession cr now t db = (Some (user, sid), db')"
    "\<not> gateBlocks gate db' (su_userId user)" "loadWorkspaceStanding db' (su_userId user) ws = Inr standing"
    "st_isMember standing" "c = memberClaims db' (su_isGuest user) (su_userId user) (su_displayName user) ws standing"
proof -
  obtain t where t: "token = Some t" "fst (resolveSessionClaims cr gate now t ws db) = Inr (Some c)"
    using assms by (auto simp: claimsAt_def claimsOrNull_def split: option.splits if_splits sum.splits)
  show ?thesis
  proof (cases "resolveSession cr now t db")
    case (Pair found db')
    then show ?thesis using t that
      by (cases found) (auto simp: resolveSessionClaims_def result_simps split: if_splits)
  qed
qed

lemma memberClaims_user: "principalUser (cl_principal (memberClaims db g u n ws st)) = Some u"
  by (simp add: memberClaims_def)

text \<open>A result goes to the person who asked and to nobody else. A download that hands out bytes was
  made with a session that resolves, is not held back by the second factor and belongs to a member of the
  job's workspace, who is the account the job was created for; the job is done, has not expired, and the
  bytes are what the store keeps under its key.\<close>

theorem download_asker_only:
  assumes "downloadJob get now token (claimsAt cr gate now token db) jobId rows = Archive bytes"
  shows "\<exists>r t user sid db' standing res key.
    r \<in> set rows \<and> j_id r = jobId \<and> j_state r = JobDone \<and> \<not> expired now r \<and>
    token = Some t \<and> resolveSession cr now t db = (Some (user, sid), db') \<and> \<not> gateBlocks gate db' (su_userId user) \<and>
    loadWorkspaceStanding db' (su_userId user) (j_workspace_id r) = Inr standing \<and> st_isMember standing \<and>
    j_created_by r = Some (su_userId user) \<and> j_result r = Some res \<and> jr_key res = Some key \<and> get key = Some bytes"
proof -
  obtain r where r: "queryOne (filter (\<lambda>r. j_id r = jobId) rows) = Some r" and asker: "isAsker (claimsAt cr gate now token db (j_workspace_id r)) r"
    and rest: "(case (j_state r, Option.bind (j_result r) jr_key) of
                  (JobDone, Some key) \<Rightarrow>
                    if key = [] then Refused 409 ''not_ready''
                    else if expired now r then Refused 410 ''expired''
                    else (case get key of None \<Rightarrow> Refused 410 ''expired'' | Some bytes \<Rightarrow> Archive bytes)
                | _ \<Rightarrow> Refused 409 ''not_ready'') = Archive bytes"
    using assms by (auto simp: downloadJob_def split: if_splits option.splits)
  have in_rows: "r \<in> set rows" "j_id r = jobId" using queryOne_Some [OF r] by auto
  obtain key where key: "j_state r = JobDone" "Option.bind (j_result r) jr_key = Some key" "\<not> expired now r" "get key = Some bytes"
    using rest by (auto split: job_state.splits option.splits if_splits)
  then obtain res where res: "j_result r = Some res" "jr_key res = Some key" by (auto simp: bind_eq_Some_conv)
  obtain c where c: "claimsAt cr gate now token db (j_workspace_id r) = Some c" and u: "principalUser (cl_principal c) = j_created_by r"
    using asker by (auto simp: isAsker_def split: option.splits)
  from c show ?thesis
  proof (rule claimsAt_Some)
    fix t user sid db' standing
    assume "token = Some t" "resolveSession cr now t db = (Some (user, sid), db')" "\<not> gateBlocks gate db' (su_userId user)"
      "loadWorkspaceStanding db' (su_userId user) (j_workspace_id r) = Inr standing" "st_isMember standing"
      and m: "c = memberClaims db' (su_isGuest user) (su_userId user) (su_displayName user) (j_workspace_id r) standing"
    moreover have "j_created_by r = Some (su_userId user)" using u m memberClaims_user by metis
    ultimately show ?thesis using in_rows key(1,3,4) res by blast
  qed
qed

text \<open>The export that every member may ask for is refused to a member with a custom role. Claims carry
  the name of a system role and nothing for any other, and the route takes that for not being a member.\<close>

theorem custom_role_cannot_export:
  assumes "resolveSession cr now t db = (Some (user, sid), db')" and "t \<noteq> []" and "\<not> gateBlocks gate db' (su_userId user)"
    and "loadWorkspaceStanding db' (su_userId user) ws = Inr standing" and "st_isMember standing" and "st_role standing = None"
  shows "requestExport now newId payload (Some t) (claimsAt cr gate now (Some t) db ws) ws rows = (Refused 404 ''not_found'', rows)"
proof -
  have "claimsAt cr gate now (Some t) db ws =
      Some (memberClaims db' (su_isGuest user) (su_userId user) (su_displayName user) ws standing)"
    using assms(1-5) by (simp add: claimsAt_def claimsOrNull_def resolveSessionClaims_def)
  then show ?thesis using assms(2,6) by (simp add: requestExport_def hasToken_def memberOf_def memberClaims_def)
qed


section \<open>A workspace with a custom role\<close>

definition customRole :: role_row where
  "customRole = \<lparr>r_id = ''c'', r_workspace_id = Some ''w'', r_key = None, r_name = ''Reviewer'',
     r_page_level = Some Editor, r_rights = []\<rparr>"

definition jobDb :: database where
  "jobDb = snd (createSession plainCrypto 0 ''t'' ''s'' ''ada'' None None
     (emptyDb\<lparr>users := [ada], roles := [customRole],
        workspace_members := [\<lparr>m_workspace_id = ''w'', m_user_id = ''ada'', m_role_id = ''c'', m_is_owner = False\<rparr>]\<rparr>))"

definition doneRow :: job_row where
  "doneRow = \<lparr>j_id = ''j'', j_workspace_id = ''w'', j_kind = WORKSPACE_EXPORT, j_state = JobDone,
        j_payload = [], j_result = Some \<lparr>jr_key = Some ''k'', jr_bytes = Some 3, jr_pages = None\<rparr>, j_progress = None,
        j_error = None, j_created_by = Some ''ada'', j_created_at = 1, j_started_at = Some 1, j_finished_at = Some 2,
        j_expires_at = Some 500, j_attempts = 1, j_run_after = 1\<rparr>"

theorem download_asker_only_witness:
  "downloadJob (\<lambda>k. if k = ''k'' then Some ''zip'' else None) 9 (Some ''t'') (claimsAt plainCrypto None 9 (Some ''t'') jobDb) ''j'' [doneRow] =
     Archive ''zip'' \<and> fst (resolveSession plainCrypto 9 ''t'' jobDb) \<noteq> None"
proof -
  let ?get = "\<lambda>k. if k = ''k'' then Some ''zip'' else None"
  have run: "downloadJob ?get 9 (Some ''t'') (claimsAt plainCrypto None 9 (Some ''t'') jobDb) ''j'' [doneRow] = Archive ''zip''"
    by code_simp
  with download_asker_only [OF run] show ?thesis by auto
qed

theorem custom_role_cannot_export_witness:
  "requestExport 9 ''n'' [] (Some ''t'') (claimsAt plainCrypto None 9 (Some ''t'') jobDb ''w'') ''w'' [] =
     ((Refused 404 ''not_found'' :: unit job_response), [])"
proof -
  obtain user sid db' where s: "resolveSession plainCrypto 9 ''t'' jobDb = (Some (user, sid), db')" and u: "su_userId user = ''ada''"
    and db': "roles db' = roles jobDb" "workspace_members db' = workspace_members jobDb" "group_members db' = group_members jobDb"
    by (simp add: resolveSession_def sessionJoin_def sessionUsable_def jobDb_def createSession_def emptyDb_def ada_def plainCrypto_def
        days_def SESSION_TTL_DAYS_def SESSION_IDLE_DAYS_def Let_def)
  have "\<exists>st. loadWorkspaceStanding db' ''ada'' ''w'' = Inr st \<and> st_isMember st \<and> st_role st = None"
    using db' by (simp add: loadWorkspaceStanding_def memberRow_def ownRoles_def groupRoles_def jobDb_def createSession_def
        emptyDb_def customRole_def Let_def)
  then show ?thesis using custom_role_cannot_export [OF s, of None] u by (auto simp: gateBlocks_def)
qed

end
