(* ===== verification/Workspace_Order.thy ===== *)
theory Workspace_Order
  imports Fractional_Index
begin

text \<open>
  \<^verbatim>\<open>packages/server/src/workspaces/order.ts\<close>: a person's own order of their workspaces. The membership
  rows carry an order key or none; placing one workspace first gives a key to every row that has none,
  in the order shown, and then writes one key between two neighbours. The locale's string comparison is
  a parameter. What the person sees is a list, and placing is moving one element of it.
\<close>

section \<open>Rows\<close>

record membership =
  mb_workspace_id :: string
  mb_user_id :: string
  mb_idx :: "string option"

record named_workspace =
  nw_id :: string
  nw_name :: string
  nw_deleted_at :: "int option"

record listed_row =
  lr_id :: string
  lr_idx :: "string option"
  lr_name :: string

text \<open>\<open>ORDER BY (m.idx IS NULL), m.idx, w.name COLLATE "und-x-icu"\<close>; the keys compare by code unit.\<close>

definition WORKSPACE_ORDER :: "(string \<Rightarrow> string \<Rightarrow> int) \<Rightarrow> listed_row \<Rightarrow> listed_row \<Rightarrow> int" where
  "WORKSPACE_ORDER collate a b =
     (case (lr_idx a, lr_idx b) of
        (Some i, Some j) \<Rightarrow> if i < j then -1 else if j < i then 1 else collate (lr_name a) (lr_name b)
      | (Some _, None) \<Rightarrow> -1
      | (None, Some _) \<Rightarrow> 1
      | (None, None) \<Rightarrow> collate (lr_name a) (lr_name b))"

definition joined :: "string \<Rightarrow> named_workspace list \<Rightarrow> membership list \<Rightarrow> listed_row list" where
  "joined userId workspaces members =
     concat (map (\<lambda>m. map (\<lambda>w. \<lparr>lr_id = mb_workspace_id m, lr_idx = mb_idx m, lr_name = nw_name w\<rparr>)
       (filter (\<lambda>w. nw_id w = mb_workspace_id m \<and> nw_deleted_at w = None) workspaces))
       (filter (\<lambda>m. mb_user_id m = userId) members))"

definition workspaceRows ::
  "(string \<Rightarrow> string \<Rightarrow> int) \<Rightarrow> string \<Rightarrow> named_workspace list \<Rightarrow> membership list \<Rightarrow> listed_row list" where
  "workspaceRows collate userId workspaces members =
     sort_by (WORKSPACE_ORDER collate) (joined userId workspaces members)"

section \<open>Placing\<close>

datatype place_result =
    Placed string
  | PlaceRefused nat string
  | PlaceThrew fractional_index_error

text \<open>\<open>UPDATE workspace_members SET idx = $3 WHERE user_id = $1 AND workspace_id = $2\<close>\<close>

definition setIdx :: "string \<Rightarrow> string \<Rightarrow> string \<Rightarrow> membership list \<Rightarrow> membership list" where
  "setIdx userId workspaceId key members =
     map (\<lambda>m. if mb_user_id m = userId \<and> mb_workspace_id m = workspaceId then m\<lparr>mb_idx := Some key\<rparr> else m) members"

text \<open>The keys for the rows without one; \<open>previous\<close> is the key of the row before.\<close>

fun placeNulls :: "string option \<Rightarrow> listed_row list \<Rightarrow> fractional_index_error + (string \<times> string) list" where
  "placeNulls previous [] = Inr []"
| "placeNulls previous (r # rows) =
     (case lr_idx r of
        None \<Rightarrow> rbind (generateKeyBetween previous None) (\<lambda>key.
                  rmap (\<lambda>placed. (lr_id r, key) # placed) (placeNulls (Some key) rows))
      | Some i \<Rightarrow> placeNulls (Some i) rows)"

definition keyOf :: "(string \<times> string) list \<Rightarrow> listed_row \<Rightarrow> string" where
  "keyOf placed r =
     (case lr_idx r of Some i \<Rightarrow> i | None \<Rightarrow> (case map_of placed (lr_id r) of None \<Rightarrow> [] | Some k \<Rightarrow> k))"

definition splitAt :: "string option \<Rightarrow> (string \<times> string) list \<Rightarrow> (string \<times> string) list \<times> (string \<times> string) list" where
  "splitAt sibling ordered =
     (case sibling of
        None \<Rightarrow> ([], ordered)
      | Some a \<Rightarrow> (let n = length (takeWhile (\<lambda>p. fst p \<noteq> a) ordered) in (take (n + 1) ordered, drop (n + 1) ordered)))"

definition placeWorkspace ::
  "(string \<Rightarrow> string \<Rightarrow> int) \<Rightarrow> named_workspace list \<Rightarrow> string \<Rightarrow> string \<Rightarrow> string option \<Rightarrow> membership list \<Rightarrow>
     place_result \<times> membership list" where
  "placeWorkspace collate workspaces userId workspaceId sibling members =
     (if sibling = Some workspaceId then (PlaceRefused 409 ''cannot_follow_itself'', members)
      else
        let rows = workspaceRows collate userId workspaces members in
        if workspaceId \<notin> set (map lr_id rows) then (PlaceRefused 404 ''not_found'', members)
        else if (case sibling of None \<Rightarrow> False | Some a \<Rightarrow> a \<notin> set (map lr_id rows))
          then (PlaceRefused 409 ''sibling_not_found'', members)
        else
          case placeNulls None rows of
            Inl e \<Rightarrow> (PlaceThrew e, members)
          | Inr placed \<Rightarrow>
              let members1 = fold (\<lambda>(i, key). setIdx userId i key) placed members;
                  ordered = filter (\<lambda>p. fst p \<noteq> workspaceId) (map (\<lambda>r. (lr_id r, keyOf placed r)) rows);
                  (upTo, rest) = splitAt sibling ordered
              in case generateKeyBetween (if upTo = [] then None else Some (snd (last upTo)))
                        (case rest of [] \<Rightarrow> None | p # _ \<Rightarrow> Some (snd p)) of
                   Inl e \<Rightarrow> (PlaceThrew e, members)
                 | Inr key \<Rightarrow> (Placed key, setIdx userId workspaceId key members1))"

section \<open>What the person sees\<close>

definition displayed ::
  "(string \<Rightarrow> string \<Rightarrow> int) \<Rightarrow> string \<Rightarrow> named_workspace list \<Rightarrow> membership list \<Rightarrow> string list" where
  "displayed collate userId workspaces members = map lr_id (workspaceRows collate userId workspaces members)"

text \<open>The abstract operation: take one element out and put it back after another, or first.\<close>

definition moveAfter :: "'a \<Rightarrow> 'a option \<Rightarrow> 'a list \<Rightarrow> 'a list" where
  "moveAfter x sibling xs =
     (let rest = filter (\<lambda>y. y \<noteq> x) xs in
      case sibling of
        None \<Rightarrow> x # rest
      | Some a \<Rightarrow> takeWhile (\<lambda>y. y \<noteq> a) rest @ a # x # tl (dropWhile (\<lambda>y. y \<noteq> a) rest))"

text \<open>The tables as the database keeps them: one row per person and workspace, one per workspace, and
  among the person's keys no two equal and none malformed.\<close>

definition orderInv :: "string \<Rightarrow> named_workspace list \<Rightarrow> membership list \<Rightarrow> bool" where
  "orderInv userId workspaces members =
     (distinct (map (\<lambda>m. (mb_user_id m, mb_workspace_id m)) members) \<and> distinct (map nw_id workspaces) \<and>
      (let keys = List.map_filter lr_idx (joined userId workspaces members)
       in distinct keys \<and> list_all (\<lambda>k. validate k = Inr ()) keys))"

section \<open>Sorting by key\<close>

fun keyBefore :: "string option \<Rightarrow> string option \<Rightarrow> bool" where
  "keyBefore (Some i) (Some j) = (i < j)"
| "keyBefore (Some i) None = True"
| "keyBefore None (Some j) = False"
| "keyBefore None None = True"

definition rowBefore :: "listed_row \<Rightarrow> listed_row \<Rightarrow> bool" where
  "rowBefore a b = keyBefore (lr_idx a) (lr_idx b)"

lemma map_filter_simps': "List.map_filter f [] = []"
  "List.map_filter f (x # xs) = (case f x of None \<Rightarrow> List.map_filter f xs | Some y \<Rightarrow> y # List.map_filter f xs)"
  by (simp_all add: List.map_filter_def split: option.split)

lemma set_map_filter': "set (List.map_filter f xs) = {y. \<exists>x\<in>set xs. f x = Some y}"
  by (induction xs) (auto simp: map_filter_simps' split: option.splits)

lemma insort_rowBefore:
  assumes "sorted_wrt rowBefore xs" and "\<forall>k y. lr_idx x = Some k \<longrightarrow> y \<in> set xs \<longrightarrow> lr_idx y \<noteq> Some k"
  shows "sorted_wrt rowBefore (insort_by (WORKSPACE_ORDER collate) x xs)"
  using assms
proof (induction xs)
  case (Cons y ys)
  show ?case
  proof (cases "WORKSPACE_ORDER collate x y \<le> 0")
    case True
    have xy: "rowBefore x y" using True Cons.prems(2)
      by (cases "lr_idx x"; cases "lr_idx y") (auto simp: WORKSPACE_ORDER_def rowBefore_def split: if_splits)
    have "rowBefore x z" if "z \<in> set ys" for z
      using xy Cons.prems(1) that
      by (cases "lr_idx x"; cases "lr_idx y"; cases "lr_idx z") (auto simp: rowBefore_def dest!: bspec)
    with xy True Cons.prems(1) show ?thesis by simp
  next
    case False
    then have "rowBefore y x" using Cons.prems(2)
      by (cases "lr_idx x"; cases "lr_idx y") (auto simp: WORKSPACE_ORDER_def rowBefore_def split: if_splits)
    moreover have "sorted_wrt rowBefore (insort_by (WORKSPACE_ORDER collate) x ys)" using Cons by simp
    ultimately show ?thesis using False Cons.prems(1) by auto
  qed
qed simp

lemma sort_rowBefore:
  assumes "distinct (List.map_filter lr_idx xs)"
  shows "sorted_wrt rowBefore (sort_by (WORKSPACE_ORDER collate) xs)"
  using assms
proof (induction xs)
  case (Cons x xs)
  then have "\<forall>k y. lr_idx x = Some k \<longrightarrow> y \<in> set xs \<longrightarrow> lr_idx y \<noteq> Some k"
    by (auto simp: map_filter_simps' set_map_filter')
  with Cons show ?case by (auto simp: map_filter_simps' intro!: insort_rowBefore split: option.splits)
qed simp

section \<open>Giving every row a key\<close>

lemma keyOf_cons:
  "lr_id r \<noteq> i \<Longrightarrow> keyOf ((i, k) # placed) r = keyOf placed r" "lr_idx r = None \<Longrightarrow> keyOf ((lr_id r, k) # placed) r = k"
  "lr_idx r = Some k \<Longrightarrow> keyOf placed r = k"
  by (simp_all add: keyOf_def split: option.split)

lemma placeNulls_spec:
  assumes "sorted_wrt rowBefore rows" "distinct (map lr_id rows)" "\<And>r k. r \<in> set rows \<Longrightarrow> lr_idx r = Some k \<Longrightarrow> validKey k"
    and "\<And>p. prev = Some p \<Longrightarrow> validKey p \<and> (\<forall>r\<in>set rows. \<forall>k. lr_idx r = Some k \<longrightarrow> p < k)"
  shows "\<exists>placed. placeNulls prev rows = Inr placed \<and> map fst placed = map lr_id (filter (\<lambda>r. lr_idx r = None) rows) \<and>
    sorted_wrt (<) ((case prev of None \<Rightarrow> [] | Some p \<Rightarrow> [p]) @ map (keyOf placed) rows) \<and> list_all validKey (map (keyOf placed) rows)"
  using assms
proof (induction rows arbitrary: prev)
  case Nil
  then show ?case by (simp split: option.split)
next
  case (Cons r rows)
  have tail: "sorted_wrt rowBefore rows" "distinct (map lr_id rows)" "\<And>x k. x \<in> set rows \<Longrightarrow> lr_idx x = Some k \<Longrightarrow> validKey k"
    using Cons.prems by auto
  show ?case
  proof (cases "lr_idx r")
    case (Some i)
    have "\<exists>placed. placeNulls (Some i) rows = Inr placed \<and> map fst placed = map lr_id (filter (\<lambda>r. lr_idx r = None) rows) \<and>
      sorted_wrt (<) ((case Some i of None \<Rightarrow> [] | Some p \<Rightarrow> [p]) @ map (keyOf placed) rows) \<and> list_all validKey (map (keyOf placed) rows)"
      using Cons.prems Some by (intro Cons.IH [OF tail]) (auto simp: rowBefore_def)
    then obtain placed where p: "placeNulls (Some i) rows = Inr placed" "map fst placed = map lr_id (filter (\<lambda>r. lr_idx r = None) rows)"
      "sorted_wrt (<) (i # map (keyOf placed) rows)" "list_all validKey (map (keyOf placed) rows)" by auto
    moreover have "validKey i" using Cons.prems(3) [of r i] Some by simp
    moreover have "p < i" if "prev = Some p" for p using Cons.prems(4) [OF that] Some by simp
    ultimately show ?thesis using Some by (auto simp: keyOf_cons(3) split: option.split)
  next
    case None
    then have nulls: "\<forall>x\<in>set rows. lr_idx x = None" using Cons.prems(1) by (auto simp: rowBefore_def) (metis keyBefore.simps(3) not_Some_eq)
    have "\<exists>k. generateKeyBetween prev None = Inr k"
    proof (cases prev)
      case (Some p)
      then show ?thesis using Cons.prems(4) [OF Some] fi.between_above by blast
    qed (simp add: fi.between_first)
    then obtain k where k: "generateKeyBetween prev None = Inr k" ..
    have vk: "validKey k" "\<And>p. prev = Some p \<Longrightarrow> p < k" using fi.between_sound [OF k] by auto
    have "\<exists>placed. placeNulls (Some k) rows = Inr placed \<and> map fst placed = map lr_id (filter (\<lambda>r. lr_idx r = None) rows) \<and>
      sorted_wrt (<) ((case Some k of None \<Rightarrow> [] | Some p \<Rightarrow> [p]) @ map (keyOf placed) rows) \<and> list_all validKey (map (keyOf placed) rows)"
      using nulls vk by (intro Cons.IH [OF tail]) auto
    then obtain placed where p: "placeNulls (Some k) rows = Inr placed" "map fst placed = map lr_id (filter (\<lambda>r. lr_idx r = None) rows)"
      "sorted_wrt (<) (k # map (keyOf placed) rows)" "list_all validKey (map (keyOf placed) rows)" by auto
    have "map (keyOf ((lr_id r, k) # placed)) rows = map (keyOf placed) rows"
      using Cons.prems(2) by (auto simp: image_iff intro!: keyOf_cons(1))
    then have keys: "map (keyOf ((lr_id r, k) # placed)) (r # rows) = k # map (keyOf placed) rows"
      using None by (simp only: list.map keyOf_cons(2))
    have "sorted_wrt (<) ((case prev of None \<Rightarrow> [] | Some p \<Rightarrow> [p]) @ k # map (keyOf placed) rows)"
      using p(3) vk(2) by (cases prev) (auto intro: less_trans)
    then show ?thesis using None k p vk(1) by (intro exI [of _ "(lr_id r, k) # placed"]) (simp only: keys, simp)
  qed
qed

section \<open>The rows after an update\<close>

lemma joined_update:
  assumes "\<And>m. f m = (if mb_user_id m = userId then m\<lparr>mb_idx := h (mb_workspace_id m) (mb_idx m)\<rparr> else m)"
  shows "joined userId workspaces (map f members) = map (\<lambda>r. r\<lparr>lr_idx := h (lr_id r) (lr_idx r)\<rparr>) (joined userId workspaces members)"
  by (induction members) (auto simp: joined_def assms)

lemma fold_setIdx:
  "distinct (map fst placed) \<Longrightarrow> fold (\<lambda>(i, key). setIdx userId i key) placed members =
     map (\<lambda>m. if mb_user_id m = userId then m\<lparr>mb_idx := (case map_of placed (mb_workspace_id m) of None \<Rightarrow> mb_idx m | Some k \<Rightarrow> Some k)\<rparr> else m) members"
proof (induction placed arbitrary: members)
  case Nil
  show ?case by (simp add: map_idI)
next
  case (Cons p placed)
  obtain i k where p: "p = (i, k)" by (cases p)
  have "map_of placed i = None" using Cons.prems p by (simp add: map_of_eq_None_iff)
  then show ?case using Cons p by (auto simp: setIdx_def split: option.splits)
qed

lemma joined_mem: "r \<in> set (joined userId workspaces members) \<Longrightarrow>
   \<exists>m\<in>set members. mb_user_id m = userId \<and> lr_id r = mb_workspace_id m \<and> lr_idx r = mb_idx m"
  by (auto simp: joined_def)

lemma filter_one: "distinct (map f xs) \<Longrightarrow> length (filter (\<lambda>x. f x = a \<and> P x) xs) \<le> 1"
proof (induction xs)
  case (Cons x xs)
  have "f x = a \<Longrightarrow> filter (\<lambda>x. f x = a \<and> P x) xs = []" using Cons.prems by (auto simp: filter_empty_conv) (metis imageI)
  with Cons show ?case by auto
qed simp

lemma joined_distinct:
  assumes "distinct (map (\<lambda>m. (mb_user_id m, mb_workspace_id m)) members)" "distinct (map nw_id workspaces)"
  shows "distinct (map lr_id (joined userId workspaces members))"
  using assms(1)
proof (induction members)
  case (Cons m members)
  let ?ws = "filter (\<lambda>w. nw_id w = mb_workspace_id m \<and> nw_deleted_at w = None) workspaces"
  have "length ?ws \<le> 1" using assms(2) by (rule filter_one)
  then have one: "distinct (map (\<lambda>w. mb_workspace_id m) ?ws)" by (cases ?ws) auto
  have "mb_workspace_id m \<notin> set (map lr_id (joined userId workspaces members))" if u: "mb_user_id m = userId"
  proof
    assume "mb_workspace_id m \<in> set (map lr_id (joined userId workspaces members))"
    then obtain y where "y \<in> set (joined userId workspaces members)" "lr_id y = mb_workspace_id m" by auto
    then obtain x where "x \<in> set members" "mb_user_id x = mb_user_id m" "mb_workspace_id x = mb_workspace_id m"
      using joined_mem u by metis
    then have "(mb_user_id m, mb_workspace_id m) \<in> (\<lambda>m. (mb_user_id m, mb_workspace_id m)) ` set members"
      by (intro image_eqI [of _ _ x]) simp_all
    then show False using Cons.prems by simp
  qed
  with Cons one show ?case by (auto simp: joined_def comp_def)
qed (simp add: joined_def)

lemma sorted_by_unique:
  fixes K :: "'a \<Rightarrow> string"
  assumes "sorted_wrt (<) (map K xs)" "sorted_wrt (<) (map K ys)" "set xs = set ys"
  shows "xs = ys"
proof -
  have "map K xs = map K ys" using assms by (intro strict_sorted_equal) simp_all
  moreover have "inj_on K (set xs \<union> set ys)"
    using assms(1,3) strict_sorted_iff [of "map K xs"] by (simp add: distinct_map)
  ultimately show ?thesis by (simp add: map_inj_on)
qed

lemma split_move:
  assumes "\<And>a. sibling = Some a \<Longrightarrow> a \<in> set (map fst ordered)" "splitAt sibling ordered = (upTo, rest)" "map fst ordered = filter (\<lambda>y. y \<noteq> w) xs"
  shows "upTo @ rest = ordered" "map fst (upTo @ (w, key) # rest) = moveAfter w sibling xs"
proof -
  show "upTo @ rest = ordered" using assms(2) by (auto simp: splitAt_def Let_def split: option.splits)
  show "map fst (upTo @ (w, key) # rest) = moveAfter w sibling xs"
  proof (cases sibling)
    case None
    then show ?thesis using assms by (auto simp: splitAt_def moveAfter_def Let_def)
  next
    case (Some a)
    let ?P = "\<lambda>p. fst p \<noteq> a"
    from assms(1) [OF Some] have "dropWhile ?P ordered \<noteq> []" by (auto simp: dropWhile_eq_Nil_conv)
    then obtain b more where d: "dropWhile ?P ordered = (a, b) # more"
      using hd_dropWhile [of ?P ordered] by (cases "dropWhile ?P ordered") auto
    have parts: "ordered = takeWhile ?P ordered @ (a, b) # more" using d takeWhile_dropWhile_id [of ?P ordered] by simp
    have "upTo = takeWhile ?P ordered @ [(a, b)]" "rest = more"
      using assms(2) Some parts by (simp_all add: splitAt_def Let_def) (metis (no_types, lifting) append.assoc append_Cons append_Nil append_eq_conv_conj length_append_singleton Suc_eq_plus1 add.commute)+
    moreover have "takeWhile (\<lambda>y. y \<noteq> a) (map fst ordered) = map fst (takeWhile ?P ordered)"
      "dropWhile (\<lambda>y. y \<noteq> a) (map fst ordered) = a # map fst more"
      using d by (simp_all add: takeWhile_map dropWhile_map comp_def)
    ultimately show ?thesis using Some assms(3) by (simp add: moveAfter_def Let_def)
  qed
qed

section \<open>Placing refines moving\<close>

lemma placed_rows:
  assumes rows: "distinct (map lr_id J)" and nulls: "map fst placed = map lr_id (filter (\<lambda>r. lr_idx r = None) rows)" "set rows = set J"
    and r: "r \<in> set J"
  shows "(case map_of placed (lr_id r) of None \<Rightarrow> lr_idx r | Some k \<Rightarrow> Some k) = Some (keyOf placed r)"
proof (cases "lr_idx r")
  case None
  then have "lr_id r \<in> set (map fst placed)" using nulls r by auto
  then obtain k where "map_of placed (lr_id r) = Some k" by (metis list.set_map map_of_eq_None_iff option.exhaust)
  then show ?thesis using None by (simp add: keyOf_def)
next
  case (Some k)
  have "lr_id r \<notin> set (map fst placed)"
  proof
    assume "lr_id r \<in> set (map fst placed)"
    then obtain x where "x \<in> set J" "lr_idx x = None" "lr_id x = lr_id r" using nulls by auto
    then show False using rows r Some by (metis distinct_map inj_onD option.distinct(1))
  qed
  then have "map_of placed (lr_id r) = None" by (simp add: map_of_eq_None_iff)
  then show ?thesis using Some by (simp add: keyOf_def)
qed

lemma sorted_keys:
  assumes "sorted_wrt rowBefore S" "\<And>r. r \<in> set S \<Longrightarrow> lr_idx r = Some (K (lr_id r))"
  shows "sorted_wrt (<) (map K (map lr_id S))"
  using assms by (induction S) (auto simp: rowBefore_def)

text \<open>Rows whose keys are given by \<open>K\<close> are displayed in the order of a list sorted by \<open>K\<close>.\<close>

lemma display_by_keys:
  assumes J': "joined userId workspaces members' = map (\<lambda>r. r\<lparr>lr_idx := Some (K (lr_id r))\<rparr>) J" and dJ: "distinct (map lr_id J)"
    and sorted: "sorted_wrt (<) (map K ys)" and ids: "set ys = set (map lr_id J)"
  shows "displayed collate userId workspaces members' = ys"
    and "List.map_filter lr_idx (joined userId workspaces members') = map K (map lr_id J)" and "distinct (map K (map lr_id J))"
proof -
  show keys: "List.map_filter lr_idx (joined userId workspaces members') = map K (map lr_id J)"
    unfolding J' by (induction J) (simp_all add: map_filter_simps')
  have "inj_on K (set (map lr_id J))" using sorted strict_sorted_iff [of "map K ys"] unfolding ids [symmetric] by (simp add: distinct_map)
  then show dk: "distinct (map K (map lr_id J))" using dJ by (simp add: distinct_map comp_inj_on)
  define S where "S = workspaceRows collate userId workspaces members'"
  have "sorted_wrt rowBefore S" unfolding S_def workspaceRows_def by (rule sort_rowBefore) (simp only: keys dk)
  moreover have "lr_idx r = Some (K (lr_id r))" if "r \<in> set S" for r using that by (auto simp: S_def workspaceRows_def J')
  ultimately have "sorted_wrt (<) (map K (map lr_id S))" by (rule sorted_keys)
  moreover have "set (map lr_id S) = set ys" unfolding ids by (simp add: S_def workspaceRows_def J' image_image)
  ultimately show "displayed collate userId workspaces members' = ys"
    using sorted_by_unique [OF _ sorted] by (simp add: displayed_def S_def)
qed

text \<open>The rows after a call: the new key for the one that moved, what \<open>keyOf\<close> says for the others.\<close>

lemma joined_after_place:
  assumes m': "members' = setIdx userId w key (fold (\<lambda>(i, key). setIdx userId i key) placed members)"
    and dp: "distinct (map fst placed)" and J: "J = joined userId workspaces members" "distinct (map lr_id J)"
    and pl: "map fst placed = map lr_id (filter (\<lambda>r. lr_idx r = None) rows)" "set rows = set J"
    and K: "K w = key" "\<And>r. r \<in> set rows \<Longrightarrow> lr_id r \<noteq> w \<Longrightarrow> K (lr_id r) = keyOf placed r"
  shows "joined userId workspaces members' = map (\<lambda>r. r\<lparr>lr_idx := Some (K (lr_id r))\<rparr>) J"
    and "map (\<lambda>m. (mb_user_id m, mb_workspace_id m)) members' = map (\<lambda>m. (mb_user_id m, mb_workspace_id m)) members"
    and "filter (\<lambda>m. mb_user_id m \<noteq> userId) members' = filter (\<lambda>m. mb_user_id m \<noteq> userId) members"
proof -
  note m1 = fold_setIdx [OF dp, of userId members]
  have "joined userId workspaces members' = map (\<lambda>r. r\<lparr>lr_idx := (if lr_id r = w then Some key else lr_idx r)\<rparr>)
      (joined userId workspaces (fold (\<lambda>(i, key). setIdx userId i key) placed members))"
    unfolding m' setIdx_def by (rule joined_update) simp
  also have "joined userId workspaces (fold (\<lambda>(i, key). setIdx userId i key) placed members) =
      map (\<lambda>r. r\<lparr>lr_idx := (case map_of placed (lr_id r) of None \<Rightarrow> lr_idx r | Some k \<Rightarrow> Some k)\<rparr>) J"
    unfolding m1 J(1) by (rule joined_update) simp
  finally show "joined userId workspaces members' = map (\<lambda>r. r\<lparr>lr_idx := Some (K (lr_id r))\<rparr>) J"
    using placed_rows [OF J(2) pl] K pl(2) by auto
  show "map (\<lambda>m. (mb_user_id m, mb_workspace_id m)) members' = map (\<lambda>m. (mb_user_id m, mb_workspace_id m)) members"
    unfolding m' m1 setIdx_def by simp
  show "filter (\<lambda>m. mb_user_id m \<noteq> userId) members' = filter (\<lambda>m. mb_user_id m \<noteq> userId) members"
    unfolding m' m1 setIdx_def by (induction members) auto
qed

lemma placeWorkspace_correct:
  assumes inv: "orderInv userId workspaces members"
    and run: "placeWorkspace collate workspaces userId w sibling members = (Placed key, members')"
  shows "displayed collate userId workspaces members' = moveAfter w sibling (displayed collate userId workspaces members)"
    and "orderInv userId workspaces members'"
    and "filter (\<lambda>m. mb_user_id m \<noteq> userId) members' = filter (\<lambda>m. mb_user_id m \<noteq> userId) members"
proof -
  define J where "J = joined userId workspaces members"
  define rows where "rows = workspaceRows collate userId workspaces members"
  have setJ: "set rows = set J" "mset rows = mset J" by (simp_all add: rows_def workspaceRows_def J_def)
  have dJ: "distinct (map lr_id J)" unfolding J_def using inv by (intro joined_distinct) (simp_all add: orderInv_def)
  have dk: "distinct (List.map_filter lr_idx J)" "\<And>r k. r \<in> set J \<Longrightarrow> lr_idx r = Some k \<Longrightarrow> validKey k"
    using inv by (auto simp: orderInv_def J_def Let_def list_all_iff set_map_filter' validKey_def)
  have srt: "sorted_wrt rowBefore rows" unfolding rows_def workspaceRows_def using dk(1) by (intro sort_rowBefore) (simp add: J_def)
  have dr: "distinct (map lr_id rows)" using dJ setJ(2) by (metis mset_map mset_eq_imp_distinct_iff)
  obtain placed where pl: "placeNulls None rows = Inr placed" "map fst placed = map lr_id (filter (\<lambda>r. lr_idx r = None) rows)"
    "sorted_wrt (<) (map (keyOf placed) rows)" "list_all validKey (map (keyOf placed) rows)"
    using placeNulls_spec [OF srt dr, of None] dk(2) setJ(1) by auto
  define ordered where "ordered = filter (\<lambda>p. fst p \<noteq> w) (map (\<lambda>r. (lr_id r, keyOf placed r)) rows)"
  obtain upTo rest where sp: "splitAt sibling ordered = (upTo, rest)" by (cases "splitAt sibling ordered")
  from run have w: "sibling \<noteq> Some w" "w \<in> set (map lr_id rows)" "\<And>a. sibling = Some a \<Longrightarrow> a \<in> set (map lr_id rows)"
    and gen: "generateKeyBetween (if upTo = [] then None else Some (snd (last upTo))) (case rest of [] \<Rightarrow> None | p # _ \<Rightarrow> Some (snd p)) = Inr key"
    and m': "members' = setIdx userId w key (fold (\<lambda>(i, key). setIdx userId i key) placed members)"
    unfolding placeWorkspace_def rows_def [symmetric] Let_def pl(1) ordered_def [symmetric] sum.case sp prod.case
    by (auto split: if_splits option.splits sum.splits)
  have dp: "distinct (map fst placed)" unfolding pl(2) by (rule distinct_map_filter [OF dr])
  define K where "K i = (if i = w then key else the (map_of (map (\<lambda>r. (lr_id r, keyOf placed r)) rows) i))" for i
  have K: "K (lr_id r) = keyOf placed r" if "r \<in> set rows" "lr_id r \<noteq> w" for r
  proof -
    have "map_of (map (\<lambda>r. (lr_id r, keyOf placed r)) rows) (lr_id r) = Some (keyOf placed r)"
      using dr that(1) by (subst map_of_eq_Some_iff) (auto simp: comp_def)
    then show ?thesis using that(2) by (simp add: K_def)
  qed
  have Kw: "K w = key" by (simp add: K_def)
  note after_ = joined_after_place [OF m' dp J_def dJ pl(2) setJ(1) Kw K]
  show "filter (\<lambda>m. mb_user_id m \<noteq> userId) members' = filter (\<lambda>m. mb_user_id m \<noteq> userId) members" by (rule after_(3))
  define T where "T = upTo @ (w, key) # rest"
  have ids: "map fst ordered = filter (\<lambda>y. y \<noteq> w) (map lr_id rows)" by (simp add: ordered_def filter_map comp_def)
  have sib: "a \<in> set (map fst ordered)" if "sibling = Some a" for a using w(1,3) that unfolding ids by auto
  note split = split_move [OF sib sp ids]
  have "sorted_wrt (<) (map snd ordered)"
    using pl(3) by (simp add: ordered_def filter_map comp_def sorted_wrt_map sorted_wrt_filter)
  then have "sorted_wrt (<) (map snd upTo @ map snd rest)" using split(1) by (metis map_append)
  then have srtT: "sorted_wrt (<) (map snd T)"
    using gen by (simp only: T_def map_append list.map snd_conv, intro fi.insert_between) (auto simp: last_map split: list.splits)
  have parts: "ordered = upTo @ rest" using split(1) by simp
  have "\<forall>p\<in>set ordered. snd p = K (fst p)" using K by (auto simp: ordered_def)
  then have KT: "map K (map fst T) = map snd T" unfolding parts T_def using Kw by simp
  have "set (map fst T) = insert w (set (map fst ordered))" unfolding parts T_def by auto
  also have "\<dots> = set (map lr_id J)" unfolding ids using w(2) setJ(1) by auto
  finally have idsT: "set (map fst T) = set (map lr_id J)" .
  note shown = display_by_keys [OF after_(1) dJ srtT [folded KT] idsT]
  show "displayed collate userId workspaces members' = moveAfter w sibling (displayed collate userId workspaces members)"
    using shown(1) [of collate] split(2) [of key] by (simp add: T_def displayed_def rows_def)
  have "\<forall>p\<in>set ordered. validKey (snd p)" using pl(4) by (auto simp: list_all_iff ordered_def)
  then have "\<forall>k\<in>set (map snd T). validKey k" using fi.between_sound [OF gen] unfolding parts T_def by auto
  then have "\<forall>i\<in>set (map fst T). validKey (K i)" unfolding KT [symmetric] by simp
  then show "orderInv userId workspaces members'"
    using inv after_(2) shown(2,3) unfolding idsT by (simp add: orderInv_def Let_def list_all_iff validKey_def)
qed

section \<open>Properties\<close>

text \<open>C16: placing a workspace moves it in the list the person sees and nothing else. Whatever keys are
  missing and whatever the locale makes of the names, a successful call turns the displayed order into
  the one with that workspace taken out and put back after its sibling, or first; it keeps the person's
  keys well formed and distinct, and leaves every other person's rows alone.\<close>

theorem placeWorkspace_refines:
  assumes "orderInv userId workspaces members"
    and "placeWorkspace collate workspaces userId w sibling members = (Placed key, members')"
  shows "displayed collate userId workspaces members' = moveAfter w sibling (displayed collate userId workspaces members) \<and>
    orderInv userId workspaces members' \<and>
    filter (\<lambda>m. mb_user_id m \<noteq> userId) members' = filter (\<lambda>m. mb_user_id m \<noteq> userId) members"
  using placeWorkspace_correct [OF assms] by blast

definition sampleSpaces :: "named_workspace list" where
  "sampleSpaces = [\<lparr>nw_id = ''x'', nw_name = ''Zoo'', nw_deleted_at = None\<rparr>, \<lparr>nw_id = ''y'', nw_name = ''Ada'', nw_deleted_at = None\<rparr>,
     \<lparr>nw_id = ''z'', nw_name = ''Mill'', nw_deleted_at = None\<rparr>]"

definition sampleMembers :: "membership list" where
  "sampleMembers = [\<lparr>mb_workspace_id = ''x'', mb_user_id = ''u'', mb_idx = Some ''a0''\<rparr>, \<lparr>mb_workspace_id = ''y'', mb_user_id = ''u'', mb_idx = None\<rparr>,
     \<lparr>mb_workspace_id = ''z'', mb_user_id = ''u'', mb_idx = None\<rparr>, \<lparr>mb_workspace_id = ''z'', mb_user_id = ''v'', mb_idx = Some ''a0''\<rparr>]"

definition byFirst :: "string \<Rightarrow> string \<Rightarrow> int" where
  "byFirst a b = (if a < b then -1 else if b < a then 1 else 0)"

theorem placeWorkspace_refines_witness:
  "displayed byFirst ''u'' sampleSpaces sampleMembers = [''x'', ''y'', ''z''] \<and>
   displayed byFirst ''u'' sampleSpaces (snd (placeWorkspace byFirst sampleSpaces ''u'' ''z'' (Some ''x'') sampleMembers)) = [''x'', ''z'', ''y'']"
proof -
  have inv: "orderInv ''u'' sampleSpaces sampleMembers" by code_simp
  have shown: "displayed byFirst ''u'' sampleSpaces sampleMembers = [''x'', ''y'', ''z'']" by code_simp
  have "fst (placeWorkspace byFirst sampleSpaces ''u'' ''z'' (Some ''x'') sampleMembers) = Placed ''a0V''" by code_simp
  then have "placeWorkspace byFirst sampleSpaces ''u'' ''z'' (Some ''x'') sampleMembers =
      (Placed ''a0V'', snd (placeWorkspace byFirst sampleSpaces ''u'' ''z'' (Some ''x'') sampleMembers))" by (metis prod.collapse)
  from placeWorkspace_refines [OF inv this] shown show ?thesis by (simp add: moveAfter_def)
qed
end
