(* ===== verification/Version_Diff.thy ===== *)
theory Version_Diff
  imports Sone_Prelude "HOL-Library.Sublist"
begin

text \<open>
  \<^verbatim>\<open>packages/core/src/doc/diff.ts\<close>: what changed between two versions of a page. Blocks correspond by
  their ids; inside a changed block the words are compared with a table of longest common subsequences.
\<close>

section \<open>Words\<close>

datatype change_kind = Same | Added | Removed

type_synonym word_change = "change_kind \<times> string"

text \<open>\<open>text.split(/(\s+)/)\<close> without the empty parts: the runs of white space and the runs between them.\<close>

function textWords :: "string \<Rightarrow> string list" where
  "textWords [] = []"
| "textWords (c # cs) =
     (let run = takeWhile (\<lambda>x. isSpace x = isSpace c) (c # cs) in run # textWords (drop (length run) (c # cs)))"
  by pat_completeness auto
termination
  by (relation "measure length") auto

definition LIMIT :: nat where
  "LIMIT = 400"

text \<open>\<open>lengths[i][j]\<close> for the suffixes \<open>a[i..]\<close> and \<open>b[j..]\<close>: one row from the row below it, from right to left.\<close>

fun lengthsRow :: "'a \<Rightarrow> 'a list \<Rightarrow> nat list \<Rightarrow> nat list" where
  "lengthsRow x [] below = [0]"
| "lengthsRow x (y # ys) below =
     (let row = lengthsRow x ys (tl below)
      in (if x = y then below ! 1 + 1 else max (hd below) (hd row)) # row)"

fun lengthsTable :: "'a list \<Rightarrow> 'a list \<Rightarrow> nat list list" where
  "lengthsTable [] bs = [replicate (length bs + 1) 0]"
| "lengthsTable (a # as) bs = (let below = lengthsTable as bs in lengthsRow a bs (hd below) # below)"

text \<open>Append, merging with the previous run of the same kind.\<close>

definition push :: "change_kind \<Rightarrow> string \<Rightarrow> word_change list \<Rightarrow> word_change list" where
  "push kind text out =
     (if out \<noteq> [] \<and> fst (last out) = kind then butlast out @ [(kind, snd (last out) @ text)]
      else out @ [(kind, text)])"

text \<open>The walk through the table, and the two loops for what is left of either side.\<close>

function walkWords :: "nat list list \<Rightarrow> string list \<Rightarrow> string list \<Rightarrow> nat \<Rightarrow> nat \<Rightarrow> word_change list \<Rightarrow> word_change list" where
  "walkWords lengths a b i j out =
     (if i < length a \<and> j < length b then
        if a ! i = b ! j then walkWords lengths a b (i + 1) (j + 1) (push Same (a ! i) out)
        else if lengths ! i ! (j + 1) \<le> lengths ! (i + 1) ! j then walkWords lengths a b (i + 1) j (push Removed (a ! i) out)
        else walkWords lengths a b i (j + 1) (push Added (b ! j) out)
      else if i < length a then walkWords lengths a b (i + 1) j (push Removed (a ! i) out)
      else if j < length b then walkWords lengths a b i (j + 1) (push Added (b ! j) out)
      else out)"
  by pat_completeness auto
termination
  by (relation "measure (\<lambda>(lengths, a, b, i, j, out). (length a - i) + (length b - j))") auto

declare walkWords.simps [simp del]

definition diffWords :: "string \<Rightarrow> string \<Rightarrow> word_change list" where
  "diffWords was now =
     (let a = textWords was; b = textWords now in
      if LIMIT < length a \<or> LIMIT < length b then [(Removed, was), (Added, now)]
      else walkWords (lengthsTable a b) a b 0 0 [])"

section \<open>Blocks\<close>

record diff_block =
  db_id :: string
  db_type :: string
  db_text :: string

datatype block_change =
    BlockAdded diff_block
  | BlockRemoved diff_block
  | BlockChanged diff_block "word_change list"
  | BlockMoved diff_block nat nat

record page_diff =
  pd_changes :: "block_change list"
  pd_unmatched :: nat

text \<open>\<open>text.replace(/\s+/g, ' ')\<close>, and trimmed.\<close>

definition oneSpace :: "string \<Rightarrow> string" where
  "oneSpace s = concat (map (\<lambda>w. if w \<noteq> [] \<and> isSpace (hd w) then '' '' else w) (textWords s))"

definition collapse :: "string \<Rightarrow> string" where
  "collapse s = trim (oneSpace s)"

definition differs :: "string \<Rightarrow> string \<Rightarrow> bool" where
  "differs was now = (collapse was \<noteq> collapse now)"

text \<open>A \<open>Map\<close> keeps the order of first insertion; setting a key again replaces the value in place.\<close>

fun mapSet :: "'k \<Rightarrow> 'v \<Rightarrow> ('k \<times> 'v) list \<Rightarrow> ('k \<times> 'v) list" where
  "mapSet k v [] = [(k, v)]"
| "mapSet k v ((k', v') # m) = (if k' = k then (k, v) # m else (k', v') # mapSet k v m)"

fun indexOld :: "diff_block list \<Rightarrow> nat \<Rightarrow> (string \<times> diff_block \<times> nat) list \<Rightarrow> (string \<times> diff_block \<times> nat) list" where
  "indexOld [] at m = m"
| "indexOld (b # bs) at m = indexOld bs (at + 1) (if db_id b = [] then m else mapSet (db_id b) (b, at) m)"

definition countUnmatched :: "diff_block list \<Rightarrow> nat" where
  "countUnmatched bs = length (filter (\<lambda>b. db_id b = []) bs)"

fun diffNew :: "(string \<times> diff_block \<times> nat) list \<Rightarrow> diff_block list \<Rightarrow> nat \<Rightarrow> block_change list" where
  "diffNew old [] at = []"
| "diffNew old (b # bs) at =
     (if db_id b = [] then []
      else case map_of old (db_id b) of
        None \<Rightarrow> [BlockAdded b]
      | Some (was, wasAt) \<Rightarrow>
          if differs (db_text was) (db_text b) then [BlockChanged b (diffWords (db_text was) (db_text b))]
          else if wasAt \<noteq> at then [BlockMoved b wasAt at] else []) @ diffNew old bs (at + 1)"

definition diffVersions :: "diff_block list \<Rightarrow> diff_block list \<Rightarrow> page_diff" where
  "diffVersions was now =
     (let old = indexOld was 0 [];
          seen = filter (\<lambda>i. i \<noteq> [] \<and> map_of old i \<noteq> None) (map db_id now)
      in \<lparr>pd_changes = diffNew old now 0 @ map (\<lambda>(i, b, at). BlockRemoved b) (filter (\<lambda>(i, b). i \<notin> set seen) old),
          pd_unmatched = countUnmatched was + countUnmatched now\<rparr>)"

section \<open>Putting the two sides back together\<close>

lemma concat_textWords: "concat (textWords s) = s"
proof (induction s rule: textWords.induct)
  case (2 c cs)
  let ?run = "takeWhile (\<lambda>x. isSpace x = isSpace c) (c # cs)"
  have "concat (textWords (drop (length ?run) (c # cs))) = drop (length ?run) (c # cs)" by (rule "2.IH") simp
  moreover have "?run @ drop (length ?run) (c # cs) = c # cs" by (metis append_take_drop_id takeWhile_eq_take)
  ultimately show ?case by (simp only: textWords.simps Let_def concat.simps)
qed simp

definition sideText :: "change_kind set \<Rightarrow> word_change list \<Rightarrow> string" where
  "sideText kinds d = concat (map snd (filter (\<lambda>c. fst c \<in> kinds) d))"

lemma sideText_push: "sideText kinds (push k t out) = sideText kinds out @ (if k \<in> kinds then t else [])"
proof (cases "out \<noteq> [] \<and> fst (last out) = k")
  case True
  then obtain us u where "out = us @ [(k, u)]" by (metis append_butlast_last_id prod.collapse)
  then show ?thesis by (simp add: push_def sideText_def)
next
  case False
  then show ?thesis by (auto simp: push_def sideText_def)
qed

lemma drop_step: "i < length xs \<Longrightarrow> drop i xs = xs ! i # drop (Suc i) xs"
  by (rule Cons_nth_drop_Suc [symmetric])

lemma walkWords_sides:
  "i \<le> length a \<Longrightarrow> j \<le> length b \<Longrightarrow>
   sideText {Same, Removed} (walkWords t a b i j out) = sideText {Same, Removed} out @ concat (drop i a) \<and>
   sideText {Same, Added} (walkWords t a b i j out) = sideText {Same, Added} out @ concat (drop j b)"
proof (induction t a b i j out rule: walkWords.induct)
  case (1 t a b i j out)
  show ?case
    by (subst (1 2) walkWords.simps) (use 1 in \<open>auto simp: sideText_push drop_step\<close>)
qed

section \<open>The table\<close>

text \<open>The length of a longest common subsequence, by the usual recursion.\<close>

fun lcs :: "'a list \<Rightarrow> 'a list \<Rightarrow> nat" where
  "lcs [] ys = 0"
| "lcs (x # xs) [] = 0"
| "lcs (x # xs) (y # ys) = (if x = y then lcs xs ys + 1 else max (lcs xs (y # ys)) (lcs (x # xs) ys))"

lemma lcs_Nil2 [simp]: "lcs xs [] = 0"
  by (cases xs) auto

lemma lcs_upper: "subseq s xs \<Longrightarrow> subseq s ys \<Longrightarrow> length s \<le> lcs xs ys"
proof (induction xs ys arbitrary: s rule: lcs.induct)
  case (3 x xs y ys)
  show ?case
  proof (cases s)
    case (Cons c cs)
    show ?thesis
    proof (cases "x = y")
      case True
      have "subseq cs xs" "subseq cs ys" using 3 Cons by (auto intro: subseq_Cons' split: if_splits)
      then show ?thesis using "3.IH"(1) [OF True, of cs] True Cons by simp
    next
      case False
      then have "subseq s xs \<or> subseq s ys" using "3.prems" Cons by (auto split: if_splits)
      then show ?thesis using "3.IH"(2,3) [OF False, of s] "3.prems" False by (auto simp: max_def)
    qed
  qed simp
qed simp_all

definition suffixLengths :: "'a list \<Rightarrow> 'a list \<Rightarrow> nat list" where
  "suffixLengths xs ys = map (\<lambda>j. lcs xs (drop j ys)) [0..<Suc (length ys)]"

lemma suffixLengths_Cons: "suffixLengths xs (y # ys) = lcs xs (y # ys) # suffixLengths xs ys"
  unfolding suffixLengths_def by (simp add: upt_conv_Cons del: upt_Suc flip: map_Suc_upt) 

lemma lengthsRow_correct: "lengthsRow x ys (suffixLengths xs ys) = suffixLengths (x # xs) ys"
proof (induction ys)
  case Nil
  then show ?case by (simp add: suffixLengths_def)
next
  case (Cons y ys)
  have "suffixLengths zs ys \<noteq> []" "hd (suffixLengths zs ys) = lcs zs ys" for zs
    by (simp_all add: suffixLengths_def upt_conv_Cons del: upt_Suc)
  then show ?case using Cons by (simp add: suffixLengths_Cons Let_def hd_conv_nth)
qed

lemma lengthsTable_correct: "lengthsTable as bs = map (\<lambda>i. suffixLengths (drop i as) bs) [0..<Suc (length as)]"
proof (induction as)
  case Nil
  then show ?case by (simp add: suffixLengths_def map_replicate_const)
next
  case (Cons a as)
  have "hd (lengthsTable as bs) = suffixLengths as bs" using Cons by (simp add: upt_conv_Cons del: upt_Suc)
  then show ?case using Cons lengthsRow_correct [of a bs as]
    by (simp add: Let_def upt_conv_Cons del: upt_Suc flip: map_Suc_upt)
qed

lemma lengthsTable_nth:
  "i \<le> length as \<Longrightarrow> j \<le> length bs \<Longrightarrow> lengthsTable as bs ! i ! j = lcs (drop i as) (drop j bs)"
  by (simp add: lengthsTable_correct suffixLengths_def del: upt_Suc)

lemma walkWords_lcs:
  assumes "i \<le> length a" "j \<le> length b" "t = lengthsTable a b"
  shows "\<exists>ws. subseq ws (drop i a) \<and> subseq ws (drop j b) \<and> length ws = lcs (drop i a) (drop j b) \<and>
    sideText {Same} (walkWords t a b i j out) = sideText {Same} out @ concat ws"
  using assms
proof (induction t a b i j out rule: walkWords.induct)
  case (1 t a b i j out)
  consider (eq) "i < length a" "j < length b" "a ! i = b ! j" | (rem) "i < length a" "j < length b" "a ! i \<noteq> b ! j" "t ! i ! (j + 1) \<le> t ! (i + 1) ! j"
    | (add) "i < length a" "j < length b" "a ! i \<noteq> b ! j" "\<not> t ! i ! (j + 1) \<le> t ! (i + 1) ! j"
    | (left) "i < length a" "j = length b" | (right) "i = length a" "j < length b" | (over) "i = length a" "j = length b"
    using "1.prems" by linarith
  then show ?case
  proof cases
    case eq
    then obtain ws where ws: "subseq ws (drop (Suc i) a)" "subseq ws (drop (Suc j) b)" "length ws = lcs (drop (Suc i) a) (drop (Suc j) b)"
      "sideText {Same} (walkWords t a b (Suc i) (Suc j) (push Same (a ! i) out)) = sideText {Same} (push Same (a ! i) out) @ concat ws"
      using "1.IH"(1) "1.prems" by auto
    show ?thesis using eq ws
      by (intro exI [of _ "a ! i # ws"]) (simp add: drop_step sideText_push walkWords.simps [of t a b i j])
  next
    case rem
    then obtain ws where ws: "subseq ws (drop (Suc i) a)" "subseq ws (drop j b)" "length ws = lcs (drop (Suc i) a) (drop j b)"
      "sideText {Same} (walkWords t a b (Suc i) j (push Removed (a ! i) out)) = sideText {Same} (push Removed (a ! i) out) @ concat ws"
      using "1.IH"(2) "1.prems" by auto
    have "lcs (drop i a) (drop j b) = lcs (drop (Suc i) a) (drop j b)"
      using rem "1.prems" by (simp add: lengthsTable_nth drop_step)
    then show ?thesis using rem ws
      by (intro exI [of _ ws]) (simp add: drop_step [of i a] sideText_push list_emb_Cons walkWords.simps [of t a b i j])
  next
    case add
    then obtain ws where ws: "subseq ws (drop i a)" "subseq ws (drop (Suc j) b)" "length ws = lcs (drop i a) (drop (Suc j) b)"
      "sideText {Same} (walkWords t a b i (Suc j) (push Added (b ! j) out)) = sideText {Same} (push Added (b ! j) out) @ concat ws"
      using "1.IH"(3) "1.prems" by auto
    have "lcs (drop i a) (drop j b) = lcs (drop i a) (drop (Suc j) b)"
      using add "1.prems" by (simp add: lengthsTable_nth drop_step)
    then show ?thesis using add ws
      by (intro exI [of _ ws]) (simp add: drop_step [of j b] sideText_push list_emb_Cons walkWords.simps [of t a b i j])
  next
    case left
    then show ?thesis unfolding walkWords.simps [of t a b i j out] using "1.IH"(4) "1.prems" by (auto simp: sideText_push)
  next
    case right
    then show ?thesis unfolding walkWords.simps [of t a b i j out] using "1.IH"(5) "1.prems" by (auto simp: sideText_push)
  next
    case over
    then show ?thesis unfolding walkWords.simps [of t a b i j out] by simp
  qed
qed

section \<open>Blocks by their ids\<close>

lemma mapSet_new: "k \<notin> fst ` set m \<Longrightarrow> mapSet k v m = m @ [(k, v)]"
  by (induction m) (auto split: prod.splits)

definition identified :: "diff_block list \<Rightarrow> bool" where
  "identified bs = (distinct (map db_id bs) \<and> [] \<notin> set (map db_id bs))"

lemma indexOld_append:
  "distinct (map fst m @ map db_id bs) \<Longrightarrow> [] \<notin> set (map db_id bs) \<Longrightarrow>
   indexOld bs n m = m @ map (\<lambda>i. (db_id (bs ! i), bs ! i, n + i)) [0..<length bs]"
proof (induction bs arbitrary: n m)
  case (Cons b bs)
  have new: "db_id b \<notin> fst ` set m" using Cons.prems(1) by auto
  have "indexOld (b # bs) n m = indexOld bs (n + 1) (m @ [(db_id b, b, n)])"
    using Cons.prems(2) new by (auto simp: mapSet_new)
  also have "\<dots> = (m @ [(db_id b, b, n)]) @ map (\<lambda>i. (db_id (bs ! i), bs ! i, n + 1 + i)) [0..<length bs]"
    using Cons.prems by (intro Cons.IH) auto
  also have "\<dots> = m @ map (\<lambda>i. (db_id ((b # bs) ! i), (b # bs) ! i, n + i)) [0..<length (b # bs)]"
    by (simp add: upt_conv_Cons comp_def del: upt_Suc flip: map_Suc_upt)
  finally show ?case .
qed simp

lemma indexOld_identified:
  "identified bs \<Longrightarrow> indexOld bs 0 [] = map (\<lambda>i. (db_id (bs ! i), bs ! i, i)) [0..<length bs]"
  using indexOld_append [of "[]" bs 0] by (simp add: identified_def)

lemma old_ids: "identified bs \<Longrightarrow> map fst (indexOld bs 0 []) = map db_id bs"
  by (rule nth_equalityI) (simp_all add: indexOld_identified)

lemma old_lookup:
  assumes "identified bs"
  shows "map_of (indexOld bs 0 []) k = Some (b, at) \<longleftrightarrow> at < length bs \<and> bs ! at = b \<and> db_id b = k"
proof -
  have "distinct (map fst (indexOld bs 0 []))" using assms by (simp add: identified_def old_ids)
  then have "map_of (indexOld bs 0 []) k = Some (b, at) \<longleftrightarrow> (k, b, at) \<in> set (indexOld bs 0 [])"
    by (rule map_of_eq_Some_iff)
  also have "\<dots> \<longleftrightarrow> at < length bs \<and> bs ! at = b \<and> db_id b = k"
    unfolding indexOld_identified [OF assms] by auto
  finally show ?thesis .
qed

lemma old_unknown: "identified bs \<Longrightarrow> map_of (indexOld bs 0 []) k = None \<longleftrightarrow> k \<notin> set (map db_id bs)"
  by (metis map_of_eq_None_iff old_ids list.set_map)

lemma diffNew_Nil:
  assumes "identified bs" "[] \<notin> set (map db_id as)"
  shows "diffNew (indexOld bs 0 []) as n = [] \<longleftrightarrow>
    (\<forall>i<length as. n + i < length bs \<and> db_id (bs ! (n + i)) = db_id (as ! i) \<and> \<not> differs (db_text (bs ! (n + i))) (db_text (as ! i)))"
  using assms(2)
proof (induction as arbitrary: n)
  case (Cons a as)
  let ?P = "\<lambda>n. n < length bs \<and> db_id (bs ! n) = db_id a \<and> \<not> differs (db_text (bs ! n)) (db_text a)"
  have "diffNew (indexOld bs 0 []) (a # as) n = [] \<longleftrightarrow> ?P n \<and> diffNew (indexOld bs 0 []) as (n + 1) = []"
  proof (cases "map_of (indexOld bs 0 []) (db_id a)")
    case None
    then have "db_id a \<notin> set (map db_id bs)" using old_unknown [OF assms(1)] by blast
    then have "\<not> ?P n" using nth_mem [of n bs] by (metis image_eqI list.set_map)
    then show ?thesis using None Cons.prems by auto
  next
    case (Some p)
    obtain b at where p: "p = (b, at)" by (cases p)
    then have at: "at < length bs" "bs ! at = b" "db_id b = db_id a" using Some old_lookup [OF assms(1)] by auto
    have "n < length bs \<and> db_id (bs ! n) = db_id a \<longleftrightarrow> n = at"
      using at assms(1) nth_eq_iff_index_eq [of "map db_id bs" n at] by (auto simp: identified_def)
    then show ?thesis using Some p at Cons.prems by auto
  qed
  also have "\<dots> \<longleftrightarrow> (\<forall>i<length (a # as). n + i < length bs \<and> db_id (bs ! (n + i)) = db_id ((a # as) ! i) \<and>
      \<not> differs (db_text (bs ! (n + i))) (db_text ((a # as) ! i)))"
    using Cons.IH [of "n + 1"] Cons.prems by (simp add: All_less_Suc2)
  finally show ?case .
qed simp

section \<open>Properties\<close>

text \<open>A word comparison loses nothing. The words that stayed and those that went are the old text,
  the words that stayed and those that came are the new one, in order and letter by letter, for every
  pair of texts and on both sides of the size limit.\<close>

theorem diffWords_reconstructs:
  "sideText {Same, Removed} (diffWords was now) = was \<and> sideText {Same, Added} (diffWords was now) = now"
proof -
  have "sideText kinds [] = []" for kinds by (simp add: sideText_def)
  then show ?thesis
    using walkWords_sides [of 0 "textWords was" 0 "textWords now" "lengthsTable (textWords was) (textWords now)" "[]"]
    by (auto simp: diffWords_def Let_def concat_textWords sideText_def)
qed

text \<open>C17: what is reported as kept is as much as can be. Below the size limit the text marked as the
  same is a common subsequence of the two lists of words, and none is longer.\<close>

theorem diffWords_longest:
  assumes "length (textWords was) \<le> LIMIT" and "length (textWords now) \<le> LIMIT"
  shows "\<exists>ws. subseq ws (textWords was) \<and> subseq ws (textWords now) \<and> sideText {Same} (diffWords was now) = concat ws \<and>
    (\<forall>s. subseq s (textWords was) \<longrightarrow> subseq s (textWords now) \<longrightarrow> length s \<le> length ws)"
proof -
  obtain ws where "subseq ws (textWords was)" "subseq ws (textWords now)" "length ws = lcs (textWords was) (textWords now)"
    "sideText {Same} (walkWords (lengthsTable (textWords was) (textWords now)) (textWords was) (textWords now) 0 0 []) = concat ws"
    using walkWords_lcs [of 0 "textWords was" 0 "textWords now" _ "[]"] by (auto simp: sideText_def)
  then show ?thesis using assms lcs_upper by (intro exI [of _ ws]) (auto simp: diffWords_def Let_def)
qed

theorem diffWords_longest_witness:
  "\<exists>ws. subseq ws (textWords ''one two six'') \<and> sideText {Same} (diffWords ''one two six'' ''one six'') = concat ws"
proof -
  have "length (textWords ''one two six'') \<le> LIMIT" "length (textWords ''one six'') \<le> LIMIT" by code_simp+
  from diffWords_longest [OF this] show ?thesis by blast
qed

text \<open>A comparison is empty exactly when nothing changed. For pages whose blocks carry ids of their
  own, no change is reported if and only if both versions have the same ids in the same order, with texts
  that agree up to white space.\<close>

theorem diffVersions_empty_iff:
  assumes "identified was" and "identified now"
  shows "pd_changes (diffVersions was now) = [] \<longleftrightarrow>
    map db_id was = map db_id now \<and> map (\<lambda>b. collapse (db_text b)) was = map (\<lambda>b. collapse (db_text b)) now"
proof -
  let ?old = "indexOld was 0 []"
  have new: "diffNew ?old now 0 = [] \<longleftrightarrow> (\<forall>i<length now. i < length was \<and> db_id (was ! i) = db_id (now ! i) \<and>
      collapse (db_text (was ! i)) = collapse (db_text (now ! i)))"
    using diffNew_Nil [OF assms(1), of now 0] assms(2) by (simp add: identified_def differs_def)
  have "filter (\<lambda>(i, b). i \<notin> set (filter (\<lambda>i. i \<noteq> [] \<and> map_of ?old i \<noteq> None) (map db_id now))) ?old = [] \<longleftrightarrow>
      set (map fst ?old) \<subseteq> set (filter (\<lambda>i. i \<noteq> [] \<and> map_of ?old i \<noteq> None) (map db_id now))"
    by (auto simp: filter_empty_conv)
  also have "\<dots> \<longleftrightarrow> set (map db_id was) \<subseteq> set (map db_id now)"
    using old_unknown [OF assms(1)] assms(1) unfolding old_ids [OF assms(1)] identified_def by (auto simp: subset_iff image_iff)
  finally have gone: "filter (\<lambda>(i, b). i \<notin> set (filter (\<lambda>i. i \<noteq> [] \<and> map_of ?old i \<noteq> None) (map db_id now))) ?old = [] \<longleftrightarrow>
      set (map db_id was) \<subseteq> set (map db_id now)" .
  have "length was \<le> length now" if "set (map db_id was) \<subseteq> set (map db_id now)"
    using card_mono [OF _ that] assms distinct_card [of "map db_id was"] distinct_card [of "map db_id now"] by (simp add: identified_def)
  moreover have "length now \<le> length was" if "\<forall>i<length now. i < length was" using that by (meson not_less order_refl)
  moreover have "pd_changes (diffVersions was now) = [] \<longleftrightarrow> diffNew ?old now 0 = [] \<and> set (map db_id was) \<subseteq> set (map db_id now)"
    unfolding gone [symmetric] by (simp add: diffVersions_def Let_def)
  ultimately have "pd_changes (diffVersions was now) = [] \<longleftrightarrow> length was = length now \<and> set (map db_id was) \<subseteq> set (map db_id now) \<and>
      (\<forall>i<length now. db_id (was ! i) = db_id (now ! i) \<and> collapse (db_text (was ! i)) = collapse (db_text (now ! i)))"
    unfolding new by (metis le_antisym)
  moreover have "map db_id was = map db_id now \<and> map (\<lambda>b. collapse (db_text b)) was = map (\<lambda>b. collapse (db_text b)) now \<longleftrightarrow>
      length was = length now \<and>
      (\<forall>i<length now. db_id (was ! i) = db_id (now ! i) \<and> collapse (db_text (was ! i)) = collapse (db_text (now ! i)))"
    unfolding list_eq_iff_nth_eq by fastforce
  moreover have "set (map db_id was) \<subseteq> set (map db_id now)" if "map db_id was = map db_id now" using that by simp
  ultimately show ?thesis by blast
qed

definition samplePage :: "diff_block list" where
  "samplePage = [\<lparr>db_id = ''p'', db_type = ''paragraph'', db_text = ''one two''\<rparr>, \<lparr>db_id = ''q'', db_type = ''paragraph'', db_text = ''three''\<rparr>]"

theorem diffVersions_empty_iff_witness:
  "pd_changes (diffVersions samplePage (rev samplePage)) \<noteq> [] \<and> pd_changes (diffVersions samplePage samplePage) = []"
proof -
  have i: "identified samplePage" "identified (rev samplePage)" by (simp_all add: identified_def samplePage_def)
  show ?thesis using diffVersions_empty_iff [OF i(1,1)] diffVersions_empty_iff [OF i] by (simp add: samplePage_def)
qed

end
