(* ===== verification/Tags.thy ===== *)
theory Tags
  imports Version_Diff "HOL-Library.Word"
begin

unbundle bit_operations_syntax

text \<open>
  \<^verbatim>\<open>packages/core/src/doc/tags.ts\<close>: names on a page, matched by a normalised key and shown as first typed.
  The page map of the document is a store with the three shapes a stored value can have; the hash
  behind a tag's colour is computed on 32-bit words.
\<close>

definition MAX_TAG_LENGTH :: nat where
  "MAX_TAG_LENGTH = 64"

definition MAX_TAGS_PER_PAGE :: nat where
  "MAX_TAGS_PER_PAGE = 32"

definition tagKey :: "string \<Rightarrow> string" where
  "tagKey raw = toLowerCase (oneSpace (trim raw))"

definition isValidTag :: "string \<Rightarrow> bool" where
  "isValidTag raw = (let key = tagKey raw in 0 < length key \<and> length key \<le> MAX_TAG_LENGTH)"

text \<open>A member of the list that is not a string is passed over.\<close>

datatype tag_value = TagText string | OtherValue

fun normaliseLoop :: "tag_value list \<Rightarrow> string set \<Rightarrow> string list \<Rightarrow> string list" where
  "normaliseLoop [] seen out = out"
| "normaliseLoop (OtherValue # raw) seen out = normaliseLoop raw seen out"
| "normaliseLoop (TagText v # raw) seen out =
     (let display = oneSpace (trim v); key = tagKey display in
      if \<not> isValidTag display then normaliseLoop raw seen out
      else if key \<in> seen then normaliseLoop raw seen out
      else let out' = out @ [display]
           in if MAX_TAGS_PER_PAGE \<le> length out' then out' else normaliseLoop raw (insert key seen) out')"

definition normaliseTags :: "tag_value list \<Rightarrow> string list" where
  "normaliseTags raw = normaliseLoop raw {} []"

text \<open>What the key of the tags holds in the document: a shared array, a plain one, or something else.\<close>

datatype page_value = YArray "tag_value list" | PlainArray "tag_value list" | NoArray

definition readTags :: "page_value option \<Rightarrow> string list" where
  "readTags v =
     (case v of Some (YArray raw) \<Rightarrow> normaliseTags raw | Some (PlainArray raw) \<Rightarrow> normaliseTags raw | _ \<Rightarrow> [])"

definition writeTags :: "string list \<Rightarrow> string list \<times> page_value" where
  "writeTags tags = (let cleaned = normaliseTags (map TagText tags) in (cleaned, YArray (map TagText cleaned)))"

section \<open>Colours\<close>

definition TAG_COLORS :: "string list" where
  "TAG_COLORS = [''grey'', ''red'', ''orange'', ''yellow'', ''green'', ''blue'', ''purple'', ''pink'']"

text \<open>\<open>hash ^= charCode; hash = Math.imul(hash, 0x01000193) >>> 0\<close>: the operands are 32 bits wide and the
  product keeps its low 32 bits.\<close>

definition fnvStep :: "char \<Rightarrow> 32 word \<Rightarrow> 32 word" where
  "fnvStep c hash = (hash XOR of_nat (charCode c)) * 0x01000193"

definition fnvHash :: "string \<Rightarrow> 32 word" where
  "fnvHash key = fold fnvStep key 0x811c9dc5"

definition derivedTagColor :: "string \<Rightarrow> string" where
  "derivedTagColor name =
     (let choices = filter (\<lambda>color. color \<noteq> ''grey'') TAG_COLORS
      in choices ! (unat (fnvHash (tagKey name)) mod length choices))"

definition isTagColor :: "string \<Rightarrow> bool" where
  "isTagColor v = (v \<in> set TAG_COLORS)"

section \<open>Collapsed white space\<close>

text \<open>What \<^const>\<open>oneSpace\<close> computes, read off character by character.\<close>

lemma oneSpace_Nil [simp]: "oneSpace [] = []"
  by (simp add: oneSpace_def)

lemma oneSpace_Cons:
  "oneSpace (c # cs) = (if isSpace c then CHR '' '' # oneSpace (dropWhile isSpace cs) else c # oneSpace cs)"
proof (cases "cs = [] \<or> isSpace (hd cs) \<noteq> isSpace c")
  case True
  then have "takeWhile (\<lambda>x. isSpace x = isSpace c) cs = []" by (cases cs) auto
  then have "textWords (c # cs) = [c] # textWords cs" by (simp add: Let_def)
  moreover have "dropWhile isSpace cs = cs" if "isSpace c" using True that by (intro dropWhile_id) auto
  ultimately show ?thesis by (simp add: oneSpace_def)
next
  case False
  then obtain d ds where cs: "cs = d # ds" "isSpace d = isSpace c" by (cases cs) auto
  define run where "run = takeWhile (\<lambda>x. isSpace x = isSpace c) ds"
  have "textWords cs = (d # run) # textWords (drop (length run) ds)"
    using cs(2) by (simp add: cs(1) run_def Let_def)
  moreover have "textWords (c # cs) = (c # d # run) # textWords (drop (length run) ds)"
    using cs(2) by (simp add: cs(1) run_def Let_def)
  moreover have "drop (length run) ds = dropWhile isSpace ds" if "isSpace c"
    using that by (simp add: run_def dropWhile_eq_drop)
  ultimately show ?thesis using cs by (auto simp: oneSpace_def)
qed

lemmas oneSpace_simps [simp] = oneSpace_Nil oneSpace_Cons

lemma oneSpace_hd: "s \<noteq> [] \<Longrightarrow> isSpace (hd (oneSpace s)) = isSpace (hd s)"
  by (cases s) (auto simp: isSpace_def charCode_def)

lemma oneSpace_last:
  assumes "s \<noteq> []" and "\<not> isSpace (last s)"
  shows "oneSpace s \<noteq> [] \<and> last (oneSpace s) = last s"
  using assms
proof (induction "length s" arbitrary: s rule: less_induct)
  case less
  then obtain c cs where s: "s = c # cs" by (cases s) auto
  show ?case
  proof (cases "cs = []")
    case False
    have "last (oneSpace (dropWhile isSpace cs)) = last cs \<and> oneSpace (dropWhile isSpace cs) \<noteq> []"
    proof -
      have ne: "dropWhile isSpace cs \<noteq> []" using False less.prems s by (metis dropWhile_eq_Nil_conv last_ConsR last_in_set)
      then have "last (dropWhile isSpace cs) = last cs" by (metis last_append takeWhile_dropWhile_id)
      then show ?thesis using less.hyps [of "dropWhile isSpace cs"] less.prems s False ne length_dropWhile_le [of isSpace cs] by auto
    qed
    moreover have "last (oneSpace cs) = last cs \<and> oneSpace cs \<noteq> []" using less.hyps [of cs] less.prems s False by auto
    ultimately show ?thesis using s False by auto
  qed (use less.prems s in auto)
qed

lemma trim_oneSpace:
  assumes "trim s = s"
  shows "trim (oneSpace s) = oneSpace s"
proof (cases "s = []")
  case False
  then have "\<not> isSpace (hd s)" "\<not> isSpace (last s)" using trim_ends [of s] assms by auto
  then show ?thesis using oneSpace_hd [OF False] oneSpace_last [OF False] by (intro trim_id) auto
qed (simp add: trim_id)

fun tidy :: "string \<Rightarrow> bool" where
  "tidy [] = True"
| "tidy (c # cs) = ((isSpace c \<longrightarrow> c = CHR '' '' \<and> (cs = [] \<or> \<not> isSpace (hd cs))) \<and> tidy cs)"

lemma tidy_oneSpace: "tidy (oneSpace s)"
proof (induction "length s" arbitrary: s rule: less_induct)
  case less
  show ?case
  proof (cases s)
    case (Cons c cs)
    have "tidy (oneSpace (dropWhile isSpace cs))" "tidy (oneSpace cs)"
      using less [of cs] less [of "dropWhile isSpace cs"] Cons length_dropWhile_le [of isSpace cs] by auto
    moreover have "oneSpace (dropWhile isSpace cs) = [] \<or> \<not> isSpace (hd (oneSpace (dropWhile isSpace cs)))"
      using oneSpace_hd [of "dropWhile isSpace cs"] hd_dropWhile [of isSpace cs] by fastforce
    ultimately show ?thesis using Cons by auto
  qed simp
qed

lemma oneSpace_tidy: "tidy s \<Longrightarrow> oneSpace s = s"
  by (induction s) (auto simp: dropWhile_id)

lemma oneSpace_idem [simp]: "oneSpace (oneSpace s) = oneSpace s"
  by (simp add: oneSpace_tidy tidy_oneSpace)

text \<open>Displaying a displayed tag changes nothing, nor does it change its key.\<close>

lemma display_idem [simp]: "oneSpace (trim (oneSpace (trim v))) = oneSpace (trim v)"
  by (simp add: trim_oneSpace)

lemma tagKey_display [simp]: "tagKey (oneSpace (trim v)) = tagKey v"
  by (simp add: tagKey_def)

lemma isValidTag_display [simp]: "isValidTag (oneSpace (trim v)) = isValidTag v"
  by (simp add: isValidTag_def)

section \<open>Normalised lists\<close>

definition cleaned_tags :: "string list \<Rightarrow> bool" where
  "cleaned_tags tags = (list_all (\<lambda>t. isValidTag t \<and> oneSpace (trim t) = t) tags \<and> distinct (map tagKey tags) \<and> length tags \<le> MAX_TAGS_PER_PAGE)"

lemma normaliseLoop_cleaned:
  assumes "cleaned_tags out" and "length out < MAX_TAGS_PER_PAGE" and "seen = set (map tagKey out)"
  shows "cleaned_tags (normaliseLoop raw seen out)"
  using assms
  by (induction raw seen out rule: normaliseLoop.induct) (auto simp: cleaned_tags_def Let_def)

lemma normaliseLoop_fixed:
  assumes "cleaned_tags (out @ tags)" and "length out < MAX_TAGS_PER_PAGE" and "seen = set (map tagKey out)"
  shows "normaliseLoop (map TagText tags) seen out = out @ tags"
  using assms
proof (induction tags arbitrary: seen out)
  case (Cons t tags)
  show ?case using Cons.IH [of "out @ [t]" "insert (tagKey t) seen"] Cons.prems by (cases tags) (auto simp: cleaned_tags_def Let_def)
qed simp

lemma normaliseTags_cleaned: "cleaned_tags (normaliseTags raw)"
  unfolding normaliseTags_def by (rule normaliseLoop_cleaned) (auto simp: cleaned_tags_def MAX_TAGS_PER_PAGE_def)

lemma normaliseTags_fixed: "cleaned_tags tags \<Longrightarrow> normaliseTags (map TagText tags) = tags"
  unfolding normaliseTags_def using normaliseLoop_fixed [of "[]" tags "{}"] by (simp add: MAX_TAGS_PER_PAGE_def)

text \<open>What is written is what is read. Reading a document back gives exactly the list that writing
  returned, however the tags were typed, and in that list every tag is valid, no two have the same key
  and there are at most 32.\<close>

theorem writeTags_readTags:
  "readTags (Some (snd (writeTags tags))) = fst (writeTags tags) \<and>
   list_all isValidTag (fst (writeTags tags)) \<and> distinct (map tagKey (fst (writeTags tags))) \<and>
   length (fst (writeTags tags)) \<le> 32"
  using normaliseTags_cleaned [of "map TagText tags"] normaliseTags_fixed [OF normaliseTags_cleaned]
  by (auto simp: writeTags_def readTags_def Let_def cleaned_tags_def MAX_TAGS_PER_PAGE_def list_all_iff)

end
