(* ===== verification/Attribution.thy ===== *)
theory Attribution
  imports Sone_Prelude
begin

text \<open>
  \<^verbatim>\<open>packages/core/src/doc/attribution.ts\<close> and \<^verbatim>\<open>pruneAttribution\<close> of
  \<^verbatim>\<open>packages/server/src/doc/docStore.ts\<close>: whose writing is still in a document. The code walks the
  items the Yjs library keeps for a shared type; the datatypes below are that structure as far as the
  code reads it (an item's deletion mark, its client and its content; a type's sequence and its map).
\<close>

section \<open>The items of a document\<close>

datatype yvalue = YNumber int | YString string | YBool bool | YNull | YRef nat

datatype ykind = YMap | YArray | YText | YXml

datatype yitem = Item (yi_deleted: bool) (yi_client: int) (yi_content: ycontent)
and ycontent = ContentType ytype | ContentAny "yvalue list" | ContentOther
and ytype = YType (yt_kind: ykind) (yt_start: "yitem list") (yt_map: "(string \<times> yitem) list")

text \<open>\<open>doc.share\<close>: the roots of a document by name.\<close>

type_synonym share = "(string \<times> ytype) list"

definition USERS_KEY :: string where
  "USERS_KEY = ''users''"

definition STRUCTURAL_ROOTS :: "string list" where
  "STRUCTURAL_ROOTS = [''meta'', ''page'']"

text \<open>The walk: an item that is not deleted counts for its client, and a type nested in it is walked too.\<close>

fun walkType :: "ytype \<Rightarrow> int set" and walkItem :: "yitem \<Rightarrow> int set" where
  "walkType (YType kind start entries) =
     \<Union> (set (map walkItem start)) \<union> \<Union> (set (map (\<lambda>(k, item). walkItem item) entries))"
| "walkItem (Item deleted client content) =
     (if deleted then {}
      else insert client (case content of ContentType t \<Rightarrow> walkType t | _ \<Rightarrow> {}))"

definition liveClientIds :: "string list \<Rightarrow> share \<Rightarrow> int set" where
  "liveClientIds skip doc =
     \<Union> (set (map (\<lambda>(key, type). if key = USERS_KEY then {} else if key \<in> set skip then {} else walkType type) doc))"

text \<open>\<open>map.entries()\<close> and \<open>array.toArray()\<close>: what is not deleted.\<close>

definition entries :: "ytype \<Rightarrow> (string \<times> ycontent) list" where
  "entries t = map (\<lambda>(k, i). (k, yi_content i)) (filter (\<lambda>(k, i). \<not> yi_deleted i) (yt_map t))"

fun itemValues :: "yitem \<Rightarrow> yvalue list" where
  "itemValues (Item deleted client (ContentAny vs)) = (if deleted then [] else vs)"
| "itemValues (Item deleted client (ContentType t)) = (if deleted then [] else [YRef 0])"
| "itemValues (Item deleted client ContentOther) = (if deleted then [] else [YRef 0])"

definition toArray :: "ytype \<Rightarrow> yvalue list" where
  "toArray t = concat (map itemValues (yt_start t))"

text \<open>\<open>value instanceof Y.Map ? value.get('ids') : null\<close>, then \<open>ids instanceof Y.Array ? ids.toArray() : []\<close>.\<close>

definition idsOf :: "ycontent \<Rightarrow> yvalue list option" where
  "idsOf v =
     (case v of
        ContentType t \<Rightarrow>
          if yt_kind t = YMap then
            (case map_of (entries t) ''ids'' of
               Some (ContentType a) \<Rightarrow> if yt_kind a = YArray then Some (toArray a) else None
             | _ \<Rightarrow> None)
          else None
      | _ \<Rightarrow> None)"

definition onlyNumbers :: "yvalue list \<Rightarrow> int list" where
  "onlyNumbers vs = List.map_filter (\<lambda>v. case v of YNumber n \<Rightarrow> Some n | _ \<Rightarrow> None) vs"

definition userEntries :: "share \<Rightarrow> (string \<times> ycontent) list" where
  "userEntries doc = (case map_of doc USERS_KEY of None \<Rightarrow> [] | Some t \<Rightarrow> entries t)"

section \<open>Who has written what is still here\<close>

definition listOf :: "ycontent \<Rightarrow> int list" where
  "listOf v = (case idsOf v of None \<Rightarrow> [] | Some vs \<Rightarrow> onlyNumbers vs)"

definition writersIn :: "share \<Rightarrow> (string \<times> int list) list" where
  "writersIn doc =
     (let live = liveClientIds [] doc
      in filter (\<lambda>(user, mine). mine \<noteq> [])
           (map (\<lambda>(user, v). (user, filter (\<lambda>n. n \<in> live) (listOf v))) (userEntries doc)))"

definition hasUnattributedWriting :: "share \<Rightarrow> bool" where
  "hasUnattributedWriting doc =
     (let mapped = set (concat (map (\<lambda>(user, v). listOf v) (userEntries doc)))
      in \<not> liveClientIds STRUCTURAL_ROOTS doc \<subseteq> mapped)"

text \<open>A later entry for the same client replaces an earlier one.\<close>

definition authorsByClient :: "share \<Rightarrow> int \<rightharpoonup> string" where
  "authorsByClient doc =
     fold (\<lambda>(user, v) out. fold (\<lambda>n out. out(n \<mapsto> user)) (listOf v) out) (userEntries doc) Map.empty"

definition GUEST_PREFIX :: string where
  "GUEST_PREFIX = ''guest:''"

definition guestKey :: "string \<Rightarrow> string" where
  "guestKey displayName =
     (let name = take 64 (trim displayName) in GUEST_PREFIX @ (if name = [] then ''Guest'' else name))"

definition isGuestKey :: "string \<Rightarrow> bool" where
  "isGuestKey key = (take (length GUEST_PREFIX) key = GUEST_PREFIX)"

definition guestName :: "string \<Rightarrow> string" where
  "guestName key = drop (length GUEST_PREFIX) key"

section \<open>Pruning\<close>

definition deleteKeys :: "string list \<Rightarrow> ytype \<Rightarrow> ytype" where
  "deleteKeys ks t =
     YType (yt_kind t) (yt_start t)
       (map (\<lambda>(k, i). (k, if k \<in> set ks then Item True (yi_client i) (yi_content i) else i)) (yt_map t))"

definition stillHere :: "int set \<Rightarrow> ycontent \<Rightarrow> bool" where
  "stillHere live v = list_ex (\<lambda>n. n \<in> live) (listOf v)"

text \<open>The users the pruning removes, in the order of the map.\<close>

definition prunable :: "share \<Rightarrow> string list" where
  "prunable doc =
     (let live = liveClientIds [] doc
      in map fst (filter (\<lambda>(user, v). \<not> stillHere live v) (userEntries doc)))"

definition deleteUsers :: "string list \<Rightarrow> share \<Rightarrow> share" where
  "deleteUsers ks doc = map (\<lambda>(root, t). (root, if root = USERS_KEY then deleteKeys ks t else t)) doc"

definition pruneAttribution :: "share \<Rightarrow> share \<times> nat" where
  "pruneAttribution doc =
     (if userEntries doc = [] then (doc, 0)
      else let removed = prunable doc in (deleteUsers removed doc, length removed))"

section \<open>What pruning removes\<close>

lemma map_of_keyed: "map_of (map (\<lambda>(k, v). (k, f k v)) xs) k = map_option (f k) (map_of xs k)"
  by (induction xs) auto

lemma entries_deleteKeys: "entries (deleteKeys ks t) = filter (\<lambda>(k, v). k \<notin> set ks) (entries t)"
proof -
  have "map (\<lambda>(k, i). (k, yi_content i)) (filter (\<lambda>(k, i). \<not> yi_deleted i)
      (map (\<lambda>(k, i). (k, if k \<in> set ks then Item True (yi_client i) (yi_content i) else i)) es)) =
    filter (\<lambda>(k, v). k \<notin> set ks) (map (\<lambda>(k, i). (k, yi_content i)) (filter (\<lambda>(k, i). \<not> yi_deleted i) es))" for es
    by (induction es) auto
  then show ?thesis by (simp add: entries_def deleteKeys_def)
qed

lemma userEntries_deleteUsers: "userEntries (deleteUsers ks doc) = filter (\<lambda>(k, v). k \<notin> set ks) (userEntries doc)"
  by (auto simp: userEntries_def deleteUsers_def map_of_keyed [of "\<lambda>root t. if root = USERS_KEY then deleteKeys ks t else t"]
      entries_deleteKeys split: option.split)

lemma liveClientIds_deleteUsers: "liveClientIds skip (deleteUsers ks doc) = liveClientIds skip doc"
proof -
  let ?f = "\<lambda>(key, type). if key = USERS_KEY then {} else if key \<in> set skip then {} else walkType type"
  have "?f (root, if root = USERS_KEY then deleteKeys ks t else t) = ?f (root, t)" for root t by simp
  then have "map ?f (deleteUsers ks doc) = map ?f doc" by (simp add: deleteUsers_def split_def)
  then show ?thesis unfolding liveClientIds_def by (rule arg_cong)
qed

lemma stillHere_iff: "stillHere live v \<longleftrightarrow> filter (\<lambda>n. n \<in> live) (listOf v) \<noteq> []"
  by (auto simp: stillHere_def list_ex_iff filter_empty_conv)

text \<open>In a map every key stands once, so a user is pruned exactly when the entry has no live client.\<close>

lemma not_prunable_iff:
  assumes "distinct (map fst (userEntries doc))" and "(user, v) \<in> set (userEntries doc)"
  shows "user \<notin> set (prunable doc) \<longleftrightarrow> stillHere (liveClientIds [] doc) v"
proof -
  have same: "w = v" if "(user, w) \<in> set (userEntries doc)" for w
    using eq_key_imp_eq_value [OF assms(1) that assms(2)] .
  have "user \<in> set (prunable doc) \<longleftrightarrow> (\<exists>w. (user, w) \<in> set (userEntries doc) \<and> \<not> stillHere (liveClientIds [] doc) w)"
    by (auto simp: prunable_def Let_def image_iff)
  then show ?thesis using same assms(2) by blast
qed

lemma writersIn_names:
  "map fst (writersIn doc) = map fst (filter (\<lambda>(user, v). stillHere (liveClientIds [] doc) v) (userEntries doc))"
proof -
  have "map fst (filter (\<lambda>(user, mine). mine \<noteq> []) (map (\<lambda>(user, v). (user, f v)) us)) =
    map fst (filter (\<lambda>(user, v). f v \<noteq> []) us)" for f :: "ycontent \<Rightarrow> int list" and us :: "(string \<times> ycontent) list"
    by (induction us) auto
  then show ?thesis by (simp add: writersIn_def Let_def stillHere_iff)
qed

text \<open>C18: pruning removes exactly the people none of whose client ids still holds live content: who wrote
  what of the content is as before, the people left are those who wrote some of it, and the number
  returned is that of the people removed.\<close>

theorem pruneAttribution_exact:
  assumes "distinct (map fst (userEntries doc))"
  shows "writersIn (fst (pruneAttribution doc)) = writersIn doc \<and>
    map fst (userEntries (fst (pruneAttribution doc))) = map fst (writersIn doc) \<and>
    snd (pruneAttribution doc) + length (writersIn doc) = length (userEntries doc)"
proof (cases "userEntries doc = []")
  case True
  then show ?thesis by (simp add: pruneAttribution_def writersIn_def)
next
  case False
  let ?live = "liveClientIds [] doc"
  have kept: "filter (\<lambda>(k, v). k \<notin> set (prunable doc)) (userEntries doc) =
      filter (\<lambda>(k, v). stillHere ?live v) (userEntries doc)"
    using not_prunable_iff [OF assms] by (auto intro: filter_cong)
  have "filter (\<lambda>(user, mine). mine \<noteq> []) (map (\<lambda>(user, v). (user, f v)) (filter (\<lambda>(k, v). f v \<noteq> []) us)) =
    filter (\<lambda>(user, mine). mine \<noteq> []) (map (\<lambda>(user, v). (user, f v)) us)"
    for f :: "ycontent \<Rightarrow> int list" and us :: "(string \<times> ycontent) list"
    by (induction us) auto
  then have "writersIn (deleteUsers (prunable doc) doc) = writersIn doc"
    by (simp add: writersIn_def Let_def userEntries_deleteUsers liveClientIds_deleteUsers kept stillHere_iff)
  moreover have "map fst (userEntries (deleteUsers (prunable doc) doc)) = map fst (writersIn doc)"
    by (simp add: userEntries_deleteUsers kept writersIn_names)
  moreover have "length (prunable doc) + length (writersIn doc) = length (userEntries doc)"
  proof -
    have "length (writersIn doc) = length (filter (\<lambda>(user, v). stillHere ?live v) (userEntries doc))"
      using writersIn_names [of doc] by (metis length_map)
    then show ?thesis
      using sum_length_filter_compl [of "\<lambda>(user, v). stillHere ?live v" "userEntries doc"]
      by (simp add: prunable_def Let_def case_prod_unfold)
  qed
  ultimately show ?thesis using False by (simp add: pruneAttribution_def Let_def)
qed

text \<open>Two people: the first has a live item in the body, the second only a deleted one.\<close>

definition twoWriters :: share where
  "twoWriters =
     (let person = (\<lambda>n. ContentType (YType YMap [] [(''ids'', Item False 9 (ContentType (YType YArray [Item False 9 (ContentAny [YNumber n])] [])))]))
      in [(''users'', YType YMap [] [(''u1'', Item False 9 (person 1)), (''u2'', Item False 9 (person 2))]),
          (''body'', YType YXml [Item False 1 ContentOther, Item True 2 ContentOther] [])])"

theorem pruneAttribution_exact_witness:
  "distinct (map fst (userEntries twoWriters)) \<and> map fst (userEntries (fst (pruneAttribution twoWriters))) = [''u1''] \<and>
   snd (pruneAttribution twoWriters) = 1"
proof -
  have d: "distinct (map fst (userEntries twoWriters))" by code_simp
  have "map fst (writersIn twoWriters) = [''u1'']" "length (writersIn twoWriters) = 1" "length (userEntries twoWriters) = 2" by code_simp+
  then show ?thesis using pruneAttribution_exact [OF d] d by simp
qed

end
