(* ===== verification/Yjs.thy ===== *)
theory Yjs
  imports Attribution
begin

text \<open>
  What the sources use of the \<^verbatim>\<open>yjs\<close> and \<^verbatim>\<open>y-protocols\<close> packages, which are not part of the
  repository: a record of functions that the definitions built on them take as their first argument.
  Documents are of a type \<^typ>\<open>'d\<close>, everything the library encodes is of a type \<^typ>\<open>'b\<close> of byte
  strings. \<open>yjs_laws\<close> is what the library documents of them.
\<close>

text \<open>A message of the inner sync protocol: its type, and its body unless that cannot be read.\<close>

datatype 'b sync_message = SyncStep1 "'b option" | SyncStep2 "'b option" | YjsUpdate "'b option" | UnknownMessage

record ('d, 'b) yjs =
  newDoc :: "'d"
  applyUpdate :: "'b \<Rightarrow> 'd \<Rightarrow> 'd"
  applyUpdateV2 :: "'b \<Rightarrow> 'd \<Rightarrow> 'd"
  encodeStateAsUpdateV2 :: "'d \<Rightarrow> 'b"
  encodeStateVector :: "'d \<Rightarrow> 'b"
  encodeStateAsUpdate :: "'d \<Rightarrow> 'b \<Rightarrow> 'b"
  encodeSnapshot :: "'d \<Rightarrow> 'b"
  mergeUpdates :: "'b list \<Rightarrow> 'b"
  docShare :: "'d \<Rightarrow> share"
  removeUsers :: "string list \<Rightarrow> 'd \<Rightarrow> 'd"
  mapGet :: "string \<Rightarrow> string \<Rightarrow> 'd \<Rightarrow> yvalue option"
  mapWrite :: "string \<Rightarrow> (string \<times> yvalue option) list \<Rightarrow> 'd \<Rightarrow> 'b"
  emitted :: "'b \<Rightarrow> 'd \<Rightarrow> 'b option"
  readSyncMessage :: "'b \<Rightarrow> 'b sync_message option"
  writeSyncStep1 :: "'d \<Rightarrow> 'b"
  writeSyncStep2 :: "'d \<Rightarrow> 'b \<Rightarrow> 'b"
  writeUpdate :: "'b \<Rightarrow> 'b"

text \<open>
  \<open>mapWrite root changes d\<close> is the update that a transaction emits which sets (\<^const>\<open>Some\<close>) or
  deletes (\<^const>\<open>None\<close>) keys of a root map in the document \<open>d\<close>; the document after the transaction is
  the one with that update applied. \<open>emitted u d\<close> is the update event of applying \<open>u\<close> to \<open>d\<close>: none
  when nothing changes. \<open>readSyncMessage\<close> is \<^const>\<open>None\<close> when not even the type can be read.
\<close>

text \<open>Updates commute and are idempotent, and merging a list of them is applying them in turn.\<close>

definition merging_laws :: "('d, 'b) yjs \<Rightarrow> bool" where
  "merging_laws Y =
     ((\<forall>u v d. applyUpdate Y u (applyUpdate Y v d) = applyUpdate Y v (applyUpdate Y u d)) \<and>
      (\<forall>u d. applyUpdate Y u (applyUpdate Y u d) = applyUpdate Y u d) \<and>
      (\<forall>us d. applyUpdate Y (mergeUpdates Y us) d = fold (applyUpdate Y) us d))"

text \<open>A snapshot's bytes give the document back.\<close>

definition encoding_law :: "('d, 'b) yjs \<Rightarrow> bool" where
  "encoding_law Y = (\<forall>d. applyUpdateV2 Y (encodeStateAsUpdateV2 Y d) (newDoc Y) = d)"

text \<open>An emitted update does to the document what the received one did; no event means no change.\<close>

definition event_law :: "('d, 'b) yjs \<Rightarrow> bool" where
  "event_law Y =
     (\<forall>u d. case emitted Y u d of
              None \<Rightarrow> applyUpdate Y u d = d
            | Some v \<Rightarrow> applyUpdate Y v d = applyUpdate Y u d)"

text \<open>A local write to a map is what the map reads afterwards; the other keys keep their values.\<close>

definition map_law :: "('d, 'b) yjs \<Rightarrow> bool" where
  "map_law Y =
     (\<forall>root changes d k. distinct (map fst changes) \<longrightarrow>
        mapGet Y root k (applyUpdate Y (mapWrite Y root changes d) d) =
          (case map_of changes k of Some v \<Rightarrow> v | None \<Rightarrow> mapGet Y root k d))"

definition yjs_laws :: "('d, 'b) yjs \<Rightarrow> bool" where
  "yjs_laws Y = (merging_laws Y \<and> encoding_law Y \<and> event_law Y \<and> map_law Y)"

lemma event_law_cases:
  assumes "event_law Y"
  shows "emitted Y u d = None \<Longrightarrow> applyUpdate Y u d = d"
    and "emitted Y u d = Some v \<Longrightarrow> applyUpdate Y v d = applyUpdate Y u d"
proof -
  have "case emitted Y u d of None \<Rightarrow> applyUpdate Y u d = d | Some v \<Rightarrow> applyUpdate Y v d = applyUpdate Y u d"
    using assms unfolding event_law_def by blast
  then show "emitted Y u d = None \<Longrightarrow> applyUpdate Y u d = d"
    "emitted Y u d = Some v \<Longrightarrow> applyUpdate Y v d = applyUpdate Y u d" by simp_all
qed

lemma applyUpdate_commute: "merging_laws Y \<Longrightarrow> applyUpdate Y u (applyUpdate Y v d) = applyUpdate Y v (applyUpdate Y u d)"
  by (auto simp: merging_laws_def)

lemma applyUpdate_idem: "merging_laws Y \<Longrightarrow> applyUpdate Y u (applyUpdate Y u d) = applyUpdate Y u d"
  by (auto simp: merging_laws_def)

lemma applyUpdate_merge: "merging_laws Y \<Longrightarrow> applyUpdate Y (mergeUpdates Y us) d = fold (applyUpdate Y) us d"
  by (auto simp: merging_laws_def)

lemma fold_applyUpdate_commute:
  "merging_laws Y \<Longrightarrow> fold (applyUpdate Y) us (applyUpdate Y u d) = applyUpdate Y u (fold (applyUpdate Y) us d)"
proof (induction us arbitrary: d)
  case (Cons v us)
  then show ?case using applyUpdate_commute [OF Cons.prems, of v u d] by simp
qed simp

lemma fold_fold_applyUpdate:
  "merging_laws Y \<Longrightarrow> fold (applyUpdate Y) us (fold (applyUpdate Y) vs d) = fold (applyUpdate Y) vs (fold (applyUpdate Y) us d)"
  by (induction us arbitrary: d) (simp_all add: fold_applyUpdate_commute)

text \<open>An update that is among those applied adds nothing.\<close>

lemma applyUpdate_absorbed:
  assumes "merging_laws Y" and "u \<in> set us"
  shows "applyUpdate Y u (fold (applyUpdate Y) us d) = fold (applyUpdate Y) us d"
  using assms(2)
proof (induction us arbitrary: d)
  case (Cons v us)
  then show ?case
    by (auto simp: fold_applyUpdate_commute [OF assms(1)] applyUpdate_idem [OF assms(1)] applyUpdate_commute [OF assms(1), of u v])
qed simp

text \<open>\<open>extends Y e d\<close>: the document \<open>e\<close> has everything \<open>d\<close> has.\<close>

definition extends :: "('d, 'b) yjs \<Rightarrow> 'd \<Rightarrow> 'd \<Rightarrow> bool" where
  "extends Y e d = (\<exists>us. e = fold (applyUpdate Y) us d)"

lemma extends_refl [simp]: "extends Y d d"
  unfolding extends_def by (rule exI [of _ "[]"]) simp

lemma extends_trans: "extends Y f e \<Longrightarrow> extends Y e d \<Longrightarrow> extends Y f d"
  unfolding extends_def by (metis fold_append comp_apply)

lemma extends_apply: "extends Y e d \<Longrightarrow> extends Y (applyUpdate Y u e) d"
  unfolding extends_def
proof (elim exE)
  fix us assume "e = fold (applyUpdate Y) us d"
  then show "\<exists>us. applyUpdate Y u e = fold (applyUpdate Y) us d" by (intro exI [of _ "us @ [u]"]) simp
qed

lemma extends_fold: "extends Y e d \<Longrightarrow> extends Y (fold (applyUpdate Y) us e) d"
  by (induction us arbitrary: e) (simp_all add: extends_apply)

lemma extends_both:
  assumes "merging_laws Y" and "extends Y e d"
  shows "extends Y (applyUpdate Y u e) (applyUpdate Y u d)"
  using assms(2) unfolding extends_def by (metis fold_applyUpdate_commute [OF assms(1)])

section \<open>An instance\<close>

text \<open>
  A library that satisfies the laws, for the witnesses: every key of every root is a register with a
  clock and the values written at that clock; the later clock wins and equal clocks keep both values.
\<close>

type_synonym register = "nat \<times> yvalue option set"

type_synonym registers = "string \<times> string \<Rightarrow> register"

definition laterRegister :: "register \<Rightarrow> register \<Rightarrow> register" where
  "laterRegister r s = (if fst r < fst s then s else if fst s < fst r then r else (fst r, snd r \<union> snd s))"

definition joinRegisters :: "registers \<Rightarrow> registers \<Rightarrow> registers" where
  "joinRegisters u d = (\<lambda>k. laterRegister (u k) (d k))"

definition noRegisters :: registers where
  "noRegisters = (\<lambda>_. (0, {}))"

definition readRegister :: "register \<Rightarrow> yvalue option" where
  "readRegister r = (if snd r = {} then None else the_elem (snd r))"

definition registerYjs :: "(registers, registers) yjs" where
  "registerYjs =
    \<lparr>newDoc = noRegisters, applyUpdate = joinRegisters, applyUpdateV2 = joinRegisters, encodeStateAsUpdateV2 = id,
     encodeStateVector = id, encodeStateAsUpdate = (\<lambda>d v. d), encodeSnapshot = id,
     mergeUpdates = (\<lambda>us. fold joinRegisters us noRegisters), docShare = (\<lambda>d. []), removeUsers = (\<lambda>ks d. d),
     mapGet = (\<lambda>root k d. readRegister (d (root, k))),
     mapWrite = (\<lambda>root changes d. \<lambda>(r, k). case map_of changes k of
        None \<Rightarrow> (0, {}) | Some v \<Rightarrow> if r = root then (fst (d (r, k)) + 1, {v}) else (0, {})),
     emitted = (\<lambda>u d. Some u), readSyncMessage = (\<lambda>b. Some (YjsUpdate (Some b))), writeSyncStep1 = id,
     writeSyncStep2 = (\<lambda>d v. d), writeUpdate = id\<rparr>"

lemma laterRegister_commute: "laterRegister r s = laterRegister s r"
  by (auto simp: laterRegister_def)

lemma laterRegister_assoc: "laterRegister (laterRegister r s) t = laterRegister r (laterRegister s t)"
  by (auto simp: laterRegister_def)

lemma laterRegister_idem [simp]: "laterRegister r (laterRegister r s) = laterRegister r s"
  by (auto simp: laterRegister_def)

lemma laterRegister_left_commute: "laterRegister r (laterRegister s t) = laterRegister s (laterRegister r t)"
  by (metis laterRegister_assoc laterRegister_commute)

lemma laterRegister_zero [simp]: "laterRegister (0, {}) r = r" "laterRegister r (0, {}) = r"
  by (cases r; auto simp: laterRegister_def)+

lemma joined_laws:
  "joinRegisters u (joinRegisters v d) = joinRegisters v (joinRegisters u d)"
  "joinRegisters u (joinRegisters u d) = joinRegisters u d"
  "joinRegisters (joinRegisters u v) d = joinRegisters u (joinRegisters v d)"
  "joinRegisters noRegisters d = d" "joinRegisters d noRegisters = d"
  unfolding joinRegisters_def noRegisters_def
  by (simp_all only: laterRegister_left_commute laterRegister_idem laterRegister_assoc laterRegister_zero)

lemma joined_fold: "joinRegisters (fold joinRegisters us e) d = fold joinRegisters us (joinRegisters e d)"
  by (induction us arbitrary: e) (simp_all add: joined_laws)

lemma registerYjs_laws: "yjs_laws registerYjs"
proof -
  have "merging_laws registerYjs"
    by (auto simp: merging_laws_def registerYjs_def joined_laws joined_fold)
  moreover have "map_law registerYjs"
    by (auto simp: map_law_def registerYjs_def joinRegisters_def laterRegister_def readRegister_def split: option.split)
  ultimately show ?thesis
    by (simp add: yjs_laws_def encoding_law_def event_law_def registerYjs_def joined_laws)
qed

end
