(* ===== verification/Doc_Migrations.thy ===== *)
theory Doc_Migrations
  imports Yjs
begin

text \<open>
  \<^verbatim>\<open>packages/core/src/doc/migrations.ts\<close>: bringing a document to the current schema version when it
  is opened, and refusing one that a newer version wrote.
\<close>

definition SCHEMA_VERSION :: int where
  "SCHEMA_VERSION = 7"

datatype version_error_code = TooNew | TooOld | MigrationFailed

record version_error =
  ve_code :: version_error_code
  ve_documentVersion :: int
  ve_supportedVersion :: int

text \<open>A migration's \<open>migrate\<close> is the list of changes it makes in the meta map: none of them has any.\<close>

record migration =
  mi_from :: int
  mi_to :: int
  mi_description :: string
  mi_migrate :: "(string \<times> yvalue option) list"

definition DOCUMENT_MIGRATIONS :: "migration list" where
  "DOCUMENT_MIGRATIONS =
    [\<lparr>mi_from = 1, mi_to = 2, mi_description = ''the video block exists; a client that cannot draw one must not open documents'', mi_migrate = []\<rparr>,
     \<lparr>mi_from = 2, mi_to = 3, mi_description = ''a canvas page exists; a client that cannot draw one must not open it'', mi_migrate = []\<rparr>,
     \<lparr>mi_from = 3, mi_to = 4, mi_description = ''comments exist; a client that cannot show one must not delete the text it holds'', mi_migrate = []\<rparr>,
     \<lparr>mi_from = 4, mi_to = 5, mi_description = ''SOTE references are opaque task blocks; older clients must not discard them'', mi_migrate = []\<rparr>,
     \<lparr>mi_from = 5, mi_to = 6, mi_description = ''deleted block selections must not be restored by an older editor'', mi_migrate = []\<rparr>,
     \<lparr>mi_from = 6, mi_to = 7, mi_description =
        ''callouts carry a tone, quotes a source, dividers a rule and an ornament; an older editor would strip them all'', mi_migrate = []\<rparr>]"

definition documentSchemaVersion :: "('d, 'b) yjs \<Rightarrow> 'd \<Rightarrow> int" where
  "documentSchemaVersion Y doc =
     (case mapGet Y ''meta'' ''schemaVersion'' doc of
        Some (YNumber raw) \<Rightarrow> if 0 < raw then raw else 1
      | _ \<Rightarrow> 1)"

record migration_outcome =
  mo_from :: int
  mo_to :: int
  mo_applied :: "migration list"
  mo_changed :: bool

text \<open>The loop that collects the steps; a version without one ends it with an error.\<close>

function chainFrom :: "int \<Rightarrow> int \<Rightarrow> version_error + migration list" where
  "chainFrom start version =
     (if version < SCHEMA_VERSION then
        (case find (\<lambda>m. mi_from m = version) DOCUMENT_MIGRATIONS of
           None \<Rightarrow> Inl \<lparr>ve_code = MigrationFailed, ve_documentVersion = start, ve_supportedVersion = SCHEMA_VERSION\<rparr>
         | Some step \<Rightarrow> rmap (\<lambda>chain. step # chain) (chainFrom start (version + 1)))
      else Inr [])"
  by pat_completeness auto
termination
  by (relation "measure (\<lambda>(start, version). nat (SCHEMA_VERSION - version))") auto

declare chainFrom.simps [simp del]

text \<open>The result: the migration_outcome, and the update of the one transaction when there was one.\<close>

definition migrateDocument :: "('d, 'b) yjs \<Rightarrow> 'd \<Rightarrow> version_error + migration_outcome \<times> 'b option" where
  "migrateDocument Y doc =
     (let start = documentSchemaVersion Y doc in
      if SCHEMA_VERSION < start then
        Inl \<lparr>ve_code = TooNew, ve_documentVersion = start, ve_supportedVersion = SCHEMA_VERSION\<rparr>
      else if start = SCHEMA_VERSION then Inr (\<lparr>mo_from = start, mo_to = start, mo_applied = [], mo_changed = False\<rparr>, None)
      else rmap (\<lambda>chain. (\<lparr>mo_from = start, mo_to = SCHEMA_VERSION, mo_applied = chain, mo_changed = True\<rparr>,
               Some (mapWrite Y ''meta'' (concat (map mi_migrate chain) @ [(''schemaVersion'', Some (YNumber SCHEMA_VERSION))]) doc)))
             (chainFrom start start))"

definition isClientSchemaCompatible :: "int \<Rightarrow> bool" where
  "isClientSchemaCompatible clientVersion = (clientVersion = SCHEMA_VERSION)"

section \<open>The chain is complete\<close>

lemma documentSchemaVersion_pos: "0 < documentSchemaVersion Y doc"
  by (auto simp: documentSchemaVersion_def split: option.splits yvalue.splits)

lemma chainFrom_complete:
  assumes "0 < version" and "version \<le> SCHEMA_VERSION"
  shows "\<exists>chain. chainFrom start version = Inr chain \<and> map mi_from chain = [version..SCHEMA_VERSION - 1] \<and>
    concat (map mi_migrate chain) = []"
  using assms
proof (induction "nat (SCHEMA_VERSION - version)" arbitrary: version)
  case 0
  then have "version = SCHEMA_VERSION" by simp
  then show ?case by (simp add: chainFrom.simps [of start SCHEMA_VERSION])
next
  case (Suc n)
  then have less: "version < SCHEMA_VERSION" by simp
  then have "version \<in> {1, 2, 3, 4, 5, 6}" using Suc.prems by (auto simp: SCHEMA_VERSION_def)
  then obtain step where step: "find (\<lambda>m. mi_from m = version) DOCUMENT_MIGRATIONS = Some step"
    "mi_from step = version" "mi_migrate step = []"
    by (auto simp: DOCUMENT_MIGRATIONS_def)
  obtain chain where "chainFrom start (version + 1) = Inr chain" "map mi_from chain = [version + 1..SCHEMA_VERSION - 1]"
    "concat (map mi_migrate chain) = []"
  proof -
    have "n = nat (SCHEMA_VERSION - (version + 1))" using Suc.hyps(2) by linarith
    from Suc.hyps(1) [OF this] show thesis using Suc.prems(1) less that by auto
  qed
  then show ?case using step less by (auto simp: chainFrom.simps [of start version] upto_rec1 [of version])
qed

lemma migrateDocument_old:
  assumes "map_law Y" and "documentSchemaVersion Y doc < SCHEMA_VERSION"
  shows "\<exists>chain u. migrateDocument Y doc =
      Inr (\<lparr>mo_from = documentSchemaVersion Y doc, mo_to = SCHEMA_VERSION, mo_applied = chain, mo_changed = True\<rparr>, Some u) \<and>
    documentSchemaVersion Y (applyUpdate Y u doc) = SCHEMA_VERSION \<and> map mi_from chain = [documentSchemaVersion Y doc..SCHEMA_VERSION - 1]"
proof -
  let ?start = "documentSchemaVersion Y doc"
  obtain chain where chain: "chainFrom ?start ?start = Inr chain" "map mi_from chain = [?start..SCHEMA_VERSION - 1]"
    "concat (map mi_migrate chain) = []"
    using chainFrom_complete [of ?start ?start] documentSchemaVersion_pos [of Y doc] assms(2) by auto
  let ?u = "mapWrite Y ''meta'' [(''schemaVersion'', Some (YNumber SCHEMA_VERSION))] doc"
  have "mapGet Y ''meta'' ''schemaVersion'' (applyUpdate Y ?u doc) = Some (YNumber SCHEMA_VERSION)"
    using assms(1) by (simp add: map_law_def)
  then have "documentSchemaVersion Y (applyUpdate Y ?u doc) = SCHEMA_VERSION"
    by (simp add: documentSchemaVersion_def SCHEMA_VERSION_def)
  moreover have "migrateDocument Y doc = Inr (\<lparr>mo_from = ?start, mo_to = SCHEMA_VERSION, mo_applied = chain, mo_changed = True\<rparr>, Some ?u)"
    using assms(2) chain(1) by (simp add: migrateDocument_def Let_def chain(3) del: concat_eq_Nil_conv)
  ultimately show ?thesis using chain(2) by blast
qed

text \<open>C19: opening a document migrates it completely or refuses it, and never twice. A document of a
  newer version is refused as too new and nothing else is refused; every other one reaches the current
  version through all the steps in between, and migrating the result again changes nothing.\<close>

theorem migrateDocument_complete:
  assumes "map_law Y"
  shows "case migrateDocument Y doc of
      Inl e \<Rightarrow> ve_code e = TooNew \<and> SCHEMA_VERSION < documentSchemaVersion Y doc
    | Inr (out, None) \<Rightarrow> \<not> mo_changed out \<and> documentSchemaVersion Y doc = SCHEMA_VERSION
    | Inr (out, Some u) \<Rightarrow>
        mo_changed out \<and> map mi_from (mo_applied out) = [documentSchemaVersion Y doc..SCHEMA_VERSION - 1] \<and>
        documentSchemaVersion Y (applyUpdate Y u doc) = SCHEMA_VERSION \<and>
        migrateDocument Y (applyUpdate Y u doc) =
          Inr (\<lparr>mo_from = SCHEMA_VERSION, mo_to = SCHEMA_VERSION, mo_applied = [], mo_changed = False\<rparr>, None)"
proof -
  define start where "start = documentSchemaVersion Y doc"
  consider "SCHEMA_VERSION < start" | "start = SCHEMA_VERSION" | "start < SCHEMA_VERSION" by linarith
  then show ?thesis
  proof cases
    case 3
    then show ?thesis using migrateDocument_old [OF assms, of doc]
      by (auto simp: start_def) (simp add: migrateDocument_def Let_def)
  qed (simp_all add: migrateDocument_def start_def [symmetric] Let_def)
qed

definition versionFive :: registers where
  "versionFive = joinRegisters (mapWrite registerYjs ''meta'' [(''schemaVersion'', Some (YNumber 5))] noRegisters) noRegisters"

lemma versionFive_version: "documentSchemaVersion registerYjs versionFive = 5"
  by (simp add: documentSchemaVersion_def versionFive_def registerYjs_def joinRegisters_def laterRegister_def noRegisters_def readRegister_def)

theorem migrateDocument_complete_witness:
  "case migrateDocument registerYjs versionFive of Inr (out, Some u) \<Rightarrow> map mi_from (mo_applied out) = [5, 6] | _ \<Rightarrow> False"
proof -
  have "map_law registerYjs" using registerYjs_laws by (simp add: yjs_laws_def)
  from migrateDocument_complete [OF this, of versionFive] show ?thesis
    by (auto simp: versionFive_version SCHEMA_VERSION_def upto.simps split: sum.splits option.splits)
qed

end
