(* ===== verification/Doc_Store.thy ===== *)
theory Doc_Store
  imports Doc_Migrations
begin

text \<open>
  \<^verbatim>\<open>packages/server/src/doc/docStore.ts\<close> and the parts of \<^verbatim>\<open>versions.ts\<close> it calls: a document is its
  snapshot and every update after it. The tables are lists of rows; every operation returns the
  tables after it. The second half takes the statements of an append and of a compaction apart, as
  the database runs them when they overlap.
\<close>

section \<open>Tables\<close>

record 'b update_row =
  up_doc :: string
  up_seq :: nat
  up_payload :: 'b
  up_actor :: "string option"

record 'b snapshot_row =
  sn_doc :: string
  sn_through :: nat
  sn_state :: 'b
  sn_vector :: 'b

datatype version_reason = Quiet | Compaction | Restore

record 'b version_row =
  vr_id :: nat
  vr_doc :: string
  vr_through :: nat
  vr_takenAt :: int
  vr_state :: 'b
  vr_authors :: "string list"
  vr_reason :: version_reason

text \<open>\<open>ds_nextSeq\<close> is the sequence \<open>doc_update_seq\<close>, \<open>ds_nextVersion\<close> the ids of the versions.\<close>

record 'b doc_tables =
  doc_updates :: "'b update_row list"
  doc_snapshots :: "'b snapshot_row list"
  page_versions :: "'b version_row list"
  ds_nextSeq :: nat
  ds_nextVersion :: nat

definition COMPACT_THRESHOLD :: nat where
  "COMPACT_THRESHOLD = 200"

section \<open>Loading\<close>

definition snapshotOf :: "'b doc_tables \<Rightarrow> string \<Rightarrow> 'b snapshot_row option" where
  "snapshotOf db docId = queryOne (filter (\<lambda>s. sn_doc s = docId) (doc_snapshots db))"

text \<open>\<open>WHERE doc_id = $1 AND seq > $2 ORDER BY seq\<close>, which is also \<open>fetchUpdatesSince\<close> of the bus.\<close>

definition updatesSince :: "'b doc_tables \<Rightarrow> string \<Rightarrow> nat \<Rightarrow> 'b update_row list" where
  "updatesSince db docId since = sort_key up_seq (filter (\<lambda>u. up_doc u = docId \<and> since < up_seq u) (doc_updates db))"

record 'd loaded_doc =
  ld_doc :: 'd
  ld_throughSeq :: nat
  ld_updateCount :: nat

text \<open>What loading makes of the two results it reads.\<close>

definition replayed :: "('d, 'b) yjs \<Rightarrow> 'b snapshot_row option \<Rightarrow> 'b update_row list \<Rightarrow> 'd loaded_doc" where
  "replayed Y snapshot updates =
     (let (doc, throughSeq) = (case snapshot of None \<Rightarrow> (newDoc Y, 0)
                               | Some s \<Rightarrow> (applyUpdateV2 Y (sn_state s) (newDoc Y), sn_through s))
      in \<lparr>ld_doc = fold (applyUpdate Y) (map up_payload updates) doc,
          ld_throughSeq = (if updates = [] then throughSeq else up_seq (last updates)),
          ld_updateCount = length updates\<rparr>)"

definition loadDoc :: "('d, 'b) yjs \<Rightarrow> 'b doc_tables \<Rightarrow> string \<Rightarrow> 'd loaded_doc" where
  "loadDoc Y db docId =
     (let snapshot = snapshotOf db docId
      in replayed Y snapshot (updatesSince db docId (case snapshot of None \<Rightarrow> 0 | Some s \<Rightarrow> sn_through s)))"

section \<open>Appending\<close>

definition appendUpdate :: "'b doc_tables \<Rightarrow> string \<Rightarrow> 'b \<Rightarrow> string option \<Rightarrow> 'b doc_tables \<times> nat" where
  "appendUpdate db docId update actorId =
     (let seq = ds_nextSeq db
      in (db\<lparr>doc_updates := doc_updates db @ [\<lparr>up_doc = docId, up_seq = seq, up_payload = update, up_actor = actorId\<rparr>],
             ds_nextSeq := seq + 1\<rparr>, seq))"

definition pendingUpdateCount :: "'b doc_tables \<Rightarrow> string \<Rightarrow> nat" where
  "pendingUpdateCount db docId =
     length (filter (\<lambda>u. up_doc u = docId \<and> (case snapshotOf db docId of None \<Rightarrow> 0 | Some s \<Rightarrow> sn_through s) < up_seq u)
               (doc_updates db))"

text \<open>A \<open>UNION\<close> in the order of the ids, without duplicates.\<close>

definition listDocIds :: "'b doc_tables \<Rightarrow> string list" where
  "listDocIds db = sorted_list_of_set (set (map sn_doc (doc_snapshots db)) \<union> set (map up_doc (doc_updates db)))"

section \<open>Versions and compaction\<close>

definition takeVersion ::
    "('d, 'b) yjs \<Rightarrow> int \<Rightarrow> string \<Rightarrow> 'd \<Rightarrow> nat \<Rightarrow> version_reason \<Rightarrow> string list \<Rightarrow> 'b doc_tables \<Rightarrow> 'b doc_tables" where
  "takeVersion Y now docId doc throughSeq reason authors db =
     (if list_ex (\<lambda>v. vr_doc v = docId \<and> vr_through v = throughSeq) (page_versions db) then db
      else db\<lparr>page_versions := page_versions db @
               [\<lparr>vr_id = ds_nextVersion db, vr_doc = docId, vr_through = throughSeq, vr_takenAt = now,
                 vr_state = encodeStateAsUpdateV2 Y doc, vr_authors = authors, vr_reason = reason\<rparr>],
              ds_nextVersion := ds_nextVersion db + 1\<rparr>)"

definition authorsSince :: "'b doc_tables \<Rightarrow> string \<Rightarrow> nat \<Rightarrow> string list" where
  "authorsSince db docId sinceSeq =
     remdups (List.map_filter up_actor (filter (\<lambda>u. up_doc u = docId \<and> sinceSeq < up_seq u) (doc_updates db)))"

definition lastVersionSeq :: "'b doc_tables \<Rightarrow> string \<Rightarrow> nat option" where
  "lastVersionSeq db docId =
     (let seqs = map vr_through (filter (\<lambda>v. vr_doc v = docId) (page_versions db))
      in if seqs = [] then None else Some (Max (set seqs)))"

text \<open>The two halves of a compaction: what it reads, and what it writes from that.\<close>

definition putSnapshot :: "'b snapshot_row \<Rightarrow> 'b snapshot_row list \<Rightarrow> 'b snapshot_row list" where
  "putSnapshot s rows =
     (if list_ex (\<lambda>r. sn_doc r = sn_doc s) rows then map (\<lambda>r. if sn_doc r = sn_doc s then s else r) rows
      else rows @ [s])"

definition writeCompaction ::
    "('d, 'b) yjs \<Rightarrow> int \<Rightarrow> string \<Rightarrow> 'd loaded_doc \<Rightarrow> 'b doc_tables \<Rightarrow> 'b doc_tables" where
  "writeCompaction Y now docId loaded db =
     (let through = ld_throughSeq loaded;
          since = (case lastVersionSeq db docId of None \<Rightarrow> 0 | Some n \<Rightarrow> n);
          db = takeVersion Y now docId (ld_doc loaded) through Compaction (authorsSince db docId since) db;
          db = db\<lparr>doc_snapshots := putSnapshot \<lparr>sn_doc = docId, sn_through = through,
                     sn_state = encodeStateAsUpdateV2 Y (ld_doc loaded), sn_vector = encodeStateVector Y (ld_doc loaded)\<rparr>
                     (doc_snapshots db)\<rparr>
      in db\<lparr>doc_updates := filter (\<lambda>u. \<not> (up_doc u = docId \<and> up_seq u \<le> through)) (doc_updates db)\<rparr>)"

definition compactDoc :: "('d, 'b) yjs \<Rightarrow> int \<Rightarrow> string \<Rightarrow> 'b doc_tables \<Rightarrow> 'b doc_tables \<times> bool" where
  "compactDoc Y now docId db =
     (let loaded = loadDoc Y db docId
      in if ld_updateCount loaded = 0 then (db, False) else (writeCompaction Y now docId loaded db, True))"

section \<open>Changing a document from the server\<close>

text \<open>
  \<open>mutate\<close> and the pruning run on the loaded document; only the difference to it is appended, and
  only when the snapshots before and after differ.
\<close>

definition prunedDoc :: "('d, 'b) yjs \<Rightarrow> 'd \<Rightarrow> 'd" where
  "prunedDoc Y doc = (if userEntries (docShare Y doc) = [] then doc else removeUsers Y (prunable (docShare Y doc)) doc)"

definition applyToDocument ::
    "('d, 'b) yjs \<Rightarrow> 'b doc_tables \<Rightarrow> string \<Rightarrow> ('d \<Rightarrow> 'd) \<Rightarrow> string option \<Rightarrow> 'b doc_tables \<times> nat \<times> bool" where
  "applyToDocument Y db docId mutate actorId =
     (let loaded = loadDoc Y db docId; doc = ld_doc loaded; before = encodeStateVector Y doc;
          after = prunedDoc Y (mutate doc); delta = encodeStateAsUpdate Y after before
      in if encodeSnapshot Y doc = encodeSnapshot Y after then (db, ld_throughSeq loaded, False)
         else let (db', seq) = appendUpdate db docId delta actorId in (db', seq, True))"

section \<open>Invariant of the tables\<close>

definition throughOf :: "'b doc_tables \<Rightarrow> string \<Rightarrow> nat" where
  "throughOf db docId = (case snapshotOf db docId of None \<Rightarrow> 0 | Some s \<Rightarrow> sn_through s)"

text \<open>Rows are in the order of their numbers, numbers are below the sequence, a document has one snapshot
  and no row at or below it.\<close>

definition store_ok :: "'b doc_tables \<Rightarrow> bool" where
  "store_ok db =
     (sorted_wrt (<) (map up_seq (doc_updates db)) \<and> list_all (\<lambda>u. 0 < up_seq u \<and> up_seq u < ds_nextSeq db) (doc_updates db) \<and>
      distinct (map sn_doc (doc_snapshots db)) \<and> list_all (\<lambda>s. sn_through s < ds_nextSeq db) (doc_snapshots db) \<and>
      list_all (\<lambda>u. throughOf db (up_doc u) < up_seq u) (doc_updates db) \<and> 0 < ds_nextSeq db)"

definition emptyStore :: "'b doc_tables" where
  "emptyStore = \<lparr>doc_updates = [], doc_snapshots = [], page_versions = [], ds_nextSeq = 1, ds_nextVersion = 1\<rparr>"

lemma store_ok_empty: "store_ok emptyStore"
  by (simp add: store_ok_def emptyStore_def)

lemma snapshotOf_cong: "doc_snapshots db' = doc_snapshots db \<Longrightarrow> snapshotOf db' = snapshotOf db"
  by (simp add: snapshotOf_def fun_eq_iff)

lemma throughOf_less: "store_ok db \<Longrightarrow> throughOf db docId < ds_nextSeq db"
  by (auto simp: throughOf_def store_ok_def snapshotOf_def list_all_iff split: option.split dest!: queryOne_Some)

text \<open>With the invariant the rows of a document are read in the order they stand.\<close>

lemma updatesSince_eq:
  assumes "store_ok db"
  shows "updatesSince db docId since = filter (\<lambda>u. up_doc u = docId \<and> since < up_seq u) (doc_updates db)"
proof -
  have "sorted (map up_seq (filter (\<lambda>u. up_doc u = docId \<and> since < up_seq u) (doc_updates db)))"
    using assms by (intro sorted_filter) (auto simp: store_ok_def strict_sorted_iff)
  then show ?thesis by (simp add: updatesSince_def sort_key_id_if_sorted)
qed

lemma loadDoc_eq:
  assumes "store_ok db"
  shows "loadDoc Y db docId = replayed Y (snapshotOf db docId) (filter (\<lambda>u. up_doc u = docId) (doc_updates db))"
proof -
  have "filter (\<lambda>u. up_doc u = docId \<and> throughOf db docId < up_seq u) (doc_updates db) = filter (\<lambda>u. up_doc u = docId) (doc_updates db)"
    using assms by (intro filter_cong) (auto simp: store_ok_def list_all_iff)
  then show ?thesis using updatesSince_eq [OF assms] by (simp add: loadDoc_def Let_def throughOf_def)
qed

lemma appendUpdate_ok: "store_ok db \<Longrightarrow> store_ok (fst (appendUpdate db docId u actor))"
  using throughOf_less [of db docId]
  by (auto simp: store_ok_def appendUpdate_def Let_def sorted_wrt_append throughOf_def snapshotOf_def list_all_iff less_Suc_eq)

lemma loadDoc_append:
  assumes "store_ok db"
  shows "loadDoc Y (fst (appendUpdate db docId u actor)) other =
    (if other = docId
     then (loadDoc Y db docId)\<lparr>ld_doc := applyUpdate Y u (ld_doc (loadDoc Y db docId)), ld_throughSeq := ds_nextSeq db,
            ld_updateCount := ld_updateCount (loadDoc Y db docId) + 1\<rparr>
     else loadDoc Y db other)"
proof -
  let ?db = "fst (appendUpdate db docId u actor)"
  have "snapshotOf ?db = snapshotOf db" by (rule snapshotOf_cong) (simp add: appendUpdate_def Let_def)
  moreover have "doc_updates ?db = doc_updates db @ [\<lparr>up_doc = docId, up_seq = ds_nextSeq db, up_payload = u, up_actor = actor\<rparr>]"
    by (simp add: appendUpdate_def Let_def)
  ultimately show ?thesis
    unfolding loadDoc_eq [OF assms] loadDoc_eq [OF appendUpdate_ok [OF assms]] replayed_def
    by (auto simp: Let_def split: prod.split)
qed

lemma sorted_le_last: "sorted (map f xs) \<Longrightarrow> x \<in> set xs \<Longrightarrow> f x \<le> f (last xs)"
  by (induction xs) (auto split: if_splits)

lemma ld_throughSeq_bounds:
  assumes "store_ok db"
  shows "throughOf db docId \<le> ld_throughSeq (loadDoc Y db docId)" "ld_throughSeq (loadDoc Y db docId) < ds_nextSeq db"
    "u \<in> set (doc_updates db) \<Longrightarrow> up_doc u = docId \<Longrightarrow> up_seq u \<le> ld_throughSeq (loadDoc Y db docId)"
proof -
  let ?us = "filter (\<lambda>u. up_doc u = docId) (doc_updates db)"
  have t: "ld_throughSeq (loadDoc Y db docId) = (if ?us = [] then throughOf db docId else up_seq (last ?us))"
    by (auto simp: loadDoc_eq [OF assms] replayed_def throughOf_def Let_def split: option.split)
  have last: "throughOf db docId < up_seq (last ?us) \<and> up_seq (last ?us) < ds_nextSeq db" if "?us \<noteq> []"
  proof -
    have "last ?us \<in> set (doc_updates db) \<and> up_doc (last ?us) = docId" using last_in_set [OF that] by simp
    then show ?thesis using assms unfolding store_ok_def list_all_iff by metis
  qed
  show "throughOf db docId \<le> ld_throughSeq (loadDoc Y db docId)" "ld_throughSeq (loadDoc Y db docId) < ds_nextSeq db"
    using last throughOf_less [OF assms, of docId] unfolding t by auto
  assume u: "u \<in> set (doc_updates db)" "up_doc u = docId"
  have "sorted (map up_seq ?us)" using assms by (intro sorted_filter) (auto simp: store_ok_def strict_sorted_iff)
  then have "up_seq u \<le> up_seq (last ?us)"
    using u by (intro sorted_le_last) auto
  moreover have "?us \<noteq> []" using u by (auto simp: filter_empty_conv)
  ultimately show "up_seq u \<le> ld_throughSeq (loadDoc Y db docId)" unfolding t by simp
qed

section \<open>Compaction keeps the document\<close>

lemma putSnapshot_lookup:
  "queryOne (filter (\<lambda>r. sn_doc r = docId) (putSnapshot s rows)) =
    (if docId = sn_doc s then (if list_ex (\<lambda>r. sn_doc r = docId) rows then Some s else Some s)
     else queryOne (filter (\<lambda>r. sn_doc r = docId) rows))"
proof -
  have "filter (\<lambda>r. sn_doc r = sn_doc s) rows \<noteq> [] \<Longrightarrow>
      queryOne (filter (\<lambda>r. sn_doc r = sn_doc s) (map (\<lambda>r. if sn_doc r = sn_doc s then s else r) rows)) = Some s"
    by (induction rows) auto
  moreover have "docId \<noteq> sn_doc s \<Longrightarrow>
      filter (\<lambda>r. sn_doc r = docId) (map (\<lambda>r. if sn_doc r = sn_doc s then s else r) rows) = filter (\<lambda>r. sn_doc r = docId) rows"
    by (induction rows) auto
  ultimately show ?thesis by (auto simp: putSnapshot_def list_ex_iff filter_empty_conv)
qed

lemma putSnapshot_ids:
  "map sn_doc (putSnapshot s rows) = (if sn_doc s \<in> set (map sn_doc rows) then map sn_doc rows else map sn_doc rows @ [sn_doc s])"
  by (auto simp: putSnapshot_def list_ex_iff intro: image_eqI [OF sym])

lemma writeCompaction_fields:
  "doc_updates (writeCompaction Y now docId loaded db) =
     filter (\<lambda>u. \<not> (up_doc u = docId \<and> up_seq u \<le> ld_throughSeq loaded)) (doc_updates db)"
  "doc_snapshots (writeCompaction Y now docId loaded db) =
     putSnapshot \<lparr>sn_doc = docId, sn_through = ld_throughSeq loaded, sn_state = encodeStateAsUpdateV2 Y (ld_doc loaded),
       sn_vector = encodeStateVector Y (ld_doc loaded)\<rparr> (doc_snapshots db)"
  "ds_nextSeq (writeCompaction Y now docId loaded db) = ds_nextSeq db"
  by (simp_all add: writeCompaction_def takeVersion_def Let_def)

lemma writeCompaction_snapshot:
  "snapshotOf (writeCompaction Y now docId loaded db) other =
     (if other = docId then Some \<lparr>sn_doc = docId, sn_through = ld_throughSeq loaded,
        sn_state = encodeStateAsUpdateV2 Y (ld_doc loaded), sn_vector = encodeStateVector Y (ld_doc loaded)\<rparr>
      else snapshotOf db other)"
  by (simp add: snapshotOf_def writeCompaction_fields putSnapshot_lookup)

lemma writeCompaction_later_ok:
  assumes ok: "store_ok db" and l: "ld_throughSeq l < ds_nextSeq db"
  shows "store_ok (writeCompaction Y now docId l db)"
proof -
  let ?db = "writeCompaction Y now docId l db"
  have through: "throughOf ?db other = (if other = docId then ld_throughSeq l else throughOf db other)" for other
    by (simp add: throughOf_def writeCompaction_snapshot)
  have "sorted_wrt (<) (map up_seq (doc_updates ?db))"
    using ok unfolding writeCompaction_fields store_ok_def by (auto simp: sorted_wrt_map intro: sorted_wrt_filter)
  moreover have "list_all (\<lambda>u. throughOf ?db (up_doc u) < up_seq u) (doc_updates ?db)"
    using ok unfolding through writeCompaction_fields by (auto simp: store_ok_def list_all_iff)
  moreover have "list_all (\<lambda>s. sn_through s < ds_nextSeq ?db) (doc_snapshots ?db)"
    using ok l unfolding writeCompaction_fields by (auto simp: store_ok_def list_all_iff putSnapshot_def)
  moreover have "distinct (map sn_doc (doc_snapshots ?db))"
    using ok unfolding writeCompaction_fields putSnapshot_ids by (simp add: store_ok_def)
  ultimately show ?thesis
    using ok by (auto simp: store_ok_def writeCompaction_fields list_all_iff)
qed

lemma writeCompaction_ok:
  "store_ok db \<Longrightarrow> store_ok (writeCompaction Y now docId (loadDoc Y db docId) db)"
  by (rule writeCompaction_later_ok [OF _ ld_throughSeq_bounds(2)])

lemma writeCompaction_load:
  assumes ok: "store_ok db" and law: "encoding_law Y"
  shows "ld_doc (loadDoc Y (writeCompaction Y now docId (loadDoc Y db docId) db) other) = ld_doc (loadDoc Y db other) \<and>
    ld_throughSeq (loadDoc Y (writeCompaction Y now docId (loadDoc Y db docId) db) other) = ld_throughSeq (loadDoc Y db other)"
proof -
  let ?l = "loadDoc Y db docId" and ?db = "writeCompaction Y now docId (loadDoc Y db docId) db"
  have rows: "filter (\<lambda>u. up_doc u = other) (doc_updates ?db) =
      (if other = docId then [] else filter (\<lambda>u. up_doc u = other) (doc_updates db))"
    using ld_throughSeq_bounds(3) [OF ok, of _ docId Y] unfolding writeCompaction_fields
    by (auto simp: filter_empty_conv intro!: filter_cong)
  show ?thesis
  proof (cases "other = docId")
    case True
    have "loadDoc Y ?db docId = \<lparr>ld_doc = ld_doc ?l, ld_throughSeq = ld_throughSeq ?l, ld_updateCount = 0\<rparr>"
      using law unfolding loadDoc_eq [OF writeCompaction_ok [OF ok]] rows [unfolded True] writeCompaction_snapshot
      by (simp add: replayed_def encoding_law_def)
    then show ?thesis by (simp add: True)
  next
    case False
    have "loadDoc Y ?db other = loadDoc Y db other"
      using False unfolding loadDoc_eq [OF writeCompaction_ok [OF ok]] rows writeCompaction_snapshot
      by (simp add: loadDoc_eq [OF ok, of Y other])
    then show ?thesis by simp
  qed
qed

lemma writeCompaction_pending:
  assumes ok: "store_ok db"
  shows "pendingUpdateCount (writeCompaction Y now docId (loadDoc Y db docId) db) docId = 0"
  using ld_throughSeq_bounds(3) [OF ok, of _ docId Y]
  unfolding pendingUpdateCount_def writeCompaction_fields writeCompaction_snapshot by (auto simp: filter_empty_conv)

lemma writeCompaction_version:
  "list_ex (\<lambda>v. vr_doc v = docId \<and> vr_through v = ld_throughSeq loaded) (page_versions (writeCompaction Y now docId loaded db))"
  by (simp add: writeCompaction_def takeVersion_def Let_def)

lemma compactDoc_ok: "store_ok db \<Longrightarrow> store_ok (fst (compactDoc Y now docId db))"
  by (simp add: compactDoc_def Let_def writeCompaction_ok)

lemma compactDoc_load:
  assumes "store_ok db" and "encoding_law Y"
  shows "ld_doc (loadDoc Y (fst (compactDoc Y now docId db)) other) = ld_doc (loadDoc Y db other)"
    and "ld_throughSeq (loadDoc Y (fst (compactDoc Y now docId db)) other) = ld_throughSeq (loadDoc Y db other)"
  using writeCompaction_load [OF assms] by (simp_all add: compactDoc_def Let_def)

text \<open>C20: compaction loses nothing. It leaves what loading gives for every document of the store, the
  content and the number it is up to, leaves no update of the compacted document waiting, keeps the
  invariant of the tables, and unless there was nothing to fold, a version stands at the number it
  folded up to.\<close>

theorem compactDoc_keeps_document:
  assumes "store_ok db" and "encoding_law Y"
  shows "store_ok (fst (compactDoc Y now docId db)) \<and>
    ld_doc (loadDoc Y (fst (compactDoc Y now docId db)) other) = ld_doc (loadDoc Y db other) \<and>
    ld_throughSeq (loadDoc Y (fst (compactDoc Y now docId db)) other) = ld_throughSeq (loadDoc Y db other) \<and>
    pendingUpdateCount (fst (compactDoc Y now docId db)) docId = 0 \<and>
    (ld_updateCount (loadDoc Y db docId) = 0 \<or>
     list_ex (\<lambda>v. vr_doc v = docId \<and> vr_through v = ld_throughSeq (loadDoc Y db docId)) (page_versions (fst (compactDoc Y now docId db))))"
proof (cases "ld_updateCount (loadDoc Y db docId) = 0")
  case True
  then have "pendingUpdateCount db docId = 0"
    using updatesSince_eq [OF assms(1), of docId "throughOf db docId"]
    by (simp add: loadDoc_def replayed_def Let_def pendingUpdateCount_def throughOf_def split: option.splits prod.splits)
  then show ?thesis using True assms(1) by (simp add: compactDoc_def)
next
  case False
  then show ?thesis
    using writeCompaction_ok [OF assms(1), where Y = Y] writeCompaction_load [OF assms]
      writeCompaction_pending [OF assms(1), where Y = Y] writeCompaction_version
    by (simp add: compactDoc_def Let_def)
qed

definition titled :: "string \<Rightarrow> registers" where
  "titled t = (\<lambda>(root, k). if root = ''page'' \<and> k = ''title'' then (1, {Some (YString t)}) else (0, {}))"

definition oneUpdate :: "registers doc_tables" where
  "oneUpdate = fst (appendUpdate emptyStore ''p'' (titled ''plan'') None)"

theorem compactDoc_keeps_document_witness:
  "mapGet registerYjs ''page'' ''title'' (ld_doc (loadDoc registerYjs (fst (compactDoc registerYjs 0 ''p'' oneUpdate)) ''p'')) =
     Some (YString ''plan'')"
proof -
  have "store_ok oneUpdate" unfolding oneUpdate_def by (rule appendUpdate_ok [OF store_ok_empty])
  moreover have "encoding_law registerYjs" using registerYjs_laws by (simp add: yjs_laws_def)
  moreover have "mapGet registerYjs ''page'' ''title'' (ld_doc (loadDoc registerYjs oneUpdate ''p'')) = Some (YString ''plan'')"
    unfolding oneUpdate_def loadDoc_append [OF store_ok_empty]
    by (simp add: loadDoc_def replayed_def snapshotOf_def updatesSince_def emptyStore_def registerYjs_def titled_def
        joinRegisters_def noRegisters_def readRegister_def)
  ultimately show ?thesis using compactDoc_keeps_document [of oneUpdate registerYjs 0 "''p''" "''p''"] by simp
qed

end
