(* ===== verification/Store_Races.thy ===== *)
theory Store_Races
  imports Doc_Store
begin

text \<open>
  Appends and compactions of one document as the database runs them when they overlap
  (\<^verbatim>\<open>packages/server/src/doc/docStore.ts\<close>, \<^verbatim>\<open>appendUpdate\<close> and \<^verbatim>\<open>compactDoc\<close>). An insert draws its
  number from the sequence when it runs and becomes visible when it commits; a compaction, alone under
  its advisory lock, reads first and later writes the snapshot and deletes by number, each statement
  seeing what is committed by then.
\<close>

record ('d, 'b) overlap =
  ov_db :: "'b doc_tables"
  ov_open :: "(nat \<times> 'b \<times> string option) list"
  ov_compaction :: "'d loaded_doc option"
  ov_committed :: "'b list"

definition insertRow :: "string \<Rightarrow> nat \<times> 'b \<times> string option \<Rightarrow> 'b doc_tables \<Rightarrow> 'b doc_tables" where
  "insertRow docId row db =
     (case row of (seq, u, actor) \<Rightarrow>
        db\<lparr>doc_updates := doc_updates db @ [\<lparr>up_doc = docId, up_seq = seq, up_payload = u, up_actor = actor\<rparr>]\<rparr>)"

text \<open>With \<open>ordered\<close> the inserts commit in the order in which they drew their numbers.\<close>

inductive overlap_step :: "('d, 'b) yjs \<Rightarrow> string \<Rightarrow> bool \<Rightarrow> ('d, 'b) overlap \<Rightarrow> ('d, 'b) overlap \<Rightarrow> bool"
  for Y :: "('d, 'b) yjs" and docId :: string and ordered :: bool where
  begin_insert:
    "overlap_step Y docId ordered s
       (s\<lparr>ov_db := (ov_db s)\<lparr>ds_nextSeq := ds_nextSeq (ov_db s) + 1\<rparr>, ov_open := ov_open s @ [(ds_nextSeq (ov_db s), u, actor)]\<rparr>)"
| commit_insert:
    "ov_open s = before @ (seq, u, actor) # rest \<Longrightarrow> ordered \<longrightarrow> before = [] \<Longrightarrow>
     overlap_step Y docId ordered s
       (s\<lparr>ov_db := insertRow docId (seq, u, actor) (ov_db s), ov_open := before @ rest, ov_committed := ov_committed s @ [u]\<rparr>)"
| compaction_read:
    "ov_compaction s = None \<Longrightarrow> ld_updateCount (loadDoc Y (ov_db s) docId) \<noteq> 0 \<Longrightarrow>
     overlap_step Y docId ordered s (s\<lparr>ov_compaction := Some (loadDoc Y (ov_db s) docId)\<rparr>)"
| compaction_write:
    "ov_compaction s = Some loaded \<Longrightarrow>
     overlap_step Y docId ordered s (s\<lparr>ov_db := writeCompaction Y now docId loaded (ov_db s), ov_compaction := None\<rparr>)"

definition overlap_start :: "('d, 'b) overlap" where
  "overlap_start = \<lparr>ov_db = emptyStore, ov_open = [], ov_compaction = None, ov_committed = []\<rparr>"

inductive overlap_reach :: "('d, 'b) yjs \<Rightarrow> string \<Rightarrow> bool \<Rightarrow> ('d, 'b) overlap \<Rightarrow> bool"
  for Y :: "('d, 'b) yjs" and docId :: string and ordered :: bool where
  start: "overlap_reach Y docId ordered overlap_start"
| step: "overlap_reach Y docId ordered s \<Longrightarrow> overlap_step Y docId ordered s s' \<Longrightarrow> overlap_reach Y docId ordered s'"

section \<open>In order, nothing is lost\<close>

text \<open>A compaction that has read earlier: what it read and the rows above it are the document.\<close>

definition still_good :: "('d, 'b) yjs \<Rightarrow> string \<Rightarrow> 'd loaded_doc \<Rightarrow> 'b doc_tables \<Rightarrow> bool" where
  "still_good Y docId l db =
     (ld_throughSeq l < ds_nextSeq db \<and>
      ld_doc (loadDoc Y db docId) =
        fold (applyUpdate Y) (map up_payload (filter (\<lambda>u. up_doc u = docId \<and> ld_throughSeq l < up_seq u) (doc_updates db))) (ld_doc l))"

lemma writeCompaction_later_load:
  assumes ok: "store_ok db" and good: "still_good Y docId l db" and law: "encoding_law Y"
  shows "ld_doc (loadDoc Y (writeCompaction Y now docId l db) docId) = ld_doc (loadDoc Y db docId)"
proof -
  let ?db = "writeCompaction Y now docId l db"
  have ok': "store_ok ?db" using good by (intro writeCompaction_later_ok [OF ok]) (simp add: still_good_def)
  have rows: "filter (\<lambda>u. up_doc u = docId) (doc_updates ?db) = filter (\<lambda>u. up_doc u = docId \<and> ld_throughSeq l < up_seq u) (doc_updates db)"
    unfolding writeCompaction_fields filter_filter by (rule filter_cong) auto
  show ?thesis
    using good law unfolding loadDoc_eq [OF ok'] rows writeCompaction_snapshot
    by (simp add: replayed_def encoding_law_def still_good_def)
qed

text \<open>What holds between the steps when inserts commit in order.\<close>

definition overlap_ok :: "('d, 'b) yjs \<Rightarrow> string \<Rightarrow> ('d, 'b) overlap \<Rightarrow> bool" where
  "overlap_ok Y docId s =
     (let db = ov_db s in
      store_ok db \<and> sorted_wrt (<) (map fst (ov_open s)) \<and>
      (\<forall>(n, u, a) \<in> set (ov_open s). n < ds_nextSeq db \<and> throughOf db docId < n \<and> (\<forall>r \<in> set (doc_updates db). up_seq r < n) \<and>
         (\<forall>l. ov_compaction s = Some l \<longrightarrow> ld_throughSeq l < n)) \<and>
      (\<forall>l. ov_compaction s = Some l \<longrightarrow> still_good Y docId l db) \<and>
      ld_doc (loadDoc Y db docId) = fold (applyUpdate Y) (ov_committed s) (newDoc Y))"

lemma loadDoc_nextSeq: "loadDoc Y (db\<lparr>ds_nextSeq := n\<rparr>) docId = loadDoc Y db docId"
  by (simp add: loadDoc_def updatesSince_def snapshotOf_def)

lemma insertRow_ok:
  assumes "store_ok db" and "seq < ds_nextSeq db" "throughOf db docId < seq" "\<forall>r \<in> set (doc_updates db). up_seq r < seq"
  shows "store_ok (insertRow docId (seq, u, actor) db)"
  using assms by (auto simp: store_ok_def insertRow_def sorted_wrt_append list_all_iff throughOf_def snapshotOf_def)

lemma loadDoc_insertRow:
  assumes ok: "store_ok db" and ok': "store_ok (insertRow docId (seq, u, actor) db)"
  shows "ld_doc (loadDoc Y (insertRow docId (seq, u, actor) db) docId) = applyUpdate Y u (ld_doc (loadDoc Y db docId))"
proof -
  have "snapshotOf (insertRow docId (seq, u, actor) db) = snapshotOf db"
    by (rule snapshotOf_cong) (simp add: insertRow_def)
  then show ?thesis
    unfolding loadDoc_eq [OF ok] loadDoc_eq [OF ok'] replayed_def
    by (simp add: insertRow_def split: prod.split)
qed

lemma still_good_insertRow:
  assumes "store_ok db" "store_ok (insertRow docId (seq, u, actor) db)" "still_good Y docId l db" "ld_throughSeq l < seq"
  shows "still_good Y docId l (insertRow docId (seq, u, actor) db)"
  using assms(3,4) loadDoc_insertRow [OF assms(1,2), of Y] by (simp add: still_good_def insertRow_def)

lemma overlap_ok_step:
  assumes "encoding_law Y" and "overlap_step Y docId True s s'" and "overlap_ok Y docId s"
  shows "overlap_ok Y docId s'"
  using assms(2,3)
proof cases
  case (begin_insert u actor)
  then show ?thesis
    using assms(3) throughOf_less [of "ov_db s" docId]
    by (auto simp: overlap_ok_def Let_def loadDoc_nextSeq store_ok_def sorted_wrt_append list_all_iff still_good_def
        throughOf_def snapshotOf_def less_Suc_eq)
next
  case (commit_insert before seq u actor rest)
  let ?db = "insertRow docId (seq, u, actor) (ov_db s)"
  have ok: "store_ok (ov_db s)" and seq: "seq < ds_nextSeq (ov_db s)" "throughOf (ov_db s) docId < seq"
    "\<forall>r \<in> set (doc_updates (ov_db s)). up_seq r < seq" "\<And>l. ov_compaction s = Some l \<Longrightarrow> ld_throughSeq l < seq"
    using commit_insert assms(3) by (auto simp: overlap_ok_def Let_def)
  have ok': "store_ok ?db" by (rule insertRow_ok [OF ok seq(1-3)])
  have "ld_doc (loadDoc Y ?db docId) = fold (applyUpdate Y) (ov_committed s @ [u]) (newDoc Y)"
    using assms(3) loadDoc_insertRow [OF ok ok', of Y] by (simp add: overlap_ok_def Let_def)
  moreover have "still_good Y docId l ?db" if "ov_compaction s = Some l" for l
    using assms(3) that seq(4) still_good_insertRow [OF ok ok'] by (auto simp: overlap_ok_def Let_def)
  ultimately show ?thesis
    using commit_insert assms(3) ok'
    by (auto simp: overlap_ok_def Let_def) (auto simp: insertRow_def throughOf_def snapshotOf_def)
next
  case compaction_read
  let ?l = "loadDoc Y (ov_db s) docId"
  have ok: "store_ok (ov_db s)" using assms(3) by (simp add: overlap_ok_def Let_def)
  have "filter (\<lambda>u. up_doc u = docId \<and> ld_throughSeq ?l < up_seq u) (doc_updates (ov_db s)) = []"
    using ld_throughSeq_bounds(3) [OF ok, of _ docId Y] by (auto simp: filter_empty_conv not_less)
  then have "still_good Y docId ?l (ov_db s)" using ld_throughSeq_bounds(2) [OF ok, of Y docId] by (simp add: still_good_def)
  moreover have "ld_throughSeq ?l < n" if "throughOf (ov_db s) docId < n" "\<forall>r \<in> set (doc_updates (ov_db s)). up_seq r < n" for n
  proof -
    let ?us = "filter (\<lambda>u. up_doc u = docId) (doc_updates (ov_db s))"
    have "ld_throughSeq ?l = (if ?us = [] then throughOf (ov_db s) docId else up_seq (last ?us))"
      by (auto simp: loadDoc_eq [OF ok] replayed_def throughOf_def Let_def split: option.split)
    then show ?thesis using that last_in_set [of ?us] by auto
  qed
  ultimately show ?thesis using compaction_read assms(3) by (auto simp: overlap_ok_def Let_def)
next
  case (compaction_write loaded now)
  let ?db = "writeCompaction Y now docId loaded (ov_db s)"
  have ok: "store_ok (ov_db s)" and good: "still_good Y docId loaded (ov_db s)"
    using compaction_write assms(3) by (auto simp: overlap_ok_def Let_def)
  have "store_ok ?db" using good by (intro writeCompaction_later_ok [OF ok]) (simp add: still_good_def)
  moreover have "throughOf ?db docId = ld_throughSeq loaded" by (simp add: throughOf_def writeCompaction_snapshot)
  ultimately show ?thesis
    using compaction_write assms(3) writeCompaction_later_load [OF ok good assms(1)]
    by (auto simp: overlap_ok_def Let_def writeCompaction_fields)
qed

text \<open>C21: with inserts committing in the order of their numbers, appends and compactions that overlap in
  any way lose nothing: at every moment loading the document gives every committed update, in the order
  in which they were committed.\<close>

theorem ordered_appends_survive:
  assumes "encoding_law Y" and "overlap_reach Y docId True s"
  shows "ld_doc (loadDoc Y (ov_db s) docId) = fold (applyUpdate Y) (ov_committed s) (newDoc Y)"
proof -
  have "overlap_ok Y docId s"
    using assms(2)
  proof induction
    case start
    show ?case by (simp add: overlap_ok_def overlap_start_def store_ok_empty) (simp add: loadDoc_def replayed_def updatesSince_def snapshotOf_def emptyStore_def)
  qed (use overlap_ok_step [OF assms(1)] in blast)
  then show ?thesis by (simp add: overlap_ok_def Let_def)
qed

section \<open>Out of order, a committed update is discarded\<close>

definition moved :: registers where
  "moved = (\<lambda>(root, k). if root = ''page'' \<and> k = ''idx'' then (1, {Some (YString ''a1'')}) else (0, {}))"

text \<open>Two inserts have drawn their numbers, the second has committed; then a compaction reads.\<close>

definition twoOpen :: "(registers, registers) overlap" where
  "twoOpen = \<lparr>ov_db = emptyStore\<lparr>ds_nextSeq := 3\<rparr>, ov_open = [(1, titled ''plan'', None), (2, moved, None)],
     ov_compaction = None, ov_committed = []\<rparr>"

definition secondIn :: "(registers, registers) overlap" where
  "secondIn = twoOpen\<lparr>ov_db := insertRow ''p'' (2, moved, None) (ov_db twoOpen), ov_open := [(1, titled ''plan'', None)],
     ov_committed := [moved]\<rparr>"

definition readOne :: "(registers, registers) overlap" where
  "readOne = secondIn\<lparr>ov_compaction := Some (loadDoc registerYjs (ov_db secondIn) ''p'')\<rparr>"

definition bothIn :: "(registers, registers) overlap" where
  "bothIn = readOne\<lparr>ov_db := insertRow ''p'' (1, titled ''plan'', None) (ov_db readOne), ov_open := [],
     ov_committed := [moved, titled ''plan'']\<rparr>"

lemma loadDoc_folded:
  "doc_updates db = [] \<Longrightarrow> snapshotOf db docId = Some s \<Longrightarrow> ld_doc (loadDoc Y db docId) = applyUpdateV2 Y (sn_state s) (newDoc Y)"
  by (simp add: loadDoc_def replayed_def updatesSince_def)

lemma twoOpen_reach: "overlap_reach registerYjs ''p'' ordered twoOpen"
proof -
  have "overlap_reach registerYjs ''p'' ordered (overlap_start\<lparr>ov_db := emptyStore\<lparr>ds_nextSeq := 2\<rparr>, ov_open := [(1, titled ''plan'', None)]\<rparr>)"
    using overlap_reach.step [OF overlap_reach.start begin_insert [of registerYjs "''p''" ordered _ "titled ''plan''" None]]
    by (simp add: overlap_start_def emptyStore_def numeral_2_eq_2)
  from overlap_reach.step [OF this begin_insert [of registerYjs "''p''" ordered _ moved None]] show ?thesis
    by (simp add: overlap_start_def emptyStore_def twoOpen_def)
qed

lemma secondIn_load: "loadDoc registerYjs (ov_db secondIn) ''p'' = \<lparr>ld_doc = joinRegisters moved noRegisters, ld_throughSeq = 2, ld_updateCount = 1\<rparr>"
  by (simp add: secondIn_def twoOpen_def insertRow_def loadDoc_def replayed_def snapshotOf_def updatesSince_def emptyStore_def registerYjs_def)

lemma bothIn_reach: "overlap_reach registerYjs ''p'' False bothIn"
proof -
  have "overlap_reach registerYjs ''p'' False secondIn"
    using overlap_reach.step [OF twoOpen_reach commit_insert [of twoOpen "[(1, titled ''plan'', None)]" 2 moved None "[]" False registerYjs "''p''"]]
    by (simp add: secondIn_def twoOpen_def)
  then have "overlap_reach registerYjs ''p'' False readOne"
    using overlap_reach.step [OF _ compaction_read [of secondIn registerYjs "''p''" False]] secondIn_load
    by (simp add: readOne_def) (simp add: secondIn_def twoOpen_def)
  from overlap_reach.step [OF this commit_insert [of readOne "[]" 1 "titled ''plan''" None "[]" False registerYjs "''p''"]]
  show ?thesis by (simp add: bothIn_def readOne_def secondIn_def twoOpen_def)
qed

text \<open>A compaction can discard an update that has been stored. Two appends draw their numbers, the
  later one commits first and a compaction reads between the two commits; it deletes by number, so the
  row of the first append goes although it was not folded in, and loading the document no longer gives
  what was committed.\<close>

theorem compaction_discards_append:
  "\<exists>s. overlap_reach registerYjs ''p'' False s \<and> ov_open s = [] \<and> ov_compaction s = None \<and>
     titled ''plan'' \<in> set (ov_committed s) \<and> doc_updates (ov_db s) = [] \<and>
     mapGet registerYjs ''page'' ''title'' (ld_doc (loadDoc registerYjs (ov_db s) ''p'')) = None \<and>
     mapGet registerYjs ''page'' ''title'' (fold (applyUpdate registerYjs) (ov_committed s) (newDoc registerYjs)) = Some (YString ''plan'')"
proof -
  let ?l = "loadDoc registerYjs (ov_db secondIn) ''p''"
  let ?s = "bothIn\<lparr>ov_db := writeCompaction registerYjs 0 ''p'' ?l (ov_db bothIn), ov_compaction := None\<rparr>"
  have read: "ov_compaction bothIn = Some ?l" by (simp add: bothIn_def readOne_def)
  have "overlap_reach registerYjs ''p'' False ?s"
    by (rule overlap_reach.step [OF bothIn_reach compaction_write [OF read]])
  moreover have none: "doc_updates (ov_db ?s) = []"
    by (simp add: writeCompaction_fields secondIn_load) (simp add: bothIn_def readOne_def secondIn_def twoOpen_def insertRow_def emptyStore_def)
  moreover have "ld_doc (loadDoc registerYjs (ov_db ?s) ''p'') = joinRegisters moved noRegisters"
    using loadDoc_folded [OF none, of "''p''" _ registerYjs]
    by (simp add: writeCompaction_snapshot secondIn_load) (simp add: registerYjs_def joined_laws)
  moreover have "mapGet registerYjs ''page'' ''title'' (joinRegisters moved noRegisters) = None"
    by (simp add: registerYjs_def joined_laws moved_def readRegister_def)
  moreover have "mapGet registerYjs ''page'' ''title'' (fold (applyUpdate registerYjs) [moved, titled ''plan''] (newDoc registerYjs)) = Some (YString ''plan'')"
    by (simp add: registerYjs_def joined_laws moved_def titled_def readRegister_def joinRegisters_def laterRegister_def noRegisters_def)
  ultimately show ?thesis by (intro exI [of _ ?s]) (simp add: bothIn_def)
qed

theorem ordered_appends_survive_witness:
  "ld_doc (loadDoc registerYjs (ov_db twoOpen) ''p'') = noRegisters"
  using ordered_appends_survive [OF _ twoOpen_reach] registerYjs_laws
  by (simp add: yjs_laws_def twoOpen_def registerYjs_def)

end
