(* ===== verification/Room.thy ===== *)
theory Room
  imports Doc_Store
begin

text \<open>
  \<^verbatim>\<open>packages/server/src/sync/room.ts\<close>: the room of an open document. It owns the document in memory,
  applies what subscribers and other instances send, fans updates out and stores them in batches.
  A flush is asynchronous: its awaits are the states of \<open>flush_state\<close>, between which every other
  operation of the room can run.
\<close>

section \<open>State\<close>

record subscriber =
  su_id :: string
  su_handle :: nat
  su_canWrite :: bool

text \<open>Where a transaction comes from.\<close>

datatype origin = FromSubscriber string | FromServer | FromBus | FromMigration | FromLoad

datatype 'b frame = SyncFrame 'b | AwarenessFrame 'b

text \<open>The awareness half of \<^verbatim>\<open>y-protocols\<close>: the clients present, and what an update, a removal and an
  encoding do. The second component of a change is the list of clients it concerns.\<close>

record ('w, 'b) awareness_lib =
  awStates :: "'w \<Rightarrow> nat list"
  awApply :: "'b \<Rightarrow> 'w \<Rightarrow> 'w \<times> nat list"
  awRemove :: "nat list \<Rightarrow> 'w \<Rightarrow> 'w \<times> nat list"
  awEncode :: "nat list \<Rightarrow> 'w \<Rightarrow> 'b"
  awNew :: "'w"

record write_failure =
  wf_code :: "string option"
  wf_message :: string

datatype 'b flush_state =
    NotFlushing
  | Appending "'b list" 'b "string option"
  | RecordingAppend
  | Projecting nat "string option"
  | RecordingProjection
  | Compacting

record ('d, 'b, 'w) room =
  rm_pageId :: string
  rm_commentsFor :: "string option"
  rm_workspaceId :: string
  rm_doc :: 'd
  rm_awareness :: 'w
  rm_subscribers :: "subscriber list"
  rm_clientIds :: "(string \<times> nat list) list"
  rm_pending :: "'b list"
  rm_debounceTimer :: bool
  rm_maxDelayTimer :: bool
  rm_lingerTimer :: bool
  rm_throughSeq :: nat
  rm_flushing :: "'b flush_state"
  rm_waiting :: nat
  rm_destroyed :: bool
  rm_poisonReason :: "string option"
  rm_projectionError :: "string option"
  rm_lastActor :: "string option"
  rm_sent :: "(string \<times> 'b frame) list"

text \<open>\<open>poisoned\<close> is set together with its reason.\<close>

definition isPoisoned :: "('d, 'b, 'w) room \<Rightarrow> bool" where
  "isPoisoned room = (rm_poisonReason room \<noteq> None)"

definition hasPendingWrites :: "('d, 'b, 'w) room \<Rightarrow> bool" where
  "hasPendingWrites room = (rm_pending room \<noteq> [])"

definition STRUCTURAL_KEYS :: "string list" where
  "STRUCTURAL_KEYS = [''parentPageId'', ''idx'', ''kind'', ''collectionId'', ''archivedAt'']"

section \<open>Subscribers\<close>

definition addSubscriber :: "subscriber \<Rightarrow> ('d, 'b, 'w) room \<Rightarrow> ('d, 'b, 'w) room" where
  "addSubscriber sub room =
     room\<lparr>rm_subscribers :=
            (if list_ex (\<lambda>s. su_id s = su_id sub) (rm_subscribers room)
             then map (\<lambda>s. if su_id s = su_id sub then sub else s) (rm_subscribers room)
             else rm_subscribers room @ [sub]),
          rm_lingerTimer := False\<rparr>"

definition setSubscriberWritable :: "string \<Rightarrow> bool \<Rightarrow> ('d, 'b, 'w) room \<Rightarrow> ('d, 'b, 'w) room" where
  "setSubscriberWritable sid canWrite room =
     room\<lparr>rm_subscribers := map (\<lambda>s. if su_id s = sid then s\<lparr>su_canWrite := canWrite\<rparr> else s) (rm_subscribers room)\<rparr>"

definition onAwarenessUpdate ::
    "('w, 'b) awareness_lib \<Rightarrow> nat list \<Rightarrow> origin \<Rightarrow> ('d, 'b, 'w) room \<Rightarrow> ('d, 'b, 'w) room" where
  "onAwarenessUpdate W changed from room =
     (if rm_destroyed room then room
      else if changed = [] then room
      else room\<lparr>rm_sent := rm_sent room @
             map (\<lambda>s. (su_id s, AwarenessFrame (awEncode W changed (rm_awareness room))))
               (filter (\<lambda>s. FromSubscriber (su_id s) \<noteq> from) (rm_subscribers room))\<rparr>)"

definition clientIdsOf :: "string \<Rightarrow> ('d, 'b, 'w) room \<Rightarrow> nat list" where
  "clientIdsOf sid room = (case map_of (rm_clientIds room) sid of None \<Rightarrow> [] | Some ids \<Rightarrow> ids)"

definition removeSubscriber :: "('w, 'b) awareness_lib \<Rightarrow> string \<Rightarrow> ('d, 'b, 'w) room \<Rightarrow> ('d, 'b, 'w) room" where
  "removeSubscriber W sid room =
     (let known = list_ex (\<lambda>s. su_id s = sid) (rm_subscribers room);
          room = room\<lparr>rm_subscribers := filter (\<lambda>s. su_id s \<noteq> sid) (rm_subscribers room)\<rparr>
      in if \<not> known then room
         else let clientIds = filter (\<lambda>c. c \<in> set (clientIdsOf sid room)) (awStates W (rm_awareness room));
                  room = (if clientIds = [] then room
                          else let (aw, changed) = awRemove W clientIds (rm_awareness room)
                               in onAwarenessUpdate W changed FromServer (room\<lparr>rm_awareness := aw\<rparr>))
              in room\<lparr>rm_clientIds := filter (\<lambda>(k, v). k \<noteq> sid) (rm_clientIds room)\<rparr>)"

definition handleAwarenessMessage ::
    "('w, 'b) awareness_lib \<Rightarrow> string \<Rightarrow> 'b \<Rightarrow> ('d, 'b, 'w) room \<Rightarrow> ('d, 'b, 'w) room" where
  "handleAwarenessMessage W sid message room =
     (let before = awStates W (rm_awareness room);
          (aw, changed) = awApply W message (rm_awareness room);
          room = onAwarenessUpdate W changed (FromSubscriber sid) (room\<lparr>rm_awareness := aw\<rparr>);
          seen = clientIdsOf sid room @ filter (\<lambda>c. c \<notin> set before) (awStates W (rm_awareness room))
      in room\<lparr>rm_clientIds := (sid, seen) # filter (\<lambda>(k, v). k \<noteq> sid) (rm_clientIds room)\<rparr>)"

definition encodeAwarenessState :: "('w, 'b) awareness_lib \<Rightarrow> ('d, 'b, 'w) room \<Rightarrow> 'b option" where
  "encodeAwarenessState W room =
     (let states = awStates W (rm_awareness room) in if states = [] then None else Some (awEncode W states (rm_awareness room)))"

definition encodeSyncStep1 :: "('d, 'b) yjs \<Rightarrow> ('d, 'b, 'w) room \<Rightarrow> 'b" where
  "encodeSyncStep1 Y room = writeSyncStep1 Y (rm_doc room)"

definition setActor :: "string option \<Rightarrow> ('d, 'b, 'w) room \<Rightarrow> ('d, 'b, 'w) room" where
  "setActor actorId room = room\<lparr>rm_lastActor := actorId\<rparr>"

section \<open>Updates\<close>

text \<open>Arming the debounce timer replaces the one that runs; the ceiling timer is armed once.\<close>

definition scheduleFlush :: "('d, 'b, 'w) room \<Rightarrow> ('d, 'b, 'w) room" where
  "scheduleFlush room = (if isPoisoned room then room else room\<lparr>rm_debounceTimer := True, rm_maxDelayTimer := True\<rparr>)"

definition onDocUpdate :: "('d, 'b) yjs \<Rightarrow> 'b \<Rightarrow> origin \<Rightarrow> ('d, 'b, 'w) room \<Rightarrow> ('d, 'b, 'w) room" where
  "onDocUpdate Y update from room =
     (if rm_destroyed room then room
      else let room = (if from \<noteq> FromLoad \<and> from \<noteq> FromBus
                       then scheduleFlush (room\<lparr>rm_pending := rm_pending room @ [update]\<rparr>) else room)
           in room\<lparr>rm_sent := rm_sent room @
                map (\<lambda>s. (su_id s, SyncFrame (writeUpdate Y update)))
                  (filter (\<lambda>s. FromSubscriber (su_id s) \<noteq> from) (rm_subscribers room))\<rparr>)"

text \<open>Applying an update: the document changes, and the event follows when something did change.\<close>

definition applyWithEvent :: "('d, 'b) yjs \<Rightarrow> 'b \<Rightarrow> origin \<Rightarrow> ('d, 'b, 'w) room \<Rightarrow> ('d, 'b, 'w) room" where
  "applyWithEvent Y u from room =
     (let event = emitted Y u (rm_doc room); room = room\<lparr>rm_doc := applyUpdate Y u (rm_doc room)\<rparr>
      in case event of None \<Rightarrow> room | Some v \<Rightarrow> onDocUpdate Y v from room)"

definition applyRemoteUpdate :: "('d, 'b) yjs \<Rightarrow> 'b \<Rightarrow> ('d, 'b, 'w) room \<Rightarrow> ('d, 'b, 'w) room" where
  "applyRemoteUpdate Y update room = (if rm_destroyed room then room else applyWithEvent Y update FromBus room)"

definition readStructuralKeys :: "('d, 'b) yjs \<Rightarrow> ('d, 'b, 'w) room \<Rightarrow> (string \<times> yvalue option) list option" where
  "readStructuralKeys Y room =
     (if rm_commentsFor room \<noteq> None then None
      else Some (map (\<lambda>k. (k, mapGet Y ''page'' k (rm_doc room))) STRUCTURAL_KEYS))"

definition revertStructuralChanges ::
    "('d, 'b) yjs \<Rightarrow> (string \<times> yvalue option) list option \<Rightarrow> ('d, 'b, 'w) room \<Rightarrow> ('d, 'b, 'w) room" where
  "revertStructuralChanges Y before room =
     (case before of
        None \<Rightarrow> room
      | Some before \<Rightarrow>
          (let changed = filter (\<lambda>(k, was). mapGet Y ''page'' k (rm_doc room) \<noteq> was) before
           in if changed = [] then room
              else let u = mapWrite Y ''page'' changed (rm_doc room)
                   in onDocUpdate Y u FromServer (room\<lparr>rm_doc := applyUpdate Y u (rm_doc room)\<rparr>)))"

text \<open>The result: the room, the reply and whether a write was refused; \<^const>\<open>None\<close> when reading the message throws.\<close>

definition handleSyncMessage ::
    "('d, 'b) yjs \<Rightarrow> string \<Rightarrow> 'b \<Rightarrow> bool \<Rightarrow> ('d, 'b, 'w) room \<Rightarrow> (('d, 'b, 'w) room \<times> 'b option \<times> bool) option" where
  "handleSyncMessage Y sid message canWrite room =
     (case readSyncMessage Y message of
        None \<Rightarrow> None
      | Some m \<Rightarrow>
          if \<not> canWrite \<and> (case m of YjsUpdate _ \<Rightarrow> True | SyncStep2 _ \<Rightarrow> True | _ \<Rightarrow> False) then Some (room, None, True)
          else let before = readStructuralKeys Y room
               in (case m of
                     SyncStep1 (Some sv) \<Rightarrow> Some (revertStructuralChanges Y before room, Some (writeSyncStep2 Y (rm_doc room) sv), False)
                   | SyncStep2 (Some u) \<Rightarrow>
                       Some (revertStructuralChanges Y before (applyWithEvent Y u (FromSubscriber sid) room), None, False)
                   | YjsUpdate (Some u) \<Rightarrow>
                       Some (revertStructuralChanges Y before (applyWithEvent Y u (FromSubscriber sid) room), None, False)
                   | _ \<Rightarrow> None))"

section \<open>Storing\<close>

definition isPermanentWriteFailure :: "write_failure \<Rightarrow> bool" where
  "isPermanentWriteFailure err =
     (case wf_code err of
        None \<Rightarrow> False
      | Some code \<Rightarrow> take 2 code = ''22'' \<or> take 2 code = ''23'' \<or> take 2 code = ''42'' \<or> take 2 code = ''3D'' \<or> take 2 code = ''3F'')"

definition poison :: "write_failure \<Rightarrow> ('d, 'b, 'w) room \<Rightarrow> ('d, 'b, 'w) room" where
  "poison err room = room\<lparr>rm_poisonReason := Some (wf_message err)\<rparr>"

text \<open>\<open>doFlush\<close> up to its first await.\<close>

definition doFlush :: "('d, 'b) yjs \<Rightarrow> ('d, 'b, 'w) room \<Rightarrow> ('d, 'b, 'w) room" where
  "doFlush Y room =
     (let room = room\<lparr>rm_debounceTimer := False, rm_maxDelayTimer := False\<rparr>; batch = rm_pending room
      in if batch = [] then room
         else if isPoisoned room then room\<lparr>rm_pending := []\<rparr>
         else room\<lparr>rm_pending := [], rm_flushing := Appending batch (mergeUpdates Y batch) (rm_lastActor room)\<rparr>)"

text \<open>A call while a flush is in flight waits for it.\<close>

definition flush :: "('d, 'b) yjs \<Rightarrow> ('d, 'b, 'w) room \<Rightarrow> ('d, 'b, 'w) room" where
  "flush Y room =
     (case rm_flushing room of
        NotFlushing \<Rightarrow> doFlush Y room
      | _ \<Rightarrow> room\<lparr>rm_waiting := rm_waiting room + 1\<rparr>)"

text \<open>The flush ends: those that waited run again if something is pending, of which the first takes it all;
  when it ends with an error they end with it.\<close>

definition resolveFlush :: "('d, 'b) yjs \<Rightarrow> ('d, 'b, 'w) room \<Rightarrow> ('d, 'b, 'w) room" where
  "resolveFlush Y room =
     (let waiting = rm_waiting room; room = room\<lparr>rm_flushing := NotFlushing, rm_waiting := 0\<rparr>
      in if 0 < waiting \<and> rm_pending room \<noteq> [] then doFlush Y room else room)"

definition rejectFlush :: "('d, 'b, 'w) room \<Rightarrow> ('d, 'b, 'w) room" where
  "rejectFlush room = room\<lparr>rm_flushing := NotFlushing, rm_waiting := 0\<rparr>"

text \<open>The append comes back.\<close>

definition afterAppend ::
    "('d, 'b) yjs \<Rightarrow> write_failure option \<Rightarrow> ('d, 'b, 'w) room \<times> 'b doc_tables \<Rightarrow> ('d, 'b, 'w) room \<times> 'b doc_tables" where
  "afterAppend Y failure s =
     (case s of (room, db) \<Rightarrow>
       (case rm_flushing room of
          Appending batch merged actorId \<Rightarrow>
            (case failure of
               None \<Rightarrow>
                 (let (db', seq) = appendUpdate db (rm_pageId room) merged actorId
                  in (room\<lparr>rm_throughSeq := seq, rm_flushing := Projecting seq actorId\<rparr>, db'))
             | Some err \<Rightarrow>
                 if isPermanentWriteFailure err then (resolveFlush Y (poison err room), db)
                 else (room\<lparr>rm_pending := batch @ rm_pending room, rm_flushing := RecordingAppend\<rparr>, db))
        | _ \<Rightarrow> (room, db)))"

text \<open>The projection comes back, with the reason if it failed; then recording a failure does.\<close>

definition afterProjection :: "string option \<Rightarrow> ('d, 'b, 'w) room \<Rightarrow> ('d, 'b, 'w) room" where
  "afterProjection failure room =
     (case rm_flushing room of
        Projecting seq actorId \<Rightarrow>
          room\<lparr>rm_projectionError := failure, rm_flushing := (if failure = None then Compacting else RecordingProjection)\<rparr>
      | _ \<Rightarrow> room)"

definition afterRecording :: "('d, 'b, 'w) room \<Rightarrow> ('d, 'b, 'w) room" where
  "afterRecording room =
     (case rm_flushing room of
        RecordingAppend \<Rightarrow> rejectFlush room
      | RecordingProjection \<Rightarrow> room\<lparr>rm_flushing := Compacting\<rparr>
      | _ \<Rightarrow> room)"

text \<open>The opportunistic compaction; a failure of it is only logged.\<close>

definition afterCompaction ::
    "('d, 'b) yjs \<Rightarrow> int \<Rightarrow> bool \<Rightarrow> ('d, 'b, 'w) room \<times> 'b doc_tables \<Rightarrow> ('d, 'b, 'w) room \<times> 'b doc_tables" where
  "afterCompaction Y now fails s =
     (case s of (room, db) \<Rightarrow>
       (case rm_flushing room of
          Compacting \<Rightarrow>
            (resolveFlush Y room,
             if \<not> fails \<and> COMPACT_THRESHOLD \<le> pendingUpdateCount db (rm_pageId room)
             then fst (compactDoc Y now (rm_pageId room) db) else db)
        | _ \<Rightarrow> (room, db)))"

section \<open>Opening and closing\<close>

record room_options =
  ro_pageId :: string
  ro_workspaceId :: string
  ro_commentsFor :: "string option"

definition newRoom :: "('w, 'b) awareness_lib \<Rightarrow> room_options \<Rightarrow> 'd \<Rightarrow> nat \<Rightarrow> ('d, 'b, 'w) room" where
  "newRoom W opts doc throughSeq =
    \<lparr>rm_pageId = ro_pageId opts, rm_commentsFor = ro_commentsFor opts, rm_workspaceId = ro_workspaceId opts,
     rm_doc = doc, rm_awareness = awNew W, rm_subscribers = [], rm_clientIds = [], rm_pending = [],
     rm_debounceTimer = False, rm_maxDelayTimer = False, rm_lingerTimer = False, rm_throughSeq = throughSeq,
     rm_flushing = NotFlushing, rm_waiting = 0, rm_destroyed = False, rm_poisonReason = None,
     rm_projectionError = None, rm_lastActor = None, rm_sent = []\<rparr>"

text \<open>The document is migrated before the room listens to it, so the room does not see the update of the
  migration; the flush after it is the room's.\<close>

definition openRoom ::
    "('d, 'b) yjs \<Rightarrow> ('w, 'b) awareness_lib \<Rightarrow> room_options \<Rightarrow> 'b doc_tables \<Rightarrow> version_error + ('d, 'b, 'w) room" where
  "openRoom Y W opts db =
     (let loaded = loadDoc Y db (ro_pageId opts)
      in rmap (\<lambda>(migrated, update).
           let doc = (case update of None \<Rightarrow> ld_doc loaded | Some u \<Rightarrow> applyUpdate Y u (ld_doc loaded));
               room = newRoom W opts doc (ld_throughSeq loaded)
           in if mo_changed migrated then flush Y room else room)
         (migrateDocument Y (ld_doc loaded)))"

definition scheduleLinger :: "('d, 'b, 'w) room \<Rightarrow> ('d, 'b, 'w) room" where
  "scheduleLinger room = room\<lparr>rm_lingerTimer := True\<rparr>"

text \<open>\<open>destroy\<close>: the timers are cleared and a last flush runs when something is pending; then the room is released.\<close>

definition beginDestroy :: "('d, 'b) yjs \<Rightarrow> ('d, 'b, 'w) room \<Rightarrow> ('d, 'b, 'w) room" where
  "beginDestroy Y room =
     (if rm_destroyed room then room
      else let room = room\<lparr>rm_debounceTimer := False, rm_maxDelayTimer := False, rm_lingerTimer := False\<rparr>
           in if rm_pending room \<noteq> [] then flush Y room else room)"

definition finishDestroy :: "('d, 'b, 'w) room \<Rightarrow> ('d, 'b, 'w) room" where
  "finishDestroy room = room\<lparr>rm_destroyed := True, rm_subscribers := [], rm_clientIds := []\<rparr>"

end
