(* ===== verification/Room_Safety.thy ===== *)
theory Room_Safety
  imports Room
begin

text \<open>
  What the rooms of \<^verbatim>\<open>packages/server/src/sync/room.ts\<close> guarantee, whatever the interleaving of
  messages, updates from other instances, flushes and compactions: nothing applied in memory is lost
  unless storing it failed for good, placement keys stay the server's, and readers change nothing.
  The last section shows the two places where the code does less than it says.
\<close>

section \<open>Steps\<close>

text \<open>One room and the store. \<open>foreign\<close> is an append by a route or another instance, \<open>compaction\<close> one
  that runs elsewhere; \<open>deliver\<close> is \<^verbatim>\<open>onRemoteUpdate\<close> of the server with the rows fetched for it.\<close>

definition deliver :: "('d, 'b) yjs \<Rightarrow> 'b doc_tables \<Rightarrow> nat \<Rightarrow> ('d, 'b, 'w) room \<Rightarrow> ('d, 'b, 'w) room" where
  "deliver Y db seq room =
     (if rm_destroyed room then room
      else if seq \<le> rm_throughSeq room then room
      else fold (\<lambda>u. applyRemoteUpdate Y (up_payload u)) (updatesSince db (rm_pageId room) (rm_throughSeq room)) room)"

inductive room_step ::
    "('d, 'b) yjs \<Rightarrow> ('w, 'b) awareness_lib \<Rightarrow> ('d, 'b, 'w) room \<times> 'b doc_tables \<Rightarrow> ('d, 'b, 'w) room \<times> 'b doc_tables \<Rightarrow> bool"
  for Y :: "('d, 'b) yjs" and W :: "('w, 'b) awareness_lib" where
  message: "\<not> rm_destroyed room \<Longrightarrow> handleSyncMessage Y sid m canWrite room = Some (room', reply, refused) \<Longrightarrow>
    room_step Y W (room, db) (room', db)"
| awareness: "room_step Y W (room, db) (handleAwarenessMessage W sid m room, db)"
| joins: "room_step Y W (room, db) (addSubscriber sub room, db)"
| leaves: "room_step Y W (room, db) (removeSubscriber W sid room, db)"
| permission: "room_step Y W (room, db) (setSubscriberWritable sid w room, db)"
| actor: "room_step Y W (room, db) (setActor a room, db)"
| remote: "room_step Y W (room, db) (deliver Y db seq room, db)"
| flush_call: "room_step Y W (room, db) (flush Y room, db)"
| append_back: "afterAppend Y failure (room, db) = s \<Longrightarrow> room_step Y W (room, db) s"
| projection_back: "room_step Y W (room, db) (afterProjection failure room, db)"
| recording_back: "room_step Y W (room, db) (afterRecording room, db)"
| compaction_back: "afterCompaction Y now fails (room, db) = s \<Longrightarrow> room_step Y W (room, db) s"
| linger: "room_step Y W (room, db) (scheduleLinger room, db)"
| destroy_begins: "room_step Y W (room, db) (beginDestroy Y room, db)"
| destroy_ends: "room_step Y W (room, db) (finishDestroy room, db)"
| foreign: "room_step Y W (room, db) (room, fst (appendUpdate db docId u a))"
| compaction: "room_step Y W (room, db) (room, fst (compactDoc Y now docId db))"

inductive room_reach ::
    "('d, 'b) yjs \<Rightarrow> ('w, 'b) awareness_lib \<Rightarrow> room_options \<Rightarrow> ('d, 'b, 'w) room \<times> 'b doc_tables \<Rightarrow> bool"
  for Y :: "('d, 'b) yjs" and W :: "('w, 'b) awareness_lib" and opts :: room_options where
  opened: "store_ok db \<Longrightarrow> documentSchemaVersion Y (ld_doc (loadDoc Y db (ro_pageId opts))) = SCHEMA_VERSION \<Longrightarrow>
    openRoom Y W opts db = Inr room \<Longrightarrow> room_reach Y W opts (room, db)"
| stepped: "room_reach Y W opts s \<Longrightarrow> room_step Y W s s' \<Longrightarrow> room_reach Y W opts s'"

section \<open>Nothing is lost\<close>

definition unsaved :: "('d, 'b, 'w) room \<Rightarrow> 'b list" where
  "unsaved room = (case rm_flushing room of Appending batch merged a \<Rightarrow> batch | _ \<Rightarrow> []) @ rm_pending room"

text \<open>The stored document with what is still unsaved has everything the document in memory has; the
  merged batch in flight is the merge of its batch.\<close>

definition covered :: "('d, 'b) yjs \<Rightarrow> ('d, 'b, 'w) room \<times> 'b doc_tables \<Rightarrow> bool" where
  "covered Y s =
     (case s of (room, db) \<Rightarrow>
        store_ok db \<and>
        (case rm_flushing room of Appending batch merged a \<Rightarrow> merged = mergeUpdates Y batch | _ \<Rightarrow> True) \<and>
        (isPoisoned room \<or>
         extends Y (fold (applyUpdate Y) (unsaved room) (ld_doc (loadDoc Y db (rm_pageId room)))) (rm_doc room)))"

lemma onDocUpdate_fields [simp]:
  "rm_doc (onDocUpdate Y u org room) = rm_doc room"
  "rm_pageId (onDocUpdate Y u org room) = rm_pageId room"
  "rm_flushing (onDocUpdate Y u org room) = rm_flushing room"
  "rm_destroyed (onDocUpdate Y u org room) = rm_destroyed room"
  "rm_commentsFor (onDocUpdate Y u org room) = rm_commentsFor room"
  "rm_throughSeq (onDocUpdate Y u org room) = rm_throughSeq room"
  "rm_poisonReason (onDocUpdate Y u org room) = rm_poisonReason room"
  "isPoisoned (onDocUpdate Y u org room) = isPoisoned room"
  by (simp_all add: onDocUpdate_def scheduleFlush_def isPoisoned_def Let_def)

lemma onDocUpdate_pending:
  "rm_pending (onDocUpdate Y u org room) =
     (if rm_destroyed room \<or> org = FromLoad \<or> org = FromBus then rm_pending room else rm_pending room @ [u])"
  by (auto simp: onDocUpdate_def scheduleFlush_def Let_def)

lemma onAwarenessUpdate_fields [simp]:
  "rm_doc (onAwarenessUpdate W cs org room) = rm_doc room"
  "rm_pageId (onAwarenessUpdate W cs org room) = rm_pageId room"
  "rm_flushing (onAwarenessUpdate W cs org room) = rm_flushing room"
  "rm_pending (onAwarenessUpdate W cs org room) = rm_pending room"
  "rm_poisonReason (onAwarenessUpdate W cs org room) = rm_poisonReason room"
  by (simp_all add: onAwarenessUpdate_def)

lemma covered_cong:
  assumes "rm_doc room' = rm_doc room" "rm_pageId room' = rm_pageId room" "rm_flushing room' = rm_flushing room"
    "rm_pending room' = rm_pending room" "rm_poisonReason room' = rm_poisonReason room"
  shows "covered Y (room', db) = covered Y (room, db)"
  using assms by (simp add: covered_def unsaved_def isPoisoned_def)

text \<open>A local change: the event's update joins the pending ones.\<close>

lemma covered_local:
  assumes law: "merging_laws Y" and cov: "covered Y (room, db)" and org: "\<not> rm_destroyed room" "org \<noteq> FromLoad" "org \<noteq> FromBus"
    and v: "applyUpdate Y v (rm_doc room) = applyUpdate Y u (rm_doc room)"
  shows "covered Y (onDocUpdate Y v org (room\<lparr>rm_doc := applyUpdate Y u (rm_doc room)\<rparr>), db)"
proof -
  let ?room = "onDocUpdate Y v org (room\<lparr>rm_doc := applyUpdate Y u (rm_doc room)\<rparr>)"
  let ?L = "ld_doc (loadDoc Y db (rm_pageId room))"
  have us: "unsaved ?room = unsaved room @ [v]"
    using org by (simp add: unsaved_def onDocUpdate_pending split: flush_state.split)
  have "extends Y (fold (applyUpdate Y) (unsaved room @ [v]) ?L) (applyUpdate Y v (rm_doc room))" if "\<not> isPoisoned room"
    using cov that extends_both [OF law, of "fold (applyUpdate Y) (unsaved room) ?L"] by (simp add: covered_def)
  moreover have "rm_doc ?room = applyUpdate Y v (rm_doc room)" by (simp add: v)
  moreover have "isPoisoned ?room = isPoisoned room" by (simp add: isPoisoned_def)
  ultimately show ?thesis
    using cov unfolding covered_def us prod.case by (cases "isPoisoned room") simp_all
qed

lemma covered_event:
  assumes "merging_laws Y" "event_law Y" "covered Y (room, db)" "\<not> rm_destroyed room" "org \<noteq> FromLoad" "org \<noteq> FromBus"
  shows "covered Y (applyWithEvent Y u org room, db)"
proof (cases "emitted Y u (rm_doc room)")
  case None
  then have "applyUpdate Y u (rm_doc room) = rm_doc room"
    by (rule event_law_cases(1) [OF assms(2)])
  then have "covered Y (applyWithEvent Y u org room, db) = covered Y (room, db)"
    by (intro covered_cong) (simp_all add: applyWithEvent_def None)
  then show ?thesis using assms(3) by simp
next
  case (Some v)
  then have "applyUpdate Y v (rm_doc room) = applyUpdate Y u (rm_doc room)"
    by (rule event_law_cases(2) [OF assms(2)])
  then show ?thesis using Some covered_local [OF assms(1,3-6)] by (simp add: applyWithEvent_def)
qed

lemma applyWithEvent_destroyed [simp]:
  "rm_destroyed (applyWithEvent Y u org room) = rm_destroyed room"
  "rm_commentsFor (applyWithEvent Y u org room) = rm_commentsFor room"
  "rm_pageId (applyWithEvent Y u org room) = rm_pageId room"
  "rm_throughSeq (applyWithEvent Y u org room) = rm_throughSeq room"
  "rm_doc (applyWithEvent Y u org room) = applyUpdate Y u (rm_doc room)"
  by (simp_all add: applyWithEvent_def Let_def split: option.split)

lemma covered_revert:
  assumes "merging_laws Y" "covered Y (room, db)" "\<not> rm_destroyed room"
  shows "covered Y (revertStructuralChanges Y before room, db)"
  using assms covered_local [OF assms, of FromServer]
  by (simp add: revertStructuralChanges_def Let_def split: option.split)

lemma covered_message:
  assumes "merging_laws Y" "event_law Y" "covered Y (room, db)" "\<not> rm_destroyed room"
    and "handleSyncMessage Y sid m canWrite room = Some (room', reply, refused)"
  shows "covered Y (room', db)"
  using assms(5) covered_revert [OF assms(1,3,4)] assms(3)
    covered_revert [OF assms(1) covered_event [OF assms(1-4)]] assms(4)
  by (auto simp: handleSyncMessage_def Let_def split: option.splits sync_message.splits if_splits)

text \<open>An update that the stored document already has adds nothing to what is stored.\<close>

lemma load_absorbs:
  assumes "merging_laws Y" "store_ok db" "u \<in> set (doc_updates db)" "up_doc u = docId"
  shows "applyUpdate Y (up_payload u) (ld_doc (loadDoc Y db docId)) = ld_doc (loadDoc Y db docId)"
  using assms unfolding loadDoc_eq [OF assms(2)] replayed_def
  by (auto simp: Let_def split: prod.split intro!: applyUpdate_absorbed)

lemma covered_absorbed:
  assumes law: "merging_laws Y" and ev: "event_law Y" and cov: "covered Y (room, db)"
    and absorbed: "applyUpdate Y u (ld_doc (loadDoc Y db (rm_pageId room))) = ld_doc (loadDoc Y db (rm_pageId room))"
  shows "covered Y (applyRemoteUpdate Y u room, db)"
proof (cases "rm_destroyed room")
  case False
  let ?L = "ld_doc (loadDoc Y db (rm_pageId room))" and ?room = "applyWithEvent Y u FromBus room"
  have us: "unsaved ?room = unsaved room" "isPoisoned ?room = isPoisoned room" "rm_flushing ?room = rm_flushing room"
    by (simp_all add: unsaved_def applyWithEvent_def onDocUpdate_pending isPoisoned_def Let_def split: option.split)
  have "extends Y (fold (applyUpdate Y) (unsaved room) ?L) (applyUpdate Y u (rm_doc room))" if "\<not> isPoisoned room"
  proof -
    have "extends Y (applyUpdate Y u (fold (applyUpdate Y) (unsaved room) ?L)) (applyUpdate Y u (rm_doc room))"
      using cov that by (intro extends_both [OF law]) (simp add: covered_def)
    then show ?thesis using fold_applyUpdate_commute [OF law, of "unsaved room" u ?L] absorbed by simp
  qed
  then show ?thesis
    using cov False unfolding covered_def applyRemoteUpdate_def prod.case by (cases "isPoisoned room") (simp_all add: us)
qed (use cov in \<open>simp add: applyRemoteUpdate_def\<close>)

lemma applyRemoteUpdate_pageId [simp]: "rm_pageId (applyRemoteUpdate Y u room) = rm_pageId room"
  by (simp add: applyRemoteUpdate_def)

lemma covered_deliver:
  assumes "merging_laws Y" "event_law Y" "covered Y (room, db)"
  shows "covered Y (deliver Y db seq room, db)"
proof -
  have ok: "store_ok db" using assms(3) by (simp add: covered_def)
  have "covered Y (fold (\<lambda>u. applyRemoteUpdate Y (up_payload u)) us room, db)"
    if "set us \<subseteq> {u \<in> set (doc_updates db). up_doc u = rm_pageId room}" for us
    using that assms(3)
  proof (induction us arbitrary: room)
    case (Cons u us)
    then show ?case using covered_absorbed [OF assms(1,2) Cons.prems(2)] load_absorbs [OF assms(1) ok, of u] by simp
  qed simp
  then show ?thesis using assms(3) by (simp add: deliver_def updatesSince_eq [OF ok] subset_iff)
qed

lemma covered_doFlush:
  assumes "covered Y (room, db)" and "rm_flushing room = NotFlushing"
  shows "covered Y (doFlush Y room, db)"
  using assms by (cases "rm_pending room = []") (auto simp: covered_def doFlush_def unsaved_def isPoisoned_def Let_def)

lemma covered_flush: "covered Y (room, db) \<Longrightarrow> covered Y (flush Y room, db)"
proof (cases "rm_flushing room = NotFlushing")
  case True
  then show "covered Y (room, db) \<Longrightarrow> ?thesis" using covered_doFlush by (simp add: flush_def)
next
  case False
  then have "flush Y room = room\<lparr>rm_waiting := rm_waiting room + 1\<rparr>" by (cases "rm_flushing room") (simp_all add: flush_def)
  then show "covered Y (room, db) \<Longrightarrow> ?thesis" by (simp add: covered_cong [of "room\<lparr>rm_waiting := _\<rparr>" room])
qed

lemma covered_resolve:
  assumes "covered Y (room\<lparr>rm_flushing := NotFlushing\<rparr>, db)"
  shows "covered Y (resolveFlush Y room, db)"
proof -
  let ?room = "room\<lparr>rm_flushing := NotFlushing, rm_waiting := 0\<rparr>"
  have "covered Y (?room, db)" using assms by (simp add: covered_def unsaved_def isPoisoned_def)
  then show ?thesis using covered_doFlush [of Y ?room] by (simp add: resolveFlush_def Let_def)
qed

lemma covered_append:
  assumes law: "merging_laws Y" and cov: "covered Y (room, db)"
  shows "covered Y (afterAppend Y failure (room, db))"
proof (cases "rm_flushing room")
  case (Appending batch merged actor)
  let ?L = "ld_doc (loadDoc Y db (rm_pageId room))"
  have ok: "store_ok db" and merged: "merged = mergeUpdates Y batch" using cov Appending by (auto simp: covered_def)
  have us: "unsaved room = batch @ rm_pending room" by (simp add: unsaved_def Appending)
  show ?thesis
  proof (cases failure)
    case None
    let ?db = "fst (appendUpdate db (rm_pageId room) merged actor)"
    have "ld_doc (loadDoc Y ?db (rm_pageId room)) = fold (applyUpdate Y) batch ?L"
      using loadDoc_append [OF ok, of Y "rm_pageId room" merged actor] applyUpdate_merge [OF law, of batch] by (simp add: merged)
    moreover have "afterAppend Y failure (room, db) =
      (room\<lparr>rm_throughSeq := ds_nextSeq db, rm_flushing := Projecting (ds_nextSeq db) actor\<rparr>, ?db)"
      by (simp add: afterAppend_def Appending None appendUpdate_def Let_def)
    ultimately show ?thesis
      using cov appendUpdate_ok [OF ok, of "rm_pageId room" merged actor]
      by (simp add: covered_def us isPoisoned_def) (simp add: unsaved_def)
  next
    case (Some err)
    show ?thesis
    proof (cases "isPermanentWriteFailure err")
      case True
      have "covered Y ((poison err room)\<lparr>rm_flushing := NotFlushing\<rparr>, db)" using ok by (simp add: covered_def poison_def isPoisoned_def)
      from covered_resolve [OF this] show ?thesis using Appending Some True by (simp add: afterAppend_def)
    next
      case False
      then show ?thesis using cov Appending Some us by (simp add: afterAppend_def covered_def unsaved_def isPoisoned_def)
    qed
  qed
qed (use cov in \<open>simp_all add: afterAppend_def\<close>)

lemma covered_foreign:
  assumes "merging_laws Y" "covered Y (room, db)"
  shows "covered Y (room, fst (appendUpdate db docId u actor))"
proof -
  have ok: "store_ok db" using assms(2) by (simp add: covered_def)
  have "fold (applyUpdate Y) us (ld_doc (loadDoc Y (fst (appendUpdate db docId u actor)) page)) =
     (if page = docId then applyUpdate Y u else id) (fold (applyUpdate Y) us (ld_doc (loadDoc Y db page)))" for us page
    using fold_applyUpdate_commute [OF assms(1)] by (simp add: loadDoc_append [OF ok])
  then show ?thesis
    using assms(2) appendUpdate_ok [OF ok, of docId u actor] by (auto simp: covered_def intro: extends_apply)
qed

lemma covered_compaction:
  assumes "encoding_law Y" "covered Y (room, db)"
  shows "covered Y (room, fst (compactDoc Y now docId db))"
  using assms compactDoc_load(1) [OF _ assms(1), of db] by (simp add: covered_def compactDoc_ok)

lemma covered_afterCompaction:
  assumes "encoding_law Y" "covered Y (room, db)"
  shows "covered Y (afterCompaction Y now fails (room, db))"
proof (cases "rm_flushing room = Compacting")
  case True
  have "covered Y (room\<lparr>rm_flushing := NotFlushing\<rparr>, db)" using assms(2) True by (simp add: covered_def unsaved_def isPoisoned_def)
  note covered_resolve [OF this] covered_resolve [OF covered_compaction [OF assms(1) this]]
  then show ?thesis using True by (simp add: afterCompaction_def)
next
  case False
  then show ?thesis using assms(2) by (cases "rm_flushing room") (simp_all add: afterCompaction_def)
qed

lemma removeSubscriber_fields:
  "rm_doc (removeSubscriber W sid room) = rm_doc room"
  "rm_pageId (removeSubscriber W sid room) = rm_pageId room"
  "rm_flushing (removeSubscriber W sid room) = rm_flushing room"
  "rm_pending (removeSubscriber W sid room) = rm_pending room"
  "rm_poisonReason (removeSubscriber W sid room) = rm_poisonReason room"
  by (simp_all add: removeSubscriber_def Let_def split: prod.split)

lemma handleAwarenessMessage_fields:
  "rm_doc (handleAwarenessMessage W sid m room) = rm_doc room"
  "rm_pageId (handleAwarenessMessage W sid m room) = rm_pageId room"
  "rm_flushing (handleAwarenessMessage W sid m room) = rm_flushing room"
  "rm_pending (handleAwarenessMessage W sid m room) = rm_pending room"
  "rm_poisonReason (handleAwarenessMessage W sid m room) = rm_poisonReason room"
  by (simp_all add: handleAwarenessMessage_def Let_def split: prod.split)

text \<open>The operations that touch neither the document nor what is to be stored.\<close>

lemma covered_frame:
  assumes "covered Y (room, db)"
  shows "covered Y (addSubscriber sub room, db)" "covered Y (removeSubscriber W sid room, db)"
    "covered Y (setSubscriberWritable sid w room, db)" "covered Y (setActor a room, db)"
    "covered Y (handleAwarenessMessage W sid m room, db)" "covered Y (scheduleLinger room, db)" "covered Y (finishDestroy room, db)"
  using assms
  by (subst covered_cong; simp add: addSubscriber_def setSubscriberWritable_def setActor_def scheduleLinger_def
      finishDestroy_def removeSubscriber_fields handleAwarenessMessage_fields)+

lemma covered_afterProjection: "covered Y (room, db) \<Longrightarrow> covered Y (afterProjection failure room, db)"
  by (auto simp: afterProjection_def covered_def unsaved_def isPoisoned_def split: flush_state.split)

lemma covered_afterRecording: "covered Y (room, db) \<Longrightarrow> covered Y (afterRecording room, db)"
  by (auto simp: afterRecording_def rejectFlush_def covered_def unsaved_def isPoisoned_def split: flush_state.split)

lemma covered_beginDestroy:
  assumes "covered Y (room, db)"
  shows "covered Y (beginDestroy Y room, db)"
proof -
  let ?room = "room\<lparr>rm_debounceTimer := False, rm_maxDelayTimer := False, rm_lingerTimer := False\<rparr>"
  have "covered Y (?room, db)" using assms by (simp add: covered_cong [of ?room room])
  then show ?thesis using assms covered_flush [of Y ?room] by (simp add: beginDestroy_def Let_def)
qed

lemma covered_step:
  assumes laws: "merging_laws Y" "event_law Y" "encoding_law Y" and "room_step Y W s s'" "covered Y s"
  shows "covered Y s'"
  using assms(4,5)
proof cases
  case (message room sid m canWrite room' reply refused db)
  then show ?thesis using covered_message [OF laws(1,2)] assms(5) by blast
qed (auto intro: covered_frame covered_deliver [OF laws(1,2)] covered_flush covered_append [OF laws(1)] covered_afterProjection
    covered_afterRecording covered_afterCompaction [OF laws(3)] covered_beginDestroy covered_foreign [OF laws(1)]
    covered_compaction [OF laws(3)])

lemma newRoom_flush: "flush Y (newRoom W opts doc n) = newRoom W opts doc n"
  by (simp add: flush_def doFlush_def newRoom_def Let_def)

lemma openRoom_current:
  assumes "documentSchemaVersion Y (ld_doc (loadDoc Y db (ro_pageId opts))) = SCHEMA_VERSION"
  shows "openRoom Y W opts db = Inr (newRoom W opts (ld_doc (loadDoc Y db (ro_pageId opts))) (ld_throughSeq (loadDoc Y db (ro_pageId opts))))"
  using assms by (simp add: openRoom_def migrateDocument_def Let_def)

lemma room_reach_covered:
  assumes "yjs_laws Y" "room_reach Y W opts s"
  shows "covered Y s"
  using assms(2)
proof induction
  case (opened db room)
  then show ?case
    by (simp add: openRoom_current covered_def newRoom_def unsaved_def isPoisoned_def Let_def) (auto simp: newRoom_def)
next
  case (stepped s s')
  then show ?case using assms(1) by (auto simp: yjs_laws_def intro: covered_step)
qed


section \<open>Placement and reading\<close>

lemma map_of_filtered_keys:
  "map_of (filter (\<lambda>(k, v). P k v) (map (\<lambda>k. (k, g k)) ks)) k = (if k \<in> set ks \<and> P k (g k) then Some (g k) else None)"
  by (induction ks) auto

lemma revert_restores:
  assumes law: "map_law Y" and k: "k \<in> set STRUCTURAL_KEYS" and page: "rm_commentsFor room = None"
  shows "mapGet Y ''page'' k (rm_doc (revertStructuralChanges Y (readStructuralKeys Y room) room')) = mapGet Y ''page'' k (rm_doc room)"
proof -
  let ?get = "\<lambda>k r. mapGet Y ''page'' k (rm_doc r)"
  let ?changed = "filter (\<lambda>(k, was). ?get k room' \<noteq> was) (map (\<lambda>k. (k, ?get k room)) STRUCTURAL_KEYS)"
  have of_k: "map_of ?changed k = (if ?get k room' \<noteq> ?get k room then Some (?get k room) else None)"
    using k map_of_filtered_keys [of "\<lambda>k was. ?get k room' \<noteq> was" "\<lambda>k. ?get k room" STRUCTURAL_KEYS k] by simp
  have "distinct STRUCTURAL_KEYS" by (simp add: STRUCTURAL_KEYS_def)
  then have "distinct (map fst ?changed)" by (intro distinct_map_filter) (simp add: comp_def)
  then have "mapGet Y ''page'' k (applyUpdate Y (mapWrite Y ''page'' ?changed (rm_doc room')) (rm_doc room')) = ?get k room"
    using law of_k unfolding map_law_def by (auto split: if_splits)
  moreover have "?get k room' = ?get k room" if "?changed = []" using of_k that by (auto split: if_splits)
  ultimately show ?thesis by (auto simp: revertStructuralChanges_def readStructuralKeys_def page Let_def)
qed

lemma revert_unchanged [simp]: "revertStructuralChanges Y (readStructuralKeys Y room) room = room"
proof -
  have "filter (\<lambda>(k, was). mapGet Y ''page'' k (rm_doc room) \<noteq> was) (map (\<lambda>k. (k, mapGet Y ''page'' k (rm_doc room))) ks) = []" for ks
    by (simp add: filter_empty_conv)
  then show ?thesis by (simp add: revertStructuralChanges_def readStructuralKeys_def)
qed

text \<open>C23: placement is the server's, and readers write nothing. After any message of any subscriber of a
  page's room the keys that say where the page is and what it is have the values they had, whatever the
  message did to them; and a message of somebody without the right to write leaves the whole room as it
  was, answered with a refusal if it carried an update.\<close>

theorem messages_keep_placement:
  assumes "map_law Y" and "rm_commentsFor room = None"
    and "handleSyncMessage Y sid m canWrite room = Some (room', reply, refused)" and "k \<in> {''parentPageId'', ''idx'', ''kind'', ''collectionId'', ''archivedAt''}"
  shows "mapGet Y ''page'' k (rm_doc room') = mapGet Y ''page'' k (rm_doc room) \<and>
    (canWrite \<or> room' = room \<and> (refused \<or> reply \<noteq> None)) \<and> (refused \<longrightarrow> \<not> canWrite)"
proof -
  have "k \<in> set STRUCTURAL_KEYS" using assms(4) by (simp add: STRUCTURAL_KEYS_def)
  from assms(3) revert_restores [OF assms(1) this assms(2)] show ?thesis
    by (auto simp: handleSyncMessage_def Let_def split: option.splits sync_message.splits if_splits)
qed

definition noAwareness :: "(unit, registers) awareness_lib" where
  "noAwareness = \<lparr>awStates = (\<lambda>_. []), awApply = (\<lambda>_ w. (w, [])), awRemove = (\<lambda>_ w. (w, [])), awEncode = (\<lambda>_ _. noRegisters), awNew = ()\<rparr>"

definition pageRoom :: "(registers, registers, unit) room" where
  "pageRoom = newRoom noAwareness \<lparr>ro_pageId = ''p'', ro_workspaceId = ''w'', ro_commentsFor = None\<rparr> noRegisters 0"

definition movedPage :: registers where
  "movedPage = (\<lambda>(root, k). if root = ''page'' \<and> k = ''idx'' then (1, {Some (YString ''a1'')}) else (0, {}))"

theorem messages_keep_placement_witness:
  "case handleSyncMessage registerYjs ''s'' movedPage True pageRoom of
     Some (room', reply, refused) \<Rightarrow> mapGet registerYjs ''page'' ''idx'' (rm_doc room') = None
   | None \<Rightarrow> False"
proof -
  have law: "map_law registerYjs" using registerYjs_laws by (simp add: yjs_laws_def)
  have page: "rm_commentsFor pageRoom = None" by (simp add: pageRoom_def newRoom_def)
  have "handleSyncMessage registerYjs ''s'' movedPage True pageRoom \<noteq> None"
    by (simp add: handleSyncMessage_def registerYjs_def)
  then obtain room' reply refused where m: "handleSyncMessage registerYjs ''s'' movedPage True pageRoom = Some (room', reply, refused)"
    by (cases "handleSyncMessage registerYjs ''s'' movedPage True pageRoom") auto
  have key: "''idx'' \<in> {''parentPageId'', ''idx'', ''kind'', ''collectionId'', ''archivedAt''}" by simp
  have "mapGet registerYjs ''page'' ''idx'' (rm_doc pageRoom) = None"
    by (simp add: pageRoom_def newRoom_def registerYjs_def noRegisters_def readRegister_def)
  then show ?thesis using m conjunct1 [OF messages_keep_placement [OF law page m key]] by simp
qed

definition currentStore :: "registers doc_tables" where
  "currentStore = fst (appendUpdate emptyStore ''p''
     (\<lambda>(root, k). if root = ''meta'' \<and> k = ''schemaVersion'' then (1, {Some (YNumber 7)}) else (0, {})) None)"

definition pageOptions :: room_options where
  "pageOptions = \<lparr>ro_pageId = ''p'', ro_workspaceId = ''w'', ro_commentsFor = None\<rparr>"

lemma currentStore_version: "documentSchemaVersion registerYjs (ld_doc (loadDoc registerYjs currentStore ''p'')) = SCHEMA_VERSION"
  unfolding currentStore_def loadDoc_append [OF store_ok_empty]
  by (simp add: documentSchemaVersion_def loadDoc_def replayed_def snapshotOf_def updatesSince_def emptyStore_def registerYjs_def
      joined_laws readRegister_def SCHEMA_VERSION_def)


section \<open>Where less is stored than said\<close>

text \<open>A migration is never stored. Opening a document of an older version gives a room whose document
  is migrated, and in which nothing is pending, in flight or scheduled: the update of the migration
  went by before the room listened, so the stored document stays at its version and the next open
  migrates it again.\<close>

theorem migration_not_stored:
  assumes "map_law Y" and "documentSchemaVersion Y (ld_doc (loadDoc Y db (ro_pageId opts))) < SCHEMA_VERSION"
  shows "\<exists>room. openRoom Y W opts db = Inr room \<and> documentSchemaVersion Y (rm_doc room) = SCHEMA_VERSION \<and>
    unsaved room = [] \<and> rm_flushing room = NotFlushing \<and> \<not> rm_debounceTimer room \<and> \<not> rm_maxDelayTimer room"
proof -
  let ?d = "ld_doc (loadDoc Y db (ro_pageId opts))"
  obtain chain u where mig: "migrateDocument Y ?d = Inr (\<lparr>mo_from = documentSchemaVersion Y ?d, mo_to = SCHEMA_VERSION, mo_applied = chain, mo_changed = True\<rparr>, Some u)"
    "documentSchemaVersion Y (applyUpdate Y u ?d) = SCHEMA_VERSION"
    using migrateDocument_old [OF assms] by blast
  show ?thesis
    by (rule exI [of _ "newRoom W opts (applyUpdate Y u ?d) (ld_throughSeq (loadDoc Y db (ro_pageId opts)))"])
      (simp add: openRoom_def mig Let_def newRoom_flush, simp add: newRoom_def unsaved_def mig(2))
qed

theorem migration_not_stored_witness:
  "\<exists>room. openRoom registerYjs noAwareness pageOptions emptyStore = Inr room \<and>
     documentSchemaVersion registerYjs (rm_doc room) = 7 \<and> unsaved room = []"
proof -
  have "documentSchemaVersion registerYjs (ld_doc (loadDoc registerYjs emptyStore (ro_pageId pageOptions))) < SCHEMA_VERSION"
    by (simp add: documentSchemaVersion_def loadDoc_def replayed_def snapshotOf_def updatesSince_def emptyStore_def registerYjs_def
      noRegisters_def readRegister_def SCHEMA_VERSION_def)
  moreover have "map_law registerYjs" using registerYjs_laws by (simp add: yjs_laws_def)
  ultimately show ?thesis using migration_not_stored [of registerYjs emptyStore pageOptions noAwareness] by (auto simp: SCHEMA_VERSION_def)
qed

text \<open>After a failed append nothing tries again. When storing a batch fails in a way that may pass, the
  batch goes back to the front of what is pending and no timer is left: until somebody edits again, or
  the room is closed, the edits stay in memory only.\<close>

theorem failed_append_strands:
  assumes "rm_flushing room = NotFlushing" and "rm_pending room \<noteq> []" and "\<not> isPoisoned room" and "\<not> isPermanentWriteFailure err"
  shows "case afterAppend Y (Some err) (flush Y room, db) of (room1, db1) \<Rightarrow>
    db1 = db \<and> rm_pending (afterRecording room1) = rm_pending room \<and> rm_flushing (afterRecording room1) = NotFlushing \<and>
    \<not> rm_debounceTimer (afterRecording room1) \<and> \<not> rm_maxDelayTimer (afterRecording room1)"
  using assms by (simp add: flush_def doFlush_def afterAppend_def afterRecording_def rejectFlush_def isPoisoned_def Let_def)

theorem failed_append_strands_witness:
  "case afterAppend registerYjs (Some \<lparr>wf_code = Some ''40P01'', wf_message = ''deadlock''\<rparr>)
      (flush registerYjs (pageRoom\<lparr>rm_pending := [movedPage], rm_debounceTimer := True, rm_maxDelayTimer := True\<rparr>), emptyStore) of
     (room1, db1) \<Rightarrow> rm_pending (afterRecording room1) = [movedPage] \<and> \<not> rm_maxDelayTimer (afterRecording room1)"
proof -
  let ?room = "pageRoom\<lparr>rm_pending := [movedPage], rm_debounceTimer := True, rm_maxDelayTimer := True\<rparr>"
  have "rm_flushing ?room = NotFlushing" "rm_pending ?room \<noteq> []" "\<not> isPoisoned ?room"
    by (simp_all add: pageRoom_def newRoom_def isPoisoned_def)
  moreover have "\<not> isPermanentWriteFailure \<lparr>wf_code = Some ''40P01'', wf_message = ''deadlock''\<rparr>"
    by (simp add: isPermanentWriteFailure_def)
  ultimately show ?thesis
    using failed_append_strands [of ?room "\<lparr>wf_code = Some ''40P01'', wf_message = ''deadlock''\<rparr>" emptyStore registerYjs]
    by (auto simp: pageRoom_def newRoom_def)
qed

end
