(* ===== verification/Json.thy ===== *)
theory Json
  imports Sone_Prelude "HOL-Library.Countable"
begin

text \<open>
  The values of JSON as the code holds them: an object keeps its keys in the order they were written.
  \<open>JNumber\<close> is a number that is an integer (of at most \<open>2 ^ 53\<close> in size), any other number is kept as the
  text JavaScript prints for it.
\<close>

datatype json =
    JNull
  | JBool bool
  | JNumber int
  | JFraction string
  | JString string
  | JArray "json list"
  | JObject "(string \<times> json) list"

instance json :: countable
  by countable_datatype

text \<open>\<open>object[key] = value\<close>, \<open>{...a, ...b}\<close> and \<open>delete object[key]\<close>: a key that is there keeps its place.\<close>

fun objectPut :: "'k \<Rightarrow> 'v \<Rightarrow> ('k \<times> 'v) list \<Rightarrow> ('k \<times> 'v) list" where
  "objectPut k v [] = [(k, v)]"
| "objectPut k v ((x, w) # fields) = (if x = k then (k, v) # fields else (x, w) # objectPut k v fields)"

definition objectSpread :: "('k \<times> 'v) list \<Rightarrow> ('k \<times> 'v) list \<Rightarrow> ('k \<times> 'v) list" where
  "objectSpread a b = fold (\<lambda>(k, v). objectPut k v) b a"

definition objectDelete :: "'k \<Rightarrow> ('k \<times> 'v) list \<Rightarrow> ('k \<times> 'v) list" where
  "objectDelete k fields = filter (\<lambda>(x, w). x \<noteq> k) fields"

lemma objectPut_lookup: "map_of (objectPut k v fields) x = (if x = k then Some v else map_of fields x)"
  by (induction fields) auto

lemma objectPut_keys: "fst ` set (objectPut k v fields) = insert k (fst ` set fields)"
proof (induction fields)
  case (Cons kv fields)
  then show ?case by (cases kv) (simp add: insert_commute)
qed simp

lemma objectPut_distinct: "distinct (map fst fields) \<Longrightarrow> distinct (map fst (objectPut k v fields))"
proof (induction fields)
  case (Cons kv fields)
  then show ?case by (cases kv) (auto simp: objectPut_keys)
qed simp

lemma objectSpread_lookup:
  "distinct (map fst b) \<Longrightarrow> map_of (objectSpread a b) x = (case map_of b x of None \<Rightarrow> map_of a x | Some v \<Rightarrow> Some v)"
proof (induction b arbitrary: a)
  case (Cons kv b)
  obtain k v where kv: "kv = (k, v)" by (cases kv)
  have "map_of (objectSpread (objectPut k v a) b) x = (case map_of b x of None \<Rightarrow> map_of (objectPut k v a) x | Some v \<Rightarrow> Some v)"
    using Cons by (simp add: kv)
  moreover have "map_of b k = None" using Cons.prems by (simp add: kv map_of_eq_None_iff)
  ultimately show ?case by (simp add: kv objectSpread_def objectPut_lookup split: option.split)
qed (simp add: objectSpread_def)

lemma objectDelete_lookup: "map_of (objectDelete k fields) x = (if x = k then None else map_of fields x)"
  by (induction fields) (auto simp: objectDelete_def)

lemma objectDelete_absent: "k \<notin> fst ` set fields \<Longrightarrow> objectDelete k fields = fields"
  by (induction fields) (auto simp: objectDelete_def)

section \<open>Numbers as text\<close>

fun showNat :: "nat \<Rightarrow> string" where
  "showNat n = (if n < 10 then [''0123456789'' ! n] else showNat (n div 10) @ [''0123456789'' ! (n mod 10)])"

declare showNat.simps [simp del]

definition showInt :: "int \<Rightarrow> string" where
  "showInt n = (if n < 0 then CHR ''-'' # showNat (nat (- n)) else showNat (nat n))"

definition digitValue :: "char \<Rightarrow> nat option" where
  "digitValue c = (let n = charCode c in if 48 \<le> n \<and> n \<le> 57 then Some (n - 48) else None)"

text \<open>The number that the leading digits of a text make.\<close>

fun readDigits :: "nat \<Rightarrow> string \<Rightarrow> nat" where
  "readDigits acc [] = acc"
| "readDigits acc (c # cs) = (case digitValue c of None \<Rightarrow> acc | Some d \<Rightarrow> readDigits (10 * acc + d) cs)"

text \<open>\<open>Number.parseInt(text, 10)\<close>: white space, a sign, and the digits that follow; without a digit it is no number.\<close>

definition parseInt :: "string \<Rightarrow> int option" where
  "parseInt text =
     (let t = trimStart text;
          (sign, body) = (case t of c # cs \<Rightarrow> if c = CHR ''-'' then (- 1, cs) else if c = CHR ''+'' then (1, cs) else (1, t) | [] \<Rightarrow> (1, t))
      in case body of
           [] \<Rightarrow> None
         | c # cs \<Rightarrow> if digitValue c = None then None else Some (sign * int (readDigits 0 body)))"

text \<open>\<open>String(value)\<close>\<close>

fun jsString :: "json \<Rightarrow> string" where
  "jsString JNull = ''null''"
| "jsString (JBool b) = (if b then ''true'' else ''false'')"
| "jsString (JNumber n) = showInt n"
| "jsString (JFraction s) = s"
| "jsString (JString s) = s"
| "jsString (JArray vs) = join '','' (map (\<lambda>v. if v = JNull then [] else jsString v) vs)"
| "jsString (JObject kvs) = ''[object Object]''"

lemma digit_shown: "d < 10 \<Longrightarrow> digitValue (''0123456789'' ! d) = Some d"
proof -
  assume "d < 10"
  then have "d \<in> {0, 1, 2, 3, 4, 5, 6, 7, 8, 9}" by auto
  then show ?thesis by (auto simp: digitValue_def charCode_def)
qed

lemma readDigits_append:
  "\<forall>c \<in> set s. digitValue c \<noteq> None \<Longrightarrow> readDigits acc (s @ t) = readDigits (readDigits acc s) t"
  by (induction s arbitrary: acc) (auto split: option.split)

lemma showNat_digits: "\<forall>c \<in> set (showNat n). digitValue c \<noteq> None"
proof (induction n rule: showNat.induct)
  case (1 n)
  have "digitValue (''0123456789'' ! (n mod 10)) \<noteq> None" using digit_shown [of "n mod 10"] by simp
  moreover have "n < 10 \<Longrightarrow> digitValue (''0123456789'' ! n) \<noteq> None" using digit_shown [of n] by simp
  ultimately show ?case using 1 by (subst showNat.simps) auto
qed

lemma readDigits_showNat: "readDigits 0 (showNat n) = n"
proof (induction n rule: showNat.induct)
  case (1 n)
  show ?case
  proof (cases "n < 10")
    case True
    then show ?thesis by (subst showNat.simps) (simp add: digit_shown)
  next
    case False
    have "readDigits 0 (showNat (n div 10) @ [''0123456789'' ! (n mod 10)]) = readDigits (n div 10) [''0123456789'' ! (n mod 10)]"
      using 1 False by (simp add: readDigits_append [OF showNat_digits])
    also have "\<dots> = n" by (simp add: digit_shown)
    finally show ?thesis using False by (subst showNat.simps) simp
  qed
qed

lemma showNat_nonempty: "showNat n \<noteq> []"
  by (subst showNat.simps) simp

lemma parseInt_showNat: "parseInt (showNat n) = Some (int n)"
proof -
  obtain c cs where s: "showNat n = c # cs" using showNat_nonempty [of n] by (cases "showNat n") auto
  have c: "digitValue c \<noteq> None" using showNat_digits [of n] by (simp add: s)
  then have "\<not> isSpace c" "c \<noteq> CHR ''-''" "c \<noteq> CHR ''+''"
    by (auto simp: digitValue_def isSpace_def charCode_def Let_def split: if_splits)
  then show ?thesis using c readDigits_showNat [of n] by (auto simp: parseInt_def s trimStart_def Let_def)
qed

end
