(* ===== verification/Sync_Protocol.thy ===== *)
theory Sync_Protocol
  imports Doc_Migrations Json "HOL-Library.Word"
begin

unbundle bit_operations_syntax

text \<open>
  \<^verbatim>\<open>packages/server/src/sync/protocol.ts\<close>: the frames of the sync connection, written with the
  \<^verbatim>\<open>lib0\<close> encoders and validated field by field when they come from a client; and the ids of
  internal documents (\<^verbatim>\<open>packages/core/src/doc/comments.ts\<close>). The encoders of \<^verbatim>\<open>lib0\<close> and the
  engine's JSON functions are the arguments \<open>L\<close> of the definitions.
\<close>

section \<open>What the frames are made of\<close>

type_synonym bytes = "8 word list"

text \<open>A read gives the value and the rest, or throws at the end of the data.\<close>

record lib0 =
  writeVarUint :: "nat \<Rightarrow> bytes"
  readVarUint :: "bytes \<Rightarrow> (nat \<times> bytes) option"
  writeVarString :: "string \<Rightarrow> bytes"
  readVarString :: "bytes \<Rightarrow> (string \<times> bytes) option"
  writeVarBytes :: "bytes \<Rightarrow> bytes"
  readVarBytes :: "bytes \<Rightarrow> (bytes \<times> bytes) option"
  stringify :: "json \<Rightarrow> string"
  parseJson :: "string \<Rightarrow> json option"
  toNumber :: "json \<Rightarrow> int option"

text \<open>What is written is what is read, with anything after it left over; nothing is written as no byte.\<close>

definition lib0_laws :: "lib0 \<Rightarrow> bool" where
  "lib0_laws L =
     ((\<forall>n rest. readVarUint L (writeVarUint L n @ rest) = Some (n, rest)) \<and> (\<forall>n. writeVarUint L n \<noteq> []) \<and>
      (\<forall>s rest. readVarString L (writeVarString L s @ rest) = Some (s, rest)) \<and>
      (\<forall>b rest. readVarBytes L (writeVarBytes L b @ rest) = Some (b, rest)) \<and>
      (\<forall>j. parseJson L (stringify L j) = Some j))"

section \<open>Constants\<close>

definition PROTOCOL_VERSION :: int where
  "PROTOCOL_VERSION = 1"

datatype sync_error =
    ProtocolViolation | NotAuthenticated | AuthFailed | NotAuthorized | ReadOnly | UnknownHandle | TooManyDocuments
  | MessageTooLarge | RateLimited | InternalError | DocumentSchemaMismatch

fun errorCode :: "sync_error \<Rightarrow> string" where
  "errorCode ProtocolViolation = ''protocol_violation''"
| "errorCode NotAuthenticated = ''not_authenticated''"
| "errorCode AuthFailed = ''auth_failed''"
| "errorCode NotAuthorized = ''not_authorized''"
| "errorCode ReadOnly = ''read_only''"
| "errorCode UnknownHandle = ''unknown_handle''"
| "errorCode TooManyDocuments = ''too_many_documents''"
| "errorCode MessageTooLarge = ''message_too_large''"
| "errorCode RateLimited = ''rate_limited''"
| "errorCode InternalError = ''internal''"
| "errorCode DocumentSchemaMismatch = ''document_schema_mismatch''"

definition maxMessageBytes :: nat where
  "maxMessageBytes = 8388608"

definition maxDocumentsPerConnection :: nat where
  "maxDocumentsPerConnection = 128"

definition maxUpdatesPerSecond :: int where
  "maxUpdatesPerSecond = 200"

definition rateWindowMs :: int where
  "rateWindowMs = 10000"

definition WORKSPACE_SCOPES :: "string list" where
  "WORKSPACE_SCOPES = [''pages'', ''trash'', ''shares'']"

definition ACCESS_SCOPE :: string where
  "ACCESS_SCOPE = ''access''"

section \<open>Frames to the client\<close>

datatype server_message =
    SAuthAck json
  | SOpenAck nat nat string
  | SSync nat bytes
  | SAwareness nat bytes
  | SClosed nat string
  | SPong
  | SError nat string string
  | SRoleChanged nat string
  | SNotify string

fun encodeServerMessage :: "lib0 \<Rightarrow> server_message \<Rightarrow> bytes" where
  "encodeServerMessage L (SAuthAck payload) = writeVarUint L 0 @ writeVarString L (stringify L payload)"
| "encodeServerMessage L (SOpenAck requestId handle role) =
     writeVarUint L 1 @ writeVarUint L requestId @ writeVarUint L handle @ writeVarString L role"
| "encodeServerMessage L (SSync handle payload) = writeVarUint L 2 @ writeVarUint L handle @ writeVarBytes L payload"
| "encodeServerMessage L (SAwareness handle payload) = writeVarUint L 3 @ writeVarUint L handle @ writeVarBytes L payload"
| "encodeServerMessage L (SClosed handle reason) = writeVarUint L 4 @ writeVarUint L handle @ writeVarString L reason"
| "encodeServerMessage L SPong = writeVarUint L 5"
| "encodeServerMessage L (SError requestId code detail) =
     writeVarUint L 6 @ writeVarUint L requestId @ writeVarString L code @ writeVarString L detail"
| "encodeServerMessage L (SRoleChanged handle role) = writeVarUint L 7 @ writeVarUint L handle @ writeVarString L role"
| "encodeServerMessage L (SNotify scope) = writeVarUint L 8 @ writeVarString L scope"

text \<open>\<^const>\<open>None\<close> when the frame cannot be read or its type is unknown: the function throws.\<close>

definition decodeServerMessage :: "lib0 \<Rightarrow> bytes \<Rightarrow> server_message option" where
  "decodeServerMessage L data =
     Option.bind (readVarUint L data) (\<lambda>(type, rest).
       if type = 0 then Option.bind (readVarString L rest) (\<lambda>(s, rest). map_option SAuthAck (parseJson L s))
       else if type = 1 then
         Option.bind (readVarUint L rest) (\<lambda>(requestId, rest). Option.bind (readVarUint L rest) (\<lambda>(handle, rest).
           map_option (\<lambda>(role, rest). SOpenAck requestId handle role) (readVarString L rest)))
       else if type = 2 then
         Option.bind (readVarUint L rest) (\<lambda>(handle, rest). map_option (\<lambda>(p, rest). SSync handle p) (readVarBytes L rest))
       else if type = 3 then
         Option.bind (readVarUint L rest) (\<lambda>(handle, rest). map_option (\<lambda>(p, rest). SAwareness handle p) (readVarBytes L rest))
       else if type = 4 then
         Option.bind (readVarUint L rest) (\<lambda>(handle, rest). map_option (\<lambda>(s, rest). SClosed handle s) (readVarString L rest))
       else if type = 7 then
         Option.bind (readVarUint L rest) (\<lambda>(handle, rest). map_option (\<lambda>(s, rest). SRoleChanged handle s) (readVarString L rest))
       else if type = 8 then map_option (\<lambda>(s, rest). SNotify s) (readVarString L rest)
       else if type = 5 then Some SPong
       else if type = 6 then
         Option.bind (readVarUint L rest) (\<lambda>(requestId, rest). Option.bind (readVarString L rest) (\<lambda>(code, rest).
           map_option (\<lambda>(detail, rest). SError requestId code detail) (readVarString L rest)))
       else None)"

section \<open>Ids of pages and internal documents\<close>

definition isHex :: "char \<Rightarrow> bool" where
  "isHex c = (c \<in> set ''0123456789abcdefABCDEF'')"

text \<open>\<open>UUID_RE\<close>: the lengths of the groups and the dashes between them.\<close>

fun hexGroups :: "nat list \<Rightarrow> string \<Rightarrow> bool" where
  "hexGroups [] s = (s = [])"
| "hexGroups [n] s = (length s = n \<and> list_all isHex s)"
| "hexGroups (n # m # ns) s =
     (length (take n s) = n \<and> list_all isHex (take n s) \<and> take 1 (drop n s) = ''-'' \<and> hexGroups (m # ns) (drop (Suc n) s))"

definition isUuid :: "string \<Rightarrow> bool" where
  "isUuid v = hexGroups [8, 4, 4, 4, 12] v"

definition INTERNAL_SUFFIX :: string where
  "INTERNAL_SUFFIX = ''#internal''"

definition asInternalRequest :: "string \<Rightarrow> string" where
  "asInternalRequest pageId = pageId @ INTERNAL_SUFFIX"

definition readInternalRequest :: "string \<Rightarrow> string \<times> bool" where
  "readInternalRequest asked =
     (let n = length asked - length INTERNAL_SUFFIX in
      if length INTERNAL_SUFFIX \<le> length asked \<and> drop n asked = INTERNAL_SUFFIX then (take n asked, True)
      else (asked, False))"

definition INTERNAL_NAMESPACE :: string where
  "INTERNAL_NAMESPACE = ''6f9f6b1e-4a4a-5f6c-8f2e-1d3c5b7a9e01''"

definition hexDigit :: "nat \<Rightarrow> char" where
  "hexDigit n = ''0123456789abcdef'' ! n"

definition hexValue :: "char \<Rightarrow> nat" where
  "hexValue c = nat (indexOf ''0123456789abcdef'' c)"

text \<open>\<open>byte.toString(16).padStart(2, '0')\<close>\<close>

definition hexByte :: "8 word \<Rightarrow> string" where
  "hexByte b = [hexDigit (unat b div 16), hexDigit (unat b mod 16)]"

fun hexPairs :: "string \<Rightarrow> bytes" where
  "hexPairs (a # b # rest) = of_nat (16 * hexValue a + hexValue b) # hexPairs rest"
| "hexPairs rest = []"

definition internalDocId :: "string \<Rightarrow> (bytes \<Rightarrow> bytes) \<Rightarrow> string" where
  "internalDocId pageId sha1 =
     (let bytes = hexPairs (filter (\<lambda>c. c \<noteq> CHR ''-'') INTERNAL_NAMESPACE) @ map (\<lambda>c. of_nat (charCode c)) pageId;
          out = take 16 (sha1 bytes);
          out = out[6 := (out ! 6 AND 0x0f) OR 0x50];
          out = out[8 := (out ! 8 AND 0x3f) OR 0x80];
          text = concat (map hexByte out)
      in take 8 text @ ''-'' @ take 4 (drop 8 text) @ ''-'' @ take 4 (drop 12 text) @ ''-'' @ take 4 (drop 16 text) @ ''-'' @ drop 20 text)"

section \<open>Frames from the client\<close>

record auth_payload =
  ap_protocolVersion :: int
  ap_documentSchemaVersion :: int
  ap_workspaceId :: string
  ap_sessionToken :: "string option"
  ap_shareToken :: "string option"
  ap_displayName :: "string option"
  ap_sharePassword :: "string option"
  ap_shareSessionId :: "string option"

datatype client_message =
    CAuth auth_payload
  | COpen nat string
  | CSync nat bytes
  | CAwareness nat bytes
  | CClose nat
  | CPing

text \<open>\<open>v[name]\<close> of a parsed object: undefined when absent, the last of two equal names.\<close>

definition jsonField :: "(string \<times> json) list \<Rightarrow> string \<Rightarrow> json option" where
  "jsonField v name = map_of (rev v) name"

definition optionalString :: "json option \<Rightarrow> nat \<Rightarrow> sync_error + string option" where
  "optionalString v maxLength =
     (case v of
        None \<Rightarrow> Inr None
      | Some JNull \<Rightarrow> Inr None
      | Some (JString s) \<Rightarrow>
          if s = [] then Inr None else if maxLength < length s then Inl ProtocolViolation else Inr (Some s)
      | _ \<Rightarrow> Inl ProtocolViolation)"

definition optionalUuid :: "json option \<Rightarrow> sync_error + string option" where
  "optionalUuid v =
     (case v of
        None \<Rightarrow> Inr None
      | Some JNull \<Rightarrow> Inr None
      | Some (JString s) \<Rightarrow> if isUuid s then Inr (Some s) else Inl ProtocolViolation
      | _ \<Rightarrow> Inl ProtocolViolation)"

text \<open>\<open>Number(undefined)\<close> is not a number.\<close>

definition validateAuth :: "lib0 \<Rightarrow> json \<Rightarrow> sync_error + auth_payload" where
  "validateAuth L value =
     (case value of
        JObject v \<Rightarrow>
          if jsonField v ''protocolVersion'' \<noteq> Some (JNumber PROTOCOL_VERSION) then Inl ProtocolViolation
          else if \<not> (case Option.bind (jsonField v ''documentSchemaVersion'') (toNumber L) of
                      None \<Rightarrow> False | Some n \<Rightarrow> isClientSchemaCompatible n) then Inl DocumentSchemaMismatch
          else (case jsonField v ''workspaceId'' of
                  Some (JString workspaceId) \<Rightarrow>
                    if \<not> isUuid workspaceId then Inl ProtocolViolation
                    else rbind (optionalString (jsonField v ''sessionToken'') 4096) (\<lambda>sessionToken.
                         rbind (optionalString (jsonField v ''shareToken'') 4096) (\<lambda>shareToken.
                           if sessionToken \<noteq> None \<and> shareToken \<noteq> None then Inl ProtocolViolation
                           else rbind (optionalString (jsonField v ''displayName'') 64) (\<lambda>displayName.
                                rbind (optionalString (jsonField v ''sharePassword'') 1024) (\<lambda>sharePassword.
                                rmap (\<lambda>shareSessionId.
                                   \<lparr>ap_protocolVersion = PROTOCOL_VERSION, ap_documentSchemaVersion = SCHEMA_VERSION,
                                    ap_workspaceId = workspaceId, ap_sessionToken = sessionToken, ap_shareToken = shareToken,
                                    ap_displayName = displayName, ap_sharePassword = sharePassword,
                                    ap_shareSessionId = shareSessionId\<rparr>)
                                 (optionalUuid (jsonField v ''shareSessionId''))))))
                | _ \<Rightarrow> Inl ProtocolViolation)
      | _ \<Rightarrow> Inl ProtocolViolation)"

text \<open>A read past the end inside a frame is a malformed message.\<close>

definition readOr :: "('a \<times> bytes) option \<Rightarrow> ('a \<Rightarrow> bytes \<Rightarrow> sync_error + 'm) \<Rightarrow> sync_error + 'm" where
  "readOr r f = (case r of None \<Rightarrow> Inl ProtocolViolation | Some (a, rest) \<Rightarrow> f a rest)"

definition decodeClientMessage :: "lib0 \<Rightarrow> bytes \<Rightarrow> sync_error + client_message" where
  "decodeClientMessage L data =
     (if data = [] then Inl ProtocolViolation
      else if maxMessageBytes < length data then Inl MessageTooLarge
      else readOr (readVarUint L data) (\<lambda>type rest.
        if type = 0 then
          readOr (readVarString L rest) (\<lambda>raw rest.
            case parseJson L raw of None \<Rightarrow> Inl ProtocolViolation | Some parsed \<Rightarrow> rmap CAuth (validateAuth L parsed))
        else if type = 1 then
          readOr (readVarUint L rest) (\<lambda>requestId rest. readOr (readVarString L rest) (\<lambda>pageId rest.
            if isUuid (fst (readInternalRequest pageId)) then Inr (COpen requestId pageId) else Inl ProtocolViolation))
        else if type = 2 then
          readOr (readVarUint L rest) (\<lambda>handle rest. readOr (readVarBytes L rest) (\<lambda>payload rest. Inr (CSync handle payload)))
        else if type = 3 then
          readOr (readVarUint L rest) (\<lambda>handle rest. readOr (readVarBytes L rest) (\<lambda>payload rest. Inr (CAwareness handle payload)))
        else if type = 4 then readOr (readVarUint L rest) (\<lambda>handle rest. Inr (CClose handle))
        else if type = 5 then Inr CPing
        else Inl ProtocolViolation))"

text \<open>The frames the client writes in this file.\<close>

definition encodeAuth :: "lib0 \<Rightarrow> json \<Rightarrow> bytes" where
  "encodeAuth L payload = writeVarUint L 0 @ writeVarString L (stringify L payload)"

definition encodeOpen :: "lib0 \<Rightarrow> nat \<Rightarrow> string \<Rightarrow> bytes" where
  "encodeOpen L requestId pageId = writeVarUint L 1 @ writeVarUint L requestId @ writeVarString L pageId"

definition encodePing :: "lib0 \<Rightarrow> bytes" where
  "encodePing L = writeVarUint L 5"

section \<open>Round trips\<close>

lemma lib0_read:
  assumes "lib0_laws L"
  shows "readVarUint L (writeVarUint L n @ rest) = Some (n, rest)" "readVarUint L (writeVarUint L n) = Some (n, [])"
    "readVarString L (writeVarString L s @ rest) = Some (s, rest)" "readVarString L (writeVarString L s) = Some (s, [])"
    "readVarBytes L (writeVarBytes L b @ rest) = Some (b, rest)" "readVarBytes L (writeVarBytes L b) = Some (b, [])"
    "parseJson L (stringify L j) = Some j" "writeVarUint L n \<noteq> []"
  using assms unfolding lib0_laws_def by (blast, metis append_Nil2, blast, metis append_Nil2, blast, metis append_Nil2, blast, blast)

lemma readInternalRequest_suffix: "readInternalRequest (asInternalRequest p) = (p, True)"
  by (simp add: readInternalRequest_def asInternalRequest_def INTERNAL_SUFFIX_def)

lemma hexGroups_chars: "hexGroups ns s \<Longrightarrow> list_all (\<lambda>c. isHex c \<or> c = CHR ''-'') s"
proof (induction ns s rule: hexGroups.induct)
  case (3 n m ns s)
  let ?P = "\<lambda>c. isHex c \<or> c = CHR ''-''"
  have h: "list_all isHex (take n s)" "take 1 (drop n s) = ''-''" "hexGroups (m # ns) (drop (Suc n) s)"
    using "3.prems" unfolding hexGroups.simps by blast+
  have "list_all ?P (take n s)" using h(1) unfolding list_all_iff by blast
  moreover have "list_all ?P (take 1 (drop n s))" unfolding h(2) by simp
  moreover have "drop 1 (drop n s) = drop (Suc n) s" by simp
  then have "list_all ?P (drop 1 (drop n s))" using "3.IH" [OF h(3)] by (simp only:)
  ultimately have "list_all ?P (take n s @ take 1 (drop n s) @ drop 1 (drop n s))" by (simp only: list_all_append simp_thms)
  then show ?case by (simp only: append_take_drop_id)
qed (auto simp: list_all_iff)

lemma readInternalRequest_uuid: "isUuid s \<Longrightarrow> readInternalRequest s = (s, False)"
proof -
  assume "isUuid s"
  then have "list_all (\<lambda>c. isHex c \<or> c = CHR ''-'') s" unfolding isUuid_def by (rule hexGroups_chars)
  moreover have "\<not> isHex (CHR ''#'')" "CHR ''#'' \<noteq> CHR ''-''" by (simp_all add: isHex_def)
  ultimately have hash: "CHR ''#'' \<notin> set s" unfolding list_all_iff by blast
  have "drop n s \<noteq> INTERNAL_SUFFIX" for n
  proof
    assume "drop n s = INTERNAL_SUFFIX"
    moreover have "CHR ''#'' \<in> set INTERNAL_SUFFIX" by (simp add: INTERNAL_SUFFIX_def)
    ultimately show False using hash set_drop_subset [of n s] by auto
  qed
  then show ?thesis by (simp add: readInternalRequest_def)
qed

lemma optionalString_results:
  "optionalString v n = Inl e \<Longrightarrow> e = ProtocolViolation"
  "optionalString v n = Inr (Some t) \<Longrightarrow> 0 < length t \<and> length t \<le> n"
  by (auto simp: optionalString_def split: option.splits json.splits if_splits)

lemma optionalUuid_results:
  "optionalUuid v = Inl e \<Longrightarrow> e = ProtocolViolation"
  "optionalUuid v = Inr (Some t) \<Longrightarrow> isUuid t"
  by (auto simp: optionalUuid_def split: option.splits json.splits if_splits)

definition valid_auth :: "auth_payload \<Rightarrow> bool" where
  "valid_auth p =
     (isUuid (ap_workspaceId p) \<and> (ap_sessionToken p = None \<or> ap_shareToken p = None) \<and> ap_sessionToken p \<noteq> Some [] \<and>
      ap_shareToken p \<noteq> Some [] \<and> (case ap_displayName p of None \<Rightarrow> True | Some n \<Rightarrow> 0 < length n \<and> length n \<le> 64) \<and>
      (case ap_shareSessionId p of None \<Rightarrow> True | Some i \<Rightarrow> isUuid i))"

lemma validateAuth_results:
  "validateAuth L v = Inl e \<Longrightarrow> e = ProtocolViolation \<or> e = DocumentSchemaMismatch"
  "validateAuth L v = Inr p \<Longrightarrow> valid_auth p"
proof -
  assume "validateAuth L v = Inl e"
  then show "e = ProtocolViolation \<or> e = DocumentSchemaMismatch"
    by (auto simp: validateAuth_def result_simps split: json.splits if_splits option.splits
        dest: optionalString_results(1) optionalUuid_results(1))
next
  assume "validateAuth L v = Inr p"
  then obtain fields ws st sh dn pw si where "isUuid ws" "st = None \<or> sh = None"
    "optionalString (jsonField fields ''sessionToken'') 4096 = Inr st" "optionalString (jsonField fields ''shareToken'') 4096 = Inr sh"
    "optionalString (jsonField fields ''displayName'') 64 = Inr dn" "optionalUuid (jsonField fields ''shareSessionId'') = Inr si"
    and p: "p = \<lparr>ap_protocolVersion = PROTOCOL_VERSION, ap_documentSchemaVersion = SCHEMA_VERSION, ap_workspaceId = ws,
      ap_sessionToken = st, ap_shareToken = sh, ap_displayName = dn, ap_sharePassword = pw, ap_shareSessionId = si\<rparr>"
    by (auto simp: validateAuth_def result_simps split: json.splits if_splits option.splits)
  then show "valid_auth p"
    by (auto simp: valid_auth_def split: option.split dest!: optionalString_results(2) optionalUuid_results(2))
qed

text \<open>C24: every frame the server writes is the frame its reader reads, and the requests a client writes
  are those the server reads: opening a page, or its internal comments, with an id that is a uuid.\<close>

theorem frames_roundtrip:
  assumes "lib0_laws L" and "isUuid pageId" and "length (encodeOpen L requestId (asInternalRequest pageId)) \<le> maxMessageBytes"
    and "length (encodeOpen L requestId pageId) \<le> maxMessageBytes" and "length (encodePing L) \<le> maxMessageBytes"
  shows "decodeServerMessage L (encodeServerMessage L m) = Some m \<and>
    decodeClientMessage L (encodeOpen L requestId pageId) = Inr (COpen requestId pageId) \<and>
    decodeClientMessage L (encodeOpen L requestId (asInternalRequest pageId)) = Inr (COpen requestId (asInternalRequest pageId)) \<and>
    decodeClientMessage L (encodePing L) = Inr CPing"
proof -
  have plain: "readInternalRequest pageId = (pageId, False)" by (rule readInternalRequest_uuid [OF assms(2)])
  have "decodeServerMessage L (encodeServerMessage L m) = Some m"
    by (cases m) (simp_all add: decodeServerMessage_def lib0_read [OF assms(1)])
  moreover have "decodeClientMessage L (encodeOpen L requestId pageId) = Inr (COpen requestId pageId)"
    "decodeClientMessage L (encodeOpen L requestId (asInternalRequest pageId)) = Inr (COpen requestId (asInternalRequest pageId))"
    "decodeClientMessage L (encodePing L) = Inr CPing"
    using assms(2-) plain
    by (simp_all add: decodeClientMessage_def encodeOpen_def encodePing_def lib0_read [OF assms(1)] readOr_def readInternalRequest_suffix)
  ultimately show ?thesis by blast
qed


section \<open>An instance of the encoders\<close>

text \<open>Numbers in unary, strings and bytes after their length, a JSON value by its place in an enumeration.\<close>

definition unary :: "nat \<Rightarrow> bytes" where
  "unary n = replicate n 1 @ [0]"

fun readUnary :: "bytes \<Rightarrow> (nat \<times> bytes) option" where
  "readUnary [] = None"
| "readUnary (b # bs) = (if b = 0 then Some (0, bs) else map_option (\<lambda>(n, rest). (Suc n, rest)) (readUnary bs))"

definition readSized :: "bytes \<Rightarrow> (bytes \<times> bytes) option" where
  "readSized bs = Option.bind (readUnary bs) (\<lambda>(n, rest). if n \<le> length rest then Some (take n rest, drop n rest) else None)"

definition unaryLib :: lib0 where
  "unaryLib = \<lparr>writeVarUint = unary, readVarUint = readUnary,
     writeVarString = (\<lambda>s. unary (length s) @ map (\<lambda>c. of_nat (charCode c)) s),
     readVarString = (\<lambda>bs. map_option (\<lambda>(b, rest). (map (\<lambda>w. fromCharCode (unat w)) b, rest)) (readSized bs)),
     writeVarBytes = (\<lambda>b. unary (length b) @ b), readVarBytes = readSized,
     stringify = (\<lambda>j. replicate (to_nat j) (CHR ''x'')), parseJson = (\<lambda>s. Some (from_nat (length s))),
     toNumber = (\<lambda>j. case j of JNumber n \<Rightarrow> Some n | _ \<Rightarrow> None)\<rparr>"

lemma readUnary_unary: "readUnary (unary n @ rest) = Some (n, rest)"
  by (induction n) (simp_all add: unary_def)

lemma readSized_sized: "readSized (unary (length b) @ b @ rest) = Some (b, rest)"
  by (simp add: readSized_def readUnary_unary)

lemma charCode_byte: "charCode c < 256"
  using of_char_mod_256 [of c, where 'a = nat] by (metis charCode_def mod_less_divisor zero_less_numeral)

lemma unaryLib_laws: "lib0_laws unaryLib"
proof -
  have code: "fromCharCode (unat (of_nat (charCode c) :: 8 word)) = c" for c
    using charCode_byte [of c] by (simp add: unat_of_nat take_bit_nat_eq_self charCode_def fromCharCode_def)
  have "readVarString unaryLib (writeVarString unaryLib s @ rest) = Some (s, rest)" for s rest
    using readSized_sized [of "map (\<lambda>c. of_nat (charCode c)) s" rest] by (simp add: unaryLib_def comp_def code)
  moreover have "readVarUint unaryLib (writeVarUint unaryLib n @ rest) = Some (n, rest)" for n rest
    by (simp add: unaryLib_def readUnary_unary)
  moreover have "readVarBytes unaryLib (writeVarBytes unaryLib b @ rest) = Some (b, rest)" for b rest
    by (simp add: unaryLib_def readSized_sized)
  moreover have "writeVarUint unaryLib n \<noteq> []" "parseJson unaryLib (stringify unaryLib j) = Some j" for n j
    by (simp_all add: unaryLib_def unary_def)
  ultimately show ?thesis unfolding lib0_laws_def by blast
qed

definition somePage :: string where
  "somePage = ''11111111-2222-3333-4444-555555555555''"

theorem frames_roundtrip_witness:
  "decodeServerMessage unaryLib (encodeServerMessage unaryLib (SError 3 ''read_only'' [])) = Some (SError 3 ''read_only'' []) \<and>
   decodeClientMessage unaryLib (encodeOpen unaryLib 7 (asInternalRequest somePage)) = Inr (COpen 7 (asInternalRequest somePage))"
proof -
  have uuid: "isUuid somePage" by code_simp
  have "length (encodeOpen unaryLib 7 (asInternalRequest somePage)) \<le> maxMessageBytes" "length (encodeOpen unaryLib 7 somePage) \<le> maxMessageBytes"
    "length (encodePing unaryLib) \<le> maxMessageBytes"
    by (simp_all add: encodeOpen_def encodePing_def unaryLib_def unary_def maxMessageBytes_def asInternalRequest_def INTERNAL_SUFFIX_def somePage_def)
  from frames_roundtrip [OF unaryLib_laws uuid this, of "SError 3 ''read_only'' []"] show ?thesis by blast
qed

section \<open>Derived ids\<close>

lemma below_sixteen:
  "(n :: nat) < 16 \<Longrightarrow> n = 0 \<or> n = 1 \<or> n = 2 \<or> n = 3 \<or> n = 4 \<or> n = 5 \<or> n = 6 \<or> n = 7 \<or> n = 8 \<or> n = 9 \<or>
    n = 10 \<or> n = 11 \<or> n = 12 \<or> n = 13 \<or> n = 14 \<or> n = 15"
  by presburger

lemma isHex_hexDigit: "n < 16 \<Longrightarrow> isHex (hexDigit n)"
proof -
  assume "n < 16"
  then have "n = 0 \<or> n = 1 \<or> n = 2 \<or> n = 3 \<or> n = 4 \<or> n = 5 \<or> n = 6 \<or> n = 7 \<or> n = 8 \<or> n = 9 \<or>
    n = 10 \<or> n = 11 \<or> n = 12 \<or> n = 13 \<or> n = 14 \<or> n = 15"
    by (rule below_sixteen)
  then show ?thesis by (elim disjE; simp add: hexDigit_def isHex_def)
qed

lemma hexByte_hex: "length (hexByte b) = 2 \<and> list_all isHex (hexByte b)"
proof -
  have "unat b < 2 ^ 8" using unsigned_less [of b] by simp
  then have "unat b div 16 < 16" "unat b mod 16 < 16" by (simp_all add: div_less_iff_less_mult)
  then show ?thesis by (simp add: hexByte_def isHex_hexDigit)
qed

lemma hexBytes_hex: "length (concat (map hexByte bs)) = 2 * length bs \<and> list_all isHex (concat (map hexByte bs))"
  by (induction bs) (simp_all add: hexByte_hex)

lemma hexBytes_nth: "i < length bs \<Longrightarrow> concat (map hexByte bs) ! (2 * i) = hexDigit (unat (bs ! i) div 16)"
proof (induction bs arbitrary: i)
  case (Cons b bs)
  then show ?case by (cases i) (simp_all add: hexByte_def)
qed simp

lemma versioned: "unat ((x AND 0x0f) OR (0x50 :: 8 word)) div 16 = 5"
proof -
  define n where "n = unat x AND 15"
  have "n = take_bit 4 (unat x)" by (simp add: n_def take_bit_eq_mask mask_eq_exp_minus_1)
  then have "n < 16" using take_bit_nat_less_exp [of 4 "unat x"] by simp
  then have "n = 0 \<or> n = 1 \<or> n = 2 \<or> n = 3 \<or> n = 4 \<or> n = 5 \<or> n = 6 \<or> n = 7 \<or> n = 8 \<or> n = 9 \<or>
    n = 10 \<or> n = 11 \<or> n = 12 \<or> n = 13 \<or> n = 14 \<or> n = 15"
    by (rule below_sixteen)
  then have "(n OR 80) div 16 = 5" by (elim disjE) simp_all
  then show ?thesis by (simp add: unsigned_or_eq unsigned_and_eq n_def)
qed

lemma list_all_part: "list_all P s \<Longrightarrow> list_all P (take n (drop m s))" "list_all P s \<Longrightarrow> list_all P (take n s)" "list_all P s \<Longrightarrow> list_all P (drop m s)"
  by (meson in_set_dropD in_set_takeD list_all_iff)+

text \<open>The document of a page's internal comments has an id the database takes. Whatever the hash
  gives, as long as it gives at least sixteen bytes, the derived id is a uuid, of version five; and the
  request for the internal comments of a page names the page again.\<close>

theorem internalDocId_uuid:
  assumes "\<And>bs. 16 \<le> length (sha1 bs)"
  shows "isUuid (internalDocId pageId sha1) \<and> internalDocId pageId sha1 ! 14 = CHR ''5'' \<and>
    readInternalRequest (asInternalRequest pageId) = (pageId, True)"
proof -
  define out where "out = take 16 (sha1 (hexPairs (filter (\<lambda>c. c \<noteq> CHR ''-'') INTERNAL_NAMESPACE) @ map (\<lambda>c. of_nat (charCode c)) pageId))"
  define out1 where "out1 = out[6 := (out ! 6 AND 0x0f) OR 0x50]"
  define out2 where "out2 = out1[8 := (out1 ! 8 AND 0x3f) OR 0x80]"
  define t where "t = concat (map hexByte out2)"
  have len: "length out2 = 16" using assms by (simp add: out_def out1_def out2_def)
  have t: "length t = 32" "list_all isHex t" using hexBytes_hex [of out2] len by (simp_all add: t_def)
  have id: "internalDocId pageId sha1 = take 8 t @ ''-'' @ take 4 (drop 8 t) @ ''-'' @ take 4 (drop 12 t) @ ''-'' @ take 4 (drop 16 t) @ ''-'' @ drop 20 t"
    unfolding internalDocId_def Let_def t_def out2_def out1_def out_def by (rule refl)
  have "isUuid (internalDocId pageId sha1)"
    using t by (simp add: isUuid_def id list_all_part)
  moreover have "out2 ! 6 = (out ! 6 AND 0x0f) OR 0x50" using len by (simp add: out2_def out1_def)
  then have "t ! 12 = CHR ''5''" using hexBytes_nth [of 6 out2] len versioned [of "out ! 6"] by (simp add: t_def hexDigit_def)
  then have "internalDocId pageId sha1 ! 14 = CHR ''5''" using t(1) by (simp add: id nth_append)
  ultimately show ?thesis by (simp add: readInternalRequest_suffix)
qed

theorem internalDocId_uuid_witness:
  "isUuid (internalDocId somePage (\<lambda>bs. replicate 20 (of_nat (length bs))))"
  using internalDocId_uuid [of "\<lambda>bs. replicate 20 (of_nat (length bs))" somePage] by simp

end
