(* ===== verification/Sync_Server.thy ===== *)
theory Sync_Server
  imports Room Sync_Protocol Claims
begin

text \<open>
  \<^verbatim>\<open>packages/server/src/sync/server.ts\<close>: the connections of the sync server, what they have open, and
  the rooms behind it. Connections and rooms are objects that handlers keep across their awaits, so the
  state has a heap of each; the maps hold positions in them. A handler is a definition per stretch
  between awaits, and what it has read before an await is an argument of the next.
\<close>

section \<open>State\<close>

record open_document =
  od_handle :: nat
  od_pageId :: string
  od_role :: role
  od_room :: nat
  od_subscriberId :: string

record connection =
  cn_id :: string
  cn_ipPrefix :: "string option"
  cn_cookie :: "string option"
  cn_claims :: "access_claims option"
  cn_credential :: "connection_credential option"
  cn_accountId :: "ident option"
  cn_workspaceId :: "ident option"
  cn_documents :: "(nat \<times> open_document) list"
  cn_handlesByPage :: "(string \<times> nat) list"
  cn_nextHandle :: nat
  cn_updateTimestamps :: "time list"
  cn_authTimer :: bool
  cn_socketOpen :: bool
  cn_sent :: "server_message list"

text \<open>\<open>sv_conns\<close> and \<open>sv_roomHeap\<close> are the heaps, \<open>sv_connections\<close> the set of live connections,
  \<open>sv_loading\<close> the rooms whose promise is pending, and \<open>sv_sinks\<close> what the two send functions of a subscriber
  are closed over: a connection and a handle.\<close>

record ('d, 'w) server =
  sv_conns :: "connection list"
  sv_roomHeap :: "('d, bytes, 'w) room list"
  sv_connections :: "nat list"
  sv_rooms :: "(string \<times> nat) list"
  sv_byUser :: "(ident \<times> nat) list"
  sv_byWorkspace :: "(ident \<times> nat) list"
  sv_loading :: "(string \<times> room_options) list"
  sv_sinks :: "(string \<times> (nat \<times> nat)) list"
  sv_revalidating :: "ident list"
  sv_revalidateAgain :: "ident list"
  sv_shuttingDown :: bool

definition conn :: "('d, 'w) server \<Rightarrow> nat \<Rightarrow> connection" where
  "conn sv c = sv_conns sv ! c"

definition setConn :: "nat \<Rightarrow> (connection \<Rightarrow> connection) \<Rightarrow> ('d, 'w) server \<Rightarrow> ('d, 'w) server" where
  "setConn c f sv = sv\<lparr>sv_conns := (sv_conns sv)[c := f (sv_conns sv ! c)]\<rparr>"

definition setRoom ::
    "nat \<Rightarrow> (('d, bytes, 'w) room \<Rightarrow> ('d, bytes, 'w) room) \<Rightarrow> ('d, 'w) server \<Rightarrow> ('d, 'w) server" where
  "setRoom r f sv = sv\<lparr>sv_roomHeap := (sv_roomHeap sv)[r := f (sv_roomHeap sv ! r)]\<rparr>"

text \<open>A frame is sent while the socket is open.\<close>

definition send :: "server_message \<Rightarrow> connection \<Rightarrow> connection" where
  "send m cn = (if cn_socketOpen cn then cn\<lparr>cn_sent := cn_sent cn @ [m]\<rparr> else cn)"

definition sendError :: "nat \<Rightarrow> sync_error \<Rightarrow> string \<Rightarrow> connection \<Rightarrow> connection" where
  "sendError requestId code detail cn = send (SError requestId (errorCode code) detail) cn"

definition closeSocket :: "connection \<Rightarrow> connection" where
  "closeSocket cn = cn\<lparr>cn_socketOpen := False\<rparr>"

text \<open>\<open>Map.delete\<close> and \<open>Map.set\<close>.\<close>

definition mapDelete :: "'k \<Rightarrow> ('k \<times> 'v) list \<Rightarrow> ('k \<times> 'v) list" where
  "mapDelete k m = filter (\<lambda>(x, v). x \<noteq> k) m"

definition mapPut :: "'k \<Rightarrow> 'v \<Rightarrow> ('k \<times> 'v) list \<Rightarrow> ('k \<times> 'v) list" where
  "mapPut k v m = (if map_of m k = None then m @ [(k, v)] else map (\<lambda>(x, w). (x, if x = k then v else w)) m)"

section \<open>Connections\<close>

definition recordUpdate :: "time \<Rightarrow> connection \<Rightarrow> connection \<times> bool" where
  "recordUpdate now cn =
     (let stamps = filter (\<lambda>t. now - rateWindowMs < t) (cn_updateTimestamps cn) @ [now];
          allowed = maxUpdatesPerSecond * rateWindowMs div 1000
      in (cn\<lparr>cn_updateTimestamps := stamps\<rparr>, int (length stamps) \<le> allowed))"

definition newConnection :: "string \<Rightarrow> string option \<Rightarrow> string option \<Rightarrow> connection" where
  "newConnection cid ip cookie =
    \<lparr>cn_id = cid, cn_ipPrefix = ip, cn_cookie = cookie, cn_claims = None, cn_credential = None, cn_accountId = None,
     cn_workspaceId = None, cn_documents = [], cn_handlesByPage = [], cn_nextHandle = 1, cn_updateTimestamps = [],
     cn_authTimer = True, cn_socketOpen = True, cn_sent = []\<rparr>"

text \<open>A socket that opens while the server shuts down is closed and never becomes a connection.\<close>

definition onConnection :: "string \<Rightarrow> string option \<Rightarrow> string option \<Rightarrow> ('d, 'w) server \<Rightarrow> ('d, 'w) server" where
  "onConnection cid ip cookie sv =
     (if sv_shuttingDown sv then sv
      else sv\<lparr>sv_conns := sv_conns sv @ [newConnection cid ip cookie], sv_connections := sv_connections sv @ [length (sv_conns sv)]\<rparr>)"

definition authTimeout :: "nat \<Rightarrow> ('d, 'w) server \<Rightarrow> ('d, 'w) server" where
  "authTimeout c sv =
     setConn c (\<lambda>cn. if cn_claims cn = None then closeSocket (sendError 0 NotAuthenticated ''auth timeout'' cn) else cn) sv"

definition accountOf :: "access_claims option \<Rightarrow> ident option" where
  "accountOf claims =
     (case claims of None \<Rightarrow> None
      | Some cl \<Rightarrow> (case cl_principal cl of AnonymousPrincipal sid name \<Rightarrow> None | UserPrincipal u name \<Rightarrow> Some u | GuestPrincipal u name \<Rightarrow> Some u))"

definition actorIdOf :: "access_claims \<Rightarrow> ident option" where
  "actorIdOf claims =
     (case cl_principal claims of AnonymousPrincipal sid name \<Rightarrow> None | UserPrincipal u name \<Rightarrow> Some u | GuestPrincipal u name \<Rightarrow> Some u)"

text \<open>The two indexes, as sets of pairs; an empty workspace id is treated as none.\<close>

definition rememberPerson :: "nat \<Rightarrow> ('d, 'w) server \<Rightarrow> ('d, 'w) server" where
  "rememberPerson c sv =
     (let claims = cn_claims (conn sv c);
          sv = (case truthy (map_option cl_workspaceId claims) of
                  None \<Rightarrow> sv
                | Some ws \<Rightarrow> (setConn c (\<lambda>cn. cn\<lparr>cn_workspaceId := Some ws\<rparr>) sv)\<lparr>sv_byWorkspace := List.insert (ws, c) (sv_byWorkspace sv)\<rparr>)
      in (case truthy (accountOf claims) of
            None \<Rightarrow> sv
          | Some u \<Rightarrow> (setConn c (\<lambda>cn. cn\<lparr>cn_accountId := Some u\<rparr>) sv)\<lparr>sv_byUser := List.insert (u, c) (sv_byUser sv)\<rparr>))"

definition forgetPerson :: "nat \<Rightarrow> ('d, 'w) server \<Rightarrow> ('d, 'w) server" where
  "forgetPerson c sv =
     (let sv = (case truthy (cn_workspaceId (conn sv c)) of
                  None \<Rightarrow> sv
                | Some ws \<Rightarrow> (setConn c (\<lambda>cn. cn\<lparr>cn_workspaceId := None\<rparr>) sv)\<lparr>sv_byWorkspace := filter (\<lambda>p. p \<noteq> (ws, c)) (sv_byWorkspace sv)\<rparr>)
      in (case truthy (cn_accountId (conn sv c)) of
            None \<Rightarrow> sv
          | Some u \<Rightarrow> (setConn c (\<lambda>cn. cn\<lparr>cn_accountId := None\<rparr>) sv)\<lparr>sv_byUser := filter (\<lambda>p. p \<noteq> (u, c)) (sv_byUser sv)\<rparr>))"

definition notifyAll :: "nat list \<Rightarrow> string \<Rightarrow> ('d, 'w) server \<Rightarrow> ('d, 'w) server" where
  "notifyAll cs scope sv = fold (\<lambda>c. setConn c (send (SNotify scope))) cs sv"

definition notifyPerson :: "ident \<Rightarrow> string \<Rightarrow> ('d, 'w) server \<Rightarrow> ('d, 'w) server" where
  "notifyPerson userId scope sv = notifyAll (map snd (filter (\<lambda>(u, c). u = userId) (sv_byUser sv))) scope sv"

definition notifyWorkspace :: "ident \<Rightarrow> string \<Rightarrow> ('d, 'w) server \<Rightarrow> ('d, 'w) server" where
  "notifyWorkspace ws scope sv = notifyAll (map snd (filter (\<lambda>(w, c). w = ws) (sv_byWorkspace sv))) scope sv"

section \<open>Authentication\<close>

text \<open>Before the first await: whether the handler goes on, with the session token it will use.\<close>

definition authStart :: "nat \<Rightarrow> auth_payload \<Rightarrow> ('d, 'w) server \<Rightarrow> ('d, 'w) server \<times> (string option \<times> string option) option" where
  "authStart c payload sv =
     (let cn = conn sv c; sessionToken = (case ap_sessionToken payload of Some t \<Rightarrow> Some t | None \<Rightarrow> cn_cookie cn)
      in if cn_claims cn \<noteq> None then
           (setConn c (\<lambda>cn. closeSocket (sendError 0 ProtocolViolation ''already authenticated'' cn)) sv, None)
         else if truthy sessionToken = None \<and> ap_shareToken payload = None then
           (setConn c (\<lambda>cn. closeSocket (sendError 0 AuthFailed ''no credential'' cn)) sv, None)
         else (sv, Some (sessionToken, ap_shareToken payload)))"

text \<open>What the queries behind the awaits of an authentication come back with.\<close>

datatype auth_outcome =
    AuthSession access_claims ident
  | AuthShare access_claims
  | AuthSignInRequired
  | AuthPasswordRequired
  | AuthRefused

definition principalKind :: "principal \<Rightarrow> string" where
  "principalKind p = (case p of UserPrincipal u n \<Rightarrow> ''user'' | GuestPrincipal u n \<Rightarrow> ''guest'' | AnonymousPrincipal s n \<Rightarrow> ''anonymous'')"

definition principalName :: "principal \<Rightarrow> string" where
  "principalName p = (case p of UserPrincipal u n \<Rightarrow> n | GuestPrincipal u n \<Rightarrow> n | AnonymousPrincipal s n \<Rightarrow> n)"

definition authAck :: "access_claims \<Rightarrow> string option \<Rightarrow> json" where
  "authAck claims role =
     JObject ([(''principalKind'', JString (principalKind (cl_principal claims))),
               (''displayName'', JString (principalName (cl_principal claims))),
               (''workspaceRole'', (case role of None \<Rightarrow> JNull | Some r \<Rightarrow> JString r))] @
              (case cl_principal claims of AnonymousPrincipal sid n \<Rightarrow> [(''shareSessionId'', JString sid)] | _ \<Rightarrow> []))"

definition shareCredential :: "access_claims \<Rightarrow> connection_credential option" where
  "shareCredential claims =
     (case (cl_principal claims, queryOne (cl_grants claims)) of
        (AnonymousPrincipal sid n, Some g) \<Rightarrow>
          (case truthy (gr_tokenId g) of None \<Rightarrow> None | Some t \<Rightarrow> Some (ShareCredential t sid))
      | _ \<Rightarrow> None)"

definition authSucceeded :: "nat \<Rightarrow> ('d, 'w) server \<Rightarrow> ('d, 'w) server" where
  "authSucceeded c sv = setConn c (\<lambda>cn. cn\<lparr>cn_authTimer := False\<rparr>) (rememberPerson c sv)"

definition authFinish :: "nat \<Rightarrow> auth_outcome \<Rightarrow> ('d, 'w) server \<Rightarrow> ('d, 'w) server" where
  "authFinish c outcome sv =
     (case outcome of
        AuthRefused \<Rightarrow> setConn c (\<lambda>cn. closeSocket (sendError 0 AuthFailed [] cn)) sv
      | AuthSignInRequired \<Rightarrow> setConn c (\<lambda>cn. closeSocket (sendError 0 AuthFailed ''sign_in_required'' cn)) sv
      | AuthPasswordRequired \<Rightarrow> setConn c (sendError 0 AuthFailed ''password_required'') sv
      | AuthSession claims sid \<Rightarrow>
          authSucceeded c (setConn c (\<lambda>cn. send (SAuthAck (JObject
             [(''principalKind'', JString (principalKind (cl_principal claims))),
              (''displayName'', JString (principalName (cl_principal claims))),
              (''workspaceRole'', (case cl_workspaceRole claims of None \<Rightarrow> JNull | Some r \<Rightarrow> JString r))]))
             (cn\<lparr>cn_claims := Some claims, cn_credential := Some (SessionCredential sid)\<rparr>)) sv)
      | AuthShare claims \<Rightarrow>
          authSucceeded c (setConn c (\<lambda>cn. send (SAuthAck (authAck claims None))
             (cn\<lparr>cn_claims := Some claims,
                 cn_credential := (case shareCredential claims of None \<Rightarrow> cn_credential cn | Some cr \<Rightarrow> Some cr)\<rparr>)) sv))"

text \<open>A query of the authentication throws: a refusal of the auth code is told as such, anything else as internal.\<close>

definition authThrew :: "nat \<Rightarrow> bool \<Rightarrow> ('d, 'w) server \<Rightarrow> ('d, 'w) server" where
  "authThrew c isAuthError sv =
     setConn c (\<lambda>cn. closeSocket (sendError 0 (if isAuthError then AuthFailed else InternalError) [] cn)) sv"

section \<open>Rooms and their subscribers\<close>

fun decimal :: "nat \<Rightarrow> string" where
  "decimal n = (if n < 10 then [hexDigit n] else decimal (n div 10) @ [hexDigit (n mod 10)])"

declare decimal.simps [simp del]

definition subscriberIdOf :: "connection \<Rightarrow> nat \<Rightarrow> string" where
  "subscriberIdOf cn handle = cn_id cn @ '':'' @ decimal handle"

definition roleName :: "role \<Rightarrow> string" where
  "roleName r = (case r of Viewer \<Rightarrow> ''viewer'' | Commenter \<Rightarrow> ''commenter'' | Editor \<Rightarrow> ''editor'' | Admin \<Rightarrow> ''admin'')"

text \<open>What a room has handed to its subscribers leaves through the send functions it was given.\<close>

fun frameFor :: "nat \<Rightarrow> bytes frame \<Rightarrow> server_message" where
  "frameFor handle (SyncFrame payload) = SSync handle payload"
| "frameFor handle (AwarenessFrame payload) = SAwareness handle payload"

definition sinkFrame :: "string \<times> bytes frame \<Rightarrow> ('d, 'w) server \<Rightarrow> ('d, 'w) server" where
  "sinkFrame sf sv =
     (case map_of (sv_sinks sv) (fst sf) of None \<Rightarrow> sv | Some (c, handle) \<Rightarrow> setConn c (send (frameFor handle (snd sf))) sv)"

definition fanOut :: "nat \<Rightarrow> ('d, 'w) server \<Rightarrow> ('d, 'w) server" where
  "fanOut r sv = fold sinkFrame (rm_sent (sv_roomHeap sv ! r)) (setRoom r (\<lambda>room. room\<lparr>rm_sent := []\<rparr>) sv)"

definition withRoom ::
    "nat \<Rightarrow> (('d, bytes, 'w) room \<Rightarrow> ('d, bytes, 'w) room) \<Rightarrow> ('d, 'w) server \<Rightarrow> ('d, 'w) server" where
  "withRoom r f sv = fanOut r (setRoom r f sv)"

definition subscriberCount :: "('d, bytes, 'w) room \<Rightarrow> nat" where
  "subscriberCount room = length (rm_subscribers room)"

definition maybeRetireRoom :: "nat \<Rightarrow> ('d, 'w) server \<Rightarrow> ('d, 'w) server" where
  "maybeRetireRoom r sv =
     (let room = sv_roomHeap sv ! r
      in if 0 < subscriberCount room \<or> rm_destroyed room then sv else setRoom r scheduleLinger sv)"

text \<open>The linger timer fires; the teardown it starts ends with \<^const>\<open>finishDestroy\<close>.\<close>

definition lingerExpired :: "('d, bytes) yjs \<Rightarrow> nat \<Rightarrow> ('d, 'w) server \<Rightarrow> ('d, 'w) server" where
  "lingerExpired Y r sv =
     (let room = sv_roomHeap sv ! r
      in if 0 < subscriberCount room then setRoom r (\<lambda>room. room\<lparr>rm_lingerTimer := False\<rparr>) sv
         else setRoom r (beginDestroy Y) (sv\<lparr>sv_rooms := mapDelete (rm_pageId room) (sv_rooms sv)\<rparr>))"

text \<open>A room that is open and live is given out; otherwise the caller waits for the one promise that loads it.\<close>

definition acquireRoom :: "string \<Rightarrow> room_options \<Rightarrow> ('d, 'w) server \<Rightarrow> ('d, 'w) server \<times> nat option" where
  "acquireRoom docId opts sv =
     (case map_of (sv_rooms sv) docId of
        Some r \<Rightarrow>
          if \<not> rm_destroyed (sv_roomHeap sv ! r) then (sv, Some r)
          else (sv\<lparr>sv_loading := (if map_of (sv_loading sv) docId = None then sv_loading sv @ [(docId, opts)] else sv_loading sv)\<rparr>, None)
      | None \<Rightarrow>
          (sv\<lparr>sv_loading := (if map_of (sv_loading sv) docId = None then sv_loading sv @ [(docId, opts)] else sv_loading sv)\<rparr>, None))"

definition roomLoaded ::
    "('d, bytes) yjs \<Rightarrow> ('w, bytes) awareness_lib \<Rightarrow> string \<Rightarrow> bytes doc_tables \<Rightarrow> ('d, 'w) server \<Rightarrow> ('d, 'w) server \<times> nat option" where
  "roomLoaded Y W docId db sv =
     (case map_of (sv_loading sv) docId of
        None \<Rightarrow> (sv, None)
      | Some opts \<Rightarrow>
          let sv = sv\<lparr>sv_loading := mapDelete docId (sv_loading sv)\<rparr>
          in (case openRoom Y W opts db of
                Inl e \<Rightarrow> (sv, None)
              | Inr room \<Rightarrow>
                  (sv\<lparr>sv_roomHeap := sv_roomHeap sv @ [room], sv_rooms := mapPut docId (length (sv_roomHeap sv)) (sv_rooms sv)\<rparr>,
                   Some (length (sv_roomHeap sv)))))"

section \<open>Opening a document\<close>

text \<open>What a suspended open keeps: its arguments, the page it authorises against, and the claims it passed to the query.\<close>

record pending_open =
  po_conn :: nat
  po_requestId :: nat
  po_asked :: string
  po_pageId :: string
  po_internal :: bool
  po_claims :: access_claims

definition existingHandle :: "connection \<Rightarrow> string \<Rightarrow> (nat \<times> open_document) option" where
  "existingHandle cn asked =
     (case map_of (cn_handlesByPage cn) asked of
        None \<Rightarrow> None
      | Some h \<Rightarrow> map_option (\<lambda>d. (h, d)) (map_of (cn_documents cn) h))"

definition openStart :: "nat \<Rightarrow> nat \<Rightarrow> string \<Rightarrow> ('d, 'w) server \<Rightarrow> ('d, 'w) server \<times> pending_open option" where
  "openStart c requestId asked sv =
     (let cn = conn sv c
      in case readInternalRequest asked of (pageId, internal) \<Rightarrow>
        if maxDocumentsPerConnection \<le> length (cn_documents cn) then (setConn c (sendError requestId TooManyDocuments []) sv, None)
        else case existingHandle cn asked of
          Some (h, d) \<Rightarrow> (setConn c (send (SOpenAck requestId h (roleName (od_role d)))) sv, None)
        | None \<Rightarrow>
            (case cn_claims cn of
               None \<Rightarrow> (setConn c (sendError requestId InternalError []) sv, None)
             | Some claims \<Rightarrow>
                 (sv, Some \<lparr>po_conn = c, po_requestId = requestId, po_asked = asked, po_pageId = pageId,
                            po_internal = internal, po_claims = claims\<rparr>)))"

text \<open>The internal comments are for the people the workspace gives its pages to by default.\<close>

definition mayReadInternal :: "access_claims option \<Rightarrow> bool" where
  "mayReadInternal claims =
     (case claims of
        None \<Rightarrow> False
      | Some cl \<Rightarrow> (case cl_principal cl of UserPrincipal u n \<Rightarrow> cl_pageLevel cl \<noteq> None | _ \<Rightarrow> False))"

definition roomDocId :: "(bytes \<Rightarrow> bytes) \<Rightarrow> pending_open \<Rightarrow> string" where
  "roomDocId sha1 p = (if po_internal p then internalDocId (po_pageId p) sha1 else po_pageId p)"

definition roomOptions :: "(bytes \<Rightarrow> bytes) \<Rightarrow> pending_open \<Rightarrow> ident \<Rightarrow> room_options" where
  "roomOptions sha1 p ws =
     \<lparr>ro_pageId = roomDocId sha1 p, ro_workspaceId = ws, ro_commentsFor = (if po_internal p then Some (po_pageId p) else None)\<rparr>"

text \<open>The query of the authorisation comes back: the handler goes on with the granted role, to a room or to wait for one.\<close>

definition openAuthorized ::
    "(bytes \<Rightarrow> bytes) \<Rightarrow> database \<Rightarrow> pending_open \<Rightarrow> ('d, 'w) server \<Rightarrow> ('d, 'w) server \<times> (role \<times> nat option) option" where
  "openAuthorized sha1 db p sv =
     (case authorizeDocumentOpen db (po_claims p) (po_pageId p) Viewer of
        Inl e \<Rightarrow> (setConn (po_conn p) (sendError (po_requestId p) NotAuthorized []) sv, None)
      | Inr (role, page) \<Rightarrow>
          if po_internal p \<and> \<not> mayReadInternal (cn_claims (conn sv (po_conn p)))
          then (setConn (po_conn p) (sendError (po_requestId p) NotAuthorized []) sv, None)
          else (case acquireRoom (roomDocId sha1 p) (roomOptions sha1 p (loc_workspaceId page)) sv of
                  (sv, r) \<Rightarrow> (sv, Some (role, r))))"

text \<open>The query throws, or the room cannot be loaded.\<close>

definition openFailed :: "pending_open \<Rightarrow> ('d, 'w) server \<Rightarrow> ('d, 'w) server" where
  "openFailed p sv = setConn (po_conn p) (sendError (po_requestId p) InternalError []) sv"

definition openFinish ::
    "('d, bytes) yjs \<Rightarrow> ('w, bytes) awareness_lib \<Rightarrow> pending_open \<Rightarrow> role \<Rightarrow> nat \<Rightarrow> ('d, 'w) server \<Rightarrow> ('d, 'w) server" where
  "openFinish Y W p role r sv =
     (let c = po_conn p; cn = conn sv c; handle = cn_nextHandle cn; sid = subscriberIdOf cn handle;
          doc = \<lparr>od_handle = handle, od_pageId = po_pageId p, od_role = role, od_room = r, od_subscriberId = sid\<rparr>;
          sv = setRoom r (addSubscriber \<lparr>su_id = sid, su_handle = handle, su_canWrite = atLeast_role role Editor\<rparr>)
                 (sv\<lparr>sv_sinks := (sid, (c, handle)) # sv_sinks sv\<rparr>);
          room = sv_roomHeap sv ! r;
          opened = (\<lambda>cn. cn\<lparr>cn_nextHandle := handle + 1, cn_documents := mapPut handle doc (cn_documents cn),
                           cn_handlesByPage := mapPut (po_asked p) handle (cn_handlesByPage cn)\<rparr>);
          greet = (\<lambda>cn. send (SSync handle (encodeSyncStep1 Y room)) (send (SOpenAck (po_requestId p) handle (roleName role)) cn));
          present = (\<lambda>cn. case encodeAwarenessState W room of None \<Rightarrow> cn | Some a \<Rightarrow> send (SAwareness handle a) cn)
      in setConn c (\<lambda>cn. present (greet (opened cn))) sv)"

section \<open>Messages about an open document\<close>

definition refuseMalformed :: "nat \<Rightarrow> ('d, 'w) server \<Rightarrow> ('d, 'w) server" where
  "refuseMalformed c sv = setConn c (\<lambda>cn. closeSocket (sendError 0 ProtocolViolation ''malformed payload'' cn)) sv"

definition handleSync :: "('d, bytes) yjs \<Rightarrow> time \<Rightarrow> nat \<Rightarrow> nat \<Rightarrow> bytes \<Rightarrow> ('d, 'w) server \<Rightarrow> ('d, 'w) server" where
  "handleSync Y now c handle payload sv =
     (case map_of (cn_documents (conn sv c)) handle of
        None \<Rightarrow> setConn c (sendError 0 UnknownHandle []) sv
      | Some doc \<Rightarrow>
          let allowed = snd (recordUpdate now (conn sv c)); sv = setConn c (\<lambda>cn. fst (recordUpdate now cn)) sv
          in if \<not> allowed then setConn c (sendError 0 sync_error.RateLimited []) sv
             else let canWrite = atLeast_role (od_role doc) Editor; r = od_room doc;
                      actor = (case cn_claims (conn sv c) of None \<Rightarrow> None | Some cl \<Rightarrow> actorIdOf cl);
                      sv = (if canWrite then setRoom r (setActor actor) sv else sv)
                  in case handleSyncMessage Y (od_subscriberId doc) payload canWrite (sv_roomHeap sv ! r) of
                       None \<Rightarrow> refuseMalformed c sv
                     | Some (room, reply, rejected) \<Rightarrow>
                         let sv = withRoom r (\<lambda>_. room) sv
                         in if rejected then setConn c (sendError 0 ReadOnly []) sv
                            else (case reply of None \<Rightarrow> sv | Some m \<Rightarrow> setConn c (send (SSync handle m)) sv))"

text \<open>Reading an awareness message can throw as well.\<close>

definition handleAwareness ::
    "('w, bytes) awareness_lib \<Rightarrow> (bytes \<Rightarrow> bool) \<Rightarrow> nat \<Rightarrow> nat \<Rightarrow> bytes \<Rightarrow> ('d, 'w) server \<Rightarrow> ('d, 'w) server" where
  "handleAwareness W readable c handle payload sv =
     (case map_of (cn_documents (conn sv c)) handle of
        None \<Rightarrow> setConn c (sendError 0 UnknownHandle []) sv
      | Some doc \<Rightarrow>
          if readable payload then withRoom (od_room doc) (handleAwarenessMessage W (od_subscriberId doc) payload) sv
          else refuseMalformed c sv)"

definition handleCloseDocument :: "('w, bytes) awareness_lib \<Rightarrow> nat \<Rightarrow> nat \<Rightarrow> ('d, 'w) server \<Rightarrow> ('d, 'w) server" where
  "handleCloseDocument W c handle sv =
     (case map_of (cn_documents (conn sv c)) handle of
        None \<Rightarrow> sv
      | Some doc \<Rightarrow>
          maybeRetireRoom (od_room doc)
            (setConn c (\<lambda>cn. cn\<lparr>cn_documents := mapDelete handle (cn_documents cn),
                              cn_handlesByPage := mapDelete (od_pageId doc) (cn_handlesByPage cn)\<rparr>)
              (withRoom (od_room doc) (removeSubscriber W (od_subscriberId doc)) sv)))"

text \<open>\<open>onMessage\<close>: an open or an authentication is suspended, everything else is done at once. A first
  component tells what is suspended.\<close>

datatype suspended = Done | Authenticating "string option" "string option" auth_payload | Opening pending_open

definition onMessage ::
    "lib0 \<Rightarrow> ('d, bytes) yjs \<Rightarrow> ('w, bytes) awareness_lib \<Rightarrow> (bytes \<Rightarrow> bool) \<Rightarrow> time \<Rightarrow> nat \<Rightarrow> bytes \<Rightarrow> ('d, 'w) server \<Rightarrow>
     suspended \<times> ('d, 'w) server" where
  "onMessage L Y W readable now c data sv =
     (case decodeClientMessage L data of
        Inl code \<Rightarrow> (Done, setConn c (\<lambda>cn. closeSocket (sendError 0 code [] cn)) sv)
      | Inr (CAuth payload) \<Rightarrow>
          (case authStart c payload sv of
             (sv, None) \<Rightarrow> (Done, sv)
           | (sv, Some (session, share)) \<Rightarrow> (Authenticating session share payload, sv))
      | Inr m \<Rightarrow>
          if cn_claims (conn sv c) = None then (Done, setConn c (\<lambda>cn. closeSocket (sendError 0 NotAuthenticated [] cn)) sv)
          else (case m of
                  COpen requestId asked \<Rightarrow>
                    (case openStart c requestId asked sv of (sv, None) \<Rightarrow> (Done, sv) | (sv, Some p) \<Rightarrow> (Opening p, sv))
                | CSync handle payload \<Rightarrow> (Done, handleSync Y now c handle payload sv)
                | CAwareness handle payload \<Rightarrow> (Done, handleAwareness W readable c handle payload sv)
                | CClose handle \<Rightarrow> (Done, handleCloseDocument W c handle sv)
                | _ \<Rightarrow> (Done, setConn c (send SPong) sv)))"

section \<open>Closing and revocation\<close>

definition releaseDocument :: "('w, bytes) awareness_lib \<Rightarrow> open_document \<Rightarrow> ('d, 'w) server \<Rightarrow> ('d, 'w) server" where
  "releaseDocument W doc sv = maybeRetireRoom (od_room doc) (withRoom (od_room doc) (removeSubscriber W (od_subscriberId doc)) sv)"

definition onClose :: "('w, bytes) awareness_lib \<Rightarrow> nat \<Rightarrow> ('d, 'w) server \<Rightarrow> ('d, 'w) server" where
  "onClose W c sv =
     (let sv = forgetPerson c (sv\<lparr>sv_connections := filter (\<lambda>x. x \<noteq> c) (sv_connections sv)\<rparr>);
          sv = setConn c (\<lambda>cn. cn\<lparr>cn_authTimer := False, cn_socketOpen := False\<rparr>) sv;
          sv = fold (releaseDocument W) (map snd (cn_documents (conn sv c))) sv
      in setConn c (\<lambda>cn. cn\<lparr>cn_documents := [], cn_handlesByPage := []\<rparr>) sv)"

definition closeRevoked :: "('w, bytes) awareness_lib \<Rightarrow> nat \<Rightarrow> open_document \<Rightarrow> ('d, 'w) server \<Rightarrow> ('d, 'w) server" where
  "closeRevoked W c doc sv =
     handleCloseDocument W c (od_handle doc) (setConn c (send (SClosed (od_handle doc) (errorCode NotAuthorized))) sv)"

text \<open>The claims come back; then each document that was open is checked against the page as it is then.\<close>

definition revalidateStart ::
    "('w, bytes) awareness_lib \<Rightarrow> standing_error + access_claims option \<Rightarrow> nat \<Rightarrow> ('d, 'w) server \<Rightarrow> ('d, 'w) server \<times> open_document list" where
  "revalidateStart W result c sv =
     (case result of
        Inl e \<Rightarrow> (sv, [])
      | Inr None \<Rightarrow>
          (setConn c (\<lambda>cn. closeSocket (sendError 0 NotAuthorized [] cn))
             (fold (closeRevoked W c) (map snd (cn_documents (conn sv c))) sv), [])
      | Inr (Some claims) \<Rightarrow>
          (setConn c (\<lambda>cn. cn\<lparr>cn_claims := Some claims\<rparr>) sv, map snd (cn_documents (conn sv c))))"

definition setRole :: "nat \<Rightarrow> nat \<Rightarrow> role \<Rightarrow> ('d, 'w) server \<Rightarrow> ('d, 'w) server" where
  "setRole c handle role sv =
     setConn c (\<lambda>cn. cn\<lparr>cn_documents := map (\<lambda>(h, d). (h, if h = handle then d\<lparr>od_role := role\<rparr> else d)) (cn_documents cn)\<rparr>) sv"

definition revalidateDocument ::
    "('w, bytes) awareness_lib \<Rightarrow> database \<Rightarrow> access_claims \<Rightarrow> nat \<Rightarrow> open_document \<Rightarrow> ('d, 'w) server \<Rightarrow> ('d, 'w) server" where
  "revalidateDocument W db claims c doc sv =
     (let role = (case loadPageLocation db (od_pageId doc) of None \<Rightarrow> None | Some page \<Rightarrow> effectiveRole claims page);
          recorded = (case map_of (cn_documents (conn sv c)) (od_handle doc) of None \<Rightarrow> od_role doc | Some d \<Rightarrow> od_role d)
      in case role of
           None \<Rightarrow> closeRevoked W c doc sv
         | Some role \<Rightarrow>
             if role \<noteq> recorded
             then setConn c (send (SRoleChanged (od_handle doc) (roleName role)))
                    (setRoom (od_room doc) (setSubscriberWritable (od_subscriberId doc) (atLeast_role role Editor))
                      (setRole c (od_handle doc) role sv))
             else sv)"

definition revalidateConnection ::
    "('w, bytes) awareness_lib \<Rightarrow> gate \<Rightarrow> time \<Rightarrow> database \<Rightarrow> nat \<Rightarrow> ('d, 'w) server \<Rightarrow> ('d, 'w) server" where
  "revalidateConnection W gate now db c sv =
     (case (cn_credential (conn sv c), cn_claims (conn sv c)) of
        (Some credential, Some old) \<Rightarrow>
          (let result = revalidateClaims gate now credential (cl_workspaceId old) db
           in case revalidateStart W result c sv of
                (sv, docs) \<Rightarrow>
                  (case result of Inr (Some claims) \<Rightarrow> fold (revalidateDocument W db claims c) docs sv | _ \<Rightarrow> sv))
      | _ \<Rightarrow> sv)"

text \<open>A nudge about access: while the workspace is being revalidated it is only noted. What runs are the
  connections of the workspace, and once more if a nudge was noted meanwhile.\<close>

definition revalidateWorkspaceStart :: "ident \<Rightarrow> ('d, 'w) server \<Rightarrow> ('d, 'w) server \<times> nat list option" where
  "revalidateWorkspaceStart ws sv =
     (if ws \<in> set (sv_revalidating sv) then (sv\<lparr>sv_revalidateAgain := List.insert ws (sv_revalidateAgain sv)\<rparr>, None)
      else (sv\<lparr>sv_revalidating := List.insert ws (sv_revalidating sv)\<rparr>,
            Some (map snd (filter (\<lambda>(w, c). w = ws) (sv_byWorkspace sv)))))"

definition revalidateWorkspaceEnd :: "ident \<Rightarrow> ('d, 'w) server \<Rightarrow> ('d, 'w) server \<times> nat list option" where
  "revalidateWorkspaceEnd ws sv =
     (let sv = sv\<lparr>sv_revalidating := removeAll ws (sv_revalidating sv)\<rparr>
      in if ws \<in> set (sv_revalidateAgain sv)
         then revalidateWorkspaceStart ws (sv\<lparr>sv_revalidateAgain := removeAll ws (sv_revalidateAgain sv)\<rparr>)
         else (sv, None))"

definition revalidateAll ::
    "('w, bytes) awareness_lib \<Rightarrow> gate \<Rightarrow> time \<Rightarrow> database \<Rightarrow> ('d, 'w) server \<Rightarrow> ('d, 'w) server" where
  "revalidateAll W gate now db sv = fold (revalidateConnection W gate now db) (sv_connections sv) sv"

text \<open>A notification of a workspace: access is for this server, a listed scope goes out, anything else is ignored.\<close>

definition onWorkspaceChanged :: "ident \<Rightarrow> string \<Rightarrow> ('d, 'w) server \<Rightarrow> ('d, 'w) server \<times> nat list option" where
  "onWorkspaceChanged ws scope sv =
     (if scope = ACCESS_SCOPE then revalidateWorkspaceStart ws sv
      else if scope \<notin> set WORKSPACE_SCOPES then (sv, None)
      else (notifyWorkspace ws scope sv, None))"

section \<open>Shutdown\<close>

definition drainRooms :: "('d, bytes) yjs \<Rightarrow> ('d, 'w) server \<Rightarrow> ('d, 'w) server" where
  "drainRooms Y sv = fold (\<lambda>r. setRoom r (beginDestroy Y)) (map snd (sv_rooms sv)) (sv\<lparr>sv_rooms := []\<rparr>)"

definition shutdown :: "('d, bytes) yjs \<Rightarrow> ('d, 'w) server \<Rightarrow> ('d, 'w) server" where
  "shutdown Y sv = drainRooms Y (fold (\<lambda>c. setConn c closeSocket) (sv_connections sv) (sv\<lparr>sv_shuttingDown := True\<rparr>))"

definition poisonedRooms :: "('d, 'w) server \<Rightarrow> (string \<times> string option) list" where
  "poisonedRooms sv =
     map (\<lambda>room. (rm_pageId room, rm_poisonReason room)) (filter isPoisoned (map (\<lambda>(k, r). sv_roomHeap sv ! r) (sv_rooms sv)))"

end
