(* ===== verification/Server_Safety.thy ===== *)
theory Server_Safety
  imports Sync_Server Room_Safety Share_Links
begin

text \<open>
  What the sync server guarantees: the rate limit over any window, who can change a document, what a
  revalidation leaves open; and two faults of the table of handles by page.
\<close>

section \<open>The rate limit\<close>

text \<open>The calls of a connection in turn: the times at which one was let through.\<close>

fun acceptedTimes :: "time list \<Rightarrow> connection \<Rightarrow> time list" where
  "acceptedTimes [] cn = []"
| "acceptedTimes (t # ts) cn =
     (case recordUpdate t cn of (cn', ok) \<Rightarrow> (if ok then [t] else []) @ acceptedTimes ts cn')"

definition inWindow :: "time \<Rightarrow> time \<Rightarrow> bool" where
  "inWindow t x = (t - rateWindowMs < x)"

lemma inWindow_less: "inWindow t = (<) (t - rateWindowMs)"
  by (simp add: inWindow_def fun_eq_iff)

lemma recordUpdate_accepts:
  "recordUpdate t cn = (cn\<lparr>cn_updateTimestamps := filter (inWindow t) (cn_updateTimestamps cn) @ [t]\<rparr>,
     length (filter (inWindow t) (cn_updateTimestamps cn)) < 2000)"
proof -
  have "(\<lambda>x. t - rateWindowMs < x) = inWindow t" by (simp add: inWindow_def fun_eq_iff)
  then show ?thesis by (simp only: recordUpdate_def Let_def) (auto simp: maxUpdatesPerSecond_def rateWindowMs_def)
qed

lemma window_nested: "s \<le> t \<Longrightarrow> (inWindow s x \<and> inWindow t x) = inWindow t x"
  by (auto simp: inWindow_def)

lemma window_now: "inWindow t t"
  by (simp add: inWindow_def rateWindowMs_def)

text \<open>What a call is compared with is the calls of its window, those refused included.\<close>

definition letThrough :: "time list \<Rightarrow> time \<Rightarrow> bool" where
  "letThrough earlier t = (length (filter (inWindow t) earlier) < 2000)"

fun letThroughTimes :: "time list \<Rightarrow> time list \<Rightarrow> time list" where
  "letThroughTimes earlier [] = []"
| "letThroughTimes earlier (t # ts) = (if letThrough earlier t then [t] else []) @ letThroughTimes (earlier @ [t]) ts"

lemma acceptedTimes_history:
  assumes "sorted ts" and "\<forall>t \<in> set ts. m \<le> t" and "cn_updateTimestamps cn = filter (inWindow m) earlier"
  shows "acceptedTimes ts cn = letThroughTimes earlier ts"
  using assms
proof (induction ts arbitrary: m cn earlier)
  case (Cons t ts)
  have now: "filter (inWindow t) (cn_updateTimestamps cn) = filter (inWindow t) earlier"
    using Cons.prems window_nested [of m t] by simp
  have "acceptedTimes ts (cn\<lparr>cn_updateTimestamps := filter (inWindow t) earlier @ [t]\<rparr>) = letThroughTimes (earlier @ [t]) ts"
    using Cons.prems by (intro Cons.IH [of t]) (simp_all add: window_now)
  then show ?case by (simp add: recordUpdate_accepts now letThrough_def)
qed simp

lemma letThroughTimes_snoc:
  "letThroughTimes earlier (ts @ [t]) = letThroughTimes earlier ts @ (if letThrough (earlier @ ts) t then [t] else [])"
  by (induction ts arbitrary: earlier) auto

lemma letThroughTimes_fewer:
  assumes "\<And>x. P x \<Longrightarrow> Q x"
  shows "length (filter P (letThroughTimes earlier ts)) \<le> length (filter Q ts)"
proof (induction ts arbitrary: earlier)
  case (Cons t ts)
  have "length (filter P (letThroughTimes (earlier @ [t]) ts)) \<le> length (filter Q ts)" by (rule Cons)
  then show ?case using assms [of t] by auto
qed simp

lemma letThroughTimes_bound:
  "sorted ts \<Longrightarrow> length (filter (\<lambda>a. inWindow t a \<and> a \<le> t) (letThroughTimes [] ts)) \<le> 2000"
proof (induction ts rule: rev_induct)
  case (snoc a ts)
  have rest: "length (filter (\<lambda>a. inWindow t a \<and> a \<le> t) (letThroughTimes [] ts)) \<le> 2000"
    using snoc by (simp add: sorted_append)
  show ?case
  proof (cases "letThrough ts a \<and> inWindow t a \<and> a \<le> t")
    case True
    have "length (filter (\<lambda>a. inWindow t a \<and> a \<le> t) (letThroughTimes [] ts)) \<le> length (filter (inWindow a) ts)"
      using True by (intro letThroughTimes_fewer) (auto simp: inWindow_def)
    then show ?thesis using True by (simp add: letThroughTimes_snoc letThrough_def)
  next
    case False
    then show ?thesis using rest by (auto simp: letThroughTimes_snoc)
  qed
qed simp

text \<open>C28: the rate limit holds over every window and not only over aligned ones: whenever a connection's
  messages arrive, at most 2000 of them are let through in any ten seconds; and a message is let through
  exactly when fewer than 2000 arrived in the ten seconds before it.\<close>

theorem rate_limit_holds:
  assumes "sorted (ts @ [now])"
  shows "length (filter (\<lambda>a. t - rateWindowMs < a \<and> a \<le> t) (acceptedTimes (ts @ [now]) (newConnection cid ip cookie))) \<le> 2000 \<and>
    acceptedTimes (ts @ [now]) (newConnection cid ip cookie) =
      acceptedTimes ts (newConnection cid ip cookie) @
      (if length (filter (\<lambda>a. now - rateWindowMs < a) ts) < 2000 then [now] else [])"
proof -
  have all: "acceptedTimes us (newConnection cid ip cookie) = letThroughTimes [] us" if "sorted us" for us
  proof (cases us)
    case (Cons u vs)
    then show ?thesis using that
      by (intro acceptedTimes_history [of _ u]) (auto simp: newConnection_def)
  qed simp
  have "sorted ts" using assms by (simp add: sorted_append)
  then show ?thesis
    using letThroughTimes_bound [OF assms, of t] all [OF assms] all [of ts]
    by (simp add: letThroughTimes_snoc letThrough_def inWindow_less)
qed

theorem rate_limit_holds_witness:
  "acceptedTimes [0, 5, 9, 20000] (newConnection ''c'' None None) = [0, 5, 9, 20000]"
proof -
  have "sorted ([0, 5, 9] @ [20000 :: time])" "sorted ([0, 5] @ [9 :: time])" "sorted ([0] @ [5 :: time])" "sorted ([] @ [0 :: time])" by simp_all
  then show ?thesis
    using rate_limit_holds [of "[0, 5, 9]" 20000 0 "''c''" None None] rate_limit_holds [of "[0, 5]" 9 0 "''c''" None None]
      rate_limit_holds [of "[0]" 5 0 "''c''" None None] rate_limit_holds [of "[]" 0 0 "''c''" None None]
    by simp
qed

section \<open>Who can change a document\<close>

text \<open>What of a room is or becomes stored, and who it is recorded for.\<close>

definition written :: "('d, bytes, 'w) room \<Rightarrow> 'd \<times> bytes list \<times> string option" where
  "written room = (rm_doc room, rm_pending room, rm_lastActor room)"

lemma setConn_heap [simp]: "sv_roomHeap (setConn c f sv) = sv_roomHeap sv"
  by (simp add: setConn_def)

lemma setRoom_conns [simp]: "sv_conns (setRoom r f sv) = sv_conns sv"
  by (simp add: setRoom_def)

lemma sinkFrame_heap [simp]: "sv_roomHeap (sinkFrame sf sv) = sv_roomHeap sv"
  by (auto simp: sinkFrame_def split: option.split)

lemma fold_sinkFrame_heap [simp]: "sv_roomHeap (fold sinkFrame fs sv) = sv_roomHeap sv"
  by (induction fs arbitrary: sv) simp_all

lemma written_setRoom:
  "written (f (sv_roomHeap sv ! r)) = written (sv_roomHeap sv ! r) \<Longrightarrow>
   written (sv_roomHeap (setRoom r f sv) ! q) = written (sv_roomHeap sv ! q)"
  by (cases "r = q"; cases "r < length (sv_roomHeap sv)") (simp_all add: setRoom_def list_update_beyond)

lemma written_fanOut: "written (sv_roomHeap (fanOut r sv) ! q) = written (sv_roomHeap sv ! q)"
proof -
  have "written (sv_roomHeap (setRoom r (\<lambda>room. room\<lparr>rm_sent := []\<rparr>) sv) ! q) = written (sv_roomHeap sv ! q)"
    by (rule written_setRoom) (simp add: written_def)
  then show ?thesis by (simp add: fanOut_def)
qed

lemma written_withRoom:
  "written (f (sv_roomHeap sv ! r)) = written (sv_roomHeap sv ! r) \<Longrightarrow>
   written (sv_roomHeap (withRoom r f sv) ! q) = written (sv_roomHeap sv ! q)"
  by (simp add: withRoom_def written_fanOut written_setRoom)

lemma written_elsewhere: "r \<noteq> q \<Longrightarrow> sv_roomHeap (setRoom r f sv) ! q = sv_roomHeap sv ! q"
  by (simp add: setRoom_def)

lemma written_withRoom_elsewhere: "r \<noteq> q \<Longrightarrow> written (sv_roomHeap (withRoom r f sv) ! q) = written (sv_roomHeap sv ! q)"
  by (simp add: withRoom_def written_fanOut written_elsewhere)

lemma written_leaves: "written (removeSubscriber W sid room) = written room"
  by (auto simp: written_def removeSubscriber_fields removeSubscriber_def onAwarenessUpdate_def Let_def split: prod.split)

lemma written_awareness: "written (handleAwarenessMessage W sid m room) = written room"
  by (auto simp: written_def handleAwarenessMessage_def onAwarenessUpdate_def Let_def split: prod.split)

lemma written_retire:
  fixes sv :: "('d, 'w) server"
  shows "written (sv_roomHeap (maybeRetireRoom r sv) ! q) = written (sv_roomHeap sv ! q)"
proof -
  have "written (scheduleLinger room) = written room" for room :: "('d, bytes, 'w) room"
    by (simp add: written_def scheduleLinger_def)
  then show ?thesis by (simp add: maybeRetireRoom_def Let_def written_setRoom)
qed

lemma written_reader:
  "handleSyncMessage Y sid m False room = Some (room', reply, rejected) \<Longrightarrow> written room' = written room"
  by (auto simp: handleSyncMessage_def Let_def split: option.splits sync_message.splits if_splits)

lemma written_handleClose: "written (sv_roomHeap (handleCloseDocument W c h sv) ! q) = written (sv_roomHeap sv ! q)"
  by (auto simp: handleCloseDocument_def written_retire written_withRoom written_leaves split: option.split)

lemma written_handleAwareness:
  "written (sv_roomHeap (handleAwareness W readable c h m sv) ! q) = written (sv_roomHeap sv ! q)"
  by (auto simp: handleAwareness_def refuseMalformed_def written_withRoom written_awareness split: option.split)

lemma written_handleSync:
  assumes "written (sv_roomHeap (handleSync Y now c h m sv) ! q) \<noteq> written (sv_roomHeap sv ! q)"
  shows "\<exists>doc. map_of (cn_documents (conn sv c)) h = Some doc \<and> od_room doc = q \<and> atLeast_role (od_role doc) Editor \<and>
    snd (recordUpdate now (conn sv c))"
proof (cases "map_of (cn_documents (conn sv c)) h")
  case None
  then show ?thesis using assms by (simp add: handleSync_def)
next
  case (Some doc)
  let ?r = "od_room doc" and ?sv = "setConn c (\<lambda>cn. fst (recordUpdate now cn)) sv"
  have limit: "snd (recordUpdate now (conn sv c))"
    using assms Some by (auto simp: handleSync_def Let_def split: if_splits)
  have role: "atLeast_role (od_role doc) Editor"
  proof (rule ccontr)
    assume "\<not> atLeast_role (od_role doc) Editor"
    then have "written (sv_roomHeap (handleSync Y now c h m sv) ! q) = written (sv_roomHeap sv ! q)"
      using Some limit
      by (auto simp: handleSync_def Let_def refuseMalformed_def split: option.split
          dest!: written_reader intro!: written_withRoom [where sv = ?sv, simplified])
    with assms show False by simp
  qed
  have "?r = q"
  proof (rule ccontr)
    assume "?r \<noteq> q"
    then have "written (sv_roomHeap (handleSync Y now c h m sv) ! q) = written (sv_roomHeap sv ! q)"
      using Some limit
      by (auto simp: handleSync_def Let_def refuseMalformed_def written_withRoom_elsewhere written_elsewhere split: option.split)
    with assms show False by simp
  qed
  then show ?thesis using Some limit role by blast
qed


lemma written_rememberPerson [simp]: "sv_roomHeap (rememberPerson c sv) = sv_roomHeap sv"
  by (simp add: rememberPerson_def Let_def split: option.split)

lemma written_authStart: "authStart c p sv = (sv', next) \<Longrightarrow> sv_roomHeap sv' = sv_roomHeap sv"
  by (auto simp: authStart_def Let_def split: if_splits)

lemma written_openStart: "openStart c requestId asked sv = (sv', next) \<Longrightarrow> sv_roomHeap sv' = sv_roomHeap sv"
  by (auto simp: openStart_def Let_def split: if_splits option.splits prod.splits)

text \<open>C26: a document changes only through somebody who may edit it. Whatever bytes arrive on a
  connection: if a room's document, what it has still to store or the person it is recorded for is
  different afterwards, then the connection had authenticated, had that document open with the role of an
  editor or more, the frame was a sync message for it, and the rate limit let it through.\<close>

theorem only_editors_write:
  assumes "onMessage L Y W readable now c data sv = (next, sv')"
    and "(rm_doc (sv_roomHeap sv' ! r), rm_pending (sv_roomHeap sv' ! r), rm_lastActor (sv_roomHeap sv' ! r)) \<noteq>
      (rm_doc (sv_roomHeap sv ! r), rm_pending (sv_roomHeap sv ! r), rm_lastActor (sv_roomHeap sv ! r))"
  shows "\<exists>handle payload doc. decodeClientMessage L data = Inr (CSync handle payload) \<and> cn_claims (conn sv c) \<noteq> None \<and>
    map_of (cn_documents (conn sv c)) handle = Some doc \<and> od_room doc = r \<and> Editor \<le> od_role doc \<and>
    snd (recordUpdate now (conn sv c))"
proof -
  have changed: "written (sv_roomHeap sv' ! r) \<noteq> written (sv_roomHeap sv ! r)" using assms(2) by (simp add: written_def)
  show ?thesis
  proof (cases "decodeClientMessage L data")
    case (Inl e)
    then show ?thesis using assms(1) changed by (auto simp: onMessage_def)
  next
    case (Inr m)
    have claims: "cn_claims (conn sv c) \<noteq> None"
      using assms(1) changed Inr
      by (cases m) (auto simp: onMessage_def split: prod.splits option.splits if_splits dest: written_authStart)
    show ?thesis
    proof (cases m)
      case (CSync h payload)
      then have "sv' = handleSync Y now c h payload sv" using assms(1) Inr claims by (simp add: onMessage_def)
      then show ?thesis
        using written_handleSync [of Y now c h payload sv r] changed Inr CSync claims by (auto simp: atLeast_role_iff)
    qed (use assms(1) changed Inr claims in \<open>auto simp: onMessage_def written_handleAwareness written_handleClose
        split: prod.splits option.splits dest: written_authStart written_openStart\<close>)
  qed
qed


section \<open>What a revalidation leaves open\<close>

lemma send_fields [simp]:
  "cn_documents (send m cn) = cn_documents cn" "cn_claims (send m cn) = cn_claims cn"
  "cn_documents (sendError i e d cn) = cn_documents cn" "cn_claims (sendError i e d cn) = cn_claims cn"
  "cn_documents (closeSocket cn) = cn_documents cn" "cn_claims (closeSocket cn) = cn_claims cn"
  by (simp_all add: send_def sendError_def closeSocket_def)

text \<open>The claims of a connection and the documents it has open; \<open>keepsTables\<close> says that a step leaves them alone.\<close>

definition tables :: "('d, 'w) server \<Rightarrow> nat \<Rightarrow> access_claims option \<times> (nat \<times> open_document) list" where
  "tables sv c = (cn_claims (conn sv c), cn_documents (conn sv c))"

lemma conns_setConn [simp]: "length (sv_conns (setConn c f sv)) = length (sv_conns sv)"
  by (simp add: setConn_def)

lemma conn_setConn:
  "conn (setConn c f sv) k = (if k = c \<and> c < length (sv_conns sv) then f (conn sv c) else conn sv k)"
  by (auto simp: setConn_def conn_def nth_list_update list_update_beyond)

lemma tables_setRoom [simp]: "tables (setRoom r f sv) c = tables sv c"
  by (simp add: tables_def conn_def)

lemma tables_sinkFrame [simp]: "tables (sinkFrame sf sv) c = tables sv c" "length (sv_conns (sinkFrame sf sv)) = length (sv_conns sv)"
  by (auto simp: sinkFrame_def tables_def conn_setConn split: option.split)

lemma tables_fold_sinkFrame [simp]:
  "tables (fold sinkFrame fs sv) c = tables sv c" "length (sv_conns (fold sinkFrame fs sv)) = length (sv_conns sv)"
  by (induction fs arbitrary: sv) simp_all

lemma tables_withRoom [simp]:
  "tables (withRoom r f sv) c = tables sv c" "length (sv_conns (withRoom r f sv)) = length (sv_conns sv)"
  by (simp_all add: withRoom_def fanOut_def)

lemma tables_retire [simp]:
  "tables (maybeRetireRoom r sv) c = tables sv c" "length (sv_conns (maybeRetireRoom r sv)) = length (sv_conns sv)"
  by (simp_all add: maybeRetireRoom_def Let_def)

lemma mapDelete_absent: "map_of m k = None \<Longrightarrow> mapDelete k m = m"
  by (induction m) (auto simp: mapDelete_def split: if_splits)

lemma tables_close:
  assumes "c < length (sv_conns sv)"
  shows "tables (handleCloseDocument W c h sv) c = (fst (tables sv c), mapDelete h (snd (tables sv c)))"
    "length (sv_conns (handleCloseDocument W c h sv)) = length (sv_conns sv)"
proof -
  have inner: "cn_documents (conn (withRoom r f sv) c) = cn_documents (conn sv c)" "cn_claims (conn (withRoom r f sv) c) = cn_claims (conn sv c)"
    for r f using tables_withRoom(1) [of r f sv c] by (simp_all add: tables_def)
  show "tables (handleCloseDocument W c h sv) c = (fst (tables sv c), mapDelete h (snd (tables sv c)))"
    using assms by (cases "map_of (cn_documents (conn sv c)) h")
      (simp_all add: handleCloseDocument_def mapDelete_absent, simp_all add: tables_def conn_setConn inner mapDelete_absent)
  show "length (sv_conns (handleCloseDocument W c h sv)) = length (sv_conns sv)"
    by (simp add: handleCloseDocument_def split: option.split)
qed

lemma tables_closeRevoked:
  assumes "c < length (sv_conns sv)"
  shows "tables (closeRevoked W c d sv) c = (fst (tables sv c), mapDelete (od_handle d) (snd (tables sv c)))"
    "length (sv_conns (closeRevoked W c d sv)) = length (sv_conns sv)"
  using assms by (simp_all add: closeRevoked_def tables_close) (simp add: tables_def conn_setConn)

text \<open>The role the claims give on the page of a document.\<close>

definition roleNow :: "database \<Rightarrow> access_claims \<Rightarrow> open_document \<Rightarrow> role option" where
  "roleNow db claims d = (case loadPageLocation db (od_pageId d) of None \<Rightarrow> None | Some page \<Rightarrow> effectiveRole claims page)"

definition regranted :: "database \<Rightarrow> access_claims \<Rightarrow> nat \<times> open_document \<Rightarrow> (nat \<times> open_document) option" where
  "regranted db claims pair = map_option (\<lambda>role. (fst pair, (snd pair)\<lparr>od_role := role\<rparr>)) (roleNow db claims (snd pair))"

lemma keyed_unchanged:
  "h \<notin> fst ` set ds \<Longrightarrow> filter (\<lambda>(k, x). k \<noteq> h) ds = ds"
  "h \<notin> fst ` set ds \<Longrightarrow> map (\<lambda>(k, x). (k, if k = h then f x else x)) ds = ds"
  "h \<notin> fst ` set ds \<Longrightarrow> map_of ds h = None"
  by (induction ds) auto

lemma mapDelete_middle:
  "h \<notin> fst ` set before \<Longrightarrow> h \<notin> fst ` set rest \<Longrightarrow> mapDelete h (before @ (h, d) # rest) = before @ rest"
  by (simp add: mapDelete_def keyed_unchanged)

lemma map_middle:
  "h \<notin> fst ` set before \<Longrightarrow> h \<notin> fst ` set rest \<Longrightarrow>
   map (\<lambda>(k, x). (k, if k = h then f x else x)) (before @ (h, d) # rest) = before @ (h, f d) # rest"
  by (simp add: keyed_unchanged)

lemma tables_revalidateDocument:
  assumes c: "c < length (sv_conns sv)" and t: "tables sv c = (cl, before @ (h, d) # rest)"
    and h: "od_handle d = h" "h \<notin> fst ` set before" "h \<notin> fst ` set rest"
  shows "tables (revalidateDocument W db claims c d sv) c =
      (cl, before @ (case regranted db claims (h, d) of None \<Rightarrow> [] | Some pair \<Rightarrow> [pair]) @ rest)"
    "length (sv_conns (revalidateDocument W db claims c d sv)) = length (sv_conns sv)"
proof -
  have docs: "cn_documents (conn sv c) = before @ (h, d) # rest" and cl: "cn_claims (conn sv c) = cl"
    using t by (simp_all add: tables_def)
  have "map_of (before @ (h, d) # rest) h = Some d"
    using h(2) by (simp add: map_add_def keyed_unchanged)
  then have recorded: "(case map_of (cn_documents (conn sv c)) (od_handle d) of None \<Rightarrow> od_role d | Some d \<Rightarrow> od_role d) = od_role d"
    by (simp add: docs h(1))
  have step: "revalidateDocument W db claims c d sv =
      (case roleNow db claims d of
         None \<Rightarrow> closeRevoked W c d sv
       | Some role \<Rightarrow>
           if role \<noteq> od_role d
           then setConn c (send (SRoleChanged (od_handle d) (roleName role)))
                  (setRoom (od_room d) (setSubscriberWritable (od_subscriberId d) (atLeast_role role Editor))
                    (setRole c (od_handle d) role sv))
           else sv)"
    by (simp add: revalidateDocument_def roleNow_def recorded Let_def)
  have closed: "mapDelete h (before @ (h, d) # rest) = before @ rest" by (rule mapDelete_middle [OF h(2,3)])
  have changed: "tables (setRole c h role sv) c = (cl, before @ (h, d\<lparr>od_role := role\<rparr>) # rest)" for role
    using c map_middle [OF h(2,3), of "\<lambda>d. d\<lparr>od_role := role\<rparr>" d] by (simp add: tables_def setRole_def conn_setConn docs cl)
  have after: "tables (setConn c (send m) sv') c = tables sv' c" for m sv'
    by (simp add: tables_def conn_setConn)
  show "tables (revalidateDocument W db claims c d sv) c =
      (cl, before @ (case regranted db claims (h, d) of None \<Rightarrow> [] | Some pair \<Rightarrow> [pair]) @ rest)"
  proof (cases "roleNow db claims d")
    case None
    then show ?thesis using c t h(1) by (simp add: step regranted_def tables_closeRevoked closed)
  next
    case (Some role)
    then show ?thesis using t h(1) changed [of role] by (cases "role = od_role d") (simp_all add: step regranted_def after)
  qed
  show "length (sv_conns (revalidateDocument W db claims c d sv)) = length (sv_conns sv)"
    using c by (simp add: step tables_closeRevoked setRole_def split: option.split)
qed

lemma tables_revalidateDocuments:
  assumes "c < length (sv_conns sv)" and "tables sv c = (cl, before @ docs)" and "distinct (map fst (before @ docs))"
    and "\<forall>(h, d) \<in> set docs. od_handle d = h"
  shows "tables (fold (revalidateDocument W db claims c) (map snd docs) sv) c = (cl, before @ List.map_filter (regranted db claims) docs)"
  using assms
proof (induction docs arbitrary: before sv)
  case (Cons pair rest)
  obtain h d where pair: "pair = (h, d)" by (cases pair)
  let ?sv = "revalidateDocument W db claims c d sv"
  have h: "od_handle d = h" "h \<notin> fst ` set before" "h \<notin> fst ` set rest"
    using Cons.prems(3,4) by (auto simp: pair image_iff)
  note step = tables_revalidateDocument [OF Cons.prems(1) Cons.prems(2) [unfolded pair] h, of W db claims]
  let ?kept = "case regranted db claims (h, d) of None \<Rightarrow> [] | Some pair \<Rightarrow> [pair]"
  have keys: "distinct (map fst ((before @ ?kept) @ rest))"
    using Cons.prems(3) h by (auto simp: pair regranted_def split: option.split)
  have "tables (fold (revalidateDocument W db claims c) (map snd rest) ?sv) c =
      (cl, (before @ ?kept) @ List.map_filter (regranted db claims) rest)"
    using Cons.prems(1,4) keys by (intro Cons.IH) (simp_all add: step pair)
  then show ?case by (simp add: pair map_filter_simps split: option.split)
qed (simp add: map_filter_simps)

lemma tables_closeAll:
  assumes "c < length (sv_conns sv)" and "tables sv c = (cl, docs)" and "\<forall>(h, d) \<in> set docs. od_handle d = h"
  shows "tables (fold (closeRevoked W c) (map snd docs) sv) c = (cl, [])"
    and "length (sv_conns (fold (closeRevoked W c) (map snd docs) sv)) = length (sv_conns sv)"
proof -
  have both: "tables (fold (closeRevoked W c) (map snd ds) sv) c = (cl, filter (\<lambda>(h, d). h \<notin> fst ` set ds) docs) \<and>
      length (sv_conns (fold (closeRevoked W c) (map snd ds) sv)) = length (sv_conns sv)"
    if "c < length (sv_conns sv)" "tables sv c = (cl, docs)" "\<forall>(h, d) \<in> set ds. od_handle d = h" for ds docs sv
    using that
  proof (induction ds arbitrary: docs sv)
    case (Cons pair rest)
    obtain h d where pair: "pair = (h, d)" by (cases pair)
    have "tables (closeRevoked W c d sv) c = (cl, mapDelete h docs)" "length (sv_conns (closeRevoked W c d sv)) = length (sv_conns sv)"
      using Cons.prems by (simp_all add: pair tables_closeRevoked)
    then show ?case using Cons.IH [of "closeRevoked W c d sv" "mapDelete h docs"] Cons.prems(1,3)
      by (auto simp: pair mapDelete_def case_prod_unfold intro: filter_cong)
  qed (simp add: case_prod_unfold)
  have "filter (\<lambda>(h, d). h \<notin> fst ` set docs) docs = []" by (auto simp: filter_empty_conv image_iff)
  then show "tables (fold (closeRevoked W c) (map snd docs) sv) c = (cl, [])"
    "length (sv_conns (fold (closeRevoked W c) (map snd docs) sv)) = length (sv_conns sv)"
    using both [OF assms] by simp_all
qed



text \<open>A visitor whose link has been lowered to commenting, with a page of the section and one that is gone.\<close>

definition sectionTab :: "nat \<Rightarrow> string \<Rightarrow> role \<Rightarrow> open_document" where
  "sectionTab h pid role = \<lparr>od_handle = h, od_pageId = pid, od_role = role, od_room = 0, od_subscriberId = subscriberIdOf (newConnection ''c'' None None) h\<rparr>"

definition visitor :: connection where
  "visitor = (newConnection ''c'' None None)\<lparr>cn_claims := Some (shareClaims linkDb ''v1'' ''Eve'' (sectionLink\<lparr>t_role := Editor\<rparr>)),
     cn_credential := Some (ShareCredential ''t1'' ''v1''),
     cn_documents := [(1, sectionTab 1 (p_id sectionPage) Editor), (2, sectionTab 2 ''gone'' Editor)]\<rparr>"

definition idleServer :: "connection list \<Rightarrow> ('d, bytes, 'w) room list \<Rightarrow> ('d, 'w) server" where
  "idleServer cs rs =
    \<lparr>sv_conns = cs, sv_roomHeap = rs, sv_connections = [0..<length cs], sv_rooms = [], sv_byUser = [], sv_byWorkspace = [],
     sv_loading = [], sv_sinks = [], sv_revalidating = [], sv_revalidateAgain = [], sv_shuttingDown = False\<rparr>"

section \<open>Handles by page, and connections that are gone\<close>

text \<open>The handles of a connection are found again by what was asked for, and forgotten by the page.\<close>

theorem closing_comments_forgets_page:
  assumes "c < length (sv_conns sv)"
    and "map_of (cn_documents (conn sv c)) comments = Some d" and "map_of (cn_documents (conn sv c)) page = Some d'"
    and "comments \<noteq> page" and "map_of (cn_handlesByPage (conn sv c)) (od_pageId d) = Some page"
  shows "map_of (cn_documents (conn (handleCloseDocument W c comments sv) c)) page = Some d' \<and>
    existingHandle (conn (handleCloseDocument W c comments sv) c) (od_pageId d) = None"
proof -
  have kept: "map_of (mapDelete k m) x = (if x = k then None else map_of m x)" for k x and m :: "('k \<times> 'v) list"
    by (induction m) (auto simp: mapDelete_def)
  have byPage: "cn_handlesByPage (conn (maybeRetireRoom r sv') c) = cn_handlesByPage (conn sv' c)" for r sv'
    by (simp add: maybeRetireRoom_def Let_def conn_def)
  have "length (sv_conns (withRoom r f sv)) = length (sv_conns sv)" for r f by simp
  moreover have "tables (handleCloseDocument W c comments sv) c = (fst (tables sv c), mapDelete comments (snd (tables sv c)))"
    by (rule tables_close(1) [OF assms(1)])
  ultimately show ?thesis using assms
    by (simp add: handleCloseDocument_def existingHandle_def byPage conn_setConn tables_def kept)
qed


lemma heap_length [simp]:
  "length (sv_roomHeap (setRoom r f sv)) = length (sv_roomHeap sv)" "length (sv_roomHeap (withRoom q g sv)) = length (sv_roomHeap sv)"
  "length (sv_roomHeap (maybeRetireRoom q sv)) = length (sv_roomHeap sv)"
  by (simp_all add: setRoom_def withRoom_def fanOut_def maybeRetireRoom_def Let_def)

lemma live_setConn [simp]: "sv_connections (setConn c f sv) = sv_connections sv" "sv_connections (setRoom r g sv) = sv_connections sv"
  by (simp_all add: setConn_def setRoom_def)

lemma live_fold [simp]: "sv_connections (fold sinkFrame fs sv) = sv_connections sv"
  by (induction fs arbitrary: sv) (simp_all add: sinkFrame_def split: option.split)

lemma releaseDocument_frame [simp]:
  "sv_connections (releaseDocument W d sv) = sv_connections sv" "length (sv_roomHeap (releaseDocument W d sv)) = length (sv_roomHeap sv)"
  by (simp_all add: releaseDocument_def maybeRetireRoom_def Let_def withRoom_def fanOut_def)

lemma releaseDocuments_frame [simp]:
  "sv_connections (fold (releaseDocument W) ds sv) = sv_connections sv"
  "length (sv_roomHeap (fold (releaseDocument W) ds sv)) = length (sv_roomHeap sv)"
  by (induction ds arbitrary: sv) simp_all

lemma forgetPerson_frame [simp]:
  "sv_connections (forgetPerson c sv) = sv_connections sv" "sv_roomHeap (forgetPerson c sv) = sv_roomHeap sv"
  by (simp_all add: forgetPerson_def Let_def split: option.split)

lemma onClose_frame: "sv_connections (onClose W c sv) = filter (\<lambda>x. x \<noteq> c) (sv_connections sv)"
  "length (sv_roomHeap (onClose W c sv)) = length (sv_roomHeap sv)"
  by (simp_all add: onClose_def Let_def)

text \<open>An open that finishes after its connection has closed leaves a subscriber behind for good: the
  connection is no longer one the server knows, so nothing will ever release what it holds, and the
  timer that would retire the room finds it in use.\<close>

theorem open_after_close_stays:
  assumes "r < length (sv_roomHeap sv)" and "po_conn p = c"
  shows "c \<notin> set (sv_connections (openFinish Y W p role r (onClose W c sv))) \<and>
    0 < subscriberCount (sv_roomHeap (openFinish Y W p role r (onClose W c sv)) ! r) \<and>
    sv_rooms (lingerExpired Y r (openFinish Y W p role r (onClose W c sv))) = sv_rooms (openFinish Y W p role r (onClose W c sv))"
proof -
  have "0 < subscriberCount (addSubscriber sub room)" for sub and room :: "('d, bytes, 'w) room"
    by (auto simp: subscriberCount_def addSubscriber_def)
  then have "0 < subscriberCount (sv_roomHeap (openFinish Y W p role r (onClose W c sv)) ! r)"
    using assms(1) by (simp add: openFinish_def Let_def setRoom_def onClose_frame)
  moreover have "sv_connections (openFinish Y W p role r (onClose W c sv)) = filter (\<lambda>x. x \<noteq> c) (sv_connections sv)"
    by (simp add: openFinish_def Let_def onClose_frame)
  ultimately show ?thesis by (simp add: lingerExpired_def Let_def setRoom_def)
qed

section \<open>Instances\<close>

text \<open>A document that is the last bytes written to it, with nobody's cursor in it.\<close>

definition noteYjs :: "(bytes, bytes) yjs" where
  "noteYjs =
    \<lparr>newDoc = [], applyUpdate = (\<lambda>u d. u), applyUpdateV2 = (\<lambda>u d. u), encodeStateAsUpdateV2 = (\<lambda>d. d),
     encodeStateVector = (\<lambda>d. d), encodeStateAsUpdate = (\<lambda>d v. d), encodeSnapshot = (\<lambda>d. d), mergeUpdates = concat,
     docShare = (\<lambda>d. []), removeUsers = (\<lambda>us d. d), mapGet = (\<lambda>root k d. None), mapWrite = (\<lambda>root cs d. d),
     emitted = (\<lambda>u d. Some u), readSyncMessage = (\<lambda>m. Some (YjsUpdate (Some m))), writeSyncStep1 = (\<lambda>d. d),
     writeSyncStep2 = (\<lambda>d v. d), writeUpdate = (\<lambda>u. u)\<rparr>"

definition nobodyAware :: "(unit, bytes) awareness_lib" where
  "nobodyAware = \<lparr>awStates = (\<lambda>w. []), awApply = (\<lambda>b w. (w, [])), awRemove = (\<lambda>cs w. (w, [])), awEncode = (\<lambda>cs w. []), awNew = ()\<rparr>"

definition sectionRoom :: "(bytes, bytes, unit) room" where
  "sectionRoom = newRoom nobodyAware \<lparr>ro_pageId = p_id sectionPage, ro_workspaceId = ''w'', ro_commentsFor = None\<rparr> [] 0"

definition sevenFrame :: bytes where
  "sevenFrame = writeVarUint unaryLib 2 @ writeVarUint unaryLib 1 @ writeVarBytes unaryLib [7]"

lemma sevenFrame_reads: "decodeClientMessage unaryLib sevenFrame = Inr (CSync 1 [7])"
proof -
  have "length sevenFrame \<le> maxMessageBytes" "sevenFrame \<noteq> []"
    by (simp_all add: sevenFrame_def unaryLib_def unary_def maxMessageBytes_def numeral_2_eq_2)
  then show ?thesis by (simp add: decodeClientMessage_def sevenFrame_def lib0_read [OF unaryLib_laws] readOr_def)
qed

definition editorServer :: "(bytes, unit) server" where
  "editorServer = idleServer [visitor] [sectionRoom]"

theorem only_editors_write_witness:
  "\<exists>next sv'. onMessage unaryLib noteYjs nobodyAware (\<lambda>b. True) 0 0 sevenFrame editorServer = (next, sv') \<and>
     rm_doc (sv_roomHeap sv' ! 0) \<noteq> rm_doc (sv_roomHeap editorServer ! 0) \<and>
     cn_claims (conn editorServer 0) \<noteq> None"
proof -
  let ?sv = "handleSync noteYjs 0 0 1 [7] editorServer"
  have authed: "cn_claims (conn editorServer 0) \<noteq> None" by (simp add: editorServer_def idleServer_def conn_def visitor_def)
  have msg: "onMessage unaryLib noteYjs nobodyAware (\<lambda>b. True) 0 0 sevenFrame editorServer = (Done, ?sv)"
    by (simp only: onMessage_def sevenFrame_reads sum.case client_message.case authed if_False)
  have "rm_doc (sv_roomHeap ?sv ! 0) = [7]" "rm_doc (sv_roomHeap editorServer ! 0) = []" by code_simp+
  then have changed: "rm_doc (sv_roomHeap ?sv ! 0) \<noteq> rm_doc (sv_roomHeap editorServer ! 0)" by simp
  then show ?thesis using only_editors_write [OF msg, of 0] msg authed by auto
qed


definition lateOpen :: pending_open where
  "lateOpen = \<lparr>po_conn = 0, po_requestId = 1, po_asked = p_id sectionPage, po_pageId = p_id sectionPage, po_internal = False,
     po_claims = shareClaims linkDb ''v1'' ''Eve'' sectionLink\<rparr>"

theorem open_after_close_stays_witness:
  "0 \<notin> set (sv_connections (openFinish noteYjs nobodyAware lateOpen Viewer 0 (onClose nobodyAware 0 editorServer))) \<and>
   0 < subscriberCount (sv_roomHeap (openFinish noteYjs nobodyAware lateOpen Viewer 0 (onClose nobodyAware 0 editorServer)) ! 0)"
  using open_after_close_stays [of 0 editorServer lateOpen 0 noteYjs nobodyAware Viewer]
  by (simp add: editorServer_def idleServer_def lateOpen_def)


end
