(* ===== verification/Inline_Markdown.thy ===== *)
theory Inline_Markdown
  imports Json
begin

text \<open>
  \<^verbatim>\<open>packages/core/src/doc/inlineMarkdown.ts\<close>: a run of text with marks (the operations of a delta) written
  as Markdown and read back. No attributes and an empty object of them are the same here, as they are
  wherever the code reads them. The link pattern is matched by hand: none of its parts can take more or
  less than it does, so nothing is ever given back.
\<close>

section \<open>Writing\<close>

type_synonym attributes = "(string \<times> json) list"

record inline_op =
  io_insert :: string
  io_attributes :: attributes

definition MARK_ORDER :: "string list" where
  "MARK_ORDER = [''link'', ''strong'', ''em'', ''strikethrough'', ''inlineCode'']"

text \<open>The backslash of this theory's strings is written out as a code.\<close>

definition BACKSLASH :: char where
  "BACKSLASH = CHR 0x5C"

definition isEscaped :: "char \<Rightarrow> bool" where
  "isEscaped c = (c \<in> {BACKSLASH, CHR ''*'', CHR ''_'', CHR 0x60, CHR ''~'', CHR ''['', CHR '']''})"

definition escapeInline :: "string \<Rightarrow> string" where
  "escapeInline s = concat (map (\<lambda>c. if isEscaped c then [BACKSLASH, c] else [c]) s)"

definition openMark :: "string \<Rightarrow> string" where
  "openMark mark =
     (if mark = ''strong'' then ''**'' else if mark = ''em'' then ''*'' else if mark = ''strikethrough'' then ''~~''
      else if mark = ''inlineCode'' then [CHR 0x60] else if mark = ''link'' then ''['' else [])"

definition stringField :: "string \<Rightarrow> json \<Rightarrow> string" where
  "stringField name v =
     (case v of JObject kvs \<Rightarrow> (case map_of kvs name of Some (JString s) \<Rightarrow> s | _ \<Rightarrow> []) | _ \<Rightarrow> [])"

definition closeMark :: "string \<Rightarrow> json \<Rightarrow> string" where
  "closeMark mark attrs =
     (if mark = ''link'' then
        let href = stringField ''href'' attrs; title = stringField ''title'' attrs
        in if title = [] then '']('' @ href @ '')''
           else '']('' @ href @ '' \"'' @ concat (map (\<lambda>c. if c = CHR 0x22 then [BACKSLASH, c] else [c]) title) @ ''\")''
      else openMark mark)"

definition marksOf :: "inline_op \<Rightarrow> (string \<times> json) list" where
  "marksOf op =
     List.map_filter (\<lambda>name. case map_of (io_attributes op) name of
                         None \<Rightarrow> None | Some v \<Rightarrow> if v = JNull then None else Some (name, v)) MARK_ORDER"

fun keepMarks :: "(string \<times> json) list \<Rightarrow> (string \<times> json) list \<Rightarrow> nat" where
  "keepMarks (a # as) (b # bs) = (if a = b then Suc (keepMarks as bs) else 0)"
| "keepMarks as bs = 0"

definition leadOf :: "string \<Rightarrow> string" where
  "leadOf s = takeWhile isSpace s"

definition trailOf :: "string \<Rightarrow> string" where
  "trailOf s = (if length (leadOf s) = length s then [] else rev (takeWhile isSpace (rev s)))"

definition coreOf :: "string \<Rightarrow> string" where
  "coreOf s = drop (length (leadOf s)) (take (length s - length (trailOf s)) s)"

definition closeMarks :: "(string \<times> json) list \<Rightarrow> string" where
  "closeMarks ms = concat (map (\<lambda>(name, v). closeMark name v) (rev ms))"

definition openMarks :: "(string \<times> json) list \<Rightarrow> string" where
  "openMarks ms = concat (map (\<lambda>(name, v). openMark name) ms)"

record write_state =
  ws_out :: string
  ws_active :: "(string \<times> json) list"
  ws_held :: string

definition writeOp :: "inline_op \<Rightarrow> write_state \<Rightarrow> write_state" where
  "writeOp op st =
     (let wanted = marksOf op; insert = io_insert op; core = coreOf insert
      in if core = [] then st\<lparr>ws_held := ws_held st @ insert\<rparr>
         else let keep = keepMarks (ws_active st) wanted;
                  code = list_ex (\<lambda>(name, v). name = ''inlineCode'') wanted
              in \<lparr>ws_out = ws_out st @ closeMarks (drop keep (ws_active st)) @ ws_held st @ leadOf insert @
                    openMarks (drop keep wanted) @ (if code then core else escapeInline core),
                  ws_active = wanted, ws_held = trailOf insert\<rparr>)"

definition opsToMarkdown :: "inline_op list \<Rightarrow> string" where
  "opsToMarkdown ops =
     (let st = fold writeOp ops \<lparr>ws_out = [], ws_active = [], ws_held = []\<rparr>
      in ws_out st @ closeMarks (ws_active st) @ ws_held st)"

definition opsToText :: "inline_op list \<Rightarrow> string" where
  "opsToText ops = concat (map io_insert ops)"

section \<open>Reading\<close>

record read_state =
  rs_ops :: "inline_op list"
  rs_marks :: attributes
  rs_since :: "(string \<times> nat) list"
  rs_buffer :: string

definition sinceOf :: "read_state \<Rightarrow> string \<Rightarrow> nat" where
  "sinceOf st name = (case map_of (rs_since st) name of None \<Rightarrow> 0 | Some k \<Rightarrow> k)"

definition flushText :: "read_state \<Rightarrow> read_state" where
  "flushText st =
     (if rs_buffer st = [] then st
      else st\<lparr>rs_since := fold (\<lambda>(name, v) since. objectPut name ((case map_of since name of None \<Rightarrow> 0 | Some k \<Rightarrow> k) + length (rs_buffer st)) since)
                            (rs_marks st) (rs_since st),
              rs_ops := rs_ops st @ [\<lparr>io_insert = rs_buffer st, io_attributes = rs_marks st\<rparr>],
              rs_buffer := []\<rparr>)"

definition toggle :: "string \<Rightarrow> read_state \<Rightarrow> read_state" where
  "toggle name st =
     (let st = flushText st
      in if map_of (rs_marks st) name \<noteq> None
         then st\<lparr>rs_marks := objectDelete name (rs_marks st), rs_since := objectDelete name (rs_since st)\<rparr>
         else st\<lparr>rs_marks := objectPut name (JObject []) (rs_marks st), rs_since := objectPut name 0 (rs_since st)\<rparr>)"

definition hasContent :: "string \<Rightarrow> read_state \<Rightarrow> bool" where
  "hasContent name st = (0 < sinceOf st name \<or> rs_buffer st \<noteq> [])"

definition isActive :: "string \<Rightarrow> read_state \<Rightarrow> bool" where
  "isActive name st = (map_of (rs_marks st) name \<noteq> None)"

definition addChar :: "char \<Rightarrow> read_state \<Rightarrow> read_state" where
  "addChar c st = st\<lparr>rs_buffer := rs_buffer st @ [c]\<rparr>"

text \<open>\<open>markdown[k] ?? ''\<close>, and a test of it that fails on nothing.\<close>

definition charAt :: "string \<Rightarrow> nat \<Rightarrow> char option" where
  "charAt s k = (if k < length s then Some (s ! k) else None)"

definition spaceAt :: "string \<Rightarrow> nat \<Rightarrow> bool" where
  "spaceAt s k = (case charAt s k of None \<Rightarrow> False | Some c \<Rightarrow> isSpace c)"

definition isWordChar :: "char \<Rightarrow> bool" where
  "isWordChar c =
     (let n = charCode c in 48 \<le> n \<and> n \<le> 57 \<or> 65 \<le> n \<and> n \<le> 90 \<or> 97 \<le> n \<and> n \<le> 122 \<or> n = 95)"

definition wordAt :: "string \<Rightarrow> nat \<Rightarrow> bool" where
  "wordAt s k = (case charAt s k of None \<Rightarrow> False | Some c \<Rightarrow> isWordChar c)"

text \<open>\<open>s.indexOf(d, j)\<close>\<close>

definition indexOfSub :: "string \<Rightarrow> string \<Rightarrow> nat \<Rightarrow> nat option" where
  "indexOfSub s d j = find (\<lambda>k. take (length d) (drop k s) = d) [j..<Suc (length s) - length d]"

text \<open>The search for a closing delimiter goes on behind one that is no closer; a delimiter is not empty.\<close>

function closerFrom :: "string \<Rightarrow> string \<Rightarrow> nat \<Rightarrow> bool" where
  "closerFrom s d j =
     (case indexOfSub s d j of
        None \<Rightarrow> False
      | Some k \<Rightarrow>
          if \<not> spaceAt s (k - 1) \<and> charAt s (k - 1) \<noteq> Some BACKSLASH then True
          else if d = [] then False
          else closerFrom s d (k + length d))"
  by pat_completeness auto
termination
proof (relation "measure (\<lambda>(s, d, j). Suc (length s) - j)")
  fix s d :: string and j k
  assume "indexOfSub s d j = Some k" "d \<noteq> []"
  then have "j \<le> k" "k < Suc (length s) - length d"
    by (auto simp: indexOfSub_def find_Some_iff)
  then show "((s, d, k + length d), (s, d, j)) \<in> measure (\<lambda>(s, d, j). Suc (length s) - j)"
    using \<open>d \<noteq> []\<close> by (cases d) auto
qed simp

declare closerFrom.simps [simp del]

definition hasCloser :: "string \<Rightarrow> nat \<Rightarrow> string \<Rightarrow> bool" where
  "hasCloser s start d = closerFrom s d (start + 1)"

definition canOpen :: "string \<Rightarrow> nat \<Rightarrow> nat \<Rightarrow> bool" where
  "canOpen s k len =
     (charAt s (k + len) \<noteq> None \<and> \<not> spaceAt s (k + len) \<and> hasCloser s (k + len) (take len (drop k s)))"

definition canClose :: "string \<Rightarrow> nat \<Rightarrow> bool" where
  "canClose s k = (0 < k \<and> \<not> spaceAt s (k - 1))"

text \<open>The link pattern: the label up to a closing bracket that is not escaped (a line break cannot be
  escaped), the address, and perhaps a title in quotation marks.\<close>

fun escapedRun :: "char list \<Rightarrow> string \<Rightarrow> string \<times> string" where
  "escapedRun stops [] = ([], [])"
| "escapedRun stops (c # cs) =
     (if c = BACKSLASH then
        (case cs of
           [] \<Rightarrow> ([], [c])
         | x # rest \<Rightarrow>
             if x = CHR 0x0A \<or> x = CHR 0x0D then ([], c # cs)
             else (case escapedRun stops rest of (run, rest') \<Rightarrow> (c # x # run, rest')))
      else if c \<in> set stops then ([], c # cs)
      else (case escapedRun stops cs of (run, rest) \<Rightarrow> (c # run, rest)))"

definition titlePart :: "string \<Rightarrow> (string \<times> string) option" where
  "titlePart s =
     (case dropWhile isSpace s of
        [] \<Rightarrow> None
      | q # rest \<Rightarrow>
          if s = q # rest \<or> q \<noteq> CHR 0x22 then None
          else (case escapedRun [CHR 0x22] rest of
                  (title, q' # rest') \<Rightarrow> if q' = CHR 0x22 then Some (title, rest') else None
                | (title, []) \<Rightarrow> None))"

record link_match =
  lm_label :: string
  lm_href :: string
  lm_title :: string
  lm_length :: nat

definition linkTail :: "string \<Rightarrow> string \<Rightarrow> string \<Rightarrow> string \<Rightarrow> string \<Rightarrow> link_match option" where
  "linkTail whole label href title rest =
     (case rest of
        c # rest' \<Rightarrow>
          if c = CHR '')''
          then Some \<lparr>lm_label = label, lm_href = href, lm_title = title, lm_length = length whole - length rest'\<rparr> else None
      | [] \<Rightarrow> None)"

definition linkTarget :: "string \<Rightarrow> string \<Rightarrow> string \<Rightarrow> link_match option" where
  "linkTarget whole label rest =
     (let href = takeWhile (\<lambda>c. c \<noteq> CHR '')'' \<and> \<not> isSpace c) rest; rest' = drop (length href) rest
      in case titlePart rest' of
           Some (title, rest'') \<Rightarrow> linkTail whole label href title rest''
         | None \<Rightarrow> linkTail whole label href [] rest')"

definition linkMatch :: "string \<Rightarrow> link_match option" where
  "linkMatch s =
     (case s of
        [] \<Rightarrow> None
      | c # body \<Rightarrow>
          if c \<noteq> CHR ''['' then None
          else (case escapedRun [CHR '']''] body of
                  (label, q # p # rest) \<Rightarrow> if q = CHR '']'' \<and> p = CHR ''('' then linkTarget s label rest else None
                | _ \<Rightarrow> None))"

fun unescapeQuotes :: "string \<Rightarrow> string" where
  "unescapeQuotes (c # q # rest) =
     (if c = BACKSLASH \<and> q = CHR 0x22 then q # unescapeQuotes rest else c # unescapeQuotes (q # rest))"
| "unescapeQuotes s = s"

definition mayToggle :: "string \<Rightarrow> nat \<Rightarrow> nat \<Rightarrow> string \<Rightarrow> read_state \<Rightarrow> bool" where
  "mayToggle s i len name st =
     (if isActive name st then canClose s i \<and> hasContent name st else canOpen s i len)"

text \<open>Which mark the characters at a position open or close, and how many of them there are.\<close>

definition delimiterAt :: "string \<Rightarrow> nat \<Rightarrow> read_state \<Rightarrow> (string \<times> nat) option" where
  "delimiterAt s i st =
     (let c = s ! i
      in if c = CHR ''*'' \<and> charAt s (i + 1) = Some (CHR ''*'') \<and> mayToggle s i 2 ''strong'' st then Some (''strong'', 2)
         else if c = CHR ''~'' \<and> charAt s (i + 1) = Some (CHR ''~'') \<and> mayToggle s i 2 ''strikethrough'' st then Some (''strikethrough'', 2)
         else if (c = CHR ''*'' \<or> c = CHR ''_'') \<and> \<not> (c = CHR ''_'' \<and> 0 < i \<and> wordAt s (i - 1) \<and> wordAt s (i + 1)) \<and>
                 mayToggle s i 1 ''em'' st then Some (''em'', 1)
         else None)"

text \<open>The operations of a link's label get the marks that are open and the link itself.\<close>

definition linkAttributes :: "link_match \<Rightarrow> json" where
  "linkAttributes m =
     JObject [(''href'', JString (lm_href m)),
              (''title'', (if lm_title m = [] then JNull else JString (unescapeQuotes (lm_title m))))]"

definition addLink :: "link_match \<Rightarrow> inline_op list \<Rightarrow> read_state \<Rightarrow> read_state" where
  "addLink m inner st =
     (let st = flushText st
      in st\<lparr>rs_ops := rs_ops st @
              map (\<lambda>op. \<lparr>io_insert = io_insert op,
                        io_attributes = objectPut ''link'' (linkAttributes m) (objectSpread (rs_marks st) (io_attributes op))\<rparr>) inner\<rparr>)"

text \<open>At the end: the marks still open are taken off, and neighbours with the same marks become one.\<close>

fun mergeOps :: "inline_op list \<Rightarrow> inline_op list \<Rightarrow> inline_op list" where
  "mergeOps merged [] = merged"
| "mergeOps merged (op # ops) =
     (case rev merged of
        [] \<Rightarrow> mergeOps [op] ops
      | p # rest \<Rightarrow>
          if io_attributes p = io_attributes op
          then mergeOps (rev rest @ [p\<lparr>io_insert := io_insert p @ io_insert op\<rparr>]) ops
          else mergeOps (merged @ [op]) ops)"

definition cleanOps :: "read_state \<Rightarrow> inline_op list" where
  "cleanOps st =
     map (\<lambda>op. op\<lparr>io_attributes := fold (\<lambda>(name, v). objectDelete name) (rs_marks st) (io_attributes op)\<rparr>) (rs_ops st)"

definition finishRead :: "read_state \<Rightarrow> inline_op list" where
  "finishRead st = mergeOps [] (cleanOps (flushText st))"

definition startRead :: read_state where
  "startRead = \<lparr>rs_ops = [], rs_marks = [], rs_since = [], rs_buffer = []\<rparr>"

lemma escapedRun_length: "escapedRun stops s = (run, rest) \<Longrightarrow> length run + length rest = length s"
  by (induction stops s arbitrary: run rest rule: escapedRun.induct)
    (auto split: if_splits list.splits prod.splits)

lemma titlePart_length: "titlePart s = Some (t, rest) \<Longrightarrow> length rest \<le> length s"
proof -
  assume t: "titlePart s = Some (t, rest)"
  then obtain q body q' where d: "dropWhile isSpace s = q # body" "escapedRun [CHR 0x22] body = (t, q' # rest)"
    by (auto simp: titlePart_def split: list.splits if_splits prod.splits)
  have "length (dropWhile isSpace s) \<le> length s" by (rule length_dropWhile_le)
  then show "length rest \<le> length s" using d escapedRun_length [OF d(2)] by simp
qed

lemma linkTail_Some:
  assumes "linkTail whole label href title rest = Some m"
  shows "lm_label m = label" "lm_length m = length whole - (length rest - 1)" "rest \<noteq> []"
  using assms by (auto simp: linkTail_def split: list.splits if_splits)

lemma linkTarget_Some:
  assumes "linkTarget whole label rest = Some m"
  shows "lm_label m = label" "length whole - length rest < lm_length m \<or> length whole \<le> length rest"
proof -
  let ?rest' = "drop (length (takeWhile (\<lambda>c. c \<noteq> CHR '')'' \<and> \<not> isSpace c) rest)) rest"
  obtain href title rest'' where t: "linkTail whole label href title rest'' = Some m" "length rest'' \<le> length ?rest'"
    using assms by (auto simp: linkTarget_def Let_def split: option.splits prod.splits dest!: titlePart_length)
  show "lm_label m = label" by (rule linkTail_Some(1) [OF t(1)])
  have "rest'' \<noteq> []" "length rest'' \<le> length rest" using linkTail_Some(3) [OF t(1)] t(2) by simp_all
  then show "length whole - length rest < lm_length m \<or> length whole \<le> length rest"
    using linkTail_Some(2) [OF t(1)] by (cases rest'') auto
qed

lemma linkMatch_bounds:
  assumes "linkMatch s = Some m"
  shows "length (lm_label m) < length s" "0 < lm_length m"
proof -
  obtain c body label rest where s: "s = c # body" and run: "escapedRun [CHR '']''] body = (label, CHR '']'' # CHR ''('' # rest)"
    and tail: "linkTarget s label rest = Some m"
    using assms by (auto simp: linkMatch_def split: list.splits if_splits prod.splits)
  have len: "length label + length rest + 2 = length body" using escapedRun_length [OF run] by simp
  show "length (lm_label m) < length s" using len linkTarget_Some(1) [OF tail] s by simp
  show "0 < lm_length m" using len linkTarget_Some(2) [OF tail] s by auto
qed

function (sequential) readFrom :: "string \<Rightarrow> nat \<Rightarrow> read_state \<Rightarrow> inline_op list" where
  "readFrom s i st =
     (if length s \<le> i then finishRead st
      else if s ! i = BACKSLASH \<and> i + 1 < length s then readFrom s (i + 2) (addChar (s ! (i + 1)) st)
      else if isActive ''inlineCode'' st then
        (if s ! i = CHR 0x60 then readFrom s (i + 1) (toggle ''inlineCode'' st) else readFrom s (i + 1) (addChar (s ! i) st))
      else if s ! i = CHR 0x60 \<and> indexOfSub s [CHR 0x60] (i + 1) \<noteq> None then readFrom s (i + 1) (toggle ''inlineCode'' st)
      else (case linkMatch (drop i s) of
              Some m \<Rightarrow> readFrom s (i + lm_length m) (addLink m (readFrom (lm_label m) 0 startRead) st)
            | None \<Rightarrow>
                (case delimiterAt s i st of
                   Some (name, len) \<Rightarrow> readFrom s (i + len) (toggle name st)
                 | None \<Rightarrow> readFrom s (i + 1) (addChar (s ! i) st))))"
  by pat_completeness auto
termination
proof (relation "measures [\<lambda>(s, i, st). length s, \<lambda>(s, i, st). length s - i]")
  fix s :: string and i :: nat and st :: read_state and m
  assume go: "\<not> length s \<le> i" and m: "linkMatch (drop i s) = Some m"
  have "length (lm_label m) < length s" using linkMatch_bounds(1) [OF m] by simp
  then show "((lm_label m, 0, startRead), (s, i, st)) \<in> measures [\<lambda>(s, i, st). length s, \<lambda>(s, i, st). length s - i]" by simp
  show "((s, i + lm_length m, x), (s, i, st)) \<in> measures [\<lambda>(s, i, st). length s, \<lambda>(s, i, st). length s - i]" for x
    using linkMatch_bounds(2) [OF m] go by simp
next
  fix s :: string and i :: nat and st :: read_state and d name len
  assume go: "\<not> length s \<le> i" and d: "delimiterAt s i st = Some d" "(name, len) = d"
  then have "0 < len" by (auto simp: delimiterAt_def Let_def split: if_splits)
  then show "((s, i + len, toggle name st), (s, i, st)) \<in> measures [\<lambda>(s, i, st). length s, \<lambda>(s, i, st). length s - i]"
    using go by simp
qed auto

declare readFrom.simps [simp del]

definition markdownToOps :: "string \<Rightarrow> inline_op list" where
  "markdownToOps markdown = readFrom markdown 0 startRead"

section \<open>Escaped text\<close>

lemma escapeInline_simps [simp]:
  "escapeInline [] = []"
  "escapeInline (c # s) = (if isEscaped c then [BACKSLASH, c] else [c]) @ escapeInline s"
  "escapeInline (s @ t) = escapeInline s @ escapeInline t"
  by (simp_all add: escapeInline_def)

lemma escaped_chars: "isEscaped BACKSLASH" "isEscaped (CHR ''*'')" "isEscaped (CHR ''_'')" "isEscaped (CHR 0x60)" "isEscaped (CHR ''~'')"
    "isEscaped (CHR ''['')"
  by (simp_all add: isEscaped_def)

lemma space_not_escaped: "isSpace c \<Longrightarrow> \<not> isEscaped c"
  by (auto simp: isEscaped_def isSpace_def BACKSLASH_def charCode_def)

lemma escapeInline_free: "\<forall>c \<in> set s. \<not> isEscaped c \<Longrightarrow> escapeInline s = s"
  by (induction s) simp_all

lemma escapeInline_spaces: "\<forall>c \<in> set s. isSpace c \<Longrightarrow> escapeInline s = s"
  by (rule escapeInline_free) (auto dest: space_not_escaped)

lemma lead_core_trail: "leadOf s @ coreOf s @ trailOf s = s"
proof (cases "length (leadOf s) = length s")
  case True
  then have "leadOf s = s" unfolding leadOf_def by (metis append_eq_conv_conj takeWhile_eq_take takeWhile_dropWhile_id take_all_iff le_refl)
  then show ?thesis by (simp add: coreOf_def trailOf_def)
next
  case False
  let ?t = "takeWhile isSpace (rev s)"
  have trail: "trailOf s = rev ?t" using False by (simp add: trailOf_def)
  obtain x where x: "x \<in> set s" "\<not> isSpace x"
    using False unfolding leadOf_def by (metis takeWhile_eq_all_conv)
  have split: "s = take (length s - length ?t) s @ rev ?t"
    by (metis append_take_drop_id length_rev rev_rev_ident rev_take takeWhile_eq_take length_takeWhile_le diff_diff_cancel rev_drop)
  have "length (leadOf s) \<le> length s - length ?t"
  proof -
    obtain ys x' zs where s: "s = ys @ x' # zs" "\<not> isSpace x'" "\<forall>y \<in> set ys. isSpace y"
      using split_list_first_prop [of s "\<lambda>x. \<not> isSpace x"] x by blast
    have "leadOf s = ys" using s by (simp add: leadOf_def takeWhile_append)
    moreover have "length ?t \<le> length zs"
      using s(1,2) by (simp add: takeWhile_append) (metis length_rev length_takeWhile_le takeWhile_append1 takeWhile_tail)
    ultimately show ?thesis using s(1) by simp
  qed
  then have "leadOf s @ coreOf s = take (length s - length ?t) s"
    unfolding coreOf_def trail leadOf_def
    by (metis (no_types, lifting) append_take_drop_id length_rev takeWhile_eq_take take_take min.absorb1)
  then show ?thesis using split by (simp add: trail append_assoc [symmetric] del: append_assoc)
qed

lemma coreOf_Nil_iff: "coreOf s = [] \<longleftrightarrow> (\<forall>c \<in> set s. isSpace c)"
proof
  assume "coreOf s = []"
  then have "s = leadOf s @ trailOf s" using lead_core_trail [of s] by simp
  moreover have "\<forall>c \<in> set (leadOf s). isSpace c" "\<forall>c \<in> set (trailOf s). isSpace c"
    by (auto simp: leadOf_def trailOf_def dest: set_takeWhileD)
  ultimately show "\<forall>c \<in> set s. isSpace c" by (metis Un_iff set_append)
next
  assume "\<forall>c \<in> set s. isSpace c"
  then have "leadOf s = s" unfolding leadOf_def takeWhile_eq_all_conv .
  then show "coreOf s = []" by (simp add: coreOf_def trailOf_def)
qed

lemma escapeInline_parts: "leadOf s @ escapeInline (coreOf s) @ trailOf s = escapeInline s"
proof -
  have "escapeInline (leadOf s) = leadOf s" "escapeInline (trailOf s) = trailOf s"
    by (auto intro!: escapeInline_spaces simp: leadOf_def trailOf_def dest: set_takeWhileD)
  then show ?thesis using arg_cong [OF lead_core_trail [of s], of escapeInline] by simp
qed

lemma trimmed_parts:
  assumes "s \<noteq> []" "\<not> isSpace (hd s)" "\<not> isSpace (last s)"
  shows "leadOf s = []" "coreOf s = s" "trailOf s = []"
proof -
  show lead: "leadOf s = []" using assms(1,2) by (cases s) (simp_all add: leadOf_def)
  show trail: "trailOf s = []" using assms by (cases "rev s") (simp_all add: trailOf_def lead last_rev [symmetric] hd_rev)
  show "coreOf s = s" using lead_core_trail [of s] by (simp add: lead trail)
qed

section \<open>Runs of text and of marked text\<close>

definition plainOp :: "string \<Rightarrow> inline_op" where
  "plainOp s = \<lparr>io_insert = s, io_attributes = []\<rparr>"

definition markedOp :: "string \<Rightarrow> string \<Rightarrow> inline_op" where
  "markedOp mark s = \<lparr>io_insert = s, io_attributes = [(mark, JObject [])]\<rparr>"

definition plainOps :: "string \<Rightarrow> inline_op list" where
  "plainOps s = (if s = [] then [] else [plainOp s])"

fun runsOps :: "(string \<times> string \<times> string) list \<Rightarrow> string \<Rightarrow> inline_op list" where
  "runsOps [] final = plainOps final"
| "runsOps ((a, mark, b) # runs) final = plainOps a @ markedOp mark b # runsOps runs final"

fun runsText :: "(string \<times> string \<times> string) list \<Rightarrow> string \<Rightarrow> string" where
  "runsText [] final = escapeInline final"
| "runsText ((a, mark, b) # runs) final = escapeInline a @ openMark mark @ b @ openMark mark @ runsText runs final"

text \<open>A mark other than a link, on words that need no escape and have no space at their edges.\<close>

definition spellable :: "string \<times> string \<times> string \<Rightarrow> bool" where
  "spellable run =
     (case run of (a, mark, b) \<Rightarrow>
        mark \<in> {''strong'', ''em'', ''strikethrough'', ''inlineCode''} \<and> b \<noteq> [] \<and> \<not> isSpace (hd b) \<and> \<not> isSpace (last b) \<and>
        (\<forall>c \<in> set b. \<not> isEscaped c))"

definition notBlank :: "string \<Rightarrow> bool" where
  "notBlank s = (\<exists>c \<in> set s. \<not> isSpace c)"

subsection \<open>What is written\<close>

definition writtenSoFar :: "write_state \<Rightarrow> string" where
  "writtenSoFar st = ws_out st @ closeMarks (ws_active st) @ ws_held st"

lemma marksOf_plain [simp]: "marksOf (plainOp s) = []"
  by (simp add: marksOf_def plainOp_def map_filter_def)

lemma marksOf_marked:
  "mark \<in> {''strong'', ''em'', ''strikethrough'', ''inlineCode''} \<Longrightarrow> marksOf (markedOp mark s) = [(mark, JObject [])]"
  by (auto simp: marksOf_def markedOp_def MARK_ORDER_def map_filter_simps)

lemma keepMarks_Nil [simp]: "keepMarks as [] = 0" "keepMarks [] as = 0"
  by (cases as; simp)+

lemma write_plain:
  "writtenSoFar (writeOp (plainOp a) st) = writtenSoFar st @ escapeInline a"
  "notBlank a \<Longrightarrow> ws_active (writeOp (plainOp a) st) = []"
  "ws_active st = [] \<Longrightarrow> ws_active (writeOp (plainOp a) st) = []"
proof -
  have blank: "coreOf a = [] \<Longrightarrow> escapeInline a = a" by (rule escapeInline_spaces) (simp add: coreOf_Nil_iff)
  show "writtenSoFar (writeOp (plainOp a) st) = writtenSoFar st @ escapeInline a"
    using blank escapeInline_parts [of a]
    by (cases "coreOf a = []") (simp_all add: writeOp_def writtenSoFar_def Let_def openMarks_def closeMarks_def plainOp_def marksOf_plain [unfolded plainOp_def])
  show "notBlank a \<Longrightarrow> ws_active (writeOp (plainOp a) st) = []"
    using coreOf_Nil_iff [of a] by (auto simp: writeOp_def Let_def notBlank_def plainOp_def marksOf_plain [unfolded plainOp_def])
  show "ws_active st = [] \<Longrightarrow> ws_active (writeOp (plainOp a) st) = []"
    by (simp add: writeOp_def Let_def)
qed

lemma write_plains:
  "writtenSoFar (fold writeOp (plainOps a) st) = writtenSoFar st @ escapeInline a"
  "notBlank a \<or> ws_active st = [] \<Longrightarrow> ws_active (fold writeOp (plainOps a) st) = []"
  by (auto simp: plainOps_def write_plain(1,3) dest: write_plain(2)) (simp add: notBlank_def)

lemma write_marked:
  assumes "spellable (a, mark, b)" and "ws_active st = []"
  shows "writtenSoFar (writeOp (markedOp mark b) st) = writtenSoFar st @ openMark mark @ b @ openMark mark"
proof -
  have b: "b \<noteq> []" "\<not> isSpace (hd b)" "\<not> isSpace (last b)" "\<forall>c \<in> set b. \<not> isEscaped c"
    and mark: "mark \<in> {''strong'', ''em'', ''strikethrough'', ''inlineCode''}"
    using assms(1) by (simp_all add: spellable_def)
  have "closeMark mark v = openMark mark" for v using mark by (auto simp: closeMark_def)
  then show ?thesis
    using assms(2) b(1) trimmed_parts [OF b(1-3)] escapeInline_free [OF b(4)] marksOf_marked [OF mark, of b]
    by (simp add: writeOp_def writtenSoFar_def Let_def markedOp_def closeMarks_def openMarks_def)
qed

lemma write_runs:
  assumes "\<forall>run \<in> set runs. spellable run" and "\<forall>run \<in> set runs. notBlank (fst run) \<or> ws_active st = []"
    and "\<forall>run \<in> set (tl runs). notBlank (fst run)"
  shows "writtenSoFar (fold writeOp (runsOps runs final) st) = writtenSoFar st @ runsText runs final"
  using assms
proof (induction runs final arbitrary: st rule: runsText.induct)
  case (2 a mark b runs final)
  let ?st = "writeOp (markedOp mark b) (fold writeOp (plainOps a) st)"
  have "ws_active (fold writeOp (plainOps a) st) = []" using 2(3) by (intro write_plains(2)) auto
  then have now: "writtenSoFar ?st = writtenSoFar st @ escapeInline a @ openMark mark @ b @ openMark mark"
    using 2(2) write_marked [of a mark b] by (simp add: write_plains(1))
  have later_runs: "\<forall>run \<in> set (tl runs). notBlank (fst run)" using 2(4) by (cases runs) auto
  have "writtenSoFar (fold writeOp (runsOps runs final) ?st) = writtenSoFar ?st @ runsText runs final"
    using 2(2,4) later_runs by (intro "2.IH") auto
  then show ?case by (simp add: now)
qed (simp add: write_plains)

lemma opsToMarkdown_runs:
  assumes "\<forall>run \<in> set runs. spellable run" and "\<forall>run \<in> set (tl runs). notBlank (fst run)"
  shows "opsToMarkdown (runsOps runs final) = runsText runs final"
  using write_runs [OF assms(1) _ assms(2), of "\<lparr>ws_out = [], ws_active = [], ws_held = []\<rparr>" final]
  by (simp add: opsToMarkdown_def Let_def writtenSoFar_def closeMarks_def)

subsection \<open>What is read\<close>

lemma drop_next: "drop i s = c # rest \<Longrightarrow> i < length s \<and> s ! i = c \<and> drop (Suc i) s = rest"
  by (metis Cons_nth_drop_Suc drop_all linorder_not_le list.distinct(1) list.inject)

lemma charAt_drop: "charAt s (i + k) = (case drop k (drop i s) of [] \<Rightarrow> None | c # rest \<Rightarrow> Some c)"
proof (cases "drop k (drop i s)")
  case Nil
  then show ?thesis by (simp add: charAt_def)
next
  case (Cons c rest)
  then have "drop (i + k) s = c # rest" by (simp add: add.commute)
  then show ?thesis using drop_next [of "i + k" s c rest] Cons by (simp add: charAt_def)
qed

lemma no_link: "s ! i \<noteq> CHR ''['' \<Longrightarrow> i < length s \<Longrightarrow> linkMatch (drop i s) = None"
  by (simp add: linkMatch_def Cons_nth_drop_Suc [symmetric])

lemma read_char:
  assumes "drop i s = c # rest" and "\<not> isEscaped c"
  shows "readFrom s i st = readFrom s (Suc i) (addChar c st)"
proof -
  have i: "i < length s" "s ! i = c" using drop_next [OF assms(1)] by simp_all
  have "c \<noteq> BACKSLASH" "c \<noteq> CHR 0x60" "c \<noteq> CHR ''['' " "delimiterAt s i st = None"
    using assms(2) i(2) by (auto simp: isEscaped_def delimiterAt_def)
  then show ?thesis using i no_link [of s i] by (simp add: readFrom.simps [of s i])
qed

lemma read_text:
  assumes "drop i s = b @ rest" and "\<forall>c \<in> set b. \<not> isEscaped c"
  shows "readFrom s i st = readFrom s (i + length b) (st\<lparr>rs_buffer := rs_buffer st @ b\<rparr>)"
  using assms
proof (induction b arbitrary: i st)
  case (Cons c b)
  have next': "drop (Suc i) s = b @ rest" using drop_next [of i s c "b @ rest"] Cons.prems(1) by simp
  have "readFrom s i st = readFrom s (Suc i) (addChar c st)"
    using Cons.prems by (intro read_char [of i s c "b @ rest"]) simp_all
  also have "\<dots> = readFrom s (Suc i + length b) ((addChar c st)\<lparr>rs_buffer := rs_buffer (addChar c st) @ b\<rparr>)"
    using Cons.prems(2) by (intro Cons.IH next') simp
  finally show ?case by (simp add: addChar_def)
qed simp

lemma read_escaped:
  assumes "drop i s = escapeInline a @ rest"
  shows "readFrom s i st = readFrom s (i + length (escapeInline a)) (st\<lparr>rs_buffer := rs_buffer st @ a\<rparr>)"
  using assms
proof (induction a arbitrary: i st)
  case (Cons c a)
  show ?case
  proof (cases "isEscaped c")
    case True
    then have d: "drop i s = BACKSLASH # c # escapeInline a @ rest" using Cons.prems by simp
    have d1: "drop (Suc i) s = c # escapeInline a @ rest" using drop_next [OF d] by simp
    have d2: "drop (i + 2) s = escapeInline a @ rest" using drop_next [OF d1] by simp
    have "readFrom s i st = readFrom s (i + 2) (addChar c st)"
      using drop_next [OF d] drop_next [OF d1] by (simp add: readFrom.simps [of s i])
    also have "\<dots> = readFrom s (i + 2 + length (escapeInline a)) ((addChar c st)\<lparr>rs_buffer := rs_buffer (addChar c st) @ a\<rparr>)"
      by (rule Cons.IH [OF d2])
    finally show ?thesis using True by (simp add: addChar_def)
  next
    case False
    then have d: "drop i s = c # escapeInline a @ rest" using Cons.prems by simp
    have "readFrom s i st = readFrom s (Suc i) (addChar c st)" by (rule read_char [OF d False])
    also have "\<dots> = readFrom s (Suc i + length (escapeInline a)) ((addChar c st)\<lparr>rs_buffer := rs_buffer (addChar c st) @ a\<rparr>)"
      using drop_next [OF d] by (intro Cons.IH) simp
    finally show ?thesis using False by (simp add: addChar_def)
  qed
qed simp

lemma closer_found:
  assumes "drop i s = d @ rest" and "d \<noteq> []" and "j \<le> i" and "\<forall>k. j \<le> k \<and> k < i \<longrightarrow> s ! k \<noteq> hd d"
    and "0 < i" and "\<not> isSpace (s ! (i - 1))" and "s ! (i - 1) \<noteq> BACKSLASH"
  shows "indexOfSub s d j = Some i" "closerFrom s d j"
proof -
  have len: "i + length d \<le> length s"
  proof -
    have "length (drop i s) = length d + length rest" by (simp add: assms(1))
    then show ?thesis using assms(2) by (cases d) auto
  qed
  have here: "take (length d) (drop i s) = d" by (simp add: assms(1))
  have before: "take (length d) (drop k s) \<noteq> d" if "j \<le> k" "k < i" for k
  proof
    assume k: "take (length d) (drop k s) = d"
    have "k < length s" using that len by simp
    then have "hd d = s ! k" using k assms(2) by (metis hd_drop_conv_nth hd_take length_greater_0_conv)
    then show False using assms(4) [rule_format, of k] that by simp
  qed
  show found: "indexOfSub s d j = Some i"
    unfolding indexOfSub_def find_Some_iff
    using len here before assms(2,3)
    by (intro exI [of _ "i - j"]) (auto simp: nth_upt)
  have "charAt s (i - 1) = Some (s ! (i - 1))" using len assms(2) by (cases d) (auto simp: charAt_def)
  then show "closerFrom s d j" using found assms(6,7) by (simp add: closerFrom.simps [of s d j] spaceAt_def)
qed

text \<open>The positions of a marked word: its delimiters and its letters.\<close>

lemma nth_of_drop: "drop i s = b @ rest \<Longrightarrow> k < length b \<Longrightarrow> s ! (i + k) = b ! k"
  by (metis nth_append nth_drop drop_all le_cases length_append add_leD1 length_drop list.size(3) append_is_Nil_conv less_nat_zero_code)

lemma word_between:
  assumes "drop i s = d @ b @ rest" and "b \<noteq> []" and "\<not> isSpace (last b)" and "\<forall>c \<in> set b. \<not> isEscaped c" and "isEscaped (hd d)"
  shows "drop (i + length d) s = b @ rest" "drop (i + length d + length b) s = rest"
    "\<forall>k. i + length d \<le> k \<and> k < i + length d + length b \<longrightarrow> s ! k \<noteq> hd d"
    "s ! (i + length d + length b - 1) = last b" "charAt s (i + length d) = Some (hd b)"
proof -
  show word: "drop (i + length d) s = b @ rest" using assms(1) by (metis append_eq_conv_conj drop_drop add.commute)
  show "drop (i + length d + length b) s = rest" using word by (metis append_eq_conv_conj drop_drop add.commute)
  have at: "s ! (i + length d + k) = b ! k" if "k < length b" for k using nth_of_drop [OF word that] .
  show "\<forall>k. i + length d \<le> k \<and> k < i + length d + length b \<longrightarrow> s ! k \<noteq> hd d"
  proof (intro allI impI)
    fix k assume k: "i + length d \<le> k \<and> k < i + length d + length b"
    then obtain m where m: "k = i + length d + m" "m < length b"
      by (metis le_add_diff_inverse nat_add_left_cancel_less)
    then have "s ! k \<in> set b" using at [of m] by simp
    then show "s ! k \<noteq> hd d" using assms(4,5) by metis
  qed
  show "s ! (i + length d + length b - 1) = last b"
    using at [of "length b - 1"] assms(2) by (simp add: last_conv_nth Suc_le_eq flip: Nat.add_diff_assoc)
  show "charAt s (i + length d) = Some (hd b)"
    using charAt_drop [of s "i + length d" 0] word assms(2) by (cases b) simp_all
qed

lemma delimiter_cases:
  "s ! i = CHR ''*'' \<Longrightarrow> charAt s (i + 1) = Some (CHR ''*'') \<Longrightarrow> mayToggle s i 2 ''strong'' st \<Longrightarrow> delimiterAt s i st = Some (''strong'', 2)"
  "s ! i = CHR ''~'' \<Longrightarrow> charAt s (i + 1) = Some (CHR ''~'') \<Longrightarrow> mayToggle s i 2 ''strikethrough'' st \<Longrightarrow>
    delimiterAt s i st = Some (''strikethrough'', 2)"
  "s ! i = CHR ''*'' \<Longrightarrow> charAt s (i + 1) \<noteq> Some (CHR ''*'') \<Longrightarrow> mayToggle s i 1 ''em'' st \<Longrightarrow> delimiterAt s i st = Some (''em'', 1)"
  by (simp_all add: delimiterAt_def Let_def)

lemma openMark_forms:
  "openMark ''strong'' = ''**''" "openMark ''em'' = ''*''" "openMark ''strikethrough'' = ''~~''" "openMark ''inlineCode'' = [CHR 0x60]"
  by (simp_all add: openMark_def)

definition emptyRead :: "inline_op list \<Rightarrow> (string \<times> nat) list \<Rightarrow> string \<Rightarrow> read_state" where
  "emptyRead ops since buffer = \<lparr>rs_ops = ops, rs_marks = [], rs_since = since, rs_buffer = buffer\<rparr>"

definition inMark :: "string \<Rightarrow> inline_op list \<Rightarrow> (string \<times> nat) list \<Rightarrow> string \<Rightarrow> read_state" where
  "inMark mark ops since buffer = \<lparr>rs_ops = ops, rs_marks = [(mark, JObject [])], rs_since = since, rs_buffer = buffer\<rparr>"

lemma toggle_opens: "\<exists>since'. toggle mark (emptyRead ops since buffer) = inMark mark (ops @ plainOps buffer) since' []"
  by (auto simp: toggle_def Let_def flushText_def emptyRead_def inMark_def plainOps_def plainOp_def)

lemma toggle_closes:
  "b \<noteq> [] \<Longrightarrow> \<exists>since'. toggle mark (inMark mark ops since b) = emptyRead (ops @ [markedOp mark b]) since' []"
  by (simp add: toggle_def Let_def flushText_def emptyRead_def inMark_def markedOp_def objectDelete_def)

lemma opens_here:
  assumes d: "drop i s = openMark mark @ b @ openMark mark @ rest" and run: "spellable (a, mark, b)"
  shows "\<exists>since'. readFrom s i (emptyRead ops since buffer) =
    readFrom s (i + length (openMark mark)) (inMark mark (ops @ plainOps buffer) since' [])"
proof -
  let ?d = "openMark mark" and ?st = "emptyRead ops since buffer"
  have b: "b \<noteq> []" "\<not> isSpace (hd b)" "\<not> isSpace (last b)" "\<forall>c \<in> set b. \<not> isEscaped c"
    and mark: "mark \<in> {''strong'', ''em'', ''strikethrough'', ''inlineCode''}"
    using run by (simp_all add: spellable_def)
  have dl: "isEscaped (hd ?d)" "?d \<noteq> []" using mark by (auto simp: openMark_def isEscaped_def)
  note w = word_between [OF d b(1,3,4) dl(1)]
  have last: "\<not> isEscaped (last b)" "hd b \<noteq> CHR ''*''" using b(1,4) by (auto simp: isEscaped_def)
  have pos: "0 < i + length ?d + length b" "i + length ?d + 1 \<le> i + length ?d + length b" using b(1) by (cases b; simp)+
  have none: "\<forall>k. i + length ?d + 1 \<le> k \<and> k < i + length ?d + length b \<longrightarrow> s ! k \<noteq> hd ?d" using w(3) by simp
  have lastb: "\<not> isSpace (s ! (i + length ?d + length b - 1))" "s ! (i + length ?d + length b - 1) \<noteq> BACKSLASH"
    using w(4) b(3) last(1) escaped_chars(1) by (simp_all, metis)
  note found = closer_found [OF w(2) dl(2) pos(2) none pos(1) lastb]
  have closer: "hasCloser s (i + length ?d) ?d" using found(2) by (simp add: hasCloser_def)
  have take: "take (length ?d) (drop i s) = ?d" by (simp add: d)
  have may: "mayToggle s i (length ?d) mark ?st"
    using closer w(5) b(2) take by (simp add: mayToggle_def isActive_def emptyRead_def canOpen_def spaceAt_def)
  have first: "drop i s = hd ?d # tl ?d @ b @ ?d @ rest" using d dl(2) by (cases ?d) simp_all
  note i = drop_next [OF first]
  have step: "readFrom s i ?st = readFrom s (i + length ?d) (toggle mark ?st)"
  proof (cases "mark = ''inlineCode''")
    case True
    then have "indexOfSub s [CHR 0x60] (i + 1) \<noteq> None"
    proof -
      have "\<forall>k. i + 1 \<le> k \<and> k < i + length ?d + length b \<longrightarrow> s ! k \<noteq> hd ?d" using w(3) True by (simp add: openMark_def)
      from closer_found(1) [OF w(2) dl(2) _ this pos(1) lastb] pos True show ?thesis by (simp add: openMark_def)
    qed
    then show ?thesis using True i by (simp add: readFrom.simps [of s i] openMark_def isActive_def emptyRead_def BACKSLASH_def)
  next
    case False
    have next': "charAt s (i + 1) = Some ((?d @ b) ! 1)"
      using charAt_drop [of s i 1] first dl(2) b(1) by (cases ?d; cases "tl ?d"; cases b) simp_all
    have "delimiterAt s i ?st = Some (mark, length ?d)"
    proof -
      consider "mark = ''strong''" | "mark = ''em''" | "mark = ''strikethrough''" using mark False by auto
      then show ?thesis
      proof cases
        case 1
        have "mayToggle s i 2 ''strong'' ?st" using may 1 by (simp add: openMark_forms numeral_2_eq_2)
        then show ?thesis using 1 i next' delimiter_cases(1) by (simp add: openMark_forms)
      next
        case 2
        have "charAt s (i + 1) \<noteq> Some (CHR ''*'')" using 2 next' last(2) b(1) by (simp add: openMark_forms hd_conv_nth)
        moreover have "mayToggle s i 1 ''em'' ?st" using may 2 by (simp add: openMark_forms)
        ultimately show ?thesis using 2 i delimiter_cases(3) by (simp add: openMark_forms)
      next
        case 3
        have "mayToggle s i 2 ''strikethrough'' ?st" using may 3 by (simp add: openMark_forms numeral_2_eq_2)
        then show ?thesis using 3 i next' delimiter_cases(2) by (simp add: openMark_forms)
      qed
    qed
    moreover have "hd ?d \<noteq> BACKSLASH" "hd ?d \<noteq> CHR 0x60" "hd ?d \<noteq> CHR ''['' "
      using mark False by (auto simp: openMark_def BACKSLASH_def)
    ultimately show ?thesis
      using i no_link [of s i] by (simp add: readFrom.simps [of s i] isActive_def emptyRead_def)
  qed
  then show ?thesis using toggle_opens [of mark ops since buffer] by metis
qed

lemma closes_here:
  assumes d: "drop i s = openMark mark @ rest" and mark: "mark \<in> {''strong'', ''em'', ''strikethrough'', ''inlineCode''}"
    and b: "b \<noteq> []" and before: "0 < i" "\<not> isSpace (s ! (i - 1))" and after: "rest = [] \<or> hd rest \<noteq> CHR ''*''"
  shows "\<exists>since'. readFrom s i (inMark mark ops since b) =
    readFrom s (i + length (openMark mark)) (emptyRead (ops @ [markedOp mark b]) since' [])"
proof -
  let ?d = "openMark mark" and ?st = "inMark mark ops since b"
  have dl: "?d \<noteq> []" using mark by (auto simp: openMark_def)
  have first: "drop i s = hd ?d # tl ?d @ rest" using d dl by (cases ?d) simp_all
  note i = drop_next [OF first]
  have "charAt s (i - 1) = Some (s ! (i - 1))" using i by (simp add: charAt_def less_imp_diff_less)
  then have may: "mayToggle s i (length ?d) mark ?st"
    using before b by (simp add: mayToggle_def isActive_def inMark_def canClose_def hasContent_def spaceAt_def)
  have step: "readFrom s i ?st = readFrom s (i + length ?d) (toggle mark ?st)"
  proof (cases "mark = ''inlineCode''")
    case True
    then show ?thesis using i by (simp add: readFrom.simps [of s i] openMark_def isActive_def inMark_def BACKSLASH_def)
  next
    case False
    have next': "charAt s (i + 1) = (case tl ?d @ rest of [] \<Rightarrow> None | c # r \<Rightarrow> Some c)"
      using charAt_drop [of s i 1] first by simp
    have "delimiterAt s i ?st = Some (mark, length ?d)"
    proof -
      consider "mark = ''strong''" | "mark = ''em''" | "mark = ''strikethrough''" using mark False by auto
      then show ?thesis
      proof cases
        case 1
        have "mayToggle s i 2 ''strong'' ?st" using may 1 by (simp add: openMark_forms numeral_2_eq_2)
        then show ?thesis using 1 i next' delimiter_cases(1) by (simp add: openMark_forms)
      next
        case 2
        have "charAt s (i + 1) \<noteq> Some (CHR ''*'')" using 2 next' after by (cases rest) (simp_all add: openMark_forms)
        moreover have "mayToggle s i 1 ''em'' ?st" using may 2 by (simp add: openMark_forms)
        ultimately show ?thesis using 2 i delimiter_cases(3) by (simp add: openMark_forms)
      next
        case 3
        have "mayToggle s i 2 ''strikethrough'' ?st" using may 3 by (simp add: openMark_forms numeral_2_eq_2)
        then show ?thesis using 3 i next' delimiter_cases(2) by (simp add: openMark_forms)
      qed
    qed
    moreover have "hd ?d \<noteq> BACKSLASH" "hd ?d \<noteq> CHR 0x60" "hd ?d \<noteq> CHR ''['' " "\<not> isActive ''inlineCode'' ?st"
      using mark False by (auto simp: openMark_def BACKSLASH_def isActive_def inMark_def)
    ultimately show ?thesis using i no_link [of s i] by (simp add: readFrom.simps [of s i])
  qed
  then show ?thesis using toggle_closes [OF b, of mark ops since] by metis
qed

lemma escaped_head: "a \<noteq> [] \<Longrightarrow> hd (escapeInline a @ rest) \<noteq> CHR ''*''"
  by (cases a) (auto simp: isEscaped_def BACKSLASH_def)

lemma read_end:
  assumes "drop i s = escapeInline final"
  shows "readFrom s i (emptyRead ops since []) = mergeOps [] (ops @ plainOps final)"
proof -
  have "length s \<le> i + length (escapeInline final)" using arg_cong [OF assms, of length] by simp
  moreover have "readFrom s i (emptyRead ops since []) = readFrom s (i + length (escapeInline final)) (emptyRead ops since final)"
    using read_escaped [of i s final "[]" "emptyRead ops since []"] assms by (simp add: emptyRead_def)
  ultimately show ?thesis
    by (simp add: readFrom.simps [of s "i + length (escapeInline final)"] finishRead_def flushText_def cleanOps_def emptyRead_def
        plainOps_def plainOp_def)
qed

lemma read_runs:
  assumes "drop i s = runsText runs final" and "\<forall>run \<in> set runs. spellable run" and "\<forall>run \<in> set (tl runs). notBlank (fst run)"
  shows "readFrom s i (emptyRead ops since []) = mergeOps [] (ops @ runsOps runs final)"
  using assms
proof (induction runs final arbitrary: i ops since rule: runsText.induct)
  case (1 final)
  then show ?case by (simp add: read_end)
next
  case (2 a mark b runs final)
  let ?d = "openMark mark" and ?rest = "runsText runs final"
  let ?i1 = "i + length (escapeInline a)" let ?i2 = "?i1 + length ?d" let ?i3 = "?i2 + length b" let ?i4 = "?i3 + length ?d"
  have run: "spellable (a, mark, b)" and mark: "mark \<in> {''strong'', ''em'', ''strikethrough'', ''inlineCode''}"
    and b: "b \<noteq> []" "\<not> isSpace (last b)" "\<forall>c \<in> set b. \<not> isEscaped c"
    using 2(3) by (simp_all add: spellable_def)
  have d0: "drop i s = escapeInline a @ ?d @ b @ ?d @ ?rest" using 2(2) by simp
  have d1: "drop ?i1 s = ?d @ b @ ?d @ ?rest" using d0 by (metis append_eq_conv_conj drop_drop add.commute)
  have d2: "drop ?i2 s = b @ ?d @ ?rest" using d1 by (metis append_eq_conv_conj drop_drop add.commute)
  have d3: "drop ?i3 s = ?d @ ?rest" using d2 by (metis append_eq_conv_conj drop_drop add.commute)
  have d4: "drop ?i4 s = ?rest" using d3 by (metis append_eq_conv_conj drop_drop add.commute)
  have s1: "readFrom s i (emptyRead ops since []) = readFrom s ?i1 (emptyRead ops since a)"
    using read_escaped [OF d0, of "emptyRead ops since []"] by (simp add: emptyRead_def)
  obtain since2 where s2: "readFrom s ?i1 (emptyRead ops since a) = readFrom s ?i2 (inMark mark (ops @ plainOps a) since2 [])"
    using opens_here [OF d1 run] by blast
  have s3: "readFrom s ?i2 (inMark mark (ops @ plainOps a) since2 []) = readFrom s ?i3 (inMark mark (ops @ plainOps a) since2 b)"
    using read_text [OF d2 b(3), of "inMark mark (ops @ plainOps a) since2 []"] by (simp add: inMark_def)
  have "s ! (?i2 + (length b - 1)) = last b" using nth_of_drop [OF d2, of "length b - 1"] b(1) by (simp add: last_conv_nth)
  moreover have "?i2 + (length b - 1) = ?i3 - 1" "0 < ?i3" using b(1) by (cases b; simp)+
  ultimately have before: "0 < ?i3" "\<not> isSpace (s ! (?i3 - 1))" using b(2) by simp_all
  have after: "?rest = [] \<or> hd ?rest \<noteq> CHR ''*''"
  proof (cases runs)
    case Nil
    then show ?thesis using escaped_head [of final "[]"] by (cases "final = []") simp_all
  next
    case (Cons r rs)
    obtain a' mark' b' where r: "r = (a', mark', b')" by (cases r)
    have "notBlank a'" using 2(4) by (simp add: Cons r)
    then have "a' \<noteq> []" by (auto simp: notBlank_def)
    then show ?thesis using escaped_head [of a' "openMark mark' @ b' @ openMark mark' @ runsText rs final"]
      by (simp only: Cons r runsText.simps append_assoc) simp
  qed
  obtain since4 where s4: "readFrom s ?i3 (inMark mark (ops @ plainOps a) since2 b) =
      readFrom s ?i4 (emptyRead ((ops @ plainOps a) @ [markedOp mark b]) since4 [])"
    using closes_here [OF d3 mark b(1) before after] by blast
  have later_runs: "\<forall>run \<in> set (tl runs). notBlank (fst run)" using 2(4) by (cases runs) auto
  have "readFrom s ?i4 (emptyRead ((ops @ plainOps a) @ [markedOp mark b]) since4 []) =
      mergeOps [] (((ops @ plainOps a) @ [markedOp mark b]) @ runsOps runs final)"
    using 2(3) later_runs by (intro "2.IH" d4) auto
  then show ?case using s1 s2 s3 s4 by simp
qed

lemma mergeOps_apart:
  "successively (\<lambda>p q. io_attributes p \<noteq> io_attributes q) (merged @ ops) \<Longrightarrow> mergeOps merged ops = merged @ ops"
proof (induction merged ops rule: mergeOps.induct)
  case (2 merged op ops)
  then show ?case
    by (cases merged rule: rev_cases) (auto simp: successively_append_iff)
qed simp

lemma runsOps_apart:
  "\<forall>run \<in> set (tl runs). notBlank (fst run) \<Longrightarrow> successively (\<lambda>p q. io_attributes p \<noteq> io_attributes q) (runsOps runs final)"
proof (induction runs final rule: runsOps.induct)
  case (2 a mark b runs final)
  have rest: "successively (\<lambda>p q. io_attributes p \<noteq> io_attributes q) (runsOps runs final)"
    using 2(2) by (intro "2.IH") (cases runs; auto)
  have "runsOps runs final = [] \<or> io_attributes (hd (runsOps runs final)) = []"
  proof (cases runs)
    case (Cons r rs)
    have "notBlank (fst r)" using 2(2) by (simp add: Cons)
    then have "fst r \<noteq> []" by (auto simp: notBlank_def)
    then show ?thesis using Cons by (cases r) (simp add: plainOps_def plainOp_def)
  qed (simp add: plainOps_def plainOp_def)
  then show ?case using rest
    by (cases "runsOps runs final") (auto simp: plainOps_def plainOp_def markedOp_def)
qed (simp add: plainOps_def)

text \<open>C29: Markdown gives back what was written. A run of text of any characters with bold, italic, struck
  and code words in it, each between text that is not blank and free of the characters that need an
  escape, reads back as the same operations, and so do its words.\<close>

theorem markdown_roundtrip:
  assumes "\<forall>run \<in> set runs. spellable run" and "\<forall>run \<in> set (tl runs). notBlank (fst run)"
  shows "markdownToOps (opsToMarkdown (runsOps runs final)) = runsOps runs final"
proof -
  have "startRead = emptyRead [] [] []" by (simp add: startRead_def emptyRead_def)
  then show ?thesis
    using read_runs [of 0 "runsText runs final" runs final "[]" "[]"] assms opsToMarkdown_runs [OF assms]
      mergeOps_apart [of "[]"] runsOps_apart [OF assms(2)]
    by (simp add: markdownToOps_def)
qed

theorem markdown_roundtrip_witness:
  "markdownToOps (opsToMarkdown (runsOps [(''2 * 3 '', ''strong'', ''is six''), ('' and '', ''inlineCode'', ''x+1'')] '' [too]'')) =
     [plainOp ''2 * 3 '', markedOp ''strong'' ''is six'', plainOp '' and '', markedOp ''inlineCode'' ''x+1'', plainOp '' [too]'']"
proof -
  let ?runs = "[(''2 * 3 '', ''strong'', ''is six''), ('' and '', ''inlineCode'', ''x+1'')]"
  have "list_all spellable ?runs" "list_all (\<lambda>run. notBlank (fst run)) (tl ?runs)" by code_simp+
  then have "markdownToOps (opsToMarkdown (runsOps ?runs '' [too]'')) = runsOps ?runs '' [too]''"
    by (intro markdown_roundtrip) (simp_all only: list_all_iff)
  then show ?thesis by (simp add: plainOps_def)
qed

text \<open>What does not come back: the escape in code, and the mark around a link.\<close>

lemma code_loses_backslash:
  "markdownToOps (opsToMarkdown [markedOp ''inlineCode'' [CHR ''a'', BACKSLASH, CHR ''b'']]) = [markedOp ''inlineCode'' ''ab'']"
  by code_simp

lemma bold_link_unread:
  "map io_insert (markdownToOps ''**[a](b)**'') = [''a'', ''**'']"
  by code_simp

lemma bold_star_unread:
  "markdownToOps (opsToMarkdown [markedOp ''strong'' ''*'']) = [markedOp ''em'' ''**'', plainOp ''*'']"
  by code_simp

end
