(* ===== verification/Block_Tree.thy ===== *)
theory Block_Tree
  imports Inline_Markdown Attribution Sync_Protocol
begin

text \<open>
  \<^verbatim>\<open>packages/core/src/doc/blockTree.ts\<close>: the body of a page is one XML fragment; this reads the tree of
  blocks out of it, builds and changes blocks, and finds the people and pages that are named in it. The
  fragment is the list of its nodes, an element with its attributes and the client whose item holds it.
  The engine's JSON functions and the way it prints a number that is no integer are the arguments \<open>E\<close>.
\<close>

section \<open>Fragments\<close>

record text_op =
  to_insert :: json
  to_attributes :: attributes

datatype xnode =
    XText "text_op list"
  | XElem (xe_name: string) (xe_attrs: attributes) (xe_client: "int option") (xe_children: "xnode list")

text \<open>\<open>printed s\<close>: whether \<open>s\<close> is the text of a finite number other than an integer of at most \<open>2 ^ 53\<close>.\<close>

record engine =
  printed :: "string \<Rightarrow> bool"
  parseJSON :: "string \<Rightarrow> json option"
  stringifyJSON :: "json \<Rightarrow> string"

definition MAX_BLOCK_DEPTH :: nat where
  "MAX_BLOCK_DEPTH = 32"

definition STRUCTURAL_BLOCK_TYPES :: "string list" where
  "STRUCTURAL_BLOCK_TYPES = [''columns'', ''column'']"

definition MENTION_NODE :: string where
  "MENTION_NODE = ''mention''"

datatype block_warning =
    TooDeepBlock
  | LooseText
  | NoBlockId string
  | IndentRead string nat nat
  | PropsNotString string
  | PropsNotObject string
  | PropsNotJson string

record tree_block =
  tb_id :: string
  tb_type :: string
  tb_parentId :: "string option"
  tb_position :: nat
  tb_depth :: nat
  tb_props :: attributes
  tb_text :: string
  tb_markdown :: string
  tb_childIds :: "string list"

section \<open>Properties\<close>

text \<open>
  A value that is there and undefined is left out when the object is written. The keys are sorted by code units, and
  an object without keys is written as none. (A key that is an array index would be listed first by the engine; such
  keys are left aside.)
\<close>

type_synonym patch = "(string \<times> json option) list"

definition defined :: "attributes \<Rightarrow> patch" where
  "defined kvs = map (\<lambda>(k, v). (k, Some v)) kvs"

definition sortKeys :: "(string \<times> 'v) list \<Rightarrow> (string \<times> 'v) list" where
  "sortKeys props = sort_key (\<lambda>(k, v). map charCode k) props"

definition serialiseProps :: "engine \<Rightarrow> patch \<Rightarrow> string option" where
  "serialiseProps E props =
     (if props = [] then None
      else Some (stringifyJSON E (JObject (List.map_filter (\<lambda>(k, v). map_option (Pair k) v) (sortKeys props)))))"

text \<open>An integer that its own text spells.\<close>

definition spelledInt :: "string \<Rightarrow> int option" where
  "spelledInt raw =
     (case parseInt raw of
        None \<Rightarrow> None
      | Some n \<Rightarrow> if showInt n = raw \<and> \<bar>n\<bar> \<le> 2 ^ 53 then Some n else None)"

definition coerceAttribute :: "engine \<Rightarrow> string \<Rightarrow> json" where
  "coerceAttribute E raw =
     (if raw = ''true'' then JBool True
      else if raw = ''false'' then JBool False
      else if raw = ''null'' then JNull
      else if raw = [] then JString []
      else case spelledInt raw of
             Some n \<Rightarrow> JNumber n
           | None \<Rightarrow> if printed E raw then JFraction raw else JString raw)"

definition parseProps :: "engine \<Rightarrow> json option \<Rightarrow> string \<Rightarrow> attributes \<times> block_warning list" where
  "parseProps E raw bid =
     (case raw of
        None \<Rightarrow> ([], [])
      | Some JNull \<Rightarrow> ([], [])
      | Some (JString s) \<Rightarrow>
          if s = [] then ([], [])
          else (case parseJSON E s of
                  None \<Rightarrow> ([], [PropsNotJson bid])
                | Some (JObject kvs) \<Rightarrow> (kvs, [])
                | Some v \<Rightarrow> ([], [PropsNotObject bid]))
      | Some v \<Rightarrow> ([], [PropsNotString bid]))"

definition derivedProps :: "engine \<Rightarrow> attributes \<Rightarrow> attributes" where
  "derivedProps E attrs =
     map (\<lambda>(k, v). (k, (case v of JString s \<Rightarrow> coerceAttribute E s | _ \<Rightarrow> v)))
       (filter (\<lambda>(k, v). k \<notin> {''id'', ''props'', ''indent''}) attrs)"

definition readAllProps :: "engine \<Rightarrow> attributes \<Rightarrow> string \<Rightarrow> attributes \<times> block_warning list" where
  "readAllProps E attrs bid =
     (case parseProps E (map_of attrs ''props'') bid of
        (parsed, warnings) \<Rightarrow> (objectSpread (derivedProps E attrs) parsed, warnings))"

section \<open>Text\<close>

text \<open>The id attribute is a string; none and an empty one are no id.\<close>

definition blockId :: "attributes \<Rightarrow> string option" where
  "blockId attrs = (case map_of attrs ''id'' of Some (JString s) \<Rightarrow> if s = [] then None else Some s | _ \<Rightarrow> None)"

definition mentionLabel :: "attributes \<Rightarrow> string" where
  "mentionLabel attrs = (case map_of attrs ''label'' of Some (JString s) \<Rightarrow> s | _ \<Rightarrow> [])"

definition insertText :: "text_op \<Rightarrow> string" where
  "insertText op = (case to_insert op of JString s \<Rightarrow> s | _ \<Rightarrow> [])"

text \<open>The children of an element at a depth, which is checked when an element is entered.\<close>

fun inlineText :: "nat \<Rightarrow> xnode list \<Rightarrow> string" where
  "inlineText depth [] = []"
| "inlineText depth (XText ops # rest) = concat (map insertText ops) @ inlineText depth rest"
| "inlineText depth (XElem name attrs client children # rest) =
     (if blockId attrs \<noteq> None then []
      else if name = MENTION_NODE then CHR 0x40 # mentionLabel attrs
      else if MAX_BLOCK_DEPTH < depth + 1 then []
      else inlineText (depth + 1) children) @ inlineText depth rest"

fun markdownParts :: "xnode list \<Rightarrow> inline_op list" where
  "markdownParts [] = []"
| "markdownParts (XText ops # rest) =
     concat (map (\<lambda>op. case to_insert op of JString s \<Rightarrow> [\<lparr>io_insert = s, io_attributes = to_attributes op\<rparr>] | _ \<Rightarrow> []) ops) @
     markdownParts rest"
| "markdownParts (XElem name attrs client children # rest) =
     (if blockId attrs \<noteq> None then []
      else if name = MENTION_NODE then [\<lparr>io_insert = CHR 0x40 # mentionLabel attrs, io_attributes = []\<rparr>]
      else [\<lparr>io_insert = inlineText 1 children, io_attributes = []\<rparr>]) @ markdownParts rest"

definition inlineMarkdown :: "xnode list \<Rightarrow> string" where
  "inlineMarkdown children = opsToMarkdown (markdownParts children)"

section \<open>Reading the tree\<close>

definition readIndent :: "attributes \<Rightarrow> nat" where
  "readIndent attrs =
     (case map_of attrs ''indent'' of
        None \<Rightarrow> 0
      | Some raw \<Rightarrow>
          if raw = JNull \<or> raw = JString [] then 0
          else case parseInt (jsString raw) of
                 None \<Rightarrow> 0
               | Some n \<Rightarrow> if n < 0 then 0 else min (nat n) MAX_BLOCK_DEPTH)"

text \<open>A stray text: serialised, it is more than white space when it has marks, an embedded object or words.\<close>

definition strayText :: "text_op list \<Rightarrow> bool" where
  "strayText ops =
     list_ex (\<lambda>op. to_attributes op \<noteq> [] \<or> (case to_insert op of JString s \<Rightarrow> trim s \<noteq> [] | _ \<Rightarrow> True)) ops"

fun hasBlockChildren :: "xnode list \<Rightarrow> bool" where
  "hasBlockChildren [] = False"
| "hasBlockChildren (XText ops # rest) = hasBlockChildren rest"
| "hasBlockChildren (XElem name attrs client children # rest) = (blockId attrs \<noteq> None \<or> hasBlockChildren rest)"

record tree_state =
  ts_blocks :: "tree_block list"
  ts_warnings :: "block_warning list"

definition warn :: "block_warning \<Rightarrow> tree_state \<Rightarrow> tree_state" where
  "warn w st = st\<lparr>ts_warnings := ts_warnings st @ [w]\<rparr>"

text \<open>\<open>byId\<close> holds the block that was added last under an id.\<close>

fun addChildRev :: "string \<Rightarrow> string \<Rightarrow> tree_block list \<Rightarrow> tree_block list" where
  "addChildRev p c [] = []"
| "addChildRev p c (b # bs) = (if tb_id b = p then b\<lparr>tb_childIds := tb_childIds b @ [c]\<rparr> # bs else b # addChildRev p c bs)"

definition addChild :: "string option \<Rightarrow> string \<Rightarrow> tree_block list \<Rightarrow> tree_block list" where
  "addChild parent c bs = (case parent of None \<Rightarrow> bs | Some p \<Rightarrow> rev (addChildRev p c (rev bs)))"

text \<open>The stack has the innermost ancestor first.\<close>

definition normalIndent :: "(string \<times> nat) list \<Rightarrow> nat \<Rightarrow> nat" where
  "normalIndent stack raw = (case stack of [] \<Rightarrow> 0 | (i, d) # rest \<Rightarrow> min raw (d + 1))"

definition openAncestors :: "(string \<times> nat) list \<Rightarrow> nat \<Rightarrow> (string \<times> nat) list" where
  "openAncestors stack indent = dropWhile (\<lambda>(i, d). indent \<le> d) stack"

definition newBlock ::
    "engine \<Rightarrow> string \<Rightarrow> string \<Rightarrow> attributes \<Rightarrow> xnode list \<Rightarrow> string option \<Rightarrow> nat \<Rightarrow> nat \<Rightarrow> tree_block" where
  "newBlock E i type attrs children parent position depth =
    \<lparr>tb_id = i, tb_type = type, tb_parentId = parent, tb_position = position, tb_depth = depth,
     tb_props = fst (readAllProps E attrs i), tb_text = inlineText 0 children, tb_markdown = inlineMarkdown children,
     tb_childIds = []\<rparr>"

definition enterBlock ::
    "engine \<Rightarrow> string \<Rightarrow> string \<Rightarrow> attributes \<Rightarrow> xnode list \<Rightarrow> string option \<Rightarrow> nat \<Rightarrow> (string \<times> nat) list \<Rightarrow> tree_state \<Rightarrow>
     (string \<times> nat) list \<times> tree_state" where
  "enterBlock E i type attrs children structural base stack st =
     (let raw = readIndent attrs; indent = normalIndent stack raw;
          st = (if indent \<noteq> raw then warn (IndentRead i raw indent) st else st);
          stack = openAncestors stack indent;
          parent = (case stack of [] \<Rightarrow> structural | (p, d) # rest \<Rightarrow> Some p);
          block = newBlock E i type attrs children parent (length (ts_blocks st)) (base + length stack)
      in ((i, indent) # stack,
          st\<lparr>ts_warnings := ts_warnings st @ snd (readAllProps E attrs i),
             ts_blocks := addChild parent i (ts_blocks st @ [block])\<rparr>))"

fun visit :: "engine \<Rightarrow> string option \<Rightarrow> nat \<Rightarrow> (string \<times> nat) list \<Rightarrow> xnode list \<Rightarrow> tree_state \<Rightarrow> tree_state" where
  "visit E structural base stack [] st = st"
| "visit E structural base stack (XText ops # rest) st =
     visit E structural base stack rest (if strayText ops then warn LooseText st else st)"
| "visit E structural base stack (XElem name attrs client children # rest) st =
     (case blockId attrs of
        None \<Rightarrow> visit E structural base stack rest (warn (NoBlockId name) st)
      | Some i \<Rightarrow>
          (case enterBlock E i name attrs children structural base stack st of
             (stack', st') \<Rightarrow>
               visit E structural base stack' rest
                 (if name \<in> set STRUCTURAL_BLOCK_TYPES \<or> hasBlockChildren children
                  then (if MAX_BLOCK_DEPTH < base + length stack' then warn TooDeepBlock st'
                        else visit E (Some i) (base + length stack') [] children st')
                  else st')))"

definition readBlockTree :: "engine \<Rightarrow> xnode list \<Rightarrow> tree_block list \<times> block_warning list" where
  "readBlockTree E content =
     (let st = visit E None 0 [] content \<lparr>ts_blocks = [], ts_warnings = []\<rparr> in (ts_blocks st, ts_warnings st))"

section \<open>Writing\<close>

text \<open>
  A block to be written; a missing list of children is the empty one. What is inserted into a fragment becomes
  an item of the client that does it.
\<close>

datatype new_block =
  NewBlock (nb_id: string) (nb_type: string) (nb_props: "patch option") (nb_text: "string option") (nb_indent: "int option")
    (nb_children: "new_block list")

definition propsAttribute :: "engine \<Rightarrow> patch option \<Rightarrow> attributes" where
  "propsAttribute E props =
     (case props of
        None \<Rightarrow> []
      | Some kvs \<Rightarrow> (case serialiseProps E kvs of None \<Rightarrow> [] | Some s \<Rightarrow> [(''props'', JString s)]))"

definition indentAttribute :: "int option \<Rightarrow> attributes" where
  "indentAttribute indent = (case indent of None \<Rightarrow> [] | Some n \<Rightarrow> if 0 < n then [(''indent'', JString (showInt n))] else [])"

definition textNodes :: "string option \<Rightarrow> xnode list" where
  "textNodes t = (case t of None \<Rightarrow> [] | Some s \<Rightarrow> if s = [] then [] else [XText [\<lparr>to_insert = JString s, to_attributes = []\<rparr>]])"

fun buildBlock :: "engine \<Rightarrow> int option \<Rightarrow> new_block \<Rightarrow> xnode" where
  "buildBlock E client (NewBlock i type props content indent children) =
     XElem type ((''id'', JString i) # propsAttribute E props @ indentAttribute indent) client
       (textNodes content @ map (buildBlock E client) children)"

definition appendBlocks :: "engine \<Rightarrow> int option \<Rightarrow> new_block list \<Rightarrow> xnode list \<Rightarrow> xnode list" where
  "appendBlocks E client blocks content = content @ map (buildBlock E client) blocks"

definition setPageBlocks :: "engine \<Rightarrow> int option \<Rightarrow> new_block list \<Rightarrow> xnode list \<Rightarrow> xnode list" where
  "setPageBlocks E client blocks content = map (buildBlock E client) blocks"

section \<open>Finding and changing a block\<close>

fun findBlockElement :: "nat \<Rightarrow> string \<Rightarrow> xnode list \<Rightarrow> xnode option" where
  "findBlockElement depth i [] = None"
| "findBlockElement depth i (XText ops # rest) = findBlockElement depth i rest"
| "findBlockElement depth i (XElem name attrs client children # rest) =
     (if map_of attrs ''id'' = Some (JString i) then Some (XElem name attrs client children)
      else case (if MAX_BLOCK_DEPTH < depth + 1 then None else findBlockElement (depth + 1) i children) of
             Some e \<Rightarrow> Some e
           | None \<Rightarrow> findBlockElement depth i rest)"

text \<open>The fragment after the attributes of the element that is found have changed.\<close>

fun changeFound :: "(attributes \<Rightarrow> attributes) \<Rightarrow> nat \<Rightarrow> string \<Rightarrow> xnode list \<Rightarrow> xnode list" where
  "changeFound f depth i [] = []"
| "changeFound f depth i (XText ops # rest) = XText ops # changeFound f depth i rest"
| "changeFound f depth i (XElem name attrs client children # rest) =
     (if map_of attrs ''id'' = Some (JString i) then XElem name (f attrs) client children # rest
      else if depth + 1 \<le> MAX_BLOCK_DEPTH \<and> findBlockElement (depth + 1) i children \<noteq> None
      then XElem name attrs client (changeFound f (depth + 1) i children) # rest
      else XElem name attrs client children # changeFound f depth i rest)"

definition mergedProps :: "engine \<Rightarrow> string \<Rightarrow> patch \<Rightarrow> attributes \<Rightarrow> attributes" where
  "mergedProps E i patch attrs =
     (let merged = objectSpread (defined (fst (parseProps E (map_of attrs ''props'') i))) patch
      in case serialiseProps E merged of
           None \<Rightarrow> objectDelete ''props'' attrs
         | Some s \<Rightarrow> objectPut ''props'' (JString s) attrs)"

definition updateBlockProps :: "engine \<Rightarrow> string \<Rightarrow> patch \<Rightarrow> xnode list \<Rightarrow> bool \<times> xnode list" where
  "updateBlockProps E i patch content =
     (if findBlockElement 0 i content = None then (False, content)
      else (True, changeFound (mergedProps E i patch) 0 i content))"

definition setAttributes :: "patch \<Rightarrow> attributes \<Rightarrow> attributes" where
  "setAttributes patch attrs =
     fold (\<lambda>(k, v) attrs. case v of None \<Rightarrow> objectDelete k attrs | Some w \<Rightarrow> objectPut k w attrs) patch attrs"

definition patchedAttributes :: "engine \<Rightarrow> string \<Rightarrow> patch \<Rightarrow> attributes \<Rightarrow> attributes" where
  "patchedAttributes E i patch attrs =
     (let existing = fst (parseProps E (map_of attrs ''props'') i);
          shadowed = filter (\<lambda>k. k \<in> fst ` set existing) (map fst patch);
          changed = setAttributes patch attrs
      in if shadowed = [] then changed
         else (case serialiseProps E (defined (filter (\<lambda>(k, v). k \<notin> set shadowed) existing)) of
                 None \<Rightarrow> objectDelete ''props'' changed
               | Some s \<Rightarrow> objectPut ''props'' (JString s) changed))"

definition setBlockProps :: "engine \<Rightarrow> string \<Rightarrow> patch \<Rightarrow> xnode list \<Rightarrow> bool \<times> xnode list" where
  "setBlockProps E i patch content =
     (if findBlockElement 0 i content = None then (False, content)
      else (True, changeFound (patchedAttributes E i patch) 0 i content))"

section \<open>Who and what a page names\<close>

record mention =
  mn_userId :: string
  mn_blockId :: string
  mn_writtenBy :: "string option"

definition addMention ::
    "(int \<rightharpoonup> string) \<Rightarrow> string set \<Rightarrow> attributes \<Rightarrow> int option \<Rightarrow> string option \<Rightarrow>
     mention list \<times> string set \<Rightarrow> mention list \<times> string set" where
  "addMention authors ids attrs client within st =
     (case (map_of attrs ''userId'', within) of
        (Some (JString userId), Some b) \<Rightarrow>
          if userId \<noteq> [] \<and> b \<in> ids \<and> userId @ CHR 0x00 # b \<notin> snd st
          then (fst st @ [\<lparr>mn_userId = userId, mn_blockId = b,
                           mn_writtenBy = (case client of None \<Rightarrow> None | Some c \<Rightarrow> authors c)\<rparr>],
                insert (userId @ CHR 0x00 # b) (snd st))
          else st
      | _ \<Rightarrow> st)"

definition ownBlock :: "attributes \<Rightarrow> string option \<Rightarrow> string option" where
  "ownBlock attrs block = (case blockId attrs of None \<Rightarrow> block | Some i \<Rightarrow> Some i)"

fun mentionWalk ::
    "(int \<rightharpoonup> string) \<Rightarrow> string set \<Rightarrow> nat \<Rightarrow> string option \<Rightarrow> xnode list \<Rightarrow> mention list \<times> string set \<Rightarrow>
     mention list \<times> string set" where
  "mentionWalk authors ids depth block [] st = st"
| "mentionWalk authors ids depth block (XText ops # rest) st = mentionWalk authors ids depth block rest st"
| "mentionWalk authors ids depth block (XElem name attrs client children # rest) st =
     mentionWalk authors ids depth block rest
       (if name = MENTION_NODE then addMention authors ids attrs client (ownBlock attrs block) st
        else if MAX_BLOCK_DEPTH < depth + 1 then st
        else mentionWalk authors ids (depth + 1) (ownBlock attrs block) children st)"

definition treeIds :: "engine \<Rightarrow> xnode list \<Rightarrow> string set" where
  "treeIds E content = tb_id ` set (fst (readBlockTree E content))"

definition mentionsIn :: "engine \<Rightarrow> share \<Rightarrow> xnode list \<Rightarrow> mention list" where
  "mentionsIn E doc content = fst (mentionWalk (authorsByClient doc) (treeIds E content) 0 None content ([], {}))"

definition BLOCK_FRAGMENT :: string where
  "BLOCK_FRAGMENT = ''b-''"

text \<open>\<open>PAGE_HREF\<close>: \<open>p/\<close> and a UUID, at the start or after a slash, up to the end or one of \<open>/ ? #\<close>.\<close>

definition pageAt :: "string \<Rightarrow> string option" where
  "pageAt s =
     (let u = take 36 (drop 2 s); rest = drop 38 s
      in if take 2 s \<in> {''p/'', ''P/''} \<and> isUuid u \<and> (rest = [] \<or> hd rest \<in> set ''/?#'') then Some (toLowerCase u) else None)"

fun pageAfterSlash :: "string \<Rightarrow> string option" where
  "pageAfterSlash [] = None"
| "pageAfterSlash (c # cs) = (if c = CHR ''/'' \<and> pageAt cs \<noteq> None then pageAt cs else pageAfterSlash cs)"

definition pageFromHref :: "string \<Rightarrow> (string \<times> string option) option" where
  "pageFromHref href =
     (let path = takeWhile (\<lambda>c. c \<noteq> CHR ''#'') href; fragment = drop (length path + 1) href;
          address = takeWhile (\<lambda>c. c \<noteq> CHR ''?'') path
      in case (case pageAt address of Some u \<Rightarrow> Some u | None \<Rightarrow> pageAfterSlash address) of
           None \<Rightarrow> None
         | Some pageId \<Rightarrow>
             (let block = (if take 2 fragment = BLOCK_FRAGMENT then drop 2 fragment else [])
              in Some (pageId, if block = [] then None else Some block)))"

record page_link =
  pl_pageId :: string
  pl_blockId :: string
  pl_toBlockId :: "string option"

definition linkHref :: "text_op \<Rightarrow> string option" where
  "linkHref op =
     (case map_of (to_attributes op) ''link'' of
        Some (JObject kvs) \<Rightarrow> (case map_of kvs ''href'' of Some (JString s) \<Rightarrow> Some s | _ \<Rightarrow> None)
      | _ \<Rightarrow> None)"

definition addPageLink :: "string \<Rightarrow> text_op \<Rightarrow> page_link list \<times> string set \<Rightarrow> page_link list \<times> string set" where
  "addPageLink b op st =
     (case Option.bind (linkHref op) pageFromHref of
        None \<Rightarrow> st
      | Some (pageId, toBlock) \<Rightarrow>
          if pageId @ CHR '' '' # b \<in> snd st then st
          else (fst st @ [\<lparr>pl_pageId = pageId, pl_blockId = b, pl_toBlockId = toBlock\<rparr>],
                insert (pageId @ CHR '' '' # b) (snd st)))"

fun linkWalk ::
    "string set \<Rightarrow> nat \<Rightarrow> string option \<Rightarrow> xnode list \<Rightarrow> page_link list \<times> string set \<Rightarrow> page_link list \<times> string set" where
  "linkWalk ids depth block [] st = st"
| "linkWalk ids depth block (XText ops # rest) st =
     linkWalk ids depth block rest
       (case block of None \<Rightarrow> st | Some b \<Rightarrow> if b \<in> ids then fold (addPageLink b) ops st else st)"
| "linkWalk ids depth block (XElem name attrs client children # rest) st =
     linkWalk ids depth block rest
       (if MAX_BLOCK_DEPTH < depth + 1 then st else linkWalk ids (depth + 1) (ownBlock attrs block) children st)"

definition linksIn :: "engine \<Rightarrow> xnode list \<Rightarrow> page_link list" where
  "linksIn E content = fst (linkWalk (treeIds E content) 0 None content ([], {}))"

end
