(* ===== verification/Page_Versions.thy ===== *)
theory Page_Versions
  imports Doc_Store Block_Tree "HOL-Library.Product_Lexorder"
begin

text \<open>
  \<^verbatim>\<open>packages/server/src/doc/versions.ts\<close> beyond what a compaction calls: the list of a page's versions,
  thinning them, the version before one, and restoring; with the reading of a number from the environment
  (\<^verbatim>\<open>packages/server/src/env.ts\<close>) that bounds how long versions are kept.
\<close>

section \<open>Numbers from the environment\<close>

text \<open>A finite number as JavaScript reads it: an integer, or one between an integer and the next.\<close>

datatype env_number = Whole int | Between int

record number_bounds =
  nb_min :: "int option"
  nb_max :: "int option"
  nb_integer :: bool

fun isWhole :: "env_number \<Rightarrow> bool" where
  "isWhole (Whole n) = True"
| "isWhole (Between n) = False"

fun atLeastInt :: "env_number \<Rightarrow> int \<Rightarrow> bool" where
  "atLeastInt (Whole n) m = (m \<le> n)"
| "atLeastInt (Between n) m = (m \<le> n)"

fun atMostInt :: "env_number \<Rightarrow> int \<Rightarrow> bool" where
  "atMostInt (Whole n) m = (n \<le> m)"
| "atMostInt (Between n) m = (n < m)"

text \<open>
  \<open>numberOf raw\<close> is \<^verbatim>\<open>Number(raw)\<close> when that is finite. The result is the number, and what the map of refused
  values holds afterwards.
\<close>

definition envNumber ::
    "(string \<Rightarrow> env_number option) \<Rightarrow> string \<Rightarrow> env_number \<Rightarrow> number_bounds \<Rightarrow> (string \<rightharpoonup> string) \<Rightarrow> (string \<times> string) list \<Rightarrow>
     env_number \<times> (string \<times> string) list" where
  "envNumber numberOf key fallback bounds env refused =
     (case env key of
        None \<Rightarrow> (fallback, refused)
      | Some raw \<Rightarrow>
          if trim raw = [] then (fallback, refused)
          else (case numberOf raw of
                  None \<Rightarrow> (fallback, objectPut key raw refused)
                | Some asked \<Rightarrow>
                    if (nb_integer bounds \<longrightarrow> isWhole asked) \<and>
                       (case nb_min bounds of None \<Rightarrow> True | Some m \<Rightarrow> atLeastInt asked m) \<and>
                       (case nb_max bounds of None \<Rightarrow> True | Some m \<Rightarrow> atMostInt asked m)
                    then (asked, refused) else (fallback, objectPut key raw refused)))"

definition VERSION_RETENTION_DAYS :: "(string \<Rightarrow> env_number option) \<Rightarrow> (string \<rightharpoonup> string) \<Rightarrow> int" where
  "VERSION_RETENTION_DAYS numberOf env =
     (case fst (envNumber numberOf ''SONE_VERSION_RETENTION_DAYS'' (Whole 90)
                 \<lparr>nb_min = Some 1, nb_max = None, nb_integer = True\<rparr> env []) of
        Whole n \<Rightarrow> n | Between n \<Rightarrow> n)"

section \<open>The versions of a page\<close>

text \<open>\<open>ORDER BY taken_at DESC, through_seq DESC LIMIT $2\<close>, without the states.\<close>

record listed_version =
  lv_id :: nat
  lv_throughSeq :: nat
  lv_takenAt :: int
  lv_authors :: "string list"
  lv_reason :: version_reason

definition versionRow :: "'b version_row \<Rightarrow> listed_version" where
  "versionRow v =
     \<lparr>lv_id = vr_id v, lv_throughSeq = vr_through v, lv_takenAt = vr_takenAt v, lv_authors = vr_authors v, lv_reason = vr_reason v\<rparr>"

definition listVersions :: "'b doc_tables \<Rightarrow> string \<Rightarrow> nat \<Rightarrow> listed_version list" where
  "listVersions db docId limit =
     map versionRow (take limit (sort_key (\<lambda>v. (- vr_takenAt v, - int (vr_through v)))
       (filter (\<lambda>v. vr_doc v = docId) (page_versions db))))"

definition loadVersion :: "('d, 'b) yjs \<Rightarrow> 'b doc_tables \<Rightarrow> string \<Rightarrow> nat \<Rightarrow> ('d \<times> listed_version) option" where
  "loadVersion Y db docId versionId =
     map_option (\<lambda>v. (applyUpdateV2 Y (vr_state v) (newDoc Y), versionRow v))
       (queryOne (filter (\<lambda>v. vr_doc v = docId \<and> vr_id v = versionId) (page_versions db)))"

text \<open>The greatest pair of time and id below that of the version.\<close>

definition versionOrder :: "'b version_row \<Rightarrow> int \<times> nat" where
  "versionOrder v = (vr_takenAt v, vr_id v)"

definition earlierVersions :: "'b doc_tables \<Rightarrow> string \<Rightarrow> nat \<Rightarrow> 'b version_row list" where
  "earlierVersions db docId versionId =
     [prev. cur \<leftarrow> page_versions db, vr_doc cur = docId \<and> vr_id cur = versionId,
            prev \<leftarrow> page_versions db, vr_doc prev = vr_doc cur \<and> versionOrder prev < versionOrder cur]"

definition previousVersion :: "('d, 'b) yjs \<Rightarrow> 'b doc_tables \<Rightarrow> string \<Rightarrow> nat \<Rightarrow> ('d \<times> listed_version) option" where
  "previousVersion Y db docId versionId =
     Option.bind (queryOne (rev (sort_key versionOrder (earlierVersions db docId versionId))))
       (\<lambda>v. loadVersion Y db docId (vr_id v))"

section \<open>Thinning\<close>

text \<open>
  The bucket of a version: its own in the last day, the hour it was taken in within a week, the day before that.
  \<open>hourOf\<close> and \<open>dayOf\<close> are \<^verbatim>\<open>date_trunc\<close> in the time zone of the database.
\<close>

definition DAY_MS :: int where
  "DAY_MS = 86400000"

definition bucketOf :: "(int \<Rightarrow> int) \<Rightarrow> (int \<Rightarrow> int) \<Rightarrow> int \<Rightarrow> 'b version_row \<Rightarrow> nat + int" where
  "bucketOf hourOf dayOf now v =
     (if now - DAY_MS < vr_takenAt v then Inl (vr_id v)
      else if now - 7 * DAY_MS < vr_takenAt v then Inr (hourOf (vr_takenAt v))
      else Inr (dayOf (vr_takenAt v)))"

definition sameBucket :: "(int \<Rightarrow> int) \<Rightarrow> (int \<Rightarrow> int) \<Rightarrow> int \<Rightarrow> 'b version_row \<Rightarrow> 'b version_row \<Rightarrow> bool" where
  "sameBucket hourOf dayOf now u v = (vr_doc u = vr_doc v \<and> bucketOf hourOf dayOf now u = bucketOf hourOf dayOf now v)"

text \<open>\<open>row_number()\<close> in the bucket, newest first.\<close>

definition rankIn :: "(int \<Rightarrow> int) \<Rightarrow> (int \<Rightarrow> int) \<Rightarrow> int \<Rightarrow> 'b version_row list \<Rightarrow> 'b version_row \<Rightarrow> nat" where
  "rankIn hourOf dayOf now rows v =
     length (filter (\<lambda>u. sameBucket hourOf dayOf now u v \<and> versionOrder v < versionOrder u) rows) + 1"

definition thinned :: "(int \<Rightarrow> int) \<Rightarrow> (int \<Rightarrow> int) \<Rightarrow> int \<Rightarrow> int \<Rightarrow> 'b version_row list \<Rightarrow> 'b version_row \<Rightarrow> bool" where
  "thinned hourOf dayOf days now rows v =
     ((1 < rankIn hourOf dayOf now rows v \<or> vr_takenAt v < now - days * DAY_MS) \<and> vr_reason v \<noteq> Restore)"

definition thinVersions ::
    "(int \<Rightarrow> int) \<Rightarrow> (int \<Rightarrow> int) \<Rightarrow> int \<Rightarrow> int \<Rightarrow> 'b doc_tables \<Rightarrow> 'b doc_tables \<times> nat" where
  "thinVersions hourOf dayOf days now db =
     (let rows = page_versions db
      in (db\<lparr>page_versions := filter (\<lambda>v. \<not> thinned hourOf dayOf days now rows v) rows\<rparr>,
          length (filter (thinned hourOf dayOf days now rows) rows)))"

section \<open>Restoring\<close>

text \<open>
  What a restore reads and writes of a document: the body, the map of the page, and the canvas, whose items are maps.
  A shared value that is not copied is only known to be there.
\<close>

datatype page_entry = Plain json | SharedValue

datatype item_value = ItemPlain json | ItemText "text_op list" | ItemShared

datatype canvas_value = CanvasItem "(string \<times> item_value) list" | CanvasOther

record page_doc =
  pd_content :: "xnode list"
  pd_page :: "(string \<times> page_entry) list"
  pd_canvas :: "(string \<times> canvas_value) list"

definition VERSION_STRUCTURAL_KEYS :: "string list" where
  "VERSION_STRUCTURAL_KEYS = [''kind'', ''idx'', ''parentPageId'', ''collectionId'']"

fun cloneNode :: "int option \<Rightarrow> xnode \<Rightarrow> xnode" where
  "cloneNode me (XText ops) = XText ops"
| "cloneNode me (XElem name attrs client children) =
     XElem name (filter (\<lambda>(k, v). v \<noteq> JNull) attrs) me (map (cloneNode me) children)"

definition cloneInto :: "int option \<Rightarrow> xnode list \<Rightarrow> xnode list" where
  "cloneInto me source = map (cloneNode me) source"

definition restorePage :: "(string \<times> page_entry) list \<Rightarrow> (string \<times> page_entry) list \<Rightarrow> (string \<times> page_entry) list" where
  "restorePage live past =
     fold (\<lambda>(k, v) page. if k \<in> set VERSION_STRUCTURAL_KEYS then page
                          else case v of SharedValue \<Rightarrow> page | Plain w \<Rightarrow> objectPut k (Plain w) page) past
       (filter (\<lambda>(k, v). k \<in> set VERSION_STRUCTURAL_KEYS \<or> k \<in> fst ` set past) live)"

definition plainText :: "text_op list \<Rightarrow> text_op list" where
  "plainText ops =
     (let s = concat (map insertText ops) in if s = [] then [] else [\<lparr>to_insert = JString s, to_attributes = []\<rparr>])"

fun copyItemValue :: "string \<times> item_value \<Rightarrow> (string \<times> item_value) option" where
  "copyItemValue (k, ItemPlain v) = Some (k, ItemPlain v)"
| "copyItemValue (k, ItemText ops) = Some (k, ItemText (plainText ops))"
| "copyItemValue (k, ItemShared) = None"

fun copyItem :: "string \<times> canvas_value \<Rightarrow> (string \<times> canvas_value) option" where
  "copyItem (i, CanvasItem kvs) = Some (i, CanvasItem (List.map_filter copyItemValue kvs))"
| "copyItem (i, CanvasOther) = None"

definition restoreInto :: "int option \<Rightarrow> page_doc \<Rightarrow> page_doc \<Rightarrow> page_doc" where
  "restoreInto me live past =
     \<lparr>pd_content = cloneInto me (pd_content past), pd_page = restorePage (pd_page live) (pd_page past),
      pd_canvas = List.map_filter copyItem (pd_canvas past)\<rparr>"

end
