(* ===== verification/Tree_Laws.thy ===== *)
theory Tree_Laws
  imports Block_Tree
begin

text \<open>
  What the functions of \<^verbatim>\<open>blockTree.ts\<close> promise to each other: the tree that is read is well formed whatever the
  fragment holds, what is written is read back, a property that is set is the property that is read, and a page or
  a person named in a block is reported once.
\<close>

lemma hexGroups_length: "hexGroups ns s \<Longrightarrow> ns \<noteq> [] \<Longrightarrow> length s = sum_list ns + length ns - 1"
proof (induction ns s rule: hexGroups.induct)
  case (3 n m ns s)
  then have "length (drop (Suc n) s) = sum_list (m # ns) + length ns" "length (take n s) = n" "drop n s \<noteq> []" by auto
  then show ?case by auto
qed auto

section \<open>The tree that is read\<close>

text \<open>What places a block in the tree, and what holds of the blocks in reading order.\<close>

definition placeOf :: "tree_block \<Rightarrow> string \<times> string option \<times> nat \<times> nat" where
  "placeOf b = (tb_id b, tb_parentId b, tb_position b, tb_depth b)"

definition fitsAfter :: "tree_block list \<Rightarrow> tree_block \<Rightarrow> bool" where
  "fitsAfter bs b =
     (tb_position b = length bs \<and> tb_depth b \<le> 2 * MAX_BLOCK_DEPTH \<and>
      (case tb_parentId b of
         None \<Rightarrow> tb_depth b = 0
       | Some p \<Rightarrow> list_ex (\<lambda>a. tb_id a = p \<and> tb_depth b = tb_depth a + 1) bs) \<and>
      (bs \<noteq> [] \<longrightarrow> tb_depth b \<le> tb_depth (last bs) + 1))"

definition wellPlaced :: "tree_block list \<Rightarrow> bool" where
  "wellPlaced bs = (\<forall>k < length bs. fitsAfter (take k bs) (bs ! k))"

definition childrenListed :: "tree_block list \<Rightarrow> bool" where
  "childrenListed bs =
     (\<forall>b \<in> set bs. tb_childIds b = map tb_id (filter (\<lambda>c. tb_parentId c = Some (tb_id b)) bs))"

lemma wellPlaced_Nil: "wellPlaced []"
  by (simp add: wellPlaced_def)

lemma wellPlaced_snoc: "wellPlaced (bs @ [b]) \<longleftrightarrow> wellPlaced bs \<and> fitsAfter bs b"
proof -
  have "fitsAfter (take k (bs @ [b])) ((bs @ [b]) ! k) = fitsAfter (take k bs) (bs ! k)" if "k < length bs" for k
    using that by (simp add: nth_append)
  then show ?thesis by (auto simp: wellPlaced_def less_Suc_eq)
qed

lemma list_ex_places:
  assumes "map placeOf xs = map placeOf ys"
  shows "list_ex (\<lambda>a. tb_id a = p \<and> d = Suc (tb_depth a)) xs = list_ex (\<lambda>a. tb_id a = p \<and> d = Suc (tb_depth a)) ys"
proof -
  have "list_ex (\<lambda>a. tb_id a = p \<and> d = Suc (tb_depth a)) zs = list_ex (\<lambda>(i, q, k, n). i = p \<and> d = Suc n) (map placeOf zs)" for zs
    by (induction zs) (simp_all add: placeOf_def)
  then show ?thesis by (simp add: assms)
qed

lemma last_depth_places:
  assumes "map placeOf xs = map placeOf ys" "xs \<noteq> []"
  shows "tb_depth (last xs) = tb_depth (last ys)"
proof -
  have "placeOf (last xs) = placeOf (last ys)" using assms by (metis last_map list.map_disc_iff)
  then show ?thesis by (simp add: placeOf_def)
qed

lemma fitsAfter_places:
  assumes "map placeOf xs = map placeOf ys" "placeOf x = placeOf y"
  shows "fitsAfter xs x = fitsAfter ys y"
proof -
  have l: "length xs = length ys" using arg_cong [OF assms(1), of length] by simp
  have e: "xs = [] \<longleftrightarrow> ys = []" using l by auto
  have p: "tb_id x = tb_id y" "tb_parentId x = tb_parentId y" "tb_position x = tb_position y" "tb_depth x = tb_depth y"
    using assms(2) by (simp_all add: placeOf_def)
  have d: "ys \<noteq> [] \<Longrightarrow> tb_depth (last xs) = tb_depth (last ys)" using last_depth_places [OF assms(1)] e by simp
  show ?thesis
    using d by (cases "ys = []"; cases "tb_parentId y") (simp_all add: fitsAfter_def l p e list_ex_places [OF assms(1)])
qed

lemma wellPlaced_places:
  assumes "map placeOf xs = map placeOf ys"
  shows "wellPlaced xs = wellPlaced ys"
proof -
  have l: "length xs = length ys" using arg_cong [OF assms, of length] by simp
  have "fitsAfter (take k xs) (xs ! k) = fitsAfter (take k ys) (ys ! k)" if "k < length ys" for k
  proof (rule fitsAfter_places)
    show "map placeOf (take k xs) = map placeOf (take k ys)" using assms by (simp add: take_map [symmetric])
    have "placeOf (xs ! k) = map placeOf xs ! k" "placeOf (ys ! k) = map placeOf ys ! k" using that l by simp_all
    then show "placeOf (xs ! k) = placeOf (ys ! k)" using assms by simp
  qed
  then show ?thesis by (simp add: wellPlaced_def l)
qed

lemma addChildRev_places: "map placeOf (addChildRev p c bs) = map placeOf bs"
  by (induction p c bs rule: addChildRev.induct) (simp_all add: placeOf_def)

lemma addChild_places: "map placeOf (addChild parent c bs) = map placeOf bs"
  by (cases parent) (simp_all add: addChild_def addChildRev_places rev_map [symmetric])

lemma addChildRev_distinct:
  "distinct (map tb_id bs) \<Longrightarrow>
   addChildRev p c bs = map (\<lambda>b. if tb_id b = p then b\<lparr>tb_childIds := tb_childIds b @ [c]\<rparr> else b) bs"
proof (induction bs)
  case (Cons b bs)
  have "map (\<lambda>x. if tb_id x = p then x\<lparr>tb_childIds := tb_childIds x @ [c]\<rparr> else x) bs = bs" if "p = tb_id b"
  proof (rule map_idI)
    fix x
    assume "x \<in> set bs"
    then have "tb_id x \<noteq> p" using Cons.prems that by (metis distinct.simps(2) image_eqI list.set_map list.simps(9))
    then show "(if tb_id x = p then x\<lparr>tb_childIds := tb_childIds x @ [c]\<rparr> else x) = x" by simp
  qed
  then show ?case using Cons by (cases "p = tb_id b") simp_all
qed simp

lemma addChild_distinct:
  "distinct (map tb_id bs) \<Longrightarrow>
   addChild (Some p) c bs = map (\<lambda>b. if tb_id b = p then b\<lparr>tb_childIds := tb_childIds b @ [c]\<rparr> else b) bs"
  by (simp add: addChild_def addChildRev_distinct rev_map [symmetric])

lemma childrenListed_snoc:
  assumes listed: "childrenListed bs" and fits: "fitsAfter bs b" and placed: "wellPlaced bs"
    and d: "distinct (map tb_id (bs @ [b]))" and "tb_childIds b = []"
  shows "childrenListed (addChild (tb_parentId b) (tb_id b) (bs @ [b]))"
proof -
  have parents: "p \<in> tb_id ` set bs" if "c \<in> set bs" "tb_parentId c = Some p" for c p
  proof -
    obtain k where "k < length bs" "c = bs ! k" using \<open>c \<in> set bs\<close> by (auto simp: in_set_conv_nth)
    then have "fitsAfter (take k bs) c" using placed by (simp add: wellPlaced_def)
    then show ?thesis using that(2) by (auto simp: fitsAfter_def list_ex_iff dest: in_set_takeD)
  qed
  have none: "filter (\<lambda>c. tb_parentId c = Some (tb_id b)) bs = []"
    using parents d by (auto simp: filter_empty_conv)
  show ?thesis
  proof (cases "tb_parentId b")
    case None
    then show ?thesis using listed none assms(5) by (auto simp: addChild_def childrenListed_def)
  next
    case (Some p)
    have p: "p \<in> tb_id ` set bs" using fits Some by (auto simp: fitsAfter_def list_ex_iff)
    moreover have "tb_id b \<notin> tb_id ` set bs" using d by simp
    ultimately have "p \<noteq> tb_id b" by blast
    let ?f = "\<lambda>x. if tb_id x = p then x\<lparr>tb_childIds := tb_childIds x @ [tb_id b]\<rparr> else x"
    have ids: "tb_id (?f x) = tb_id x" "tb_parentId (?f x) = tb_parentId x" for x by auto
    have eq: "map tb_id (filter (\<lambda>c. tb_parentId c = Some q) (map ?f xs)) = map tb_id (filter (\<lambda>c. tb_parentId c = Some q) xs)" for q xs
      by (induction xs) auto
    have "childrenListed (map ?f (bs @ [b]))"
      unfolding childrenListed_def
    proof
      fix x
      assume "x \<in> set (map ?f (bs @ [b]))"
      then obtain y where y: "y \<in> set (bs @ [b])" "x = ?f y" by (simp only: set_map image_iff) blast
      show "tb_childIds x = map tb_id (filter (\<lambda>c. tb_parentId c = Some (tb_id x)) (map ?f (bs @ [b])))"
      proof (cases "y = b")
        case True
        then show ?thesis using y \<open>p \<noteq> tb_id b\<close> none assms(5) Some by (simp only: eq) simp
      next
        case False
        then have "tb_childIds y = map tb_id (filter (\<lambda>c. tb_parentId c = Some (tb_id y)) bs)"
          using y listed by (auto simp: childrenListed_def)
        then show ?thesis using y Some by (simp only: eq) auto
      qed
    qed
    then show ?thesis by (simp add: Some addChild_distinct [OF d])
  qed
qed

text \<open>The stack holds one open ancestor for each indent, and each stands among the blocks at its depth.\<close>

definition opened :: "nat \<Rightarrow> (string \<times> nat) list \<Rightarrow> tree_block list \<Rightarrow> bool" where
  "opened base stack bs =
     (map snd stack = rev [0..<length stack] \<and>
      (\<forall>(p, d) \<in> set stack. list_ex (\<lambda>a. tb_id a = p \<and> tb_depth a = base + d) bs))"

definition walking :: "string option \<Rightarrow> nat \<Rightarrow> (string \<times> nat) list \<Rightarrow> tree_block list \<Rightarrow> bool" where
  "walking structural base stack bs =
     (wellPlaced bs \<and> (distinct (map tb_id bs) \<longrightarrow> childrenListed bs) \<and> base \<le> MAX_BLOCK_DEPTH \<and> opened base stack bs \<and>
      (case structural of None \<Rightarrow> base = 0 | Some p \<Rightarrow> list_ex (\<lambda>a. tb_id a = p \<and> Suc (tb_depth a) = base) bs) \<and>
      (if bs = [] then base + length stack = 0 else base + length stack \<le> tb_depth (last bs) + 1))"

lemma normalIndent_le: "map snd stack = rev [0..<length stack] \<Longrightarrow> normalIndent stack raw \<le> length stack"
  by (cases stack) (auto simp: normalIndent_def)

lemma openAncestors_contiguous:
  assumes "map snd stack = rev [0..<length stack]" "n \<le> length stack"
  shows "map snd (openAncestors stack n) = rev [0..<n] \<and> set (openAncestors stack n) \<subseteq> set stack"
  using assms
proof (induction stack)
  case (Cons pd rest)
  obtain p d where pd: "pd = (p, d)" by (cases pd)
  have d: "d = length rest" "map snd rest = rev [0..<length rest]" using Cons.prems by (simp_all add: pd)
  show ?case
  proof (cases "n = Suc (length rest)")
    case True
    then show ?thesis by (simp add: openAncestors_def pd d)
  next
    case False
    then have "n \<le> length rest" using Cons.prems by simp
    then show ?thesis using Cons.IH d by (auto simp: openAncestors_def pd)
  qed
qed (simp add: openAncestors_def)

lemma readIndent_le: "readIndent attrs \<le> MAX_BLOCK_DEPTH"
  by (simp add: readIndent_def split: option.split)

lemma enterBlock_walking:
  assumes w: "walking structural base stack (ts_blocks st)"
    and e: "enterBlock E i type attrs children structural base stack st = (stack', st')"
  shows "walking structural base stack' (ts_blocks st') \<and>
         list_ex (\<lambda>a. tb_id a = i \<and> Suc (tb_depth a) = base + length stack') (ts_blocks st') \<and>
         (\<exists>later. map placeOf (ts_blocks st') = map placeOf (ts_blocks st) @ later)"
proof -
  let ?bs = "ts_blocks st" and ?n = "normalIndent stack (readIndent attrs)"
  let ?rest = "openAncestors stack ?n"
  have s: "map snd stack = rev [0..<length stack]" using w by (simp add: walking_def opened_def)
  have rest: "map snd ?rest = rev [0..<?n]" "set ?rest \<subseteq> set stack"
    using openAncestors_contiguous [OF s normalIndent_le [OF s]] by simp_all
  have len: "length ?rest = ?n" using arg_cong [OF rest(1), of length] by simp
  define parent where "parent = (case ?rest of [] \<Rightarrow> structural | (p, d) # r \<Rightarrow> Some p)"
  define b where "b = newBlock E i type attrs children parent (length ?bs) (base + ?n)"
  have st': "stack' = (i, ?n) # ?rest" "ts_blocks st' = addChild parent i (?bs @ [b])"
    using e by (auto simp: enterBlock_def Let_def warn_def parent_def b_def len split: prod.splits)
  have b: "tb_id b = i" "tb_parentId b = parent" "tb_position b = length ?bs" "tb_depth b = base + ?n" "tb_childIds b = []"
    by (simp_all add: b_def newBlock_def)
  have n: "?n \<le> length stack" "?n \<le> MAX_BLOCK_DEPTH"
    using normalIndent_le [OF s] readIndent_le [of attrs] by (auto simp: normalIndent_def split: list.splits)
  have fits: "fitsAfter ?bs b"
  proof (cases ?rest)
    case Nil
    then have "?n = 0" using len by simp
    then show ?thesis using w n Nil by (auto simp: fitsAfter_def b parent_def walking_def list_ex_iff split: option.splits if_splits)
  next
    case (Cons pd r)
    obtain p d where pd: "pd = (p, d)" by (cases pd)
    have d: "?n = Suc d" using rest(1) len [symmetric] unfolding Cons pd by simp
    have "(p, d) \<in> set stack" using rest(2) by (simp add: Cons pd)
    then have "list_ex (\<lambda>a. tb_id a = p \<and> tb_depth a = base + d) ?bs" using w by (auto simp: walking_def opened_def)
    moreover have "tb_parentId b = Some p" by (simp add: b parent_def Cons pd)
    moreover have "?bs \<noteq> [] \<longrightarrow> base + length stack \<le> tb_depth (last ?bs) + 1" "base \<le> MAX_BLOCK_DEPTH"
      using w by (auto simp: walking_def split: if_splits)
    ultimately show ?thesis using n unfolding fitsAfter_def b(3,4) by (auto simp: d list_ex_iff)
  qed
  have places: "map placeOf (ts_blocks st') = map placeOf (?bs @ [b])" by (simp only: st'(2) addChild_places)
  then have "wellPlaced (ts_blocks st')" using fits w by (simp add: wellPlaced_places [OF places] wellPlaced_snoc walking_def)
  have ids: "map tb_id (ts_blocks st') = map tb_id (?bs @ [b])" using arg_cong [OF places, of "map fst"] by (simp add: comp_def placeOf_def)
  have ex: "list_ex (\<lambda>a. P (tb_id a) (tb_depth a)) (ts_blocks st') = (list_ex (\<lambda>a. P (tb_id a) (tb_depth a)) ?bs \<or> P i (base + ?n))" for P
  proof -
    have "list_ex (\<lambda>a. P (tb_id a) (tb_depth a)) zs = list_ex (\<lambda>(i, q, k, n). P i n) (map placeOf zs)" for zs
      by (induction zs) (simp_all add: placeOf_def)
    then show ?thesis by (simp only: places) (simp add: b placeOf_def)
  qed
  have children: "distinct (map tb_id (ts_blocks st')) \<longrightarrow> childrenListed (ts_blocks st')"
  proof
    assume "distinct (map tb_id (ts_blocks st'))"
    then have d: "distinct (map tb_id (?bs @ [b]))" by (simp only: ids)
    then have "childrenListed ?bs" using w by (simp add: walking_def)
    from childrenListed_snoc [OF this fits _ d b(5)] w show "childrenListed (ts_blocks st')"
      by (simp add: st'(2) b(1,2) walking_def)
  qed
  have entry: "list_ex (\<lambda>a. tb_id a = i \<and> Suc (tb_depth a) = base + length stack') (ts_blocks st')"
    using ex [of "\<lambda>j d. j = i \<and> Suc d = base + length stack'"] by (simp add: st'(1) len)
  have "opened base stack' (ts_blocks st')"
  proof -
    have "list_ex (\<lambda>a. tb_id a = p \<and> tb_depth a = base + d) (ts_blocks st')" if "(p, d) \<in> set stack'" for p d
      using ex [of "\<lambda>j e. j = p \<and> e = base + d"] that rest(2) w by (auto simp: st'(1) walking_def opened_def)
    then show ?thesis using rest(1) by (auto simp: opened_def st'(1) len)
  qed
  moreover have "case structural of None \<Rightarrow> base = 0 | Some p \<Rightarrow> list_ex (\<lambda>a. tb_id a = p \<and> Suc (tb_depth a) = base) (ts_blocks st')"
    using w ex [of "\<lambda>j d. Some j = structural \<and> Suc d = base"] by (cases structural) (auto simp: walking_def)
  moreover have ne: "ts_blocks st' \<noteq> []" using arg_cong [OF places, of length] by auto
  moreover have "tb_depth (last (ts_blocks st')) = base + ?n" using last_depth_places [OF places ne] by (simp add: b)
  ultimately have "walking structural base stack' (ts_blocks st')"
    using \<open>wellPlaced (ts_blocks st')\<close> children w by (simp add: walking_def st'(1) len)
  then show ?thesis using entry places by auto
qed

lemma warn_blocks [simp]: "ts_blocks (warn w st) = ts_blocks st"
  by (simp add: warn_def)

lemma walking_popped: "walking structural base stack bs \<Longrightarrow> walking structural base [] bs"
  by (auto simp: walking_def opened_def split: if_splits)

lemma places_prefix_ex:
  assumes "map placeOf ys = map placeOf xs @ later" "list_ex (\<lambda>a. P (tb_id a) (tb_depth a)) xs"
  shows "list_ex (\<lambda>a. P (tb_id a) (tb_depth a)) ys"
proof -
  have "list_ex (\<lambda>a. P (tb_id a) (tb_depth a)) zs = list_ex (\<lambda>(i, q, k, n). P i n) (map placeOf zs)" for zs
    by (induction zs) (simp_all add: placeOf_def)
  then show ?thesis using assms by simp
qed

text \<open>Blocks that were added below the stack leave it as it was.\<close>

lemma walking_after:
  assumes "walking structural base stack bs" "walking (Some i) (base + length stack) [] bs'"
    and "map placeOf bs' = map placeOf bs @ later" "bs \<noteq> []"
  shows "walking structural base stack bs'"
proof -
  have ex: "list_ex (\<lambda>a. P (tb_id a) (tb_depth a)) bs \<Longrightarrow> list_ex (\<lambda>a. P (tb_id a) (tb_depth a)) bs'" for P
    by (rule places_prefix_ex [OF assms(3)])
  have "opened base stack bs'" using assms(1) ex by (fastforce simp: walking_def opened_def)
  moreover have "case structural of None \<Rightarrow> base = 0 | Some p \<Rightarrow> list_ex (\<lambda>a. tb_id a = p \<and> Suc (tb_depth a) = base) bs'"
    using assms(1) ex [of "\<lambda>j d. Some j = structural \<and> Suc d = base"] by (cases structural) (auto simp: walking_def)
  moreover have "bs' \<noteq> []" using assms(3,4) by auto
  ultimately show ?thesis using assms(1,2) by (simp add: walking_def)
qed

lemma visit_walking:
  "walking structural base stack (ts_blocks st) \<Longrightarrow>
   walking structural base [] (ts_blocks (visit E structural base stack content st)) \<and>
   (\<exists>later. map placeOf (ts_blocks (visit E structural base stack content st)) = map placeOf (ts_blocks st) @ later)"
proof (induction E structural base stack content st rule: visit.induct)
  case (1 E structural base stack st)
  then show ?case by (simp add: walking_popped)
next
  case (2 E structural base stack ops rest st)
  then show ?case by (cases "strayText ops") simp_all
next
  case (3 E structural base stack name attrs client children rest st)
  show ?case
  proof (cases "blockId attrs")
    case None
    then show ?thesis using 3(1) 3(4) by simp
  next
    case (Some i)
    obtain stack' st' where e: "enterBlock E i name attrs children structural base stack st = (stack', st')" by (rule prod.exhaust)
    note entered = enterBlock_walking [OF 3(4) e]
    then have w: "walking structural base stack' (ts_blocks st')"
        "list_ex (\<lambda>a. tb_id a = i \<and> Suc (tb_depth a) = base + length stack') (ts_blocks st')"
      by (simp_all only: simp_thms)
    from entered obtain later1 where m1: "map placeOf (ts_blocks st') = map placeOf (ts_blocks st) @ later1"
      by (elim conjE exE)
    define st2 where "st2 =
      (if name \<in> set STRUCTURAL_BLOCK_TYPES \<or> hasBlockChildren children
       then (if MAX_BLOCK_DEPTH < base + length stack' then warn TooDeepBlock st'
             else visit E (Some i) (base + length stack') [] children st')
       else st')"
    have s2: "walking structural base stack' (ts_blocks st2) \<and> (\<exists>later. map placeOf (ts_blocks st2) = map placeOf (ts_blocks st') @ later)"
    proof (cases "(name \<in> set STRUCTURAL_BLOCK_TYPES \<or> hasBlockChildren children) \<and> \<not> MAX_BLOCK_DEPTH < base + length stack'")
      case True
      then have st2: "st2 = visit E (Some i) (base + length stack') [] children st'" by (auto simp: st2_def)
      have ne: "ts_blocks st' \<noteq> []" using w(2) by auto
      have "walking (Some i) (base + length stack') [] (ts_blocks st')"
        using w True ne by (auto simp: walking_def opened_def)
      then have inner: "walking (Some i) (base + length stack') [] (ts_blocks st2)"
          "\<exists>later. map placeOf (ts_blocks st2) = map placeOf (ts_blocks st') @ later"
        using 3(2) [OF Some e [symmetric]] True by (auto simp: st2)
      then show ?thesis using walking_after [OF w(1) _ _ ne] by blast
    next
      case False
      then show ?thesis using w(1) by (auto simp: st2_def)
    qed
    have v: "visit E structural base stack (XElem name attrs client children # rest) st = visit E structural base stack' rest st2"
      by (simp add: Some e st2_def)
    have "walking structural base [] (ts_blocks (visit E structural base stack' rest st2)) \<and>
          (\<exists>later. map placeOf (ts_blocks (visit E structural base stack' rest st2)) = map placeOf (ts_blocks st2) @ later)"
      using 3(3) [OF Some e [symmetric]] s2 by (simp only: st2_def [symmetric])
    then show ?thesis unfolding v using s2 m1 by auto
  qed
qed

text \<open>C30: The tree is well formed whatever the fragment holds. The blocks are numbered from 0 in reading order; a block
  without a parent is at depth 0, any other has its parent before it, one level higher; no block is more than one
  level deeper than the one before it, and none is deeper than twice the limit. When no id occurs twice, the
  children a block lists are exactly the blocks that name it as their parent, in reading order.\<close>

theorem tree_well_formed:
  "case readBlockTree E content of
     (bs, warnings) \<Rightarrow>
       list_all (\<lambda>k.
         tb_position (bs ! k) = k \<and> tb_depth (bs ! k) \<le> 64 \<and>
         (case tb_parentId (bs ! k) of
            None \<Rightarrow> tb_depth (bs ! k) = 0
          | Some p \<Rightarrow> list_ex (\<lambda>a. tb_id a = p \<and> tb_depth (bs ! k) = tb_depth a + 1) (take k bs)) \<and>
         (k = 0 \<or> tb_depth (bs ! k) \<le> tb_depth (bs ! (k - 1)) + 1)) [0..<length bs] \<and>
       (if distinct (map tb_id bs)
        then list_all (\<lambda>b. tb_childIds b = map tb_id (filter (\<lambda>c. tb_parentId c = Some (tb_id b)) bs)) bs
        else True)"
proof -
  let ?st = "\<lparr>ts_blocks = [], ts_warnings = []\<rparr>"
  define bs where "bs = ts_blocks (visit E None 0 [] content ?st)"
  have "walking None 0 [] (ts_blocks ?st)"
    by (simp add: walking_def wellPlaced_Nil childrenListed_def opened_def)
  then have w: "wellPlaced bs" "distinct (map tb_id bs) \<longrightarrow> childrenListed bs"
    using visit_walking [of None 0 "[]" ?st E content] by (simp_all add: walking_def bs_def)
  have "tb_position (bs ! k) = k \<and> tb_depth (bs ! k) \<le> 64 \<and>
         (case tb_parentId (bs ! k) of
            None \<Rightarrow> tb_depth (bs ! k) = 0
          | Some p \<Rightarrow> list_ex (\<lambda>a. tb_id a = p \<and> tb_depth (bs ! k) = tb_depth a + 1) (take k bs)) \<and>
         (k = 0 \<or> tb_depth (bs ! k) \<le> tb_depth (bs ! (k - 1)) + 1)" if "k < length bs" for k
  proof -
    have f: "fitsAfter (take k bs) (bs ! k)" using w(1) that by (simp add: wellPlaced_def)
    have "last (take k bs) = bs ! (k - 1)" if "k \<noteq> 0"
      using \<open>k < length bs\<close> that by (subst last_conv_nth) (auto simp: min_def)
    then show ?thesis using f that by (cases "k = 0"; cases "tb_parentId (bs ! k)") (auto simp: fitsAfter_def MAX_BLOCK_DEPTH_def)
  qed
  then show ?thesis using w(2) by (auto simp: readBlockTree_def Let_def bs_def [symmetric] list_all_iff childrenListed_def)
qed

section \<open>Reading what was written\<close>

text \<open>
  The blocks of a list with the depth each has in the tree, and when they can be written: ids are there, an indent
  is at most one above the one before it, the limit on depth is kept, and a container has no text.
\<close>

definition indentOf :: "int option \<Rightarrow> nat" where
  "indentOf indent = (case indent of None \<Rightarrow> 0 | Some n \<Rightarrow> nat n)"

definition textOf :: "string option \<Rightarrow> string" where
  "textOf t = (case t of None \<Rightarrow> [] | Some s \<Rightarrow> s)"

definition writtenProps :: "patch option \<Rightarrow> attributes" where
  "writtenProps props =
     (case props of None \<Rightarrow> [] | Some kvs \<Rightarrow> List.map_filter (\<lambda>(k, v). map_option (Pair k) v) (sortKeys kvs))"

fun outline :: "nat \<Rightarrow> new_block list \<Rightarrow> (string \<times> string \<times> nat \<times> string \<times> attributes) list" where
  "outline base [] = []"
| "outline base (NewBlock i type props content indent children # rest) =
     (i, type, base + indentOf indent, textOf content, writtenProps props) #
     outline (base + indentOf indent + 1) children @ outline base rest"

fun writable :: "nat \<Rightarrow> nat \<Rightarrow> new_block list \<Rightarrow> bool" where
  "writable base room [] = True"
| "writable base room (NewBlock i type props content indent children # rest) =
     (i \<noteq> [] \<and> indentOf indent \<le> room \<and> indentOf indent \<le> MAX_BLOCK_DEPTH \<and>
      (case props of None \<Rightarrow> True | Some kvs \<Rightarrow> distinct (map fst kvs)) \<and>
      (if type \<in> set STRUCTURAL_BLOCK_TYPES \<or> children \<noteq> []
       then textOf content = [] \<and> base + indentOf indent + 1 \<le> MAX_BLOCK_DEPTH else True) \<and>
      writable (base + indentOf indent + 1) 0 children \<and> writable base (indentOf indent + 1) rest)"

definition seen :: "tree_block \<Rightarrow> string \<times> string \<times> nat \<times> string \<times> attributes" where
  "seen b = (tb_id b, tb_type b, tb_depth b, tb_text b, tb_props b)"

lemma addChildRev_seen: "map seen (addChildRev p c bs) = map seen bs"
  by (induction p c bs rule: addChildRev.induct) (simp_all add: seen_def)

lemma addChild_seen: "map seen (addChild parent c bs) = map seen bs"
  by (cases parent) (simp_all add: addChild_def addChildRev_seen rev_map [symmetric])

lemma objectPut_absent: "k \<notin> fst ` set kvs \<Longrightarrow> objectPut k v kvs = kvs @ [(k, v)]"
  by (induction k v kvs rule: objectPut.induct) auto

lemma objectSpread_Nil: "distinct (map fst kvs) \<Longrightarrow> objectSpread [] kvs = kvs"
proof -
  have "distinct (map fst (a @ b)) \<Longrightarrow> objectSpread a b = a @ b" for a b :: "('a \<times> 'b) list"
  proof (induction b arbitrary: a)
    case (Cons kv b)
    then show ?case using Cons.IH [of "a @ [kv]"] by (cases kv) (auto simp: objectSpread_def objectPut_absent)
  qed (simp add: objectSpread_def)
  from this [of "[]" kvs] show "distinct (map fst kvs) \<Longrightarrow> objectSpread [] kvs = kvs" by simp
qed

lemma map_filter_keys: "fst ` set (List.map_filter (\<lambda>(k, v). map_option (Pair k) v) kvs) \<subseteq> fst ` set kvs"
  by (force simp: List.map_filter_def)

lemma map_filter_distinct:
  "distinct (map fst kvs) \<Longrightarrow> distinct (map fst (List.map_filter (\<lambda>(k, v). map_option (Pair k) v) kvs))"
proof (induction kvs)
  case (Cons kv kvs)
  obtain k v where kv: "kv = (k, v)" by (cases kv)
  show ?case
  proof (cases v)
    case None
    then show ?thesis using Cons by (simp add: kv List.map_filter_def)
  next
    case (Some w)
    have "k \<notin> fst ` set (List.map_filter (\<lambda>(k, v). map_option (Pair k) v) kvs)"
      using Cons.prems map_filter_keys [of kvs] by (auto simp: kv)
    then show ?thesis using Cons by (simp add: kv Some List.map_filter_simps)
  qed
qed (simp add: List.map_filter_def)

lemma sortKeys_distinct: "distinct (map fst kvs) \<Longrightarrow> distinct (map fst (sortKeys kvs))"
proof -
  assume "distinct (map fst kvs)"
  moreover have "mset (map fst (sortKeys kvs)) = mset (map fst kvs)" by (simp add: sortKeys_def)
  ultimately show ?thesis by (metis mset_eq_imp_distinct_iff)
qed

text \<open>An object is written as some text, and that text is read as the object.\<close>

definition printed_back :: "engine \<Rightarrow> bool" where
  "printed_back E = (\<forall>kvs. stringifyJSON E (JObject kvs) \<noteq> [] \<and> parseJSON E (stringifyJSON E (JObject kvs)) = Some (JObject kvs))"

definition builtAttributes :: "engine \<Rightarrow> string \<Rightarrow> patch option \<Rightarrow> int option \<Rightarrow> attributes" where
  "builtAttributes E i props indent = (''id'', JString i) # propsAttribute E props @ indentAttribute indent"

lemma built_blockId: "i \<noteq> [] \<Longrightarrow> blockId (builtAttributes E i props indent) = Some i"
  by (simp add: blockId_def builtAttributes_def)

lemma built_readIndent: "readIndent (builtAttributes E i props indent) = min (indentOf indent) MAX_BLOCK_DEPTH"
proof -
  have "map_of (builtAttributes E i props indent) ''indent'' = map_of (indentAttribute indent) ''indent''"
    by (simp add: builtAttributes_def propsAttribute_def map_add_def split: option.split)
  moreover have "parseInt (jsString (JString (showInt n))) = Some n" "[] \<noteq> showInt n" if "0 < n" for n
    using that showNat_nonempty [of "nat n"] by (simp_all add: showInt_def parseInt_showNat)
  ultimately show ?thesis by (auto simp: readIndent_def indentAttribute_def indentOf_def split: option.splits)
qed

lemma built_props:
  assumes "printed_back E" "case props of None \<Rightarrow> True | Some kvs \<Rightarrow> distinct (map fst kvs)"
  shows "readAllProps E (builtAttributes E i props indent) i = (writtenProps props, [])"
proof -
  have "derivedProps E (builtAttributes E i props indent) = []"
    by (simp add: derivedProps_def builtAttributes_def propsAttribute_def indentAttribute_def split: option.split)
  moreover have "map_of (builtAttributes E i props indent) ''props'' = map_of (propsAttribute E props) ''props''"
    by (simp add: builtAttributes_def propsAttribute_def indentAttribute_def map_add_def split: option.split)
  moreover have "parseProps E (map_of (propsAttribute E props) ''props'') i = (writtenProps props, [])"
    using assms(1)
    by (auto simp: propsAttribute_def writtenProps_def serialiseProps_def parseProps_def printed_back_def sortKeys_def
        List.map_filter_def split: option.split)
  moreover have "distinct (map fst (writtenProps props))"
    using assms(2) by (auto simp: writtenProps_def map_filter_distinct sortKeys_distinct split: option.splits)
  ultimately show ?thesis by (simp add: readAllProps_def objectSpread_Nil)
qed

lemma built_children: "writable base room bs \<Longrightarrow> inlineText depth (map (buildBlock E client) bs) = []"
  by (induction base room bs rule: writable.induct) (simp_all add: blockId_def)

lemma built_text:
  assumes "writable base room children"
  shows "inlineText 0 (textNodes t @ map (buildBlock E client) children) = textOf t"
  using built_children [OF assms] by (simp add: textNodes_def textOf_def insertText_def split: option.split)

lemma built_hasBlockChildren:
  assumes "writable base room children"
  shows "hasBlockChildren (textNodes t @ map (buildBlock E client) children) = (children \<noteq> [])"
proof (cases children)
  case Nil
  then show ?thesis by (simp add: textNodes_def split: option.split)
next
  case (Cons b bs)
  then show ?thesis using assms by (cases b) (simp add: textNodes_def blockId_def split: option.split)
qed

lemma text_has_no_blocks [simp]: "\<not> hasBlockChildren (textNodes t)"
  by (simp add: textNodes_def split: option.split)

lemma openAncestors_length: "map snd stack = rev [0..<length stack] \<Longrightarrow> n \<le> length stack \<Longrightarrow> length (openAncestors stack n) = n"
  using openAncestors_contiguous [of stack n] by (metis length_map length_rev length_upt minus_nat.diff_0)

lemma enter_built:
  assumes s: "map snd stack = rev [0..<length stack]" and n: "indentOf indent \<le> length stack" "indentOf indent \<le> MAX_BLOCK_DEPTH"
    and p: "printed_back E" "case props of None \<Rightarrow> True | Some kvs \<Rightarrow> distinct (map fst kvs)"
    and w: "writable inner room children"
    and e: "enterBlock E i type (builtAttributes E i props indent) (textNodes t @ map (buildBlock E client) children)
              structural base stack st = (stack', st')"
  shows "map snd stack' = rev [0..<Suc (indentOf indent)] \<and> ts_warnings st' = ts_warnings st \<and>
         map seen (ts_blocks st') = map seen (ts_blocks st) @ [(i, type, base + indentOf indent, textOf t, writtenProps props)]"
proof -
  let ?n = "indentOf indent"
  have r: "readIndent (builtAttributes E i props indent) = ?n" using n(2) by (simp add: built_readIndent)
  have k: "normalIndent stack ?n = ?n"
    using s n(1) by (cases stack) (auto simp: normalIndent_def)
  have o: "map snd (openAncestors stack ?n) = rev [0..<?n]" "length (openAncestors stack ?n) = ?n"
    using openAncestors_contiguous [OF s n(1)] openAncestors_length [OF s n(1)] by simp_all
  show ?thesis
    using e o by (auto simp: enterBlock_def Let_def r k built_props [OF p] addChild_seen newBlock_def seen_def built_text [OF w])
qed

lemma stray_text: "textOf t = [] \<Longrightarrow> visit E structural base stack (textNodes t @ content) st = visit E structural base stack content st"
  by (simp add: textNodes_def textOf_def split: option.splits)

lemma visit_built:
  "printed_back E \<Longrightarrow> writable base (length stack) bs \<Longrightarrow> map snd stack = rev [0..<length stack] \<Longrightarrow>
   map seen (ts_blocks (visit E structural base stack (map (buildBlock E client) bs) st)) = map seen (ts_blocks st) @ outline base bs \<and>
   ts_warnings (visit E structural base stack (map (buildBlock E client) bs) st) = ts_warnings st"
proof (induction base "length stack" bs arbitrary: structural stack st rule: writable.induct)
  case (2 base i type props t indent children rest)
  let ?n = "indentOf indent" and ?kids = "map (buildBlock E client) children"
  have w: "i \<noteq> []" "?n \<le> length stack" "?n \<le> MAX_BLOCK_DEPTH" "case props of None \<Rightarrow> True | Some kvs \<Rightarrow> distinct (map fst kvs)"
      "writable (base + ?n + 1) 0 children" "writable base (?n + 1) rest"
    and cont: "type \<in> set STRUCTURAL_BLOCK_TYPES \<or> children \<noteq> [] \<Longrightarrow> textOf t = [] \<and> base + ?n + 1 \<le> MAX_BLOCK_DEPTH"
    using "2.prems"(2) by (auto split: if_splits)
  obtain stack' st' where e: "enterBlock E i type (builtAttributes E i props indent) (textNodes t @ ?kids) structural base stack st = (stack', st')"
    by (rule prod.exhaust)
  have s': "map snd stack' = rev [0..<Suc ?n]" "ts_warnings st' = ts_warnings st"
      "map seen (ts_blocks st') = map seen (ts_blocks st) @ [(i, type, base + ?n, textOf t, writtenProps props)]"
    using enter_built [OF "2.prems"(3) w(2,3) "2.prems"(1) w(4) w(5) e] by simp_all
  have len: "length stack' = Suc ?n" using arg_cong [OF s'(1), of length] by simp
  define st2 where "st2 =
    (if type \<in> set STRUCTURAL_BLOCK_TYPES \<or> hasBlockChildren (textNodes t @ ?kids)
     then (if MAX_BLOCK_DEPTH < base + length stack' then warn TooDeepBlock st'
           else visit E (Some i) (base + length stack') [] (textNodes t @ ?kids) st')
     else st')"
  have s2: "map seen (ts_blocks st2) = map seen (ts_blocks st') @ outline (base + ?n + 1) children \<and> ts_warnings st2 = ts_warnings st'"
  proof (cases "type \<in> set STRUCTURAL_BLOCK_TYPES \<or> children \<noteq> []")
    case True
    then have "st2 = visit E (Some i) (base + ?n + 1) [] ?kids st'"
      using cont [OF True] by (simp add: st2_def built_hasBlockChildren [OF w(5)] len stray_text)
    then show ?thesis using "2.hyps"(1) [of "[]" "Some i" st'] "2.prems"(1) w(5) by simp
  next
    case False
    then have "hasBlockChildren (textNodes t @ ?kids) = False" by (simp add: built_hasBlockChildren [OF w(5)])
    then show ?thesis using False by (simp add: st2_def)
  qed
  have v: "visit E structural base stack (map (buildBlock E client) (NewBlock i type props t indent children # rest)) st =
           visit E structural base stack' (map (buildBlock E client) rest) st2"
    using built_blockId [OF w(1), of E props indent] e by (simp add: builtAttributes_def st2_def)
  have "map seen (ts_blocks (visit E structural base stack' (map (buildBlock E client) rest) st2)) = map seen (ts_blocks st2) @ outline base rest \<and>
        ts_warnings (visit E structural base stack' (map (buildBlock E client) rest) st2) = ts_warnings st2"
    using "2.hyps"(2) [of stack' structural st2] "2.prems"(1) w(6) s'(1) len by simp
  then show ?case unfolding v using s2 s'(2,3) by simp
qed simp

text \<open>C31: What an importer writes is what everybody reads. Blocks with ids, indents that rise by one at most, and
  containers without text, written as the body of a page, are read back in order with their ids, types, texts and
  properties (by sorted keys) and at the depths their indents and containers give, without a warning.\<close>

theorem written_page_read:
  assumes "printed_back E" "writable 0 0 blocks"
  shows "map seen (fst (readBlockTree E (setPageBlocks E client blocks old))) = outline 0 blocks \<and>
         snd (readBlockTree E (setPageBlocks E client blocks old)) = []"
  using visit_built [OF assms(1), of 0 "[]" blocks None client "\<lparr>ts_blocks = [], ts_warnings = []\<rparr>"] assms(2)
  by (simp add: readBlockTree_def setPageBlocks_def Let_def)

definition sampleEngine :: engine where
  "sampleEngine =
     \<lparr>printed = (\<lambda>s. False), parseJSON = (\<lambda>s. Some (from_nat (length s - 1))),
      stringifyJSON = (\<lambda>v. replicate (Suc (to_nat v)) CHR ''x'')\<rparr>"

definition samplePage :: "new_block list" where
  "samplePage =
     [NewBlock ''a'' ''heading'' (Some [(''level'', Some (JNumber 2)), (''icon'', Some (JString ''x''))]) (Some ''Title'') None [],
      NewBlock ''b'' ''paragraph'' None (Some ''text'') (Some 1) [],
      NewBlock ''c'' ''columns'' None None None
        [NewBlock ''d'' ''column'' None None None [NewBlock ''e'' ''paragraph'' None (Some ''left'') None []]]]"

theorem written_page_read_witness:
  "map seen (fst (readBlockTree sampleEngine (setPageBlocks sampleEngine (Some 7) samplePage []))) =
     [(''a'', ''heading'', 0, ''Title'', [(''icon'', JString ''x''), (''level'', JNumber 2)]), (''b'', ''paragraph'', 1, ''text'', []),
      (''c'', ''columns'', 0, [], []), (''d'', ''column'', 1, [], []), (''e'', ''paragraph'', 2, ''left'', [])]"
proof -
  have "printed_back sampleEngine" by (simp add: printed_back_def sampleEngine_def)
  moreover have "writable 0 0 samplePage"
    by (simp add: samplePage_def indentOf_def textOf_def MAX_BLOCK_DEPTH_def STRUCTURAL_BLOCK_TYPES_def)
  moreover have "outline 0 samplePage =
      [(''a'', ''heading'', 0, ''Title'', [(''icon'', JString ''x''), (''level'', JNumber 2)]), (''b'', ''paragraph'', 1, ''text'', []),
       (''c'', ''columns'', 0, [], []), (''d'', ''column'', 1, [], []), (''e'', ''paragraph'', 2, ''left'', [])]"
    by (simp add: samplePage_def indentOf_def textOf_def writtenProps_def sortKeys_def List.map_filter_simps charCode_def)
  ultimately show ?thesis using written_page_read [of sampleEngine samplePage "Some 7" "[]"] by (simp only:)
qed

section \<open>Changing a block\<close>

lemma changeFound_found:
  "\<forall>a. map_of (f a) ''id'' = map_of a ''id'' \<Longrightarrow> findBlockElement depth i content = Some (XElem name attrs client children) \<Longrightarrow>
   findBlockElement depth i (changeFound f depth i content) = Some (XElem name (f attrs) client children)"
proof (induction f depth i content rule: changeFound.induct)
  case (3 f depth i n a c kids rest)
  have id: "map_of (f x) ''id'' = map_of x ''id''" for x using 3(3) by simp
  consider (here) "map_of a ''id'' = Some (JString i)"
    | (inside) "map_of a ''id'' \<noteq> Some (JString i)" "depth + 1 \<le> MAX_BLOCK_DEPTH" "findBlockElement (depth + 1) i kids \<noteq> None"
    | (later) "map_of a ''id'' \<noteq> Some (JString i)" "\<not> (depth + 1 \<le> MAX_BLOCK_DEPTH \<and> findBlockElement (depth + 1) i kids \<noteq> None)"
    by blast
  then show ?case
  proof cases
    case here
    then show ?thesis using 3(4) by (simp add: id)
  next
    case inside
    then have "findBlockElement (depth + 1) i kids = Some (XElem name attrs client children)" using 3(4) by auto
    then have "findBlockElement (depth + 1) i (changeFound f (depth + 1) i kids) = Some (XElem name (f attrs) client children)"
      using 3(1) [OF inside(1)] inside(2,3) 3(3) by blast
    then show ?thesis using inside by (simp add: not_less)
  next
    case later
    then have none: "(if MAX_BLOCK_DEPTH < depth + 1 then None else findBlockElement (depth + 1) i kids) = None" by auto
    then have "findBlockElement depth i rest = Some (XElem name attrs client children)" using 3(4) later(1) by (simp only: findBlockElement.simps none) simp
    then have "findBlockElement depth i (changeFound f depth i rest) = Some (XElem name (f attrs) client children)"
      using 3(2) [OF later] 3(3) by blast
    then show ?thesis using later(1) by (simp only: changeFound.simps later(2) if_False findBlockElement.simps none) simp
  qed
qed simp_all

lemma map_of_filtered:
  "map_of (map (\<lambda>(k, v). (k, g v)) (filter (\<lambda>(k, v). k \<notin> S) kvs)) x = (if x \<in> S then None else map_option g (map_of kvs x))"
  by (induction kvs) auto

lemma derivedProps_lookup:
  "map_of (derivedProps E attrs) k =
     (if k \<in> {''id'', ''props'', ''indent''} then None
      else map_option (\<lambda>v. case v of JString s \<Rightarrow> coerceAttribute E s | _ \<Rightarrow> v) (map_of attrs k))"
  unfolding derivedProps_def by (rule map_of_filtered)

lemma setAttributes_lookup:
  "distinct (map fst patch) \<Longrightarrow>
   map_of (setAttributes patch attrs) k = (case map_of patch k of None \<Rightarrow> map_of attrs k | Some v \<Rightarrow> v)"
proof (induction patch arbitrary: attrs)
  case (Cons kv patch)
  obtain x v where kv: "kv = (x, v)" by (cases kv)
  let ?attrs = "case v of None \<Rightarrow> objectDelete x attrs | Some w \<Rightarrow> objectPut x w attrs"
  have "map_of (setAttributes patch ?attrs) k = (case map_of patch k of None \<Rightarrow> map_of ?attrs k | Some v \<Rightarrow> v)"
    using Cons by simp
  moreover have "map_of patch x = None" using Cons.prems by (simp add: kv map_of_eq_None_iff)
  moreover have "setAttributes (kv # patch) attrs = setAttributes patch ?attrs" by (simp add: setAttributes_def kv)
  ultimately show ?case
    by (cases v; cases "k = x"; cases "map_of patch k") (simp_all add: kv objectDelete_lookup objectPut_lookup)
qed (simp add: setAttributes_def)

lemma defined_written: "List.map_filter (\<lambda>(k, v). map_option (Pair k) v) (defined kvs) = kvs"
  by (induction kvs) (auto simp: defined_def List.map_filter_simps)

lemma insort_key_mapped: "(\<And>x. f (g x) = h x) \<Longrightarrow> insort_key f (g x) (map g xs) = map g (insort_key h x xs)"
  by (induction xs) simp_all

lemma sort_key_mapped: "(\<And>x. f (g x) = h x) \<Longrightarrow> sort_key f (map g xs) = map g (sort_key h xs)"
  by (induction xs) (simp_all add: insort_key_mapped)

lemma serialise_defined:
  "kvs \<noteq> [] \<Longrightarrow> serialiseProps E (defined kvs) = Some (stringifyJSON E (JObject (sortKeys kvs)))"
proof -
  have "sortKeys (defined kvs) = defined (sortKeys kvs)"
    unfolding sortKeys_def defined_def by (rule sort_key_mapped) (simp add: case_prod_unfold)
  then show "kvs \<noteq> [] \<Longrightarrow> serialiseProps E (defined kvs) = Some (stringifyJSON E (JObject (sortKeys kvs)))"
    by (simp add: serialiseProps_def defined_written) (simp add: defined_def)
qed

lemma sortKeys_lookup: "distinct (map fst kvs) \<Longrightarrow> map_of (sortKeys kvs) k = map_of kvs k"
proof -
  assume d: "distinct (map fst kvs)"
  have s: "set (sortKeys kvs) = set kvs" by (simp add: sortKeys_def)
  show ?thesis
  proof (cases "map_of kvs k")
    case None
    then have "k \<notin> fst ` set (sortKeys kvs)" by (simp add: s map_of_eq_None_iff)
    then have "map_of (sortKeys kvs) k = None" by (simp only: map_of_eq_None_iff) simp
    then show ?thesis using None by simp
  next
    case (Some v)
    then have "(k, v) \<in> set (sortKeys kvs)" by (simp only: s) (rule map_of_SomeD)
    then show ?thesis using Some map_of_is_SomeI [OF sortKeys_distinct [OF d]] by simp
  qed
qed

definition readProp :: "engine \<Rightarrow> json \<Rightarrow> json" where
  "readProp E v = (case v of JString s \<Rightarrow> coerceAttribute E s | _ \<Rightarrow> v)"

lemma readAllProps_lookup:
  assumes "distinct (map fst (fst (parseProps E (map_of attrs ''props'') i)))"
  shows "map_of (fst (readAllProps E attrs i)) k =
           (case map_of (fst (parseProps E (map_of attrs ''props'') i)) k of
              Some v \<Rightarrow> Some v
            | None \<Rightarrow> if k \<in> {''id'', ''props'', ''indent''} then None else map_option (readProp E) (map_of attrs k))"
  using objectSpread_lookup [OF assms, of "derivedProps E attrs" k]
  by (simp add: readAllProps_def case_prod_unfold derivedProps_lookup readProp_def [abs_def] split: option.split)

text \<open>The attributes after a patch hold what it sets, and the JSON no longer covers any of its keys.\<close>

lemma patched_parse:
  assumes "printed_back E" "distinct (map fst patch)" "''props'' \<notin> fst ` set patch"
    and d: "distinct (map fst (fst (parseProps E (map_of attrs ''props'') i)))"
  shows "distinct (map fst (fst (parseProps E (map_of (patchedAttributes E i patch attrs) ''props'') i))) \<and>
         map_of (fst (parseProps E (map_of (patchedAttributes E i patch attrs) ''props'') i)) k =
           (if k \<in> fst ` set patch then None else map_of (fst (parseProps E (map_of attrs ''props'') i)) k)"
proof -
  let ?old = "fst (parseProps E (map_of attrs ''props'') i)"
  let ?shadowed = "filter (\<lambda>k. k \<in> fst ` set ?old) (map fst patch)"
  let ?left = "filter (\<lambda>(k, v). k \<notin> set ?shadowed) ?old"
  have p: "map_of (setAttributes patch attrs) ''props'' = map_of attrs ''props''"
    using assms(3) by (simp add: setAttributes_lookup [OF assms(2)] map_of_eq_None_iff [THEN iffD2])
  have left: "distinct (map fst ?left)" using d by (rule distinct_map_filter)
  have lookup: "map_of ?left k = (if k \<in> fst ` set patch then None else map_of ?old k)"
    using map_of_filtered [of id "set ?shadowed" ?old k] by (auto simp: map_of_eq_None_iff option.map_id case_prod_unfold)
  show ?thesis
  proof (cases "?shadowed = []")
    case True
    then have "k \<in> fst ` set patch \<Longrightarrow> map_of ?old k = None" by (auto simp: filter_empty_conv map_of_eq_None_iff)
    then show ?thesis using True d by (auto simp: patchedAttributes_def Let_def p)
  next
    case False
    have e: "patchedAttributes E i patch attrs =
      (case serialiseProps E (defined ?left) of None \<Rightarrow> objectDelete ''props'' (setAttributes patch attrs)
       | Some s \<Rightarrow> objectPut ''props'' (JString s) (setAttributes patch attrs))"
      using False by (simp only: patchedAttributes_def Let_def if_False)
    show ?thesis
    proof (cases "?left = []")
      case True
      have "serialiseProps E (defined ?left) = None" unfolding True by (simp add: serialiseProps_def defined_def)
      then have "map_of (patchedAttributes E i patch attrs) ''props'' = None" by (simp only: e) (simp add: objectDelete_lookup)
      then show ?thesis using lookup unfolding True by (simp add: parseProps_def)
    next
      case left_over: False
      have "map_of (patchedAttributes E i patch attrs) ''props'' = Some (JString (stringifyJSON E (JObject (sortKeys ?left))))"
        by (simp only: e serialise_defined [OF left_over]) (simp add: objectPut_lookup)
      then have "parseProps E (map_of (patchedAttributes E i patch attrs) ''props'') i = (sortKeys ?left, [])"
        using assms(1) by (simp add: parseProps_def printed_back_def)
      then show ?thesis using sortKeys_distinct [OF left] sortKeys_lookup [OF left, of k] lookup by (simp only: fst_conv simp_thms)
    qed
  qed
qed

text \<open>C32: What a surface sets on a block is what everybody reads of it. After \<^verbatim>\<open>setBlockProps\<close> the block found under
  the id holds, for a property of the patch, the value set (a text as the attribute reader reads it) or nothing when
  it was undefined, also where the JSON of the block had covered it; every other property reads as before.\<close>

theorem set_props_are_read:
  assumes "findBlockElement 0 i content = Some (XElem name attrs client children)" "printed_back E" "distinct (map fst patch)"
    and "''id'' \<notin> fst ` set patch" "''props'' \<notin> fst ` set patch" "''indent'' \<notin> fst ` set patch"
    and "distinct (map fst (fst (parseProps E (map_of attrs ''props'') i)))"
  shows "case setBlockProps E i patch content of
           (changed, content') \<Rightarrow>
             changed \<and>
             (case findBlockElement 0 i content' of
                Some (XElem name' attrs' client' children') \<Rightarrow>
                  name' = name \<and> children' = children \<and>
                  map_of (fst (readAllProps E attrs' i)) k =
                    (case map_of patch k of
                       None \<Rightarrow> map_of (fst (readAllProps E attrs i)) k
                     | Some v \<Rightarrow> map_option (readProp E) v)
              | _ \<Rightarrow> False)"
proof -
  let ?new = "patchedAttributes E i patch attrs"
  note parsed = patched_parse [OF assms(2,3,5,7)]
  have other: "map_of (patchedAttributes E i patch a) x = map_of (setAttributes patch a) x" if "x \<noteq> ''props''" for a x
    using that by (simp add: patchedAttributes_def Let_def objectDelete_lookup objectPut_lookup split: option.split)
  have "map_of (patchedAttributes E i patch a) ''id'' = map_of a ''id''" for a
    using assms(4) by (simp add: other setAttributes_lookup [OF assms(3)] map_of_eq_None_iff [THEN iffD2])
  then have "findBlockElement 0 i (snd (setBlockProps E i patch content)) = Some (XElem name ?new client children)"
    using assms(1) changeFound_found [of "patchedAttributes E i patch"] by (simp add: setBlockProps_def)
  moreover have "fst (setBlockProps E i patch content)" using assms(1) by (simp add: setBlockProps_def)
  moreover have "map_of (fst (readAllProps E ?new i)) k =
      (case map_of patch k of None \<Rightarrow> map_of (fst (readAllProps E attrs i)) k | Some v \<Rightarrow> map_option (readProp E) v)"
  proof (cases "map_of patch k")
    case None
    then have "k \<notin> fst ` set patch" by (simp add: map_of_eq_None_iff)
    then show ?thesis
      using parsed [of k] None other [of k attrs]
      by (simp add: readAllProps_lookup assms(7) setAttributes_lookup [OF assms(3)] split: option.split)
  next
    case (Some v)
    then have "k \<in> fst ` set patch" by (force dest: map_of_SomeD)
    moreover from this have "k \<notin> {''id'', ''props'', ''indent''}" using assms(4-6) by blast
    ultimately show ?thesis
      using parsed [of k] Some other [of k attrs] by (simp add: readAllProps_lookup setAttributes_lookup [OF assms(3)])
  qed
  ultimately show ?thesis by (simp add: case_prod_unfold)
qed

definition sampleTask :: attributes where
  "sampleTask = [(''id'', JString ''b''), (''props'', JString (stringifyJSON sampleEngine (JObject [(''checked'', JBool False)])))]"

theorem set_props_are_read_witness:
  "case setBlockProps sampleEngine ''b'' [(''checked'', Some (JBool True))] [XElem ''todo'' sampleTask None []] of
     (changed, content') \<Rightarrow>
       changed \<and>
       (case findBlockElement 0 ''b'' content' of
          Some (XElem name' attrs' client' children') \<Rightarrow>
            name' = ''todo'' \<and> children' = [] \<and> map_of (fst (readAllProps sampleEngine attrs' ''b'')) ''checked'' = Some (JBool True)
        | _ \<Rightarrow> False)"
proof -
  have eng: "printed_back sampleEngine" by (simp add: printed_back_def sampleEngine_def)
  have found: "findBlockElement 0 ''b'' [XElem ''todo'' sampleTask None []] = Some (XElem ''todo'' sampleTask None [])"
    by (simp add: sampleTask_def)
  let ?patch = "[(''checked'', Some (JBool True))]"
  have patch: "distinct (map fst ?patch)" "''id'' \<notin> fst ` set ?patch" "''props'' \<notin> fst ` set ?patch" "''indent'' \<notin> fst ` set ?patch"
    by simp_all
  have d: "distinct (map fst (fst (parseProps sampleEngine (map_of sampleTask ''props'') ''b'')))"
    by (simp add: sampleTask_def parseProps_def sampleEngine_def)
  have v: "(case map_of ?patch ''checked'' of None \<Rightarrow> x | Some v \<Rightarrow> map_option (readProp sampleEngine) v) = Some (JBool True)" for x
    by (simp add: readProp_def)
  show ?thesis using set_props_are_read [OF found eng patch d, of "''checked''"] unfolding v .
qed

section \<open>Naming once\<close>

text \<open>The first of each key.\<close>

fun firstPer :: "('a \<Rightarrow> 'k) \<Rightarrow> 'k set \<Rightarrow> 'a list \<Rightarrow> 'a list" where
  "firstPer key before [] = []"
| "firstPer key before (x # xs) =
     (if key x \<in> before then firstPer key before xs else x # firstPer key (insert (key x) before) xs)"

lemma firstPer_keys: "key ` set (firstPer key before xs) = key ` set xs - before"
  by (induction key before xs rule: firstPer.induct) auto

lemma firstPer_distinct: "distinct (map key (firstPer key before xs))"
proof (induction key before xs rule: firstPer.induct)
  case (2 key before x xs)
  then show ?case using firstPer_keys [of key "insert (key x) before" xs] by auto
qed simp

lemma firstPer_subset: "set (firstPer key before xs) \<subseteq> set xs"
  by (induction key before xs rule: firstPer.induct) auto

lemma firstPer_append:
  "firstPer key before (xs @ ys) = firstPer key before xs @ firstPer key (before \<union> key ` set xs) ys"
  by (induction key before xs rule: firstPer.induct) (auto simp: insert_absorb)

text \<open>The links and the mentions as they stand in the document, each time they occur.\<close>

definition opLinks :: "string \<Rightarrow> text_op \<Rightarrow> page_link list" where
  "opLinks b op =
     (case Option.bind (linkHref op) pageFromHref of
        None \<Rightarrow> []
      | Some (pageId, toBlock) \<Rightarrow> [\<lparr>pl_pageId = pageId, pl_blockId = b, pl_toBlockId = toBlock\<rparr>])"

fun linkOccurrences :: "string set \<Rightarrow> nat \<Rightarrow> string option \<Rightarrow> xnode list \<Rightarrow> page_link list" where
  "linkOccurrences ids depth block [] = []"
| "linkOccurrences ids depth block (XText ops # rest) =
     (case block of None \<Rightarrow> [] | Some b \<Rightarrow> if b \<in> ids then concat (map (opLinks b) ops) else []) @
     linkOccurrences ids depth block rest"
| "linkOccurrences ids depth block (XElem name attrs client children # rest) =
     (if MAX_BLOCK_DEPTH < depth + 1 then [] else linkOccurrences ids (depth + 1) (ownBlock attrs block) children) @
     linkOccurrences ids depth block rest"

definition linkKey :: "page_link \<Rightarrow> string" where
  "linkKey l = pl_pageId l @ CHR '' '' # pl_blockId l"

definition mentionKey :: "mention \<Rightarrow> string" where
  "mentionKey m = mn_userId m @ CHR 0x00 # mn_blockId m"

definition mentionHere :: "(int \<rightharpoonup> string) \<Rightarrow> string set \<Rightarrow> attributes \<Rightarrow> int option \<Rightarrow> string option \<Rightarrow> mention list" where
  "mentionHere authors ids attrs client within =
     (case (map_of attrs ''userId'', within) of
        (Some (JString userId), Some b) \<Rightarrow>
          if userId \<noteq> [] \<and> b \<in> ids
          then [\<lparr>mn_userId = userId, mn_blockId = b, mn_writtenBy = (case client of None \<Rightarrow> None | Some c \<Rightarrow> authors c)\<rparr>] else []
      | _ \<Rightarrow> [])"

fun mentionOccurrences :: "(int \<rightharpoonup> string) \<Rightarrow> string set \<Rightarrow> nat \<Rightarrow> string option \<Rightarrow> xnode list \<Rightarrow> mention list" where
  "mentionOccurrences authors ids depth block [] = []"
| "mentionOccurrences authors ids depth block (XText ops # rest) = mentionOccurrences authors ids depth block rest"
| "mentionOccurrences authors ids depth block (XElem name attrs client children # rest) =
     (if name = MENTION_NODE then mentionHere authors ids attrs client (ownBlock attrs block)
      else if MAX_BLOCK_DEPTH < depth + 1 then []
      else mentionOccurrences authors ids (depth + 1) (ownBlock attrs block) children) @
     mentionOccurrences authors ids depth block rest"

definition noting :: "('a \<Rightarrow> string) \<Rightarrow> 'a list \<Rightarrow> 'a list \<times> string set \<Rightarrow> 'a list \<times> string set" where
  "noting key xs st = (fst st @ firstPer key (snd st) xs, snd st \<union> key ` set xs)"

lemma noting_append: "noting key (xs @ ys) st = noting key ys (noting key xs st)"
  by (auto simp: noting_def firstPer_append)

lemma noting_Nil [simp]: "noting key [] st = st"
  by (simp add: noting_def)

lemma addPageLink_noting: "addPageLink b op st = noting linkKey (opLinks b op) st"
  by (auto simp: addPageLink_def opLinks_def noting_def linkKey_def insert_absorb split: option.split)

lemma addLinks_noting: "fold (addPageLink b) ops st = noting linkKey (concat (map (opLinks b) ops)) st"
  by (induction ops arbitrary: st) (simp_all add: addPageLink_noting noting_append)

lemma linkWalk_noting: "linkWalk ids depth block content st = noting linkKey (linkOccurrences ids depth block content) st"
  by (induction ids depth block content st rule: linkWalk.induct)
    (simp_all add: noting_append addLinks_noting split: option.split)

lemma addMention_noting: "addMention authors ids attrs client within st = noting mentionKey (mentionHere authors ids attrs client within) st"
  by (auto simp: addMention_def mentionHere_def noting_def mentionKey_def insert_absorb split: option.split json.split)

lemma mentionWalk_noting:
  "mentionWalk authors ids depth block content st = noting mentionKey (mentionOccurrences authors ids depth block content) st"
  by (induction authors ids depth block content st rule: mentionWalk.induct) (simp_all add: noting_append addMention_noting)

lemma linksIn_first: "linksIn E content = firstPer linkKey {} (linkOccurrences (treeIds E content) 0 None content)"
  by (simp add: linksIn_def linkWalk_noting noting_def)

lemma mentionsIn_first:
  "mentionsIn E doc content = firstPer mentionKey {} (mentionOccurrences (authorsByClient doc) (treeIds E content) 0 None content)"
  by (simp add: mentionsIn_def mentionWalk_noting noting_def)

lemma pageAt_length: "pageAt s = Some u \<Longrightarrow> length u = 36"
proof -
  assume p: "pageAt s = Some u"
  have "isUuid (take 36 (drop 2 s)) \<and> u = toLowerCase (take 36 (drop 2 s))"
    using p unfolding pageAt_def Let_def by (metis option.distinct(1) option.inject)
  then show "length u = 36" using hexGroups_length [of "[8, 4, 4, 4, 12]" "take 36 (drop 2 s)"] by (simp add: isUuid_def toLowerCase_def)
qed

lemma pageAfterSlash_length: "pageAfterSlash s = Some u \<Longrightarrow> length u = 36"
  by (induction s) (auto split: if_splits dest: pageAt_length)

lemma pageFromHref_length: "pageFromHref s = Some t \<Longrightarrow> length (fst t) = 36"
  unfolding pageFromHref_def Let_def by (auto split: option.splits dest: pageAt_length pageAfterSlash_length)

lemma opLinks_ok: "l \<in> set (opLinks b op) \<Longrightarrow> pl_blockId l = b \<and> length (pl_pageId l) = 36"
proof -
  have "length u = 36" if "Some (u, t) = pageFromHref s" for s u t using pageFromHref_length [OF that [symmetric]] by simp
  then show "l \<in> set (opLinks b op) \<Longrightarrow> pl_blockId l = b \<and> length (pl_pageId l) = 36"
    by (cases "linkHref op") (auto simp: opLinks_def split: option.splits)
qed

lemma linkOccurrences_ok: "l \<in> set (linkOccurrences ids depth block content) \<Longrightarrow> pl_blockId l \<in> ids \<and> length (pl_pageId l) = 36"
  by (induction ids depth block content rule: linkOccurrences.induct) (auto split: option.splits if_splits dest: opLinks_ok)

lemma mentionOccurrences_ok:
  "m \<in> set (mentionOccurrences authors ids depth block content) \<Longrightarrow> mn_blockId m \<in> ids \<and> mn_userId m \<noteq> []"
  by (induction authors ids depth block content rule: mentionOccurrences.induct)
    (auto simp: mentionHere_def split: if_splits option.splits json.splits)

lemma image_by_key:
  assumes "A \<subseteq> B" "k ` A = k ` B" "\<And>x y. k x = k y \<Longrightarrow> x \<in> B \<Longrightarrow> y \<in> B \<Longrightarrow> f x = f y"
  shows "f ` A = f ` B"
proof
  show "f ` B \<subseteq> f ` A"
  proof
    fix z
    assume "z \<in> f ` B"
    then obtain x where x: "x \<in> B" "z = f x" by blast
    then have "k x \<in> k ` A" using assms(2) by simp
    then obtain y where "y \<in> A" "k x = k y" by (rule imageE)
    then show "z \<in> f ` A" using x assms(1,3) by (metis imageI subsetD)
  qed
qed (use assms(1) in blast)


end
