(* ===== verification/Version_Laws.thy ===== *)
theory Version_Laws
  imports Page_Versions Tree_Laws
begin

text \<open>
  What the versions of a page promise: thinning never touches the last day or a restore and leaves one version in
  every bucket of the window, whatever the environment says; a restore makes the page read as it did, leaves where
  it lives alone, and restoring the state before it undoes it.
\<close>

section \<open>Thinning\<close>

lemma retention_positive: "1 \<le> VERSION_RETENTION_DAYS numberOf env"
proof (cases "fst (envNumber numberOf ''SONE_VERSION_RETENTION_DAYS'' (Whole 90)
                 \<lparr>nb_min = Some 1, nb_max = None, nb_integer = True\<rparr> env [])")
  case (Whole n)
  then show ?thesis
    by (auto simp: VERSION_RETENTION_DAYS_def envNumber_def split: option.splits if_splits)
next
  case (Between n)
  then show ?thesis
    by (auto simp: envNumber_def split: option.splits if_splits)
qed

lemma rank_one: "1 < rankIn h d now rows v \<longleftrightarrow> (\<exists>u \<in> set rows. sameBucket h d now u v \<and> versionOrder v < versionOrder u)"
  by (auto simp: rankIn_def filter_empty_conv)

lemma sameBucket_refl [simp]: "sameBucket h d now v v"
  by (simp add: sameBucket_def)

lemma sameBucket_trans: "sameBucket h d now u v \<Longrightarrow> sameBucket h d now v w \<Longrightarrow> sameBucket h d now u w"
  by (simp add: sameBucket_def)

lemma newest_in_bucket:
  assumes "v \<in> set rows"
  shows "\<exists>u \<in> set rows. sameBucket h d now u v \<and> versionOrder v \<le> versionOrder u \<and>
           (\<forall>w \<in> set rows. sameBucket h d now w u \<longrightarrow> versionOrder w \<le> versionOrder u)"
proof -
  let ?B = "{u \<in> set rows. sameBucket h d now u v}"
  have B: "finite (versionOrder ` ?B)" "versionOrder ` ?B \<noteq> {}" using assms by auto
  from Max_in [OF B] obtain u where m: "Max (versionOrder ` ?B) = versionOrder u" and u: "u \<in> ?B" by (rule imageE)
  have le: "versionOrder w \<le> versionOrder u" if "w \<in> ?B" for w
    unfolding m [symmetric] using B(1) that by (intro Max_ge) auto
  have top: "\<forall>w \<in> set rows. sameBucket h d now w u \<longrightarrow> versionOrder w \<le> versionOrder u"
  proof (intro ballI impI)
    fix w
    assume "w \<in> set rows" "sameBucket h d now w u"
    then have "w \<in> ?B" using u sameBucket_trans [of h d now w u v] by simp
    then show "versionOrder w \<le> versionOrder u" by (rule le)
  qed
  have "versionOrder v \<le> versionOrder u" using assms by (intro le) simp
  then show ?thesis using top u by (intro bexI [of _ u] conjI) simp_all
qed

lemma recent_alone:
  assumes "distinct (map vr_id rows)" "v \<in> set rows" "now - DAY_MS < vr_takenAt v" "u \<in> set rows" "sameBucket h d now u v"
  shows "u = v"
proof -
  have "bucketOf h d now u = Inl (vr_id v)" using assms(3,5) by (simp add: sameBucket_def bucketOf_def)
  then have "vr_id u = vr_id v" by (auto simp: bucketOf_def split: if_splits)
  then show ?thesis using assms(1,2,4) by (auto simp: distinct_map dest: inj_onD)
qed

lemma thinned_kept:
  assumes "distinct (map vr_id rows)" "v \<in> set rows" "1 \<le> days" "now - DAY_MS < vr_takenAt v \<or> vr_reason v = Restore"
  shows "\<not> thinned h d days now rows v"
proof (cases "vr_reason v = Restore")
  case False
  then have recent: "now - DAY_MS < vr_takenAt v" using assms(4) by simp
  have "\<not> 1 < rankIn h d now rows v" unfolding rank_one using recent_alone [OF assms(1,2) recent] by blast
  moreover have "now - days * DAY_MS \<le> now - DAY_MS" using assms(3) by (simp add: DAY_MS_def)
  ultimately show ?thesis using recent by (simp add: thinned_def)
qed (simp add: thinned_def)

text \<open>C34: Thinning keeps a history, whatever the environment asks for. Every version of the last day and every version
  recorded by a restore stays; every version inside the window has in its bucket (the hour within a week, the day
  before that) one that stays and is no older; of the others, what stays is inside the window and the newest of its
  bucket; and thinning again at the same time removes nothing more.\<close>

theorem thinning_keeps_history:
  assumes "distinct (map vr_id (page_versions db))"
  shows "let days = VERSION_RETENTION_DAYS numberOf env; rows = page_versions db;
             db' = fst (thinVersions hourOf dayOf days now db); kept = page_versions db'
         in set kept \<subseteq> set rows \<and>
            list_all (\<lambda>v. now - DAY_MS < vr_takenAt v \<or> vr_reason v = Restore \<longrightarrow> v \<in> set kept) rows \<and>
            list_all (\<lambda>v. now - days * DAY_MS \<le> vr_takenAt v \<longrightarrow>
                            list_ex (\<lambda>u. sameBucket hourOf dayOf now u v \<and> versionOrder v \<le> versionOrder u) kept) rows \<and>
            list_all (\<lambda>v. vr_reason v \<noteq> Restore \<longrightarrow>
                            now - days * DAY_MS \<le> vr_takenAt v \<and>
                            list_all (\<lambda>u. sameBucket hourOf dayOf now u v \<longrightarrow> versionOrder u \<le> versionOrder v) rows) kept \<and>
            thinVersions hourOf dayOf days now db' = (db', 0)"
proof -
  define days where "days = VERSION_RETENTION_DAYS numberOf env"
  define rows where "rows = page_versions db"
  define db' where "db' = fst (thinVersions hourOf dayOf days now db)"
  have d: "1 \<le> days" by (simp add: days_def retention_positive)
  have kept: "page_versions db' = filter (\<lambda>v. \<not> thinned hourOf dayOf days now rows v) rows"
    by (simp add: db'_def thinVersions_def Let_def rows_def)
  have first: "v \<in> set (page_versions db')" if "v \<in> set rows" "now - DAY_MS < vr_takenAt v \<or> vr_reason v = Restore" for v
    using thinned_kept [OF _ that(1) d that(2)] assms that(1) by (simp add: kept rows_def)
  have second: "\<exists>u \<in> set (page_versions db'). sameBucket hourOf dayOf now u v \<and> versionOrder v \<le> versionOrder u"
    if v: "v \<in> set rows" "now - days * DAY_MS \<le> vr_takenAt v" for v
  proof -
    obtain u where u: "u \<in> set rows" "sameBucket hourOf dayOf now u v" "versionOrder v \<le> versionOrder u"
        and top: "\<forall>w \<in> set rows. sameBucket hourOf dayOf now w u \<longrightarrow> versionOrder w \<le> versionOrder u"
      using newest_in_bucket [OF v(1)] by blast
    have "\<not> 1 < rankIn hourOf dayOf now rows u" unfolding rank_one using top by (auto simp: not_less)
    moreover have "vr_takenAt v \<le> vr_takenAt u" using u(3) by (auto simp: versionOrder_def less_eq_prod_def)
    ultimately have "\<not> thinned hourOf dayOf days now rows u" using v(2) by (auto simp: thinned_def)
    then show ?thesis using u by (auto simp: kept)
  qed
  have third: "now - days * DAY_MS \<le> vr_takenAt v \<and> (\<forall>u \<in> set rows. sameBucket hourOf dayOf now u v \<longrightarrow> versionOrder u \<le> versionOrder v)"
    if "v \<in> set (page_versions db')" "vr_reason v \<noteq> Restore" for v
    using that rank_one [of hourOf dayOf now rows v] by (auto simp: kept thinned_def not_less)
  have sub: "set (page_versions db') \<subseteq> set rows" by (auto simp: kept)
  have "\<not> thinned hourOf dayOf days now (page_versions db') v" if "v \<in> set (page_versions db')" for v
  proof (cases "vr_reason v = Restore")
    case False
    then have t: "now - days * DAY_MS \<le> vr_takenAt v" "\<forall>u \<in> set rows. sameBucket hourOf dayOf now u v \<longrightarrow> versionOrder u \<le> versionOrder v"
      using third [OF that] by simp_all
    have "\<not> 1 < rankIn hourOf dayOf now (page_versions db') v" unfolding rank_one using t(2) sub by (meson not_less subsetD)
    then show ?thesis using t(1) by (simp add: thinned_def)
  qed (simp add: thinned_def)
  then have again: "thinVersions hourOf dayOf days now db' = (db', 0)"
    by (simp add: thinVersions_def Let_def filter_id_conv [THEN iffD2] filter_empty_conv)
  show ?thesis
    unfolding Let_def days_def [symmetric] rows_def [symmetric] db'_def [symmetric]
    using sub first second third again by (auto simp: list_all_iff list_ex_iff)
qed

definition sampleVersion :: "nat \<Rightarrow> int \<Rightarrow> version_reason \<Rightarrow> bool version_row" where
  "sampleVersion i t r =
     \<lparr>vr_id = i, vr_doc = ''p'', vr_through = i, vr_takenAt = t, vr_state = True, vr_authors = [], vr_reason = r\<rparr>"

definition sampleVersions :: "bool doc_tables" where
  "sampleVersions =
     \<lparr>doc_updates = [], doc_snapshots = [],
      page_versions = [sampleVersion 1 0 Quiet, sampleVersion 2 (2 * DAY_MS) Quiet, sampleVersion 3 (2 * DAY_MS + 1) Compaction,
                       sampleVersion 4 (5 * DAY_MS) Restore],
      ds_nextSeq = 5, ds_nextVersion = 5\<rparr>"

theorem thinning_keeps_history_witness:
  "let days = VERSION_RETENTION_DAYS (\<lambda>s. Some (Whole 0)) (\<lambda>k. Some ''0''); rows = page_versions sampleVersions;
       db' = fst (thinVersions (\<lambda>t. t div 3600000) (\<lambda>t. t div DAY_MS) days (5 * DAY_MS) sampleVersions); kept = page_versions db'
   in set kept \<subseteq> set rows \<and>
      list_all (\<lambda>v. 5 * DAY_MS - DAY_MS < vr_takenAt v \<or> vr_reason v = Restore \<longrightarrow> v \<in> set kept) rows \<and>
      list_all (\<lambda>v. 5 * DAY_MS - days * DAY_MS \<le> vr_takenAt v \<longrightarrow>
                      list_ex (\<lambda>u. sameBucket (\<lambda>t. t div 3600000) (\<lambda>t. t div DAY_MS) (5 * DAY_MS) u v \<and> versionOrder v \<le> versionOrder u) kept) rows \<and>
      list_all (\<lambda>v. vr_reason v \<noteq> Restore \<longrightarrow>
                      5 * DAY_MS - days * DAY_MS \<le> vr_takenAt v \<and>
                      list_all (\<lambda>u. sameBucket (\<lambda>t. t div 3600000) (\<lambda>t. t div DAY_MS) (5 * DAY_MS) u v \<longrightarrow> versionOrder u \<le> versionOrder v) rows) kept \<and>
      thinVersions (\<lambda>t. t div 3600000) (\<lambda>t. t div DAY_MS) days (5 * DAY_MS) db' = (db', 0)"
  by (rule thinning_keeps_history) (simp add: sampleVersions_def sampleVersion_def)

section \<open>The version before\<close>

text \<open>
  The list orders versions of one moment by their sequence numbers, the version before by their ids: where the two
  disagree, what is compared with is not the one below in the list.
\<close>

lemma previous_not_below_in_list:
  "let rows = [sampleVersion 1 7 Quiet\<lparr>vr_through := 2\<rparr>, sampleVersion 2 7 Quiet\<lparr>vr_through := 1\<rparr>];
       db = sampleVersions\<lparr>page_versions := rows\<rparr>
   in map lv_id (listVersions db ''p'' 100) = [1, 2] \<and>
      map vr_id (earlierVersions db ''p'' 1) = [] \<and> map vr_id (earlierVersions db ''p'' 2) = [1]"
  by (simp add: listVersions_def earlierVersions_def versionOrder_def versionRow_def sampleVersion_def sampleVersions_def Let_def less_prod_def)

section \<open>Restoring\<close>

text \<open>No attribute is null: what an editor writes.\<close>

fun nullFree :: "xnode \<Rightarrow> bool" where
  "nullFree (XText ops) = True"
| "nullFree (XElem name attrs client children) = (list_all (\<lambda>(k, v). v \<noteq> JNull) attrs \<and> list_all nullFree children)"

lemma cloned_attrs: "list_all (\<lambda>(k, v). v \<noteq> JNull) attrs \<Longrightarrow> filter (\<lambda>(k, v). v \<noteq> JNull) attrs = attrs"
  by (simp add: filter_id_conv list_all_iff)

lemma clone_inlineText: "list_all nullFree content \<Longrightarrow> inlineText depth (map (cloneNode me) content) = inlineText depth content"
  by (induction depth content rule: inlineText.induct) (simp_all add: cloned_attrs)

lemma clone_markdownParts: "list_all nullFree content \<Longrightarrow> markdownParts (map (cloneNode me) content) = markdownParts content"
  by (induction content rule: markdownParts.induct) (simp_all add: cloned_attrs clone_inlineText)

lemma clone_hasBlockChildren: "list_all nullFree content \<Longrightarrow> hasBlockChildren (map (cloneNode me) content) = hasBlockChildren content"
  by (induction content rule: hasBlockChildren.induct) (simp_all add: cloned_attrs)

lemma clone_enterBlock:
  "list_all nullFree children \<Longrightarrow>
   enterBlock E i type attrs (map (cloneNode me) children) structural base stack st = enterBlock E i type attrs children structural base stack st"
  by (simp add: enterBlock_def newBlock_def clone_inlineText inlineMarkdown_def clone_markdownParts)

lemma clone_visit:
  "list_all nullFree content \<Longrightarrow>
   visit E structural base stack (map (cloneNode me) content) st = visit E structural base stack content st"
proof (induction E structural base stack content st rule: visit.induct)
  case (3 E structural base stack name attrs client children rest st)
  have n: "list_all (\<lambda>(k, v). v \<noteq> JNull) attrs" "list_all nullFree children" "list_all nullFree rest" using 3(4) by simp_all
  show ?case
  proof (cases "blockId attrs")
    case None
    then show ?thesis using 3(1) n by (simp add: cloned_attrs)
  next
    case (Some i)
    obtain stack' st' where e: "enterBlock E i name attrs children structural base stack st = (stack', st')" by (rule prod.exhaust)
    have inner: "visit E (Some i) (base + length stack') [] (map (cloneNode me) children) st' =
                 visit E (Some i) (base + length stack') [] children st'"
      if "name \<in> set STRUCTURAL_BLOCK_TYPES \<or> hasBlockChildren children" "\<not> MAX_BLOCK_DEPTH < base + length stack'"
      using 3(2) [OF Some e [symmetric] that n(2)] .
    show ?thesis
      using 3(3) [OF Some e [symmetric] n(3)] inner
      by (cases "MAX_BLOCK_DEPTH < base + length stack'"; cases "name \<in> set STRUCTURAL_BLOCK_TYPES"; cases "hasBlockChildren children")
        (simp_all add: cloned_attrs n Some clone_enterBlock clone_hasBlockChildren e)
  qed
qed simp_all

lemma clone_read: "list_all nullFree content \<Longrightarrow> readBlockTree E (cloneInto me content) = readBlockTree E content"
  by (simp add: readBlockTree_def cloneInto_def clone_visit)

lemma clone_nullFree: "list_all nullFree content \<Longrightarrow> list_all nullFree (map (cloneNode me) content)"
proof -
  have "nullFree node \<Longrightarrow> nullFree (cloneNode me node)" for node
    by (induction node) (auto simp: list_all_iff)
  then show "list_all nullFree content \<Longrightarrow> list_all nullFree (map (cloneNode me) content)" by (simp add: list_all_iff)
qed

lemma clone_links:
  "list_all nullFree content \<Longrightarrow> linkWalk ids depth block (map (cloneNode me) content) st = linkWalk ids depth block content st"
proof (induction ids depth block content st rule: linkWalk.induct)
  case (3 ids depth block name attrs client children rest st)
  then show ?case by (cases "MAX_BLOCK_DEPTH < depth + 1") (simp_all add: cloned_attrs)
qed simp_all

lemma map_of_keys: "map_of (filter (\<lambda>(k, v). P k) kvs) k = (if P k then map_of kvs k else None)"
  by (induction kvs) auto

text \<open>What a restore leaves under a key of the page.\<close>

definition restoredValue :: "(string \<times> page_entry) list \<Rightarrow> (string \<times> page_entry) list \<Rightarrow> string \<Rightarrow> page_entry option" where
  "restoredValue live past k =
     (if k \<in> set VERSION_STRUCTURAL_KEYS then map_of live k
      else case map_of past k of
             None \<Rightarrow> None
           | Some SharedValue \<Rightarrow> map_of live k
           | Some (Plain v) \<Rightarrow> Some (Plain v))"

lemma restorePage_lookup:
  assumes "distinct (map fst past)"
  shows "map_of (restorePage live past) k = restoredValue live past k"
proof -
  let ?step = "\<lambda>(k, v) page. if k \<in> set VERSION_STRUCTURAL_KEYS then page
                          else case v of SharedValue \<Rightarrow> page | Plain w \<Rightarrow> objectPut k (Plain w) page"
  have fold: "map_of (fold ?step past page) k =
      (if k \<in> set VERSION_STRUCTURAL_KEYS then map_of page k
       else case map_of past k of Some (Plain v) \<Rightarrow> Some (Plain v) | _ \<Rightarrow> map_of page k)" for page
    using assms
  proof (induction past arbitrary: page)
    case (Cons kv past)
    obtain x v where kv: "kv = (x, v)" by (cases kv)
    define next_page where "next_page = ?step kv page"
    have x: "map_of past x = None" using Cons.prems by (simp add: kv map_of_eq_None_iff)
    have l: "map_of next_page k = (if k = x \<and> x \<notin> set VERSION_STRUCTURAL_KEYS \<and> v \<noteq> SharedValue then Some v else map_of page k)"
      by (cases v) (simp_all add: next_page_def kv objectPut_lookup)
    have f: "fold ?step (kv # past) page = fold ?step past next_page" by (simp add: next_page_def)
    have ih: "map_of (fold ?step past next_page) k =
      (if k \<in> set VERSION_STRUCTURAL_KEYS then map_of next_page k
       else case map_of past k of Some (Plain v) \<Rightarrow> Some (Plain v) | _ \<Rightarrow> map_of next_page k)"
      using Cons.IH [of next_page] Cons.prems by simp
    show ?case
      unfolding f ih l
      by (cases "k \<in> set VERSION_STRUCTURAL_KEYS"; cases "k = x"; cases v; cases "map_of past k") (simp_all add: kv x split: page_entry.split)
  qed simp
  have "k \<in> fst ` set past \<longleftrightarrow> map_of past k \<noteq> None" by (simp add: map_of_eq_None_iff)
  moreover have "map_of (filter (\<lambda>(k, v). k \<in> set VERSION_STRUCTURAL_KEYS \<or> k \<in> fst ` set past) live) k =
      (if k \<in> set VERSION_STRUCTURAL_KEYS \<or> k \<in> fst ` set past then map_of live k else None)"
    by (rule map_of_keys)
  ultimately show ?thesis
    unfolding restorePage_def fold restoredValue_def
    by (cases "k \<in> set VERSION_STRUCTURAL_KEYS"; cases "map_of past k"; simp split: page_entry.split)
qed

definition noShared :: "(string \<times> page_entry) list \<Rightarrow> bool" where
  "noShared kvs = list_all (\<lambda>(k, v). v \<noteq> SharedValue) kvs"

lemma noShared_lookup: "noShared kvs \<Longrightarrow> map_of kvs k \<noteq> Some SharedValue"
  by (induction kvs) (auto simp: noShared_def)

text \<open>C35: A restore makes the page read as it did and can be taken back. The body gives the tree of blocks and the
  links it gave then, the canvas is that of the version with its texts as plain words, and a property of the page is
  the one of then, except the ones that say where the page lives, which stay. Restoring what the page was before the
  restore makes it read as before the restore.\<close>

theorem restore_and_undo:
  assumes "list_all nullFree (pd_content past)" "distinct (map fst (pd_page past))" "noShared (pd_page past)"
    and "list_all nullFree (pd_content live)" "distinct (map fst (pd_page live))" "noShared (pd_page live)"
  shows "let r = restoreInto me live past; back = restoreInto me r live
         in readBlockTree E (pd_content r) = readBlockTree E (pd_content past) \<and>
            linksIn E (pd_content r) = linksIn E (pd_content past) \<and>
            pd_canvas r = List.map_filter copyItem (pd_canvas past) \<and>
            map_of (pd_page r) =
              (\<lambda>k. if k \<in> set VERSION_STRUCTURAL_KEYS then map_of (pd_page live) k else map_of (pd_page past) k) \<and>
            readBlockTree E (pd_content back) = readBlockTree E (pd_content live) \<and>
            map_of (pd_page back) = map_of (pd_page live)"
proof -
  have page: "map_of (restorePage l p) k =
      (if k \<in> set VERSION_STRUCTURAL_KEYS then map_of l k else map_of p k)" if "distinct (map fst p)" "noShared p" for l p k
    using noShared_lookup [OF that(2), of k]
    by (cases "map_of p k") (auto simp: restorePage_lookup [OF that(1)] restoredValue_def split: page_entry.splits)
  have "linksIn E (cloneInto me (pd_content past)) = linksIn E (pd_content past)"
    by (simp add: linksIn_def treeIds_def clone_read assms(1)) (simp add: cloneInto_def clone_links assms(1))
  then show ?thesis
    by (simp add: Let_def restoreInto_def clone_read assms(1,4) fun_eq_iff page [OF assms(2,3)] page [OF assms(5,6)])
qed

definition samplePageDoc :: "string \<Rightarrow> string \<Rightarrow> page_doc" where
  "samplePageDoc title parent =
     \<lparr>pd_content = [XElem ''paragraph'' [(''id'', JString ''b'')] None [XText [\<lparr>to_insert = JString title, to_attributes = []\<rparr>]]],
      pd_page = [(''title'', Plain (JString title)), (''parentPageId'', Plain (JString parent))], pd_canvas = []\<rparr>"

theorem restore_and_undo_witness:
  "let past = samplePageDoc ''old'' ''p''; live = samplePageDoc ''new'' ''q''; r = restoreInto (Some 1) live past; back = restoreInto (Some 1) r live
   in readBlockTree sampleEngine (pd_content r) = readBlockTree sampleEngine (pd_content past) \<and>
      map_of (pd_page r) ''title'' = Some (Plain (JString ''old'')) \<and> map_of (pd_page r) ''parentPageId'' = Some (Plain (JString ''q'')) \<and>
      map_of (pd_page back) = map_of (pd_page live)"
proof -
  have n: "list_all nullFree (pd_content (samplePageDoc t p))" "distinct (map fst (pd_page (samplePageDoc t p)))"
      "noShared (pd_page (samplePageDoc t p))" for t p
    by (simp_all add: samplePageDoc_def noShared_def)
  have "map_of (pd_page (samplePageDoc t p)) ''title'' = Some (Plain (JString t))"
    "map_of (pd_page (samplePageDoc t p)) ''parentPageId'' = Some (Plain (JString p))" for t p
    by (simp_all add: samplePageDoc_def)
  moreover have "''title'' \<notin> set VERSION_STRUCTURAL_KEYS" "''parentPageId'' \<in> set VERSION_STRUCTURAL_KEYS"
    by (simp_all add: VERSION_STRUCTURAL_KEYS_def)
  ultimately show ?thesis
    using restore_and_undo [OF n n, of "Some 1" "''new''" "''q''" "''old''" "''p''" sampleEngine] by (simp add: Let_def)
qed

text \<open>
  The list of what says where a page lives has no place for the date it was put in the trash: restoring a version
  that was taken while the page was there puts it back in the trash.
\<close>

lemma restore_can_archive:
  "map_of (pd_page (restoreInto me (samplePageDoc ''a'' ''p'')
     (samplePageDoc ''a'' ''p''\<lparr>pd_page := [(''archivedAt'', Plain (JString ''2026-01-01''))]\<rparr>))) ''archivedAt'' =
   Some (Plain (JString ''2026-01-01''))"
  by (simp add: restoreInto_def restorePage_lookup restoredValue_def VERSION_STRUCTURAL_KEYS_def)

end
