(* ===== verification/Second_Factor.thy ===== *)
theory Second_Factor
  imports Sessions Json "HOL-Library.Word"
begin

unbundle bit_operations_syntax

text \<open>
  \<^verbatim>\<open>packages/server/src/auth/totp.ts\<close> and \<^verbatim>\<open>auth/secondFactor.ts\<close>: time-based codes, enrolling, proving and removing
  a second factor, and the ticket between the two steps of a sign-in; the second step itself is of
  \<^verbatim>\<open>packages/server/src/http/auth.ts\<close>. The reply addresses of \<^verbatim>\<open>packages/server/src/mail/replyToken.ts\<close> are here too,
  because they are made of the same signature. Node's cryptography is the argument \<open>C\<close>, random bytes are arguments.
\<close>

type_synonym octets = "8 word list"

record factor_crypto =
  hmacSha1 :: "octets \<Rightarrow> octets \<Rightarrow> octets"
  sha256Hex :: "string \<Rightarrow> string"
  hmacSha256 :: "string \<Rightarrow> string \<Rightarrow> string"
  gcmSeal :: "string \<Rightarrow> octets \<Rightarrow> octets \<Rightarrow> octets \<times> octets"
  gcmOpen :: "string \<Rightarrow> octets \<Rightarrow> octets \<Rightarrow> octets \<Rightarrow> octets option"
  base64url :: "octets \<Rightarrow> string"
  fromBase64url :: "string \<Rightarrow> octets"
  utf8 :: "string \<Rightarrow> octets"
  fromUtf8 :: "octets \<Rightarrow> string"
  jsNumber :: "string \<Rightarrow> int option"

text \<open>
  What is decoded is what was encoded, no encoding has a dot in it, and a number is read from the text that prints
  it. \<open>jsNumber\<close> is \<^const>\<open>None\<close> for a text that is no number; of the others only integers are looked at.
\<close>

definition encoding_laws :: "factor_crypto \<Rightarrow> bool" where
  "encoding_laws C =
     ((\<forall>b. fromBase64url C (base64url C b) = b) \<and> (\<forall>s. fromUtf8 C (utf8 C s) = s) \<and>
      (\<forall>b. CHR ''.'' \<notin> set (base64url C b)) \<and> (\<forall>s. s \<noteq> [] \<longrightarrow> base64url C (utf8 C s) \<noteq> []) \<and>
      (\<forall>k s. CHR ''.'' \<notin> set (hmacSha256 C k s)) \<and> (\<forall>n. jsNumber C (showInt n) = Some n) \<and>
      (\<forall>k iv s. case gcmSeal C k iv s of (tag, body) \<Rightarrow> gcmOpen C k iv tag body = Some s))"

section \<open>Base 32\<close>

definition STEP_SECONDS :: int where
  "STEP_SECONDS = 30"

definition CODE_DIGITS :: nat where
  "CODE_DIGITS = 6"

definition SKEW_STEPS :: int where
  "SKEW_STEPS = 1"

definition BASE32 :: string where
  "BASE32 = ''ABCDEFGHIJKLMNOPQRSTUVWXYZ234567''"

definition base32Char :: "32 word \<Rightarrow> char" where
  "base32Char w = BASE32 ! unat (w AND 31)"

text \<open>The inner loop of the encoder: five bits at a time while there are as many.\<close>

function emitDigits :: "32 word \<Rightarrow> nat \<Rightarrow> string \<times> nat" where
  "emitDigits v bits =
     (if 5 \<le> bits then (case emitDigits v (bits - 5) of (out, left) \<Rightarrow> (base32Char (drop_bit (bits - 5) v) # out, left))
      else ([], bits))"
  by pat_completeness auto
termination by (relation "measure snd") auto

declare emitDigits.simps [simp del]

fun encodeDigits :: "octets \<Rightarrow> 32 word \<Rightarrow> nat \<Rightarrow> string" where
  "encodeDigits [] v bits = (if 0 < bits then [base32Char (push_bit (5 - bits) v)] else [])"
| "encodeDigits (b # bs) v bits =
     (let v = push_bit 8 v OR ucast b; (out, left) = emitDigits v (bits + 8) in out @ encodeDigits bs v left)"

definition toBase32 :: "octets \<Rightarrow> string" where
  "toBase32 bytes = encodeDigits bytes 0 0"

text \<open>\<open>toUpperCase\<close>: of the first 256 characters only the sharp s becomes two letters.\<close>

definition upperChar :: "char \<Rightarrow> string" where
  "upperChar c =
     (let n = charCode c in
      if n = 223 then ''SS''
      else if 97 \<le> n \<and> n \<le> 122 \<or> 224 \<le> n \<and> n \<le> 254 \<and> n \<noteq> 247 then [fromCharCode (n - 32)] else [c])"

fun indexIn :: "char \<Rightarrow> string \<Rightarrow> nat option" where
  "indexIn c [] = None"
| "indexIn c (x # xs) = (if x = c then Some 0 else map_option Suc (indexIn c xs))"

definition cleanBase32 :: "string \<Rightarrow> string" where
  "cleanBase32 s = filter (\<lambda>c. c \<in> set BASE32) (concat (map upperChar s))"

fun decodeDigits :: "string \<Rightarrow> 32 word \<Rightarrow> nat \<Rightarrow> octets" where
  "decodeDigits [] v bits = []"
| "decodeDigits (c # cs) v bits =
     (case indexIn c BASE32 of
        None \<Rightarrow> decodeDigits cs v bits
      | Some i \<Rightarrow>
          (let v = push_bit 5 v OR of_nat i; bits = bits + 5
           in if 8 \<le> bits then ucast (drop_bit (bits - 8) v AND 255) # decodeDigits cs v (bits - 8)
              else decodeDigits cs v bits))"

definition fromBase32 :: "string \<Rightarrow> octets" where
  "fromBase32 s = decodeDigits (cleanBase32 s) 0 0"

section \<open>Codes\<close>

text \<open>Eight bytes of a step, the high half first.\<close>

definition bytesOf32 :: "32 word \<Rightarrow> octets" where
  "bytesOf32 w = [ucast (drop_bit 24 w), ucast (drop_bit 16 w), ucast (drop_bit 8 w), ucast w]"

definition counterOf :: "int \<Rightarrow> octets" where
  "counterOf n = bytesOf32 (of_int (n div 2 ^ 32)) @ bytesOf32 (of_int n)"

definition byteAt :: "octets \<Rightarrow> nat \<Rightarrow> 32 word" where
  "byteAt d i = (if i < length d then ucast (d ! i) else 0)"

definition padStart :: "nat \<Rightarrow> char \<Rightarrow> string \<Rightarrow> string" where
  "padStart n c s = replicate (n - length s) c @ s"

definition codeAt :: "factor_crypto \<Rightarrow> octets \<Rightarrow> int \<Rightarrow> string" where
  "codeAt C secret step =
     (let digest = hmacSha1 C secret (counterOf step);
          offset = unat (byteAt digest (length digest - 1) AND 15);
          truncated = push_bit 24 (byteAt digest offset AND 127) OR push_bit 16 (byteAt digest (offset + 1) AND 255) OR
                      push_bit 8 (byteAt digest (offset + 2) AND 255) OR (byteAt digest (offset + 3) AND 255)
      in padStart CODE_DIGITS CHR ''0'' (showNat (unat truncated mod 10 ^ CODE_DIGITS)))"

definition isCodeDigit :: "char \<Rightarrow> bool" where
  "isCodeDigit c = (48 \<le> charCode c \<and> charCode c \<le> 57)"

text \<open>The step of the code that fits first, from one step ago to one ahead.\<close>

definition checkCode :: "factor_crypto \<Rightarrow> octets \<Rightarrow> string \<Rightarrow> time \<Rightarrow> int option" where
  "checkCode C secret code now =
     (let given = filter (\<lambda>c. \<not> isSpace c) code; current = now div 1000 div STEP_SECONDS
      in if length given \<noteq> 6 \<or> \<not> list_all isCodeDigit given then None
         else queryOne (filter (\<lambda>step. codeAt C secret step = given) [current - SKEW_STEPS .. current + SKEW_STEPS]))"

section \<open>The secret and the recovery codes\<close>

fun splitOn :: "char \<Rightarrow> string \<Rightarrow> string list" where
  "splitOn c [] = [[]]"
| "splitOn c (x # xs) =
     (if x = c then [] # splitOn c xs else (case splitOn c xs of [] \<Rightarrow> [[x]] | p # ps \<Rightarrow> (x # p) # ps))"

definition sealSecret :: "factor_crypto \<Rightarrow> octets \<Rightarrow> octets \<Rightarrow> string \<Rightarrow> string" where
  "sealSecret C iv secret secretKey =
     (case gcmSeal C (''totp:'' @ secretKey) iv secret of
        (tag, body) \<Rightarrow> ''v1.'' @ base64url C iv @ ''.'' @ base64url C tag @ ''.'' @ base64url C body)"

definition openSecret :: "factor_crypto \<Rightarrow> string \<Rightarrow> string \<Rightarrow> octets option" where
  "openSecret C sealed secretKey =
     (case splitOn CHR ''.'' sealed of
        [version, iv, tag, body] \<Rightarrow>
          if version = ''v1''
          then gcmOpen C (''totp:'' @ secretKey) (fromBase64url C iv) (fromBase64url C tag) (fromBase64url C body)
          else None
      | _ \<Rightarrow> None)"

definition RECOVERY_COUNT :: nat where
  "RECOVERY_COUNT = 10"

definition recoveryCode :: "factor_crypto \<Rightarrow> octets \<Rightarrow> string" where
  "recoveryCode C random =
     (let raw = take 12 (filter (\<lambda>c. c \<noteq> CHR ''-'' \<and> c \<noteq> CHR ''_'') (base64url C random))
      in toLowerCase (take 4 raw @ ''-'' @ take 4 (drop 4 raw) @ ''-'' @ take 4 (drop 8 raw)))"

definition hashRecoveryCode :: "factor_crypto \<Rightarrow> string \<Rightarrow> string" where
  "hashRecoveryCode C code =
     sha256Hex C (filter (\<lambda>c. isCodeDigit c \<or> 97 \<le> charCode c \<and> charCode c \<le> 122) (toLowerCase code))"

text \<open>\<open>randoms\<close> are the \<^const>\<open>RECOVERY_COUNT\<close> draws.\<close>

definition newRecoveryCodes :: "factor_crypto \<Rightarrow> octets list \<Rightarrow> string list \<times> string list" where
  "newRecoveryCodes C randoms =
     (let codes = map (recoveryCode C) (take RECOVERY_COUNT randoms) in (codes, map (hashRecoveryCode C) codes))"

section \<open>Tables\<close>

record factor_row =
  f_user :: ident
  f_secret :: string
  f_createdAt :: time
  f_confirmedAt :: "time option"
  f_lastStep :: "int option"

record recovery_row =
  rc_hash :: string
  rc_user :: ident
  rc_usedAt :: "time option"

record factor_tables =
  second_factors :: "factor_row list"
  recovery_codes :: "recovery_row list"

definition factorOf :: "ident \<Rightarrow> factor_tables \<Rightarrow> factor_row option" where
  "factorOf userId db = queryOne (filter (\<lambda>f. f_user f = userId) (second_factors db))"

definition isConfirmed :: "factor_row \<Rightarrow> bool" where
  "isConfirmed f = (f_confirmedAt f \<noteq> None)"

section \<open>Enrolling\<close>

text \<open>The two statements of \<^verbatim>\<open>startEnrolment\<close>, which is not in a transaction, and the two in sequence.\<close>

definition mayStart :: "ident \<Rightarrow> factor_tables \<Rightarrow> bool" where
  "mayStart userId db = (case factorOf userId db of None \<Rightarrow> True | Some f \<Rightarrow> \<not> isConfirmed f)"

definition putPending :: "factor_crypto \<Rightarrow> time \<Rightarrow> octets \<Rightarrow> octets \<Rightarrow> string \<Rightarrow> ident \<Rightarrow> factor_tables \<Rightarrow> factor_tables" where
  "putPending C now iv secret secretKey userId db =
     (let sealed = sealSecret C iv secret secretKey in
      if factorOf userId db = None
      then db\<lparr>second_factors := second_factors db @
              [\<lparr>f_user = userId, f_secret = sealed, f_createdAt = now, f_confirmedAt = None, f_lastStep = None\<rparr>]\<rparr>
      else db\<lparr>second_factors :=
              map (\<lambda>f. if f_user f = userId
                       then f\<lparr>f_secret := sealed, f_createdAt := now, f_confirmedAt := None, f_lastStep := None\<rparr> else f)
                (second_factors db)\<rparr>)"

definition startEnrolment ::
    "factor_crypto \<Rightarrow> time \<Rightarrow> octets \<Rightarrow> octets \<Rightarrow> string \<Rightarrow> ident \<Rightarrow> factor_tables \<Rightarrow> string option \<times> factor_tables" where
  "startEnrolment C now iv secret secretKey userId db =
     (if mayStart userId db then (Some (toBase32 secret), putPending C now iv secret secretKey userId db) else (None, db))"

datatype enrolment_error = NoEnrolment | WrongEnrolmentCode

text \<open>Inserting a hash that is there already throws, and the transaction is rolled back: \<^const>\<open>None\<close>.\<close>

fun insertHashes :: "ident \<Rightarrow> string list \<Rightarrow> recovery_row list \<Rightarrow> recovery_row list option" where
  "insertHashes userId [] rows = Some rows"
| "insertHashes userId (h # hs) rows =
     (if h \<in> rc_hash ` set rows then None
      else insertHashes userId hs (rows @ [\<lparr>rc_hash = h, rc_user = userId, rc_usedAt = None\<rparr>]))"

definition setFactor :: "ident \<Rightarrow> (factor_row \<Rightarrow> factor_row) \<Rightarrow> factor_tables \<Rightarrow> factor_tables" where
  "setFactor userId f db = db\<lparr>second_factors := map (\<lambda>r. if f_user r = userId then f r else r) (second_factors db)\<rparr>"

definition confirmEnrolment ::
    "factor_crypto \<Rightarrow> time \<Rightarrow> octets list \<Rightarrow> string \<Rightarrow> ident \<Rightarrow> string \<Rightarrow> factor_tables \<Rightarrow>
     ((enrolment_error + string list) \<times> factor_tables) option" where
  "confirmEnrolment C now randoms secretKey userId code db =
     (case factorOf userId db of
        None \<Rightarrow> Some (Inl NoEnrolment, db)
      | Some row \<Rightarrow>
          if isConfirmed row then Some (Inl NoEnrolment, db)
          else (case openSecret C (f_secret row) secretKey of
                  None \<Rightarrow> Some (Inl NoEnrolment, db)
                | Some secret \<Rightarrow>
                    (case checkCode C secret code now of
                       None \<Rightarrow> Some (Inl WrongEnrolmentCode, db)
                     | Some step \<Rightarrow>
                         (let (codes, hashes) = newRecoveryCodes C randoms;
                              db = setFactor userId (\<lambda>r. r\<lparr>f_confirmedAt := Some now, f_lastStep := Some step\<rparr>) db;
                              kept = filter (\<lambda>r. rc_user r \<noteq> userId) (recovery_codes db)
                          in map_option (\<lambda>rows. (Inr codes, db\<lparr>recovery_codes := rows\<rparr>)) (insertHashes userId hashes kept)))))"

section \<open>Proving\<close>

datatype factor_check = CodeOk bool | WrongCode | Replayed

definition spendRecovery :: "time \<Rightarrow> string \<Rightarrow> ident \<Rightarrow> factor_tables \<Rightarrow> nat \<times> factor_tables" where
  "spendRecovery now hash userId db =
     (let spent = (\<lambda>r. rc_hash r = hash \<and> rc_user r = userId \<and> rc_usedAt r = None)
      in (length (filter spent (recovery_codes db)),
          db\<lparr>recovery_codes := map (\<lambda>r. if spent r then r\<lparr>rc_usedAt := Some now\<rparr> else r) (recovery_codes db)\<rparr>))"

definition checkSecondFactor ::
    "factor_crypto \<Rightarrow> time \<Rightarrow> string \<Rightarrow> ident \<Rightarrow> string \<Rightarrow> factor_tables \<Rightarrow> factor_check \<times> factor_tables" where
  "checkSecondFactor C now secretKey userId code db =
     (case queryOne (filter (\<lambda>f. f_user f = userId \<and> isConfirmed f) (second_factors db)) of
        None \<Rightarrow> (WrongCode, db)
      | Some row \<Rightarrow>
          (case Option.bind (openSecret C (f_secret row) secretKey) (\<lambda>secret. checkCode C secret code now) of
             Some step \<Rightarrow>
               if (case f_lastStep row of None \<Rightarrow> False | Some s \<Rightarrow> step \<le> s) then (Replayed, db)
               else (CodeOk False, setFactor userId (\<lambda>r. r\<lparr>f_lastStep := Some step\<rparr>) db)
           | None \<Rightarrow>
               (case spendRecovery now (hashRecoveryCode C code) userId db of
                  (n, db') \<Rightarrow> if n = 1 then (CodeOk True, db') else (WrongCode, db'))))"

definition hasSecondFactor :: "ident \<Rightarrow> factor_tables \<Rightarrow> bool" where
  "hasSecondFactor userId db = list_ex (\<lambda>f. f_user f = userId \<and> isConfirmed f) (second_factors db)"

definition recoveryCodesLeft :: "ident \<Rightarrow> factor_tables \<Rightarrow> nat" where
  "recoveryCodesLeft userId db = length (filter (\<lambda>r. rc_user r = userId \<and> rc_usedAt r = None) (recovery_codes db))"

definition removeSecondFactor :: "ident \<Rightarrow> factor_tables \<Rightarrow> factor_tables" where
  "removeSecondFactor userId db =
     \<lparr>second_factors = filter (\<lambda>f. f_user f \<noteq> userId) (second_factors db),
      recovery_codes = filter (\<lambda>r. rc_user r \<noteq> userId) (recovery_codes db)\<rparr>"

section \<open>Tickets and reply addresses\<close>

definition TICKET_MINUTES :: int where
  "TICKET_MINUTES = 5"

text \<open>A payload and the first 27 characters of its signature.\<close>

definition signedToken :: "factor_crypto \<Rightarrow> string \<Rightarrow> string \<Rightarrow> string" where
  "signedToken C secretKey payload =
     base64url C (utf8 C payload) @ ''.'' @ take 27 (hmacSha256 C secretKey payload)"

text \<open>\<^const>\<open>None\<close> when there is no dot behind the first character; then whether the signature fits.\<close>

definition openToken :: "factor_crypto \<Rightarrow> string \<Rightarrow> string \<Rightarrow> (string \<times> bool) option" where
  "openToken C secretKey token =
     (let given = rev (takeWhile (\<lambda>c. c \<noteq> CHR ''.'') (rev token));
          encoded = take (length token - length given - 1) token;
          payload = fromUtf8 C (fromBase64url C encoded)
      in if CHR ''.'' \<notin> set token \<or> encoded = [] then None
         else Some (payload, given = take 27 (hmacSha256 C secretKey payload)))"

definition signTicket :: "factor_crypto \<Rightarrow> ident \<Rightarrow> string \<Rightarrow> time \<Rightarrow> string" where
  "signTicket C userId secretKey now =
     signedToken C secretKey (userId @ ''~'' @ showInt (now div 1000 + TICKET_MINUTES * 60))"

text \<open>A comparison with what is no number is false.\<close>

definition readTicket :: "factor_crypto \<Rightarrow> string \<Rightarrow> string \<Rightarrow> time \<Rightarrow> ident option" where
  "readTicket C ticket secretKey now =
     (case openToken C secretKey ticket of
        None \<Rightarrow> None
      | Some (payload, genuine) \<Rightarrow>
          if \<not> genuine then None
          else (case splitOn CHR ''~'' payload of
                  userId # expires # rest \<Rightarrow>
                    if userId = [] \<or> expires = [] then None
                    else if (case jsNumber C expires of None \<Rightarrow> False | Some n \<Rightarrow> n * 1000 \<le> now) then None
                    else Some userId
                | _ \<Rightarrow> None))"

definition REPLY_DAYS :: int where
  "REPLY_DAYS = 14"

record reply_target =
  rt_threadId :: string
  rt_messageId :: string
  rt_userId :: ident
  rt_internal :: bool

definition payloadOf :: "reply_target \<Rightarrow> int \<Rightarrow> string" where
  "payloadOf target expiresAt =
     join ''~'' [rt_threadId target, rt_messageId target, rt_userId target, if rt_internal target then ''i'' else ''p'', showInt expiresAt]"

definition replyToken :: "factor_crypto \<Rightarrow> reply_target \<Rightarrow> string \<Rightarrow> time \<Rightarrow> string" where
  "replyToken C target secretKey now = signedToken C secretKey (payloadOf target (now div 1000 + REPLY_DAYS * 86400))"

datatype reply_error = MalformedReply | BadSignature | ExpiredReply

definition readReplyToken :: "factor_crypto \<Rightarrow> string \<Rightarrow> string \<Rightarrow> time \<Rightarrow> reply_error + reply_target" where
  "readReplyToken C token secretKey now =
     (case openToken C secretKey token of
        None \<Rightarrow> Inl MalformedReply
      | Some (payload, genuine) \<Rightarrow>
          if \<not> genuine then Inl BadSignature
          else (case splitOn CHR ''~'' payload of
                  [threadId, messageId, userId, where_, expiry] \<Rightarrow>
                    (case jsNumber C expiry of
                       None \<Rightarrow> Inl MalformedReply
                     | Some n \<Rightarrow>
                         if n * 1000 \<le> now then Inl ExpiredReply
                         else Inr \<lparr>rt_threadId = threadId, rt_messageId = messageId, rt_userId = userId, rt_internal = (where_ = ''i'')\<rparr>)
                | _ \<Rightarrow> Inl MalformedReply))"

definition replyAddress :: "string \<Rightarrow> string \<Rightarrow> string" where
  "replyAddress mailbox token =
     (let local = takeWhile (\<lambda>c. c \<noteq> CHR ''@'') mailbox
      in if local = [] \<or> CHR ''@'' \<notin> set mailbox then mailbox
         else local @ ''+'' @ token @ ''@'' @ drop (length local + 1) mailbox)"

definition isTokenChar :: "char \<Rightarrow> bool" where
  "isTokenChar c = (isCodeDigit c \<or> 65 \<le> charCode c \<and> charCode c \<le> 90 \<or> 97 \<le> charCode c \<and> charCode c \<le> 122 \<or> c \<in> set ''_.-'')"

fun tokenFromAddress :: "string \<Rightarrow> string option" where
  "tokenFromAddress [] = None"
| "tokenFromAddress (c # cs) =
     (let run = takeWhile isTokenChar cs
      in if c = CHR ''+'' \<and> run \<noteq> [] \<and> take 1 (drop (length run) cs) = ''@'' then Some run else tokenFromAddress cs)"

section \<open>The second step of a sign-in\<close>

datatype second_step = TicketExpired | SecondRateLimited | SecondWrongCode | CodeAlreadyUsed | SignedIn created_session bool nat

definition secondKey :: "ident \<Rightarrow> string" where
  "secondKey userId = ''second:'' @ userId"

definition loginSecond ::
    "factor_crypto \<Rightarrow> crypto \<Rightarrow> string \<Rightarrow> time \<Rightarrow> string \<Rightarrow> ident \<Rightarrow> string option \<Rightarrow> string option \<Rightarrow> string \<Rightarrow> string \<Rightarrow>
     database \<times> factor_tables \<Rightarrow> second_step \<times> database \<times> factor_tables" where
  "loginSecond C cr secretKey now token sid userAgent ip ticket code st =
     (case st of (db, ft) \<Rightarrow>
        (case readTicket C ticket secretKey now of
           None \<Rightarrow> (TicketExpired, db, ft)
         | Some userId \<Rightarrow>
             if LOGIN_ATTEMPT_LIMIT \<le> recentFailures now db (secondKey userId) then (SecondRateLimited, db, ft)
             else (case checkSecondFactor C now secretKey userId code ft of
                     (CodeOk recovery, ft') \<Rightarrow>
                       (case createSession cr now token sid userId userAgent ip db of
                          (cs, db') \<Rightarrow> (SignedIn cs recovery (recoveryCodesLeft userId ft'), db', ft'))
                   | (Replayed, ft') \<Rightarrow> (CodeAlreadyUsed, recordAttempt now (secondKey userId) False ip db, ft')
                   | (WrongCode, ft') \<Rightarrow> (SecondWrongCode, recordAttempt now (secondKey userId) False ip db, ft'))))"

end
