(* ===== verification/Factor_Laws.thy ===== *)
theory Factor_Laws
  imports Second_Factor
begin

text \<open>
  What a second factor promises: a secret survives being shown and typed, a code is accepted once, a ticket or a
  reply address is read as what it was made for, and the second step of a sign-in needs all of it.
\<close>

section \<open>Base 32\<close>

text \<open>The low bits of a word, the highest first.\<close>

definition lowBits :: "'a::len word \<Rightarrow> nat \<Rightarrow> bool list" where
  "lowBits v n = map (bit v) (rev [0..<n])"

lemma lowBits_length [simp]: "length (lowBits v n) = n"
  by (simp add: lowBits_def)

lemma lowBits_nth: "i < n \<Longrightarrow> lowBits v n ! i = bit v (n - 1 - i)"
  by (simp add: lowBits_def rev_nth)

lemma lowBits_0 [simp]: "lowBits v 0 = []"
  by (simp add: lowBits_def)

lemma lowBits_split: "m \<le> n \<Longrightarrow> lowBits v n = lowBits (drop_bit m v) (n - m) @ lowBits v m"
proof (rule nth_equalityI)
  fix i
  assume "m \<le> n" "i < length (lowBits v n)"
  then show "lowBits v n ! i = (lowBits (drop_bit m v) (n - m) @ lowBits v m) ! i"
    by (auto simp: nth_append lowBits_nth bit_drop_bit_eq intro: arg_cong [of _ _ "bit v"])
qed simp

lemma lowBits_cong: "(\<And>i. i < n \<Longrightarrow> bit v i = bit w i) \<Longrightarrow> lowBits v n = lowBits w n"
  by (auto simp: lowBits_def)

lemma lowBits_push:
  fixes v :: "32 word" and w :: "'a::len word"
  assumes "n + k \<le> 32" "k \<le> LENGTH('a)" "\<And>i. k \<le> i \<Longrightarrow> \<not> bit w i"
  shows "lowBits (push_bit k v OR ucast w) (n + k) = lowBits v n @ lowBits w k"
proof -
  have "lowBits (push_bit k v OR ucast w) (n + k) =
        lowBits (drop_bit k (push_bit k v OR ucast w)) n @ lowBits (push_bit k v OR ucast w) k"
    by (subst lowBits_split [of k]) simp_all
  moreover have "lowBits (drop_bit k (push_bit k v OR ucast w)) n = lowBits v n"
  proof (rule lowBits_cong)
    fix i
    assume "i < n"
    then show "bit (drop_bit k (push_bit k v OR ucast w)) i = bit v i"
      using assms by (auto simp: bit_drop_bit_eq bit_or_iff bit_push_bit_iff bit_ucast_iff)
  qed
  moreover have "lowBits (push_bit k v OR ucast w) k = lowBits w k"
    using assms(1) by (intro lowBits_cong) (auto simp: bit_or_iff bit_push_bit_iff bit_ucast_iff)
  ultimately show ?thesis by simp
qed

definition digitBits :: "char \<Rightarrow> bool list" where
  "digitBits c = (case indexIn c BASE32 of None \<Rightarrow> [] | Some i \<Rightarrow> lowBits (of_nat i :: 32 word) 5)"

lemma indexIn_BASE32: "k < 32 \<Longrightarrow> indexIn (BASE32 ! k) BASE32 = Some k"
proof -
  have "list_all (\<lambda>k. indexIn (BASE32 ! k) BASE32 = Some k) [0..<32]" by code_simp
  then show "k < 32 \<Longrightarrow> indexIn (BASE32 ! k) BASE32 = Some k" by (simp add: list_all_iff)
qed

lemma mask5: "(31 :: 32 word) = mask 5"
  by (simp add: mask_eq_exp_minus_1)

lemma mask8: "(255 :: 32 word) = mask 8"
  by (simp add: mask_eq_exp_minus_1)

lemma and31_less: "unat (w AND (31 :: 32 word)) < 32"
proof -
  have "w AND 31 \<le> (31 :: 32 word)" by (rule word_and_le1)
  then show ?thesis by (simp add: word_le_nat_alt)
qed

lemma digitBits_char: "digitBits (base32Char w) = lowBits w 5"
proof -
  have "indexIn (base32Char w) BASE32 = Some (unat (w AND 31))"
    using indexIn_BASE32 [OF and31_less] by (simp add: base32Char_def)
  then have "digitBits (base32Char w) = lowBits (w AND 31) 5" by (simp add: digitBits_def)
  also have "\<dots> = lowBits w 5" by (rule lowBits_cong) (auto simp: mask5 bit_and_iff bit_mask_iff)
  finally show ?thesis .
qed

lemma BASE32_length: "length BASE32 = 32"
  by (simp add: BASE32_def)

lemma base32Char_in: "base32Char w \<in> set BASE32"
  using and31_less [of w] by (simp add: base32Char_def BASE32_length)

lemma emitDigits_bits:
  "emitDigits v n = (out, left) \<Longrightarrow>
   left < 5 \<and> concat (map digitBits out) @ lowBits v left = lowBits v n \<and> set out \<subseteq> set BASE32"
proof (induction v n arbitrary: out left rule: emitDigits.induct)
  case (1 v n)
  show ?case
  proof (cases "5 \<le> n")
    case True
    obtain out' where e: "emitDigits v (n - 5) = (out', left)" "out = base32Char (drop_bit (n - 5) v) # out'"
      using 1(2) True by (subst (asm) emitDigits.simps) (auto split: prod.splits)
    then show ?thesis
      using 1(1) [OF True e(1)] lowBits_split [of "n - 5" n v] True by (auto simp: digitBits_char base32Char_in)
  next
    case False
    then show ?thesis using 1(2) by (subst (asm) emitDigits.simps) auto
  qed
qed

definition octetBits :: "octets \<Rightarrow> bool list" where
  "octetBits bs = concat (map (\<lambda>b. lowBits b 8) bs)"

lemma lowBits_pad:
  fixes v :: "32 word"
  assumes "n \<le> 5"
  shows "lowBits (push_bit (5 - n) v) 5 = lowBits v n @ replicate (5 - n) False"
proof (rule nth_equalityI)
  fix i
  assume "i < length (lowBits (push_bit (5 - n) v) 5)"
  then show "lowBits (push_bit (5 - n) v) 5 ! i = (lowBits v n @ replicate (5 - n) False) ! i"
    using assms by (auto simp: lowBits_nth nth_append bit_push_bit_iff intro: arg_cong [of _ _ "bit v"])
qed (use assms in simp)

lemma encodeDigits_bits:
  "n < 5 \<Longrightarrow>
   (\<exists>k < 5. concat (map digitBits (encodeDigits bs v n)) = lowBits v n @ octetBits bs @ replicate k False) \<and>
   set (encodeDigits bs v n) \<subseteq> set BASE32"
proof (induction bs v n rule: encodeDigits.induct)
  case (1 v n)
  show ?case
  proof (cases "n = 0")
    case False
    then show ?thesis using 1 by (auto simp: digitBits_char lowBits_pad octetBits_def base32Char_in intro!: exI [of _ "5 - n"])
  qed (auto simp: octetBits_def)
next
  case (2 b bs v n)
  define v' where "v' = push_bit 8 v OR ucast b"
  obtain out left where e: "emitDigits v' (n + 8) = (out, left)" by (rule prod.exhaust)
  have step: "left < 5" "concat (map digitBits out) @ lowBits v' left = lowBits v' (n + 8)" "set out \<subseteq> set BASE32"
    using emitDigits_bits [OF e] by simp_all
  have bits: "lowBits v' (n + 8) = lowBits v n @ lowBits b 8"
    unfolding v'_def using 2(2) by (intro lowBits_push) (auto dest: bit_imp_le_length)
  obtain k where k: "k < 5" "concat (map digitBits (encodeDigits bs v' left)) = lowBits v' left @ octetBits bs @ replicate k False"
      "set (encodeDigits bs v' left) \<subseteq> set BASE32"
    using 2(1) [OF v'_def e [symmetric] refl step(1)] by auto
  have eq: "encodeDigits (b # bs) v n = out @ encodeDigits bs v' left" by (simp add: Let_def v'_def [symmetric] e)
  show ?case
    unfolding eq using k step(2,3) bits
    by (auto simp: octetBits_def intro!: exI [of _ k])
qed

lemma indexIn_BASE32_Some: "c \<in> set BASE32 \<Longrightarrow> \<exists>i < 32. indexIn c BASE32 = Some i"
  by (metis BASE32_length in_set_conv_nth indexIn_BASE32)

lemma top_octet:
  fixes v :: "32 word"
  assumes "8 \<le> n" "n \<le> 32"
  shows "lowBits v n = lowBits (ucast (drop_bit (n - 8) v AND 255) :: 8 word) 8 @ lowBits v (n - 8)"
proof -
  have "lowBits (ucast (drop_bit (n - 8) v AND 255) :: 8 word) 8 = lowBits (drop_bit (n - 8) v) 8"
    by (rule lowBits_cong) (auto simp: mask8 bit_ucast_iff bit_and_iff bit_mask_iff)
  then show ?thesis using lowBits_split [of "n - 8" n v] assms by simp
qed

lemma decodeDigits_bits:
  "n < 8 \<Longrightarrow> set ds \<subseteq> set BASE32 \<Longrightarrow>
   octetBits (decodeDigits ds v n) = take (8 * ((n + 5 * length ds) div 8)) (lowBits v n @ concat (map digitBits ds))"
proof (induction ds v n rule: decodeDigits.induct)
  case (1 v n)
  then show ?case by (simp add: octetBits_def)
next
  case (2 c cs v n)
  obtain i where i: "i < 32" "indexIn c BASE32 = Some i" using indexIn_BASE32_Some [of c] 2(5) by auto
  define v' where "v' = push_bit 5 v OR (of_nat i :: 32 word)"
  have small: "\<not> bit (of_nat i :: 32 word) j" if "5 \<le> j" for j
  proof -
    have "(2 :: nat) ^ 5 \<le> 2 ^ j" using that by (rule power_increasing) simp
    then have "i div 2 ^ j = 0" using i(1) by simp
    then have "\<not> bit i j" by (simp add: bit_iff_odd)
    then show ?thesis by (simp add: bit_of_nat_iff)
  qed
  have "lowBits v' (n + 5) = lowBits v n @ lowBits (of_nat i :: 32 word) 5"
    unfolding v'_def using lowBits_push [of n 5 "of_nat i :: 32 word" v] small 2(4) by simp
  then have bits: "lowBits v' (n + 5) @ concat (map digitBits cs) = lowBits v n @ concat (map digitBits (c # cs))"
    by (simp add: digitBits_def i(2))
  show ?case
  proof (cases "8 \<le> n + 5")
    case True
    let ?o = "ucast (drop_bit (n + 5 - 8) v' AND 255) :: 8 word"
    have d: "decodeDigits (c # cs) v n = ?o # decodeDigits cs v' (n + 5 - 8)"
      using True by (simp add: i(2) Let_def v'_def)
    have rest: "octetBits (decodeDigits cs v' (n + 5 - 8)) =
        take (8 * ((n + 5 - 8 + 5 * length cs) div 8)) (lowBits v' (n + 5 - 8) @ concat (map digitBits cs))"
      using 2(2) [OF i(2) v'_def refl True] 2(4,5) by simp
    have len: "8 * ((n + 5 * length (c # cs)) div 8) = 8 + 8 * ((n + 5 - 8 + 5 * length cs) div 8)"
    proof -
      have "n + 5 * length (c # cs) = (n + 5 - 8 + 5 * length cs) + 8" using True by simp
      then show ?thesis by (simp only: div_add_self2) simp
    qed
    have stream: "lowBits v n @ concat (map digitBits (c # cs)) = lowBits ?o 8 @ lowBits v' (n + 5 - 8) @ concat (map digitBits cs)"
      using top_octet [of "n + 5" v'] True 2(4) bits by simp
    have "octetBits (?o # decodeDigits cs v' (n + 5 - 8)) = lowBits ?o 8 @ octetBits (decodeDigits cs v' (n + 5 - 8))"
      by (simp add: octetBits_def)
    moreover have "take (8 + m) (lowBits ?o 8 @ xs) = lowBits ?o 8 @ take m xs" for m xs by simp
    ultimately show ?thesis by (simp only: d rest len stream)
  next
    case False
    have "decodeDigits (c # cs) v n = decodeDigits cs v' (n + 5)" using False by (simp add: i(2) Let_def v'_def)
    moreover have "octetBits (decodeDigits cs v' (n + 5)) =
        take (8 * ((n + 5 + 5 * length cs) div 8)) (lowBits v' (n + 5) @ concat (map digitBits cs))"
      using 2(3) [OF i(2) v'_def refl False] False 2(5) by simp
    ultimately show ?thesis by (simp add: bits algebra_simps)
  qed
qed

lemma octetBits_length [simp]: "length (octetBits bs) = 8 * length bs"
  by (induction bs) (simp_all add: octetBits_def)

lemma lowBits_inj: "lowBits (v :: 8 word) 8 = lowBits w 8 \<Longrightarrow> v = w"
proof (rule bit_word_eqI)
  fix i
  assume eq: "lowBits v 8 = lowBits w 8" and "i < LENGTH(8)"
  then have i: "i < 8" by simp
  have "lowBits v 8 ! (7 - i) = lowBits w 8 ! (7 - i)" by (simp add: eq)
  then show "bit v i = bit w i" using i by (simp add: lowBits_nth)
qed

lemma octetBits_inj: "octetBits bs = octetBits cs \<Longrightarrow> bs = cs"
proof (induction bs arbitrary: cs)
  case Nil
  have "8 * length ([] :: octets) = 8 * length cs" using arg_cong [OF Nil, of length] by (simp only: octetBits_length)
  then show ?case by simp
next
  case (Cons b bs)
  have "8 * length (b # bs) = 8 * length cs" using arg_cong [OF Cons.prems, of length] by (simp only: octetBits_length)
  then obtain c cs' where cs: "cs = c # cs'" by (cases cs) auto
  have "lowBits b 8 @ octetBits bs = lowBits c 8 @ octetBits cs'" using Cons.prems by (simp add: octetBits_def cs)
  then have "lowBits b 8 = lowBits c 8" "octetBits bs = octetBits cs'" by simp_all
  then show ?case using Cons.IH lowBits_inj by (auto simp: cs)
qed

lemma clean_digits: "set s \<subseteq> set BASE32 \<Longrightarrow> cleanBase32 s = s \<and> cleanBase32 (toLowerCase s) = s"
proof -
  have "list_all (\<lambda>c. upperChar c = [c] \<and> upperChar (lowerChar c) = [c]) BASE32" by code_simp
  then have "upperChar c = [c]" "upperChar (lowerChar c) = [c]" if "c \<in> set BASE32" for c using that by (simp_all add: list_all_iff)
  then have "set s \<subseteq> set BASE32 \<Longrightarrow> concat (map upperChar s) = s \<and> concat (map upperChar (toLowerCase s)) = s" for s
    by (induction s) (auto simp: toLowerCase_def)
  then show "set s \<subseteq> set BASE32 \<Longrightarrow> cleanBase32 s = s \<and> cleanBase32 (toLowerCase s) = s"
    by (auto simp: cleanBase32_def filter_id_conv)
qed

lemma toBase32_bits:
  "\<exists>k < 5. concat (map digitBits (toBase32 secret)) = octetBits secret @ replicate k False \<and> set (toBase32 secret) \<subseteq> set BASE32 \<and>
           5 * length (toBase32 secret) = 8 * length secret + k"
proof -
  obtain k where k: "k < 5" "concat (map digitBits (toBase32 secret)) = octetBits secret @ replicate k False"
      "set (toBase32 secret) \<subseteq> set BASE32"
    using encodeDigits_bits [of 0 secret 0] by (auto simp: toBase32_def)
  have "5 * length ds = length (concat (map digitBits ds))" if "set ds \<subseteq> set BASE32" for ds
    using that indexIn_BASE32_Some by (induction ds) (auto simp: digitBits_def split: option.split)
  then have "5 * length (toBase32 secret) = 8 * length secret + k" using k by simp
  then show ?thesis using k by blast
qed

lemma base32_decoded: "decodeDigits (toBase32 secret) 0 0 = secret"
proof -
  obtain k where k: "k < 5" "concat (map digitBits (toBase32 secret)) = octetBits secret @ replicate k False"
      "set (toBase32 secret) \<subseteq> set BASE32" "5 * length (toBase32 secret) = 8 * length secret + k"
    using toBase32_bits by blast
  have "(8 * length secret + k) div 8 = length secret" using k(1) by simp
  then have "octetBits (decodeDigits (toBase32 secret) 0 0) = octetBits secret"
    using decodeDigits_bits [of 0 "toBase32 secret" 0] k(2,3,4) by simp
  then show ?thesis by (rule octetBits_inj)
qed

lemma base32_read: "fromBase32 (toBase32 secret) = secret" "fromBase32 (toLowerCase (toBase32 secret)) = secret"
proof -
  have "set (toBase32 secret) \<subseteq> set BASE32" using toBase32_bits by blast
  then show "fromBase32 (toBase32 secret) = secret" "fromBase32 (toLowerCase (toBase32 secret)) = secret"
    by (simp_all add: fromBase32_def clean_digits base32_decoded)
qed

text \<open>C36: A secret that is shown in base 32 and typed into an app is the secret: reading what was written, in capitals or
  in small letters, gives the bytes back, although the 32-bit value both loops carry overflows on any secret longer
  than four bytes.\<close>

theorem base32_roundtrip:
  "fromBase32 (toBase32 secret) = secret \<and> fromBase32 (toLowerCase (toBase32 secret)) = secret"
  by (simp add: base32_read)

section \<open>A code is accepted once\<close>

datatype proof_used = UsedStep ident int | UsedRecovery ident string

definition lastStepOf :: "ident \<Rightarrow> factor_tables \<Rightarrow> int option" where
  "lastStepOf u db = Option.bind (factorOf u db) f_lastStep"

definition unused :: "ident \<Rightarrow> string \<Rightarrow> factor_tables \<Rightarrow> bool" where
  "unused u h db = list_ex (\<lambda>r. rc_hash r = h \<and> rc_user r = u \<and> rc_usedAt r = None) (recovery_codes db)"

text \<open>What is accepted of a sequence of codes, each with its time and its account.\<close>

fun acceptedProofs :: "factor_crypto \<Rightarrow> string \<Rightarrow> (time \<times> ident \<times> string) list \<Rightarrow> factor_tables \<Rightarrow> proof_used list" where
  "acceptedProofs C secretKey [] db = []"
| "acceptedProofs C secretKey ((now, u, code) # rest) db =
     (case checkSecondFactor C now secretKey u code db of
        (result, db') \<Rightarrow>
          (case result of
             CodeOk recovery \<Rightarrow>
               [if recovery then UsedRecovery u (hashRecoveryCode C code)
                else UsedStep u (case lastStepOf u db' of None \<Rightarrow> 0 | Some s \<Rightarrow> s)]
           | _ \<Rightarrow> []) @ acceptedProofs C secretKey rest db')"

definition stepsOf :: "ident \<Rightarrow> proof_used list \<Rightarrow> int list" where
  "stepsOf u ps = List.map_filter (\<lambda>p. case p of UsedStep v s \<Rightarrow> if v = u then Some s else None | _ \<Rightarrow> None) ps"

lemma factorOf_setFactor:
  "(\<And>f. f_user (g f) = f_user f) \<Longrightarrow>
   factorOf v (setFactor u g db) = (if v = u then map_option g (factorOf v db) else factorOf v db)"
proof -
  assume keep: "\<And>f. f_user (g f) = f_user f"
  have "queryOne (filter (\<lambda>f. f_user f = v) (map (\<lambda>r. if f_user r = u then g r else r) rows)) =
        (if v = u then map_option g (queryOne (filter (\<lambda>f. f_user f = v) rows)) else queryOne (filter (\<lambda>f. f_user f = v) rows))" for rows
    by (induction rows) (auto simp: keep)
  then show ?thesis by (simp add: factorOf_def setFactor_def)
qed

lemma confirmed_factorOf:
  assumes "distinct (map f_user (second_factors db))"
    and "queryOne (filter (\<lambda>f. f_user f = u \<and> isConfirmed f) (second_factors db)) = Some row"
  shows "factorOf u db = Some row"
proof -
  have "queryOne (filter (\<lambda>f. f_user f = u \<and> isConfirmed f) rows) = Some row \<Longrightarrow> distinct (map f_user rows) \<Longrightarrow>
        queryOne (filter (\<lambda>f. f_user f = u) rows) = Some row" for rows
  proof (induction rows)
    case (Cons r rows)
    have "filter (\<lambda>f. f_user f = u \<and> isConfirmed f) rows = []" if "f_user r = u"
      using Cons.prems(2) that by (force simp: filter_empty_conv image_iff)
    then show ?case using Cons by (auto simp: split: if_splits)
  qed simp
  then show ?thesis using assms by (simp add: factorOf_def)
qed

lemma spend_unused: "unused v k (snd (spendRecovery now h u db)) \<longleftrightarrow> unused v k db \<and> \<not> (v = u \<and> k = h)"
  by (auto simp: unused_def spendRecovery_def Let_def list_ex_iff)

lemma spend_steps: "second_factors (snd (spendRecovery now h u db)) = second_factors db"
  by (simp add: spendRecovery_def Let_def)

lemma check_effect:
  assumes "distinct (map f_user (second_factors db))" and "checkSecondFactor C now key u code db = (result, db')"
  shows "distinct (map f_user (second_factors db')) \<and>
         (case result of
            CodeOk False \<Rightarrow>
              (\<exists>s. lastStepOf u db' = Some s \<and> (case lastStepOf u db of None \<Rightarrow> True | Some t \<Rightarrow> t < s)) \<and>
              (\<forall>v. v \<noteq> u \<longrightarrow> lastStepOf v db' = lastStepOf v db) \<and> (\<forall>v h. unused v h db' = unused v h db)
          | CodeOk True \<Rightarrow>
              (\<forall>v. lastStepOf v db' = lastStepOf v db) \<and> unused u (hashRecoveryCode C code) db \<and>
              \<not> unused u (hashRecoveryCode C code) db' \<and> (\<forall>v h. unused v h db' \<longrightarrow> unused v h db)
          | _ \<Rightarrow> (\<forall>v. lastStepOf v db' = lastStepOf v db) \<and> (\<forall>v h. unused v h db' \<longrightarrow> unused v h db))"
proof (cases "queryOne (filter (\<lambda>f. f_user f = u \<and> isConfirmed f) (second_factors db))")
  case None
  then show ?thesis using assms by (auto simp: checkSecondFactor_def)
next
  case (Some row)
  have row: "factorOf u db = Some row" by (rule confirmed_factorOf [OF assms(1) Some])
  show ?thesis
  proof (cases "Option.bind (openSecret C (f_secret row) key) (\<lambda>secret. checkCode C secret code now)")
    case None
    let ?h = "hashRecoveryCode C code"
    obtain n db1 where sp: "spendRecovery now ?h u db = (n, db1)" by (rule prod.exhaust)
    have db1: "db' = db1" "result = (if n = 1 then CodeOk True else WrongCode)"
      using assms(2) Some None sp by (auto simp: checkSecondFactor_def split: if_splits)
    have "n = 1 \<Longrightarrow> unused u ?h db"
    proof -
      assume "n = 1"
      then have "length (filter (\<lambda>r. rc_hash r = ?h \<and> rc_user r = u \<and> rc_usedAt r = None) (recovery_codes db)) = 1"
        using sp by (simp add: spendRecovery_def Let_def)
      then have "filter (\<lambda>r. rc_hash r = ?h \<and> rc_user r = u \<and> rc_usedAt r = None) (recovery_codes db) \<noteq> []" by auto
      then show ?thesis by (auto simp: unused_def list_ex_iff filter_empty_conv)
    qed
    moreover have "second_factors db1 = second_factors db" using spend_steps [of now ?h u db] sp by simp
    moreover have "unused v k db1 \<longleftrightarrow> unused v k db \<and> \<not> (v = u \<and> k = ?h)" for v k
      using spend_unused [of v k now ?h u db] sp by simp
    ultimately show ?thesis using assms(1) db1 by (auto simp: lastStepOf_def factorOf_def)
  next
    case step: (Some s)
    show ?thesis
    proof (cases "case f_lastStep row of None \<Rightarrow> False | Some t \<Rightarrow> s \<le> t")
      case True
      then show ?thesis using assms Some step by (auto simp: checkSecondFactor_def)
    next
      case False
      then have r: "result = CodeOk False" "db' = setFactor u (\<lambda>r. r\<lparr>f_lastStep := Some s\<rparr>) db"
        using assms(2) Some step by (auto simp: checkSecondFactor_def)
      have "map f_user (second_factors db') = map f_user (second_factors db)"
        by (simp add: r(2) setFactor_def comp_def)
      moreover have "lastStepOf u db' = Some s" "\<And>v. v \<noteq> u \<Longrightarrow> lastStepOf v db' = lastStepOf v db"
        by (simp_all add: lastStepOf_def r(2) factorOf_setFactor row)
      moreover have "recovery_codes db' = recovery_codes db" by (simp add: r(2) setFactor_def)
      ultimately show ?thesis using False assms(1) r(1) row
        by (auto simp: lastStepOf_def unused_def split: option.splits)
    qed
  qed
qed

lemma stepsOf_Cons:
  "stepsOf u (p # ps) = (case p of UsedStep v s \<Rightarrow> if v = u then s # stepsOf u ps else stepsOf u ps | _ \<Rightarrow> stepsOf u ps)"
  by (cases p) (simp_all add: stepsOf_def List.map_filter_simps)

lemma stepsOf_set: "s \<in> set (stepsOf u ps) \<longleftrightarrow> UsedStep u s \<in> set ps"
  by (induction ps) (auto simp: stepsOf_Cons stepsOf_def List.map_filter_def split: proof_used.splits)

lemma accepted_fresh:
  "distinct (map f_user (second_factors db)) \<Longrightarrow>
   (\<forall>u s. UsedStep u s \<in> set (acceptedProofs C key as db) \<longrightarrow> (case lastStepOf u db of None \<Rightarrow> True | Some t \<Rightarrow> t < s)) \<and>
   (\<forall>u h. UsedRecovery u h \<in> set (acceptedProofs C key as db) \<longrightarrow> unused u h db) \<and>
   distinct (acceptedProofs C key as db) \<and>
   (\<forall>u. sorted_wrt (<) (stepsOf u (acceptedProofs C key as db)))"
proof (induction as arbitrary: db)
  case (Cons a as)
  obtain now u code where a: "a = (now, u, code)" by (cases a)
  obtain result db' where c: "checkSecondFactor C now key u code db = (result, db')" by (rule prod.exhaust)
  note eff = check_effect [OF Cons.prems c]
  have ih: "\<forall>u s. UsedStep u s \<in> set (acceptedProofs C key as db') \<longrightarrow> (case lastStepOf u db' of None \<Rightarrow> True | Some t \<Rightarrow> t < s)"
      "\<forall>u h. UsedRecovery u h \<in> set (acceptedProofs C key as db') \<longrightarrow> unused u h db'"
      "distinct (acceptedProofs C key as db')" "\<forall>u. sorted_wrt (<) (stepsOf u (acceptedProofs C key as db'))"
    using Cons.IH [of db'] eff by simp_all
  show ?case
  proof (cases "\<exists>recovery. result = CodeOk recovery")
    case True
    then obtain recovery where r: "result = CodeOk recovery" by blast
    show ?thesis
    proof (cases recovery)
      case False
      obtain s where s: "lastStepOf u db' = Some s" "case lastStepOf u db of None \<Rightarrow> True | Some t \<Rightarrow> t < s"
        and other: "\<And>v. v \<noteq> u \<Longrightarrow> lastStepOf v db' = lastStepOf v db" "\<And>v h. unused v h db' = unused v h db"
        using eff r False by auto
      have ps: "acceptedProofs C key (a # as) db = UsedStep u s # acceptedProofs C key as db'"
        using c r False s(1) by (simp add: a)
      have above: "s < t" if "UsedStep u t \<in> set (acceptedProofs C key as db')" for t using ih(1) that s(1) by fastforce
      have "case lastStepOf v db of None \<Rightarrow> True | Some t' \<Rightarrow> t' < t"
        if "UsedStep v t \<in> set (acceptedProofs C key (a # as) db)" for v t
      proof (cases "v = u")
        case True
        then show ?thesis using that s(2) above by (fastforce simp: ps split: option.splits)
      next
        case False
        then have "UsedStep v t \<in> set (acceptedProofs C key as db')" using that by (simp add: ps)
        then have "case lastStepOf v db' of None \<Rightarrow> True | Some t' \<Rightarrow> t' < t" using ih(1) by blast
        then show ?thesis by (simp only: other(1) [OF False])
      qed
      moreover have "distinct (acceptedProofs C key (a # as) db)" using ih(3) above by (auto simp: ps)
      moreover have "sorted_wrt (<) (stepsOf v (acceptedProofs C key (a # as) db))" for v
        using ih(4) above by (auto simp: ps stepsOf_Cons stepsOf_set)
      moreover have "unused v h db" if "UsedRecovery v h \<in> set (acceptedProofs C key (a # as) db)" for v h
        using that ih(2) other(2) by (auto simp: ps)
      ultimately show ?thesis by blast
    next
      case True
      let ?h = "hashRecoveryCode C code"
      have ps: "acceptedProofs C key (a # as) db = UsedRecovery u ?h # acceptedProofs C key as db'"
        using c r True by (simp add: a)
      have e: "\<And>v. lastStepOf v db' = lastStepOf v db" "unused u ?h db" "\<not> unused u ?h db'" "\<And>v h. unused v h db' \<Longrightarrow> unused v h db"
        using eff r True by simp_all
      have "distinct (acceptedProofs C key (a # as) db)" using ih(2,3) e(3) by (auto simp: ps)
      moreover have "sorted_wrt (<) (stepsOf v (acceptedProofs C key (a # as) db))" for v
        using ih(4) by (simp add: ps stepsOf_Cons)
      moreover have "unused v h db" if "UsedRecovery v h \<in> set (acceptedProofs C key (a # as) db)" for v h
        using that ih(2) e(2,4) by (auto simp: ps)
      ultimately show ?thesis using ih(1) by (simp add: ps e(1))
    qed
  next
    case False
    then have ps: "acceptedProofs C key (a # as) db = acceptedProofs C key as db'"
      using c by (cases result) (simp_all add: a)
    have "\<And>v. lastStepOf v db' = lastStepOf v db" "\<And>v h. unused v h db' \<Longrightarrow> unused v h db"
      using eff False by (cases result; simp)+
    then show ?thesis using ih by (simp add: ps)
  qed
qed (simp add: stepsOf_def List.map_filter_def)

text \<open>C37: A second factor is proved by each code once. Of any sequence of codes for any accounts, the time steps that are
  accepted for an account strictly increase, above the last one it had, and no recovery code is accepted twice, nor
  one that was spent before.\<close>

theorem code_accepted_once:
  assumes "distinct (map f_user (second_factors db))"
  shows "distinct (acceptedProofs C secretKey attempts db) \<and>
         sorted_wrt (<) (stepsOf u (acceptedProofs C secretKey attempts db)) \<and>
         list_all (\<lambda>s. case lastStepOf u db of None \<Rightarrow> True | Some t \<Rightarrow> t < s) (stepsOf u (acceptedProofs C secretKey attempts db)) \<and>
         list_all (\<lambda>p. case p of UsedRecovery v h \<Rightarrow> unused v h db | UsedStep v s \<Rightarrow> True)
           (acceptedProofs C secretKey attempts db)"
  using accepted_fresh [OF assms, of C secretKey attempts] by (auto simp: list_all_iff stepsOf_set split: proof_used.split)

text \<open>A cryptography in which every code is 000000 and a signature is the payload itself, without its dots.\<close>

definition plainFactors :: factor_crypto where
  "plainFactors =
     \<lparr>hmacSha1 = (\<lambda>k m. replicate 20 0), sha256Hex = (\<lambda>s. s), hmacSha256 = (\<lambda>k s. filter (\<lambda>c. c \<noteq> CHR ''.'') s),
      gcmSeal = (\<lambda>k iv s. ([], s)), gcmOpen = (\<lambda>k iv t b. Some b), base64url = toBase32, fromBase64url = fromBase32,
      utf8 = map (\<lambda>c. of_nat (charCode c)), fromUtf8 = map (\<lambda>w. fromCharCode (unat w)),
      jsNumber = (\<lambda>s. case parseInt s of None \<Rightarrow> None | Some n \<Rightarrow> if showInt n = s then Some n else None)\<rparr>"

lemma parseInt_showInt: "parseInt (showInt n) = Some n"
proof (cases "n < 0")
  case True
  obtain c cs where s: "showNat (nat (- n)) = c # cs" using showNat_nonempty [of "nat (- n)"] by (cases "showNat (nat (- n))") auto
  have "digitValue c \<noteq> None" using showNat_digits [of "nat (- n)"] by (simp add: s)
  moreover have "trimStart (CHR ''-'' # cs') = CHR ''-'' # cs'" for cs' by (simp add: trimStart_def isSpace_def charCode_def)
  moreover have "readDigits 0 (c # cs) = nat (- n)" using readDigits_showNat [of "nat (- n)"] by (simp only: s)
  ultimately show ?thesis using True by (simp add: showInt_def s parseInt_def Let_def)
qed (simp add: showInt_def parseInt_showNat)

lemma plain_laws: "encoding_laws plainFactors"
proof -
  have "map (\<lambda>w. fromCharCode (unat w)) (map (\<lambda>c. of_nat (charCode c) :: 8 word) s) = s" for s
    by (induction s) (simp_all add: fromCharCode_def charCode_def unat_of_nat)
  moreover have "CHR ''.'' \<notin> set (toBase32 b)" for b
  proof -
    have "CHR ''.'' \<notin> set BASE32" by (simp add: BASE32_def)
    then show ?thesis using toBase32_bits [of b] by blast
  qed
  moreover have "s \<noteq> [] \<Longrightarrow> toBase32 s \<noteq> []" for s using toBase32_bits [of s] by auto
  ultimately show ?thesis by (auto simp: encoding_laws_def plainFactors_def base32_read parseInt_showInt)
qed

definition enrolled :: factor_tables where
  "enrolled =
     \<lparr>second_factors = [\<lparr>f_user = ''ada'', f_secret = ''v1...'', f_createdAt = 0, f_confirmedAt = Some 0, f_lastStep = Some 1\<rparr>],
      recovery_codes = [\<lparr>rc_hash = ''abcd'', rc_user = ''ada'', rc_usedAt = None\<rparr>]\<rparr>"

theorem code_accepted_once_witness:
  "distinct (acceptedProofs plainFactors ''key'' [(60000, ''ada'', ''ab-cd''), (90000, ''ada'', ''ABCD'')] enrolled) \<and>
   sorted_wrt (<) (stepsOf ''ada'' (acceptedProofs plainFactors ''key'' [(60000, ''ada'', ''ab-cd''), (90000, ''ada'', ''ABCD'')] enrolled)) \<and>
   list_all (\<lambda>s. case lastStepOf ''ada'' enrolled of None \<Rightarrow> True | Some t \<Rightarrow> t < s)
     (stepsOf ''ada'' (acceptedProofs plainFactors ''key'' [(60000, ''ada'', ''ab-cd''), (90000, ''ada'', ''ABCD'')] enrolled)) \<and>
   list_all (\<lambda>p. case p of UsedRecovery v h \<Rightarrow> unused v h enrolled | UsedStep v s \<Rightarrow> True)
     (acceptedProofs plainFactors ''key'' [(60000, ''ada'', ''ab-cd''), (90000, ''ada'', ''ABCD'')] enrolled)"
  by (rule code_accepted_once) (simp add: enrolled_def)

section \<open>Tickets and reply addresses\<close>

lemma splitOn_part: "c \<notin> set s \<Longrightarrow> splitOn c (s @ c # t) = s # splitOn c t"
  by (induction s) auto

lemma splitOn_last: "c \<notin> set s \<Longrightarrow> splitOn c s = [s]"
  by (induction s) auto

lemma showInt_no_tilde: "CHR ''~'' \<notin> set (showInt n)"
proof -
  have "CHR ''~'' \<notin> set (showNat m)" for m
    using showNat_digits [of m] by (auto simp: digitValue_def charCode_def)
  then show ?thesis by (simp add: showInt_def)
qed

lemma showInt_nonempty: "showInt n \<noteq> []"
  by (simp add: showInt_def showNat_nonempty)

lemma takeWhile_until: "c \<notin> set s \<Longrightarrow> takeWhile (\<lambda>x. x \<noteq> c) (s @ c # t) = s"
  by (induction s) auto

lemma token_opens:
  assumes "encoding_laws C" "payload \<noteq> []"
  shows "openToken C key (signedToken C key payload) = Some (payload, True)"
proof -
  let ?e = "base64url C (utf8 C payload)" and ?s = "take 27 (hmacSha256 C key payload)"
  have "CHR ''.'' \<notin> set ?s" using assms(1) by (auto simp: encoding_laws_def dest: in_set_takeD)
  then have "takeWhile (\<lambda>c. c \<noteq> CHR ''.'') (rev ?s @ CHR ''.'' # rev ?e) = rev ?s" by (intro takeWhile_until) simp
  then have g: "rev (takeWhile (\<lambda>c. c \<noteq> CHR ''.'') (rev (signedToken C key payload))) = ?s" by (simp add: signedToken_def)
  have e: "take (length (signedToken C key payload) - length ?s - 1) (signedToken C key payload) = ?e"
    by (simp add: signedToken_def)
  have "?e \<noteq> []" "fromUtf8 C (fromBase64url C ?e) = payload" using assms by (simp_all add: encoding_laws_def)
  moreover have "CHR ''.'' \<in> set (signedToken C key payload)" by (simp add: signedToken_def)
  ultimately show ?thesis unfolding openToken_def g Let_def e by simp
qed

lemma payload_split:
  assumes "CHR ''~'' \<notin> set (rt_threadId t)" "CHR ''~'' \<notin> set (rt_messageId t)" "CHR ''~'' \<notin> set (rt_userId t)"
  shows "splitOn CHR ''~'' (payloadOf t n) =
           [rt_threadId t, rt_messageId t, rt_userId t, if rt_internal t then ''i'' else ''p'', showInt n]"
  using assms by (auto simp: payloadOf_def splitOn_part splitOn_last showInt_no_tilde)

lemma payload_nonempty: "payloadOf t n \<noteq> []"
  by (simp add: payloadOf_def)

text \<open>C38: What is signed is read back until it expires. A ticket names the account it was made for during five minutes
  and nobody afterwards; a reply address gives its thread, message, recipient and document during fourteen days and
  is reported as expired afterwards.\<close>

theorem signed_tokens_read:
  assumes "encoding_laws C" "userId \<noteq> []" "CHR ''~'' \<notin> set userId"
    and "CHR ''~'' \<notin> set (rt_threadId t)" "CHR ''~'' \<notin> set (rt_messageId t)" "CHR ''~'' \<notin> set (rt_userId t)"
  shows "readTicket C (signTicket C userId key made) key now =
           (if now < (made div 1000 + 300) * 1000 then Some userId else None) \<and>
         readReplyToken C (replyToken C t key made) key now =
           (if now < (made div 1000 + 1209600) * 1000 then Inr t else Inl ExpiredReply)"
proof
  have n: "jsNumber C (showInt m) = Some m" for m using assms(1) by (simp add: encoding_laws_def)
  let ?p = "userId @ ''~'' @ showInt (made div 1000 + TICKET_MINUTES * 60)"
  have "openToken C key (signTicket C userId key made) = Some (?p, True)"
    unfolding signTicket_def by (rule token_opens [OF assms(1)]) simp
  moreover have "splitOn CHR ''~'' ?p = [userId, showInt (made div 1000 + TICKET_MINUTES * 60)]"
    by (simp add: splitOn_part splitOn_last assms(3) showInt_no_tilde)
  ultimately show "readTicket C (signTicket C userId key made) key now =
      (if now < (made div 1000 + 300) * 1000 then Some userId else None)"
    using assms(2) by (simp add: readTicket_def showInt_nonempty n TICKET_MINUTES_def)
  have "openToken C key (replyToken C t key made) = Some (payloadOf t (made div 1000 + REPLY_DAYS * 86400), True)"
    unfolding replyToken_def by (rule token_opens [OF assms(1) payload_nonempty])
  then show "readReplyToken C (replyToken C t key made) key now =
      (if now < (made div 1000 + 1209600) * 1000 then Inr t else Inl ExpiredReply)"
    by (simp add: readReplyToken_def payload_split assms(4-6) n REPLY_DAYS_def)
qed

text \<open>C40: A reply address opens the second step of a sign-in. Tickets and reply addresses are signed with the same key
  over texts of the same shape, so the address of a reply to a thread is read as a ticket for the account whose id is
  the id of the thread, which the client that begins the thread chooses; and with a message id that is no number
  the ticket never expires.\<close>

theorem reply_token_is_ticket:
  assumes "encoding_laws C" "rt_threadId t \<noteq> []" "rt_messageId t \<noteq> []" "jsNumber C (rt_messageId t) = None"
    and "CHR ''~'' \<notin> set (rt_threadId t)" "CHR ''~'' \<notin> set (rt_messageId t)" "CHR ''~'' \<notin> set (rt_userId t)"
  shows "readTicket C (replyToken C t key made) key now = Some (rt_threadId t)"
proof -
  have "openToken C key (replyToken C t key made) = Some (payloadOf t (made div 1000 + REPLY_DAYS * 86400), True)"
    unfolding replyToken_def by (rule token_opens [OF assms(1) payload_nonempty])
  then show ?thesis by (simp add: readTicket_def payload_split assms)
qed

definition sampleTarget :: reply_target where
  "sampleTarget = \<lparr>rt_threadId = ''ada'', rt_messageId = ''m1'', rt_userId = ''eve'', rt_internal = False\<rparr>"

theorem signed_tokens_read_witness:
  "readTicket plainFactors (signTicket plainFactors ''ada'' ''key'' 0) ''key'' 299999 = Some ''ada'' \<and>
   readReplyToken plainFactors (replyToken plainFactors sampleTarget ''key'' 0) ''key'' 1209600000 = Inl ExpiredReply"
  using signed_tokens_read [OF plain_laws, of "''ada''" sampleTarget "''key''" 0 299999]
    signed_tokens_read [OF plain_laws, of "''ada''" sampleTarget "''key''" 0 1209600000]
  by (simp add: sampleTarget_def)

theorem reply_token_is_ticket_witness:
  "readTicket plainFactors (replyToken plainFactors sampleTarget ''key'' 0) ''key'' 999999999999 = Some ''ada''"
proof -
  have "jsNumber plainFactors ''m1'' = None"
    by (simp add: plainFactors_def parseInt_def trimStart_def isSpace_def digitValue_def charCode_def)
  then show ?thesis
    using reply_token_is_ticket [OF plain_laws, of sampleTarget "''key''" 0 999999999999] by (simp add: sampleTarget_def)
qed

section \<open>The second step of a sign-in\<close>

lemma check_confirmed: "checkSecondFactor C now key u code ft = (CodeOk r, ft') \<Longrightarrow> hasSecondFactor u ft"
proof -
  assume "checkSecondFactor C now key u code ft = (CodeOk r, ft')"
  then have "filter (\<lambda>f. f_user f = u \<and> isConfirmed f) (second_factors ft) \<noteq> []"
    by (auto simp: checkSecondFactor_def split: option.splits)
  then show ?thesis by (auto simp: hasSecondFactor_def list_ex_iff filter_empty_conv)
qed

lemma failure_counts: "recentFailures now (recordAttempt now key False ip db) key = recentFailures now db key + 1"
  by (simp add: recentFailures_def recordAttempt_def isRecentFailure_def minutes_def LOGIN_ATTEMPT_WINDOW_MINUTES_def)

text \<open>C39: The second step makes a session only for the account its ticket names, with a confirmed factor, a code that is
  accepted, and fewer than ten failures of that account in the last quarter of an hour; a code that is refused counts
  as one more failure and makes no session; without a ticket, or after ten failures, nothing is looked at.\<close>

theorem second_step_guarded:
  "case loginSecond C cr key now token sid userAgent ip ticket code (db, ft) of
     (outcome, db', ft') \<Rightarrow>
       (case readTicket C ticket key now of
          None \<Rightarrow> outcome = TicketExpired \<and> db' = db \<and> ft' = ft
        | Some u \<Rightarrow>
            if 10 \<le> recentFailures now db (secondKey u) then outcome = SecondRateLimited \<and> db' = db \<and> ft' = ft
            else (case checkSecondFactor C now key u code ft of
                    (CodeOk r, ft2) \<Rightarrow>
                      ft' = ft2 \<and> hasSecondFactor u ft \<and> auth_attempts db' = auth_attempts db \<and>
                      map s_user_id (sessions db') = map s_user_id (sessions db) @ [u] \<and>
                      (case outcome of SignedIn cs r' n \<Rightarrow> cs_userId cs = u \<and> r' = r | _ \<Rightarrow> False)
                  | (_, ft2) \<Rightarrow>
                      ft' = ft2 \<and> outcome \<in> {SecondWrongCode, CodeAlreadyUsed} \<and> sessions db' = sessions db \<and>
                      recentFailures now db' (secondKey u) = recentFailures now db (secondKey u) + 1))"
proof (cases "readTicket C ticket key now")
  case None
  then show ?thesis by (simp add: loginSecond_def)
next
  case (Some u)
  show ?thesis
  proof (cases "10 \<le> recentFailures now db (secondKey u)")
    case True
    then show ?thesis by (simp add: loginSecond_def Some LOGIN_ATTEMPT_LIMIT_def)
  next
    case False
    obtain result ft2 where c: "checkSecondFactor C now key u code ft = (result, ft2)" by (rule prod.exhaust)
    have rec: "sessions (recordAttempt now k False ip db) = sessions db" for k by (simp add: recordAttempt_def)
    show ?thesis
    proof (cases result)
      case (CodeOk r)
      have "hasSecondFactor u ft" using check_confirmed c CodeOk by blast
      then show ?thesis using False by (simp add: loginSecond_def Some LOGIN_ATTEMPT_LIMIT_def c CodeOk createSession_def Let_def)
    next
      case WrongCode
      then show ?thesis using False by (simp add: loginSecond_def Some LOGIN_ATTEMPT_LIMIT_def c failure_counts rec minutes_def LOGIN_ATTEMPT_WINDOW_MINUTES_def)
    next
      case Replayed
      then show ?thesis using False by (simp add: loginSecond_def Some LOGIN_ATTEMPT_LIMIT_def c failure_counts rec minutes_def LOGIN_ATTEMPT_WINDOW_MINUTES_def)
    qed
  qed
qed

section \<open>Enrolling\<close>

text \<open>Run alone, beginning to enrol never touches a confirmed factor.\<close>

lemma start_keeps_confirmed:
  "distinct (map f_user (second_factors db)) \<Longrightarrow> hasSecondFactor u db \<Longrightarrow> startEnrolment C now iv secret key u db = (None, db)"
proof -
  assume d: "distinct (map f_user (second_factors db))" and h: "hasSecondFactor u db"
  then have "filter (\<lambda>f. f_user f = u \<and> isConfirmed f) (second_factors db) \<noteq> []"
    by (auto simp: hasSecondFactor_def list_ex_iff filter_empty_conv)
  then obtain f where f: "queryOne (filter (\<lambda>f. f_user f = u \<and> isConfirmed f) (second_factors db)) = Some f"
    by (cases "queryOne (filter (\<lambda>f. f_user f = u \<and> isConfirmed f) (second_factors db))") auto
  have "queryOne xs = Some x \<Longrightarrow> x \<in> set xs" for xs and x :: factor_row by (cases xs) auto
  from this [OF f] have "isConfirmed f" by simp
  then show ?thesis using confirmed_factorOf [OF d f] by (simp add: startEnrolment_def mayStart_def)
qed

text \<open>
  With a confirmation between its two statements it leaves the account without a factor: the statement that writes
  does not look at what is confirmed.
\<close>

lemma start_overlapping_confirm_disarms:
  assumes "factorOf u db \<noteq> None"
  shows "\<not> hasSecondFactor u (putPending C now iv secret key u db)"
proof -
  have eq: "second_factors (putPending C now iv secret key u db) =
        map (\<lambda>f. if f_user f = u
                  then f\<lparr>f_secret := sealSecret C iv secret key, f_createdAt := now, f_confirmedAt := None, f_lastStep := None\<rparr>
                  else f) (second_factors db)"
    using assms by (simp only: putPending_def Let_def if_False) simp
  have pending: "list_all (\<lambda>f. \<not> (f_user f = u \<and> isConfirmed f))
        (map (\<lambda>f. if f_user f = u
                  then f\<lparr>f_secret := sealSecret C iv secret key, f_createdAt := now, f_confirmedAt := None, f_lastStep := None\<rparr>
                  else f) rows)" for rows
    by (induction rows) (simp_all add: isConfirmed_def)
  have all: "list_all (\<lambda>f. \<not> (f_user f = u \<and> isConfirmed f)) (second_factors (putPending C now iv secret key u db))"
    unfolding eq by (rule pending)
  have none: "list_all (\<lambda>f. \<not> P f) rows \<Longrightarrow> \<not> list_ex P rows" for P and rows :: "factor_row list"
    by (induction rows) auto
  show ?thesis unfolding hasSecondFactor_def by (rule none [OF all])
qed

end
