(* ===== verification/Spec2Isabelle.thy ===== *)
theory Spec2Isabelle
  imports Fractional_Index Group_Access Archive_Roundtrip Formula_Types Query_Dates Query_Roundtrip Job_Queue Job_Access Workspace_Order Version_Diff Tags
    Store_Races Room_Safety Server_Safety Attribution Inline_Markdown Version_Laws Factor_Laws
begin

text \<open>
  A verification development for SONE, a self-hosted workspace of block documents, collections and
  shared pages. All paths below are under \<^verbatim>\<open>src/packages\<close>; the tables are those of
  \<^verbatim>\<open>src/db/migrations\<close>.

  \<^bold>\<open>The program.\<close> A page is a shared document (a Yjs CRDT). Its updates are the truth, stored append-only
  in \<^verbatim>\<open>doc_updates\<close> and folded into \<^verbatim>\<open>doc_snapshots\<close>; pages, blocks, collections and the search
  index in Postgres are projected from it. A browser reaches a document over a WebSocket: the sync
  server authenticates the connection, authorises every open against the page tree, and hands the
  frames of the inner protocol to the document's room, which owns the document in memory, fans
  updates out and stores them in batches. Everything else is HTTP over the tables. Sibling order is
  by string keys between two neighbours; formulas, search filters and archives are small languages of
  their own.

  \<^bold>\<open>How the code is represented.\<close> A row or an interface is a record with the source's column names behind a
  prefix, an enumeration or tagged union is a datatype, an \<^verbatim>\<open>async\<close> function is split at its awaits
  where something can happen in between and is one function of the tables where it runs in one
  statement or transaction. A thrown error or a refused request is the left side of a sum or the
  missing side of an option. A JavaScript string is a list of characters (code units below 256; the
  archive theories use code points), a number that counts is a \<^typ>\<open>nat\<close> or \<^typ>\<open>int\<close>, a CRC and a frame
  are words of their width. The clock, random identifiers, the cryptographic functions and the third-party
  packages (\<^verbatim>\<open>yjs\<close>, \<^verbatim>\<open>y-protocols\<close>, \<^verbatim>\<open>lib0\<close>, \<^verbatim>\<open>zlib\<close>) are arguments of the
  definitions; the laws a theorem needs of them are its hypotheses and have an instance in the theory
  that states them (\<open>registerYjs_laws\<close>, \<open>unaryLib_laws\<close>).

  \<^bold>\<open>Shared.\<close>
  \<^item> \<open>Sone_Prelude\<close>: sums as fallible computations, JavaScript's string functions, comparators and stable
    sorting. \<open>Json\<close>: JSON values and objects in the order of their keys.
  \<^item> \<open>Database\<close> (\<^verbatim>\<open>core/src/types/access.ts\<close>): the ladder of roles, the rights, the tables.

  \<^bold>\<open>Order.\<close>
  \<^item> \<open>Fractional_Index\<close> (\<^verbatim>\<open>core/src/order/fractionalIndex.ts\<close>): order keys as a dense order without end
    points that the generator realises: what it returns is valid and strictly between its bounds, it fails
    exactly where it must, and replicas sort siblings alike. Its contract is the locale \<open>order_keys\<close>.
  \<^item> \<open>Workspace_Order\<close> (\<^verbatim>\<open>server/src/workspaces/order.ts\<close>): a client of those keys; placing refines moving
    one element of the displayed list.

  \<^bold>\<open>Who may do what.\<close>
  \<^item> \<open>Sessions\<close> (\<^verbatim>\<open>server/src/auth/session.ts\<close>): login with its lockout, session rows, password change.
  \<^item> \<open>Second_Factor\<close>, \<open>Factor_Laws\<close> (\<^verbatim>\<open>auth/totp.ts\<close>, \<^verbatim>\<open>auth/secondFactor.ts\<close>, \<^verbatim>\<open>mail/replyToken.ts\<close>, the second
    step of \<^verbatim>\<open>http/auth.ts\<close>): codes on 32-bit words, enrolment, recovery codes, tickets and reply addresses. A
    code is accepted once; the second step needs a ticket, a factor and a code; and a reply address reads as a
    ticket.
  \<^item> \<open>Standing\<close> (\<^verbatim>\<open>auth/standing.ts\<close>, \<^verbatim>\<open>auth/rights.ts\<close>, \<^verbatim>\<open>admin/rights.ts\<close>): roles, rights and right checks.
  \<^item> \<open>Page_Access\<close>, \<open>Page_Tree\<close>, \<open>Claims\<close>, \<open>Access_Agreement\<close>, \<open>Share_Links\<close>, \<open>Group_Access\<close>
    (\<^verbatim>\<open>pages/access.ts\<close>, \<^verbatim>\<open>auth/claims.ts\<close>): the walk in the database, the claims of a credential and
    the listing condition answer the same question three ways; the locales \<open>access_resolver\<close> and
    \<open>strict_resolver\<close> state what an answer is and both resolvers are interpreted. The walk uses the
    number of pages and one as fuel, which \<open>ancestry_total\<close> shows to be enough in a tree. A share link
    stays inside its scope, a revalidation keeps only good credentials, and joining a group never loses.

  \<^bold>\<open>Documents.\<close>
  \<^item> \<open>Yjs\<close>: what the sources use of a shared document, with its laws (updates commute, are idempotent and
    merge; a snapshot gives the document back; an event says what changed).
  \<^item> \<open>Attribution\<close> (\<^verbatim>\<open>core/src/doc/attribution.ts\<close>), \<open>Doc_Migrations\<close> (\<^verbatim>\<open>core/src/doc/migrations.ts\<close>),
    \<open>Tags\<close> (\<^verbatim>\<open>core/src/doc/tags.ts\<close>), \<open>Version_Diff\<close> (\<^verbatim>\<open>core/src/doc/diff.ts\<close>),
    \<open>Inline_Markdown\<close> (\<^verbatim>\<open>core/src/doc/inlineMarkdown.ts\<close>): what is inside a document. The comparison of
    words is quadratic up to its limit of 400 words, as in the source.
  \<^item> \<open>Block_Tree\<close>, \<open>Tree_Laws\<close> (\<^verbatim>\<open>core/src/doc/blockTree.ts\<close>): the tree of blocks in the fragment of a page. It is
    well formed whatever the fragment holds; written blocks and properties are read back; links and mentions
    are reported once.
  \<^item> \<open>Page_Versions\<close>, \<open>Version_Laws\<close> (\<^verbatim>\<open>server/src/doc/versions.ts\<close>, \<^verbatim>\<open>env.ts\<close>): listing, thinning and restoring
    versions. Thinning keeps the last day, restores, and one version per bucket; a restore reads as the page
    did and can be taken back.
  \<^item> \<open>Doc_Store\<close>, \<open>Store_Races\<close> (\<^verbatim>\<open>server/src/doc/docStore.ts\<close>, \<^verbatim>\<open>doc/versions.ts\<close>): the log and its
    compaction, alone and overlapping with inserts. The deletion in a compaction is safe exactly when
    inserts commit in the order of their numbers.
  \<^item> \<open>Room\<close>, \<open>Room_Safety\<close> (\<^verbatim>\<open>server/src/sync/room.ts\<close>): a flush has a state for each of its awaits, so
    the step relation runs every other operation between them; nothing a room holds is lost while storing
    does not fail for good.
  \<^item> \<open>Sync_Protocol\<close> (\<^verbatim>\<open>server/src/sync/protocol.ts\<close>): the frames and the validation of the first one.
  \<^item> \<open>Sync_Server\<close>, \<open>Server_Safety\<close> (\<^verbatim>\<open>server/src/sync/server.ts\<close>): connections and rooms as two heaps,
    every handler; only editors write, a revocation reaches what is open, the rate limit holds over any
    window.

  \<^bold>\<open>Languages and formats.\<close>
  \<^item> \<open>Archive\<close>, \<open>Checksum\<close>, \<open>Archive_Roundtrip\<close> (\<^verbatim>\<open>core/src/archive/packStored.ts\<close>,
    \<^verbatim>\<open>server/src/export/zip.ts\<close>, \<^verbatim>\<open>server/src/import/unzip.ts\<close>): two writers and a reader; the
    writers are interpretations of \<open>archive_writer\<close>, and the reader never leaves its buffer.
  \<^item> \<open>Formula_Parse\<close>, \<open>Formula_Grammar\<close>, \<open>Formula_Eval\<close>, \<open>Formula_Types\<close> (\<^verbatim>\<open>core/src/formula\<close>): the parser
    has eight times the number of tokens and seven as fuel, which \<open>parseFormula_total\<close> shows to be enough;
    it inverts printing, and a well-typed formula evaluates to its type.
  \<^item> \<open>Search_Query\<close>, \<open>Query_Dates\<close>, \<open>Query_Roundtrip\<close> (\<^verbatim>\<open>core/src/search/query.ts\<close>): filters in a query.

  \<^bold>\<open>Jobs.\<close>
  \<^item> \<open>Jobs\<close>, \<open>Job_Queue\<close>, \<open>Job_Access\<close> (\<^verbatim>\<open>server/src/jobs/runner.ts\<close>, \<^verbatim>\<open>jobs/routes.ts\<close>): work that
    outlives a request; instances interleave freely, a job is in one hand and its asker told once, the queue
    drains, and only the asker gets the bytes.

  \<^bold>\<open>Not modelled.\<close> The projection into the tables and the routes over it (\<^verbatim>\<open>materialize\<close>, \<^verbatim>\<open>http\<close>,
  \<^verbatim>\<open>collections\<close>, \<^verbatim>\<open>comments\<close>, \<^verbatim>\<open>notifications\<close>): statement after statement of SQL over tables
  of which only those of access are represented here. Mail, push, single sign-on, files, backups and
  integrations talk to the outside. The editor is plugins of a library that is not part of the
  repository, and the web client is a user interface on React. The manifest lists each of them.
\<close>

end
